(* ===== verification/Stars_Prelude.thy ===== *)
theory Stars_Prelude
  imports Main "HOL-Library.Word" "HOL-Library.Multiset" "HOL-Library.Monad_Syntax"
begin

text \<open>
  Shared material of the development: the fixed-width integer types of the C++ sources, the
  two loop shapes that recur in them (a \<open>for\<close> loop whose body may \<open>return\<close> from the whole
  function, and a loop whose body may fault), and generic facts on lists and multisets.

  Faults. An \<open>assert\<close> that fails, an access outside a container and a division by zero end
  the C++ process or are undefined; in the model the operation then has the value \<open>None\<close>.
  Operations of the sources that cannot fault are total functions.
\<close>

unbundle bit_operations_syntax

type_synonym u8 = "8 word"
type_synonym u16 = "16 word"
type_synonym u32 = "32 word"
type_synonym u64 = "64 word"

named_theorems loop_rules \<open>introduction rules for the loop combinators\<close>
named_theorems mset_facts \<open>multisets of the lists an operation builds\<close>

section \<open>Loops\<close>

text \<open>
  \<open>for_return f xs s\<close> is a C++ \<open>for\<close> loop over \<open>xs\<close> on the state \<open>s\<close>. The body
  returns \<open>Some (False, s')\<close> to go on (falling through or \<open>continue\<close>), \<open>Some (True, s')\<close>
  when it executes \<open>return\<close>, and \<open>None\<close> when it faults.
\<close>

fun for_return :: "('x \<Rightarrow> 's \<Rightarrow> (bool \<times> 's) option) \<Rightarrow> 'x list \<Rightarrow> 's \<Rightarrow> (bool \<times> 's) option" where
  "for_return f [] s = Some (False, s)"
| "for_return f (x # xs) s =
     (case f x s of
        None \<Rightarrow> None
      | Some (True, s') \<Rightarrow> Some (True, s')
      | Some (False, s') \<Rightarrow> for_return f xs s')"

text \<open>\<open>for_each f xs s\<close> is a loop whose body cannot leave the function but may fault.\<close>

fun for_each :: "('x \<Rightarrow> 's \<Rightarrow> 's option) \<Rightarrow> 'x list \<Rightarrow> 's \<Rightarrow> 's option" where
  "for_each f [] s = Some s"
| "for_each f (x # xs) s = (case f x s of None \<Rightarrow> None | Some s' \<Rightarrow> for_each f xs s')"

text \<open>Total correctness of the two loops: the body never faults and keeps the invariant.\<close>

lemma for_return_rule [loop_rules]:
  assumes "P s"
    and "\<And>x s. x \<in> set xs \<Longrightarrow> P s \<Longrightarrow> \<exists>b s'. f x s = Some (b, s') \<and> P s'"
  shows "\<exists>b s'. for_return f xs s = Some (b, s') \<and> P s'"
  using assms
proof (induction xs arbitrary: s)
  case Nil
  then show ?case by auto
next
  case (Cons x xs)
  from Cons.prems obtain b s' where step: "f x s = Some (b, s')" and "P s'"
    by (metis list.set_intros(1))
  moreover have "\<And>y t. y \<in> set xs \<Longrightarrow> P t \<Longrightarrow> \<exists>b s'. f y t = Some (b, s') \<and> P s'"
    by (rule Cons.prems(2)) auto
  ultimately show ?case
    using Cons.IH [of s'] by (cases b) auto
qed

text \<open>A loop over at least one element makes the progress each round makes.\<close>

lemma for_return_progress:
  assumes "xs \<noteq> []" and "I s" and "transp R"
    and "\<And>x s. x \<in> set xs \<Longrightarrow> I s \<Longrightarrow> \<exists>b s'. f x s = Some (b, s') \<and> I s' \<and> R s s'"
  shows "\<exists>b s'. for_return f xs s = Some (b, s') \<and> I s' \<and> R s s'"
  using assms(1,2,4)
proof (induction xs arbitrary: s)
  case Nil
  then show ?case by simp
next
  case (Cons x xs)
  from Cons.prems obtain b s' where step: "f x s = Some (b, s')" "I s'" "R s s'"
    by (metis list.set_intros(1))
  have rest: "\<And>y t. y \<in> set xs \<Longrightarrow> I t \<Longrightarrow> \<exists>b s'. f y t = Some (b, s') \<and> I s' \<and> R t s'"
    by (rule Cons.prems(3)) auto
  show ?case
  proof (cases "b \<or> xs = []")
    case True
    with step show ?thesis by (cases b) auto
  next
    case False
    with Cons.IH [OF _ step(2) rest] obtain b' t where "for_return f xs s' = Some (b', t)" "I t" "R s' t"
      by blast
    with False step show ?thesis using transpD [OF assms(3) step(3)] by auto
  qed
qed

lemma for_each_rule [loop_rules]:
  assumes "P s"
    and "\<And>x s. x \<in> set xs \<Longrightarrow> P s \<Longrightarrow> \<exists>s'. f x s = Some s' \<and> P s'"
  shows "\<exists>s'. for_each f xs s = Some s' \<and> P s'"
  using assms
proof (induction xs arbitrary: s)
  case Nil
  then show ?case by simp
next
  case (Cons x xs)
  from Cons.prems obtain s' where step: "f x s = Some s'" and "P s'"
    by (metis list.set_intros(1))
  moreover have "\<And>y t. y \<in> set xs \<Longrightarrow> P t \<Longrightarrow> \<exists>s'. f y t = Some s' \<and> P s'"
    by (rule Cons.prems(2)) auto
  ultimately show ?case
    using Cons.IH [of s'] by auto
qed

section \<open>Words\<close>

lemma uint_eq_iff [simp]: "uint a = uint b \<longleftrightarrow> a = b"
  by (simp add: word_uint_eq_iff)

text \<open>Equality of words bit by bit: \<open>all_bits\<close> splits the bits of 8, 16, 32 and 64 bit words.\<close>

lemma all_less_8: "(\<forall>n<8. P n) \<longleftrightarrow> P 0 \<and> P 1 \<and> P 2 \<and> P 3 \<and> P 4 \<and> P 5 \<and> P 6 \<and> P (7::nat)"
  by (simp only: eval_nat_numeral All_less_Suc BitM.simps) auto

lemma all_less_add: "(\<forall>n<k + m. P n) \<longleftrightarrow> (\<forall>n<k. P n) \<and> (\<forall>n<m. P (n + k))" for k m :: nat
proof -
  have "P n" if "\<forall>n<k. P n" "\<forall>n<m. P (n + k)" "n < k + m" for n
    using that(1) that(2) [rule_format, of "n - k"] that(3) by (cases "n < k") auto
  then show ?thesis by auto
qed

lemma all_less_16: "(\<forall>n<16. P n) \<longleftrightarrow> (\<forall>n<8. P n) \<and> (\<forall>n<8. P (n + (8::nat)))"
  using all_less_add [of 8 8 P] by simp

lemma all_less_32: "(\<forall>n<32. P n) \<longleftrightarrow> (\<forall>n<16. P n) \<and> (\<forall>n<16. P (n + (16::nat)))"
  using all_less_add [of 16 16 P] by simp

lemma all_less_64: "(\<forall>n<64. P n) \<longleftrightarrow> (\<forall>n<32. P n) \<and> (\<forall>n<32. P (n + (32::nat)))"
  using all_less_add [of 32 32 P] by simp

lemma bit_beyond: "LENGTH('a) \<le> n \<Longrightarrow> \<not> bit (w :: 'a::len word) n"
  using bit_imp_le_length by fastforce

lemmas all_bits = all_less_64 all_less_32 all_less_16 all_less_8 bit_simps bit_beyond
  numeral_2_eq_2 [symmetric]

lemma word_eqI_all:
  fixes a b :: "'a::len word"
  assumes "\<forall>n<LENGTH('a). bit a n = bit b n"
  shows "a = b"
  using assms by (intro bit_word_eqI) simp

section \<open>Lists and multisets\<close>

lemma mset_fold_remove1 [mset_facts]: "mset (fold remove1 ys xs) = mset xs - mset ys"
  by (induction ys arbitrary: xs) simp_all

lemma fold_remove1_partition [mset_facts]:
  "mset ys \<subseteq># mset xs \<Longrightarrow> mset ys + mset (fold remove1 ys xs) = mset xs"
  by (simp add: mset_fold_remove1)

lemma length_fold_remove1:
  "mset ys \<subseteq># mset xs \<Longrightarrow> length ys + length (fold remove1 ys xs) = length xs"
  by (metis fold_remove1_partition size_mset size_union)

lemma set_fold_remove1: "set (fold remove1 ys xs) \<subseteq> set xs"
  by (metis diff_subset_eq_self mset_fold_remove1 set_mset_mset set_mset_mono)

lemma mset_sort_filter_split:
  "mset (filter P xs) + mset (filter (\<lambda>x. \<not> P x) xs) = mset xs"
  by (metis mset_filter multiset_partition)

lemma distinct_iff_count_le_1: "distinct xs \<longleftrightarrow> (\<forall>x. count (mset xs) x \<le> 1)"
proof -
  have "count (mset xs) x = (if x \<in> set xs then 1 else 0) \<longleftrightarrow> count (mset xs) x \<le> 1" for x
    by (cases "x \<in> set xs") (auto simp: count_mset count_list_0_iff le_Suc_eq)
  then show ?thesis by (simp add: distinct_count_atmost_1)
qed

section \<open>Out-parameters that only grow\<close>

text \<open>\<open>grows ok gs s\<close>: \<open>s\<close> is \<open>gs\<close> with elements pushed to its back, all of them \<open>ok\<close>.\<close>

definition grows :: "('a \<Rightarrow> bool) \<Rightarrow> 'a list \<Rightarrow> 'a list \<Rightarrow> bool" where
  "grows ok gs s \<longleftrightarrow> (\<exists>new. s = gs @ new \<and> (\<forall>g \<in> set new. ok g))"

lemma grows_refl [simp, intro]: "grows ok gs gs"
  by (simp add: grows_def)

lemma grows_push [intro]: "grows ok gs s \<Longrightarrow> ok g \<Longrightarrow> grows ok gs (s @ [g])"
  by (auto simp: grows_def)

lemma grows_trans: "grows ok gs s \<Longrightarrow> grows ok s t \<Longrightarrow> grows ok gs t"
  by (fastforce simp: grows_def)

lemma grows_mono: "grows ok gs s \<Longrightarrow> (\<And>g. ok g \<Longrightarrow> ok' g) \<Longrightarrow> grows ok' gs s"
  by (auto simp: grows_def)

lemma grows_Nil: "grows ok [] s \<longleftrightarrow> (\<forall>g \<in> set s. ok g)"
  by (simp add: grows_def)

lemma grows_fold [loop_rules]:
  assumes "grows ok gs s" and "\<And>x s. x \<in> set xs \<Longrightarrow> grows ok gs s \<Longrightarrow> grows ok gs (f x s)"
  shows "grows ok gs (fold f xs s)"
  by (rule fold_invariant [where Q = "\<lambda>x. x \<in> set xs" and P = "grows ok gs"]) (use assms in auto)

end
