(* ===== verification/Poker_Cards.thy ===== *)
theory Poker_Cards
  imports Stars_Prelude
begin

text \<open>
  Cards and card groups: \<open>class PokerCard\<close> and \<open>class CardGroup\<close> of
  \<open>server/server/gamesvr/CardDealer.h\<close> and \<open>CardDealer.cpp\<close>, with their conversions to the
  wire messages \<open>MsgCard\<close> and \<open>PB_CardGroup\<close>, to the database form and to text. The fields
  are the bytes of the C++ class (\<open>TY_UINT8\<close>), so that the truncations of the conversions are
  part of the model.
\<close>

section \<open>PokerCard\<close>

datatype poker_card = PokerCard (m_color: u8) (m_point: u8)

text \<open>The members of \<open>enum PokerColor\<close> and \<open>enum PokerPoint\<close> that the code names.\<close>

abbreviation (input) spades :: u8 where "spades \<equiv> 1"
abbreviation (input) hearts :: u8 where "hearts \<equiv> 2"
abbreviation (input) clubs :: u8 where "clubs \<equiv> 3"
abbreviation (input) diamonds :: u8 where "diamonds \<equiv> 4"
abbreviation (input) P2 :: u8 where "P2 \<equiv> 2"
abbreviation (input) P3 :: u8 where "P3 \<equiv> 3"
abbreviation (input) PA :: u8 where "PA \<equiv> 14"
abbreviation (input) JOKER1 :: u8 where "JOKER1 \<equiv> 15"
abbreviation (input) JOKER2 :: u8 where "JOKER2 \<equiv> 16"

definition no_card :: poker_card where
  "no_card = PokerCard 0 0"

definition is_valid_card :: "poker_card \<Rightarrow> bool" where
  "is_valid_card c =
     (if m_point c \<ge> JOKER1 then m_point c \<le> JOKER2
      else m_color c \<ge> spades \<and> m_color c \<le> diamonds \<and> m_point c \<ge> P2 \<and> m_point c \<le> PA)"

definition get_score :: "int \<Rightarrow> poker_card \<Rightarrow> int" where
  "get_score joker_point c =
     (if m_point c \<ge> P2 \<and> m_point c \<le> PA \<and> uint (m_point c) \<noteq> joker_point
      then (if m_point c > 10 then 10 else uint (m_point c))
      else 0)"

text \<open>\<open>operator<\<close>: by point, then by colour. It is the order every sort of the sources uses.\<close>

definition card_less :: "poker_card \<Rightarrow> poker_card \<Rightarrow> bool" where
  "card_less a b \<longleftrightarrow>
     (if m_point a \<noteq> m_point b then m_point a < m_point b else m_color a < m_color b)"

instantiation poker_card :: linorder
begin

definition less_poker_card :: "poker_card \<Rightarrow> poker_card \<Rightarrow> bool" where
  "a < b \<longleftrightarrow> card_less a b"

definition less_eq_poker_card :: "poker_card \<Rightarrow> poker_card \<Rightarrow> bool" where
  "a \<le> b \<longleftrightarrow> a < b \<or> a = (b :: poker_card)"

instance
proof
  fix x y z :: poker_card
  show "x < y \<longleftrightarrow> x \<le> y \<and> \<not> y \<le> x"
    by (auto simp: less_eq_poker_card_def less_poker_card_def card_less_def split: if_splits)
  show "x \<le> x"
    by (simp add: less_eq_poker_card_def)
  show "x \<le> y \<Longrightarrow> y \<le> z \<Longrightarrow> x \<le> z"
    by (auto simp: less_eq_poker_card_def less_poker_card_def card_less_def split: if_splits)
  show "x \<le> y \<Longrightarrow> y \<le> x \<Longrightarrow> x = y"
    by (auto simp: less_eq_poker_card_def less_poker_card_def card_less_def split: if_splits)
  show "x \<le> y \<or> y \<le> x"
    by (cases x; cases y) (auto simp: less_eq_poker_card_def less_poker_card_def card_less_def)
qed

end

section \<open>Conversions\<close>

text \<open>The wire messages: protobuf \<open>int32\<close> fields, read back with a truncation to a byte.\<close>

record msg_card =
  mc_point :: u32
  mc_color :: u32

definition to_msg_card :: "poker_card \<Rightarrow> msg_card" where
  "to_msg_card c = \<lparr>mc_point = ucast (m_point c), mc_color = ucast (m_color c)\<rparr>"

definition parse_msg_card :: "msg_card \<Rightarrow> poker_card" where
  "parse_msg_card m = PokerCard (ucast (mc_color m)) (ucast (mc_point m))"

text \<open>The database form: colour in the high byte, point in the low byte of 16 bits.\<close>

definition to_db_card :: "poker_card \<Rightarrow> u16" where
  "to_db_card c = push_bit 8 (ucast (m_color c) :: u16) + ucast (m_point c)"

definition parse_db_card :: "u16 \<Rightarrow> poker_card" where
  "parse_db_card v = PokerCard (ucast (drop_bit 8 v)) (ucast (v AND 0x00FF))"

text \<open>
  The text form \<open>color:point\<close>, with \<open>std::to_string\<close> on a non-negative integer and \<open>atoi\<close>:
  leading white space, an optional sign, then digits up to the first other character.
\<close>

fun dec_string :: "nat \<Rightarrow> string" where
  "dec_string n = (if n < 10 then [char_of (48 + n)] else dec_string (n div 10) @ [char_of (48 + n mod 10)])"

declare dec_string.simps [simp del]

definition is_digit :: "char \<Rightarrow> bool" where
  "is_digit ch \<longleftrightarrow> 48 \<le> (of_char ch :: nat) \<and> (of_char ch :: nat) \<le> 57"

definition is_space :: "char \<Rightarrow> bool" where
  "is_space ch \<longleftrightarrow> (of_char ch :: nat) = 32 \<or> (9 \<le> (of_char ch :: nat) \<and> (of_char ch :: nat) \<le> 13)"

fun atoi_digits :: "int \<Rightarrow> string \<Rightarrow> int" where
  "atoi_digits acc [] = acc"
| "atoi_digits acc (ch # s) =
     (if is_digit ch then atoi_digits (10 * acc + (int (of_char ch) - 48)) s else acc)"

definition atoi :: "string \<Rightarrow> int" where
  "atoi s = (case dropWhile is_space s of
       [] \<Rightarrow> 0
     | ch # r \<Rightarrow> (if ch = CHR ''-'' then - atoi_digits 0 r
                 else if ch = CHR ''+'' then atoi_digits 0 r
                 else atoi_digits 0 (ch # r)))"

definition to_string :: "poker_card \<Rightarrow> string" where
  "to_string c = dec_string (unat (m_color c)) @ '':'' @ dec_string (unat (m_point c))"

definition parse_string :: "string \<Rightarrow> poker_card \<Rightarrow> poker_card" where
  "parse_string v c =
     (if CHR '':'' \<notin> set v then c
      else let up = takeWhile (\<lambda>ch. ch \<noteq> CHR '':'') v;
               down = drop (Suc (length up)) v
           in PokerCard (word_of_int (atoi up)) (word_of_int (atoi down)))"

section \<open>CardGroup\<close>

datatype card_group = CardGroup (m_type: int) (m_cards: "poker_card list")

abbreviation (input) GROUP_INVALID :: int where "GROUP_INVALID \<equiv> 0"
abbreviation (input) GROUP_STAIGHT :: int where "GROUP_STAIGHT \<equiv> 1"
abbreviation (input) GROUP_THREE_KIND :: int where "GROUP_THREE_KIND \<equiv> 2"

record pb_card_group =
  pg_type :: int
  pg_cards :: "msg_card list"

definition CopyCardToMsg :: "poker_card list \<Rightarrow> msg_card list \<Rightarrow> msg_card list" where
  "CopyCardToMsg handCard pbCard = fold (\<lambda>c pb. pb @ [to_msg_card c]) handCard pbCard"

definition to_msg_group :: "card_group \<Rightarrow> pb_card_group \<Rightarrow> pb_card_group" where
  "to_msg_group g pb = pb\<lparr>pg_type := m_type g, pg_cards := CopyCardToMsg (m_cards g) (pg_cards pb)\<rparr>"

definition parse_msg_group :: "pb_card_group \<Rightarrow> card_group \<Rightarrow> card_group" where
  "parse_msg_group pb g =
     CardGroup (pg_type pb) (fold (\<lambda>m cs. cs @ [parse_msg_card m]) (pg_cards pb) (m_cards g))"

definition copy_group_to_msg :: "card_group list \<Rightarrow> pb_card_group list \<Rightarrow> pb_card_group list" where
  "copy_group_to_msg gs pb =
     fold (\<lambda>g out. out @ [to_msg_group g \<lparr>pg_type = 0, pg_cards = []\<rparr>]) gs pb"

definition ParseMsgGroup :: "card_group list \<Rightarrow> pb_card_group list \<Rightarrow> card_group list" where
  "ParseMsgGroup groups pb = fold (\<lambda>p gs. gs @ [parse_msg_group p (CardGroup 0 [])]) pb groups"

section \<open>The order and the scores\<close>

lemma poker_card_eqI: "m_color a = m_color b \<Longrightarrow> m_point a = m_point b \<Longrightarrow> a = b"
  by (cases a; cases b) simp

lemma le_point: "a \<le> b \<Longrightarrow> m_point a \<le> m_point b"
  by (auto simp: less_eq_poker_card_def less_poker_card_def card_less_def split: if_splits)

lemma get_score_nonneg [simp]: "0 \<le> get_score jp c"
  by (simp add: get_score_def)

lemma get_score_le_10: "get_score jp c \<le> 10"
proof (cases "m_point c > 10")
  case True
  then show ?thesis by (simp add: get_score_def)
next
  case False
  then have "m_point c \<le> 10" by simp
  then have "uint (m_point c) \<le> uint (10 :: u8)" by (simp only: word_le_def)
  then show ?thesis by (simp add: get_score_def)
qed

lemma no_card_invalid: "is_valid_card c \<Longrightarrow> c \<noteq> no_card"
  by (auto simp: is_valid_card_def no_card_def)

section \<open>Round trips\<close>

lemma fold_snoc_map: "fold (\<lambda>x out. out @ [f x]) xs acc = acc @ map f xs"
  by (induction xs arbitrary: acc) simp_all

lemma ucast_byte_id: "ucast (ucast (x :: u8) :: u32) = x"
  by (rule bit_eqI) (auto simp: bit_simps dest: bit_imp_le_length)

lemma parse_to_msg_card [simp]: "parse_msg_card (to_msg_card c) = c"
  by (rule poker_card_eqI)
     (simp_all add: parse_msg_card_def to_msg_card_def ucast_byte_id)

lemma parse_to_db_card: "parse_db_card (to_db_card c) = c"
proof (rule poker_card_eqI)
  let ?a = "ucast (m_color c) :: u16" and ?b = "ucast (m_point c) :: u16"
  have disj: "push_bit 8 ?a AND ?b = 0"
    by (rule bit_eqI) (auto simp: bit_simps dest: bit_imp_le_length)
  have add: "push_bit 8 ?a + ?b = push_bit 8 ?a OR ?b"
    using disj by (simp add: disjunctive_add_eq_or)
  have mask: "(0x00FF :: u16) = mask 8"
    by (simp add: mask_eq_exp_minus_1)
  show "m_color (parse_db_card (to_db_card c)) = m_color c"
    by (simp add: parse_db_card_def to_db_card_def add)
       (rule bit_eqI, auto simp: bit_simps dest: bit_imp_le_length)
  show "m_point (parse_db_card (to_db_card c)) = m_point c"
    by (simp add: parse_db_card_def to_db_card_def add mask)
       (rule bit_eqI, auto simp: bit_simps dest: bit_imp_le_length)
qed

lemma is_digit_dec: "ch \<in> set (dec_string n) \<Longrightarrow> is_digit ch"
proof (induction n rule: dec_string.induct)
  case (1 n)
  then show ?case
    by (cases "n < 10") (auto simp: dec_string.simps [of n] is_digit_def of_char_of)
qed

lemma dec_string_nonempty: "dec_string n \<noteq> []"
  by (subst dec_string.simps) simp

lemma atoi_digits_append:
  assumes "\<forall>ch \<in> set s. is_digit ch"
  shows "atoi_digits acc (s @ t) = atoi_digits (atoi_digits acc s) t"
  using assms by (induction s arbitrary: acc) auto

lemma atoi_digits_dec: "atoi_digits 0 (dec_string n) = int n"
proof (induction n rule: dec_string.induct)
  case (1 n)
  show ?case
  proof (cases "n < 10")
    case True
    then show ?thesis
      by (simp add: dec_string.simps [of n] is_digit_def of_char_of)
  next
    case False
    moreover have "\<forall>ch \<in> set (dec_string (n div 10)). is_digit ch"
      by (simp add: is_digit_dec)
    moreover have "10 * (int n div 10) + int (n mod 10) = int n" "n mod 10 \<le> 9"
      by (simp_all add: zmod_int)
    ultimately show ?thesis
      using 1 [OF False]
      by (simp add: dec_string.simps [of n] atoi_digits_append is_digit_def of_char_of zdiv_int)
  qed
qed

lemma is_digit_not_space: "is_digit ch \<Longrightarrow> \<not> is_space ch"
  by (auto simp: is_digit_def is_space_def)

lemma is_digit_no_sign: "\<not> is_digit CHR ''-''" "\<not> is_digit CHR ''+''" "\<not> is_digit CHR '':''"
  by (simp_all add: is_digit_def)

lemma atoi_dec: "atoi (dec_string n) = int n"
proof -
  obtain ch r where s: "dec_string n = ch # r"
    using dec_string_nonempty by (cases "dec_string n") auto
  then have d: "is_digit ch" using is_digit_dec [of ch n] by simp
  have "dropWhile is_space (ch # r) = ch # r"
    using d is_digit_not_space by simp
  moreover have "ch \<noteq> CHR ''-''" "ch \<noteq> CHR ''+''"
    using d is_digit_no_sign by auto
  ultimately show ?thesis
    using atoi_digits_dec [of n] by (simp add: atoi_def s)
qed

lemma takeWhile_dec: "takeWhile (\<lambda>ch. ch \<noteq> CHR '':'') (dec_string n @ CHR '':'' # s) = dec_string n"
proof -
  have "\<forall>ch \<in> set (dec_string n). ch \<noteq> CHR '':''"
    using is_digit_dec is_digit_no_sign(3) by blast
  then show ?thesis by (simp add: takeWhile_append)
qed

lemma parse_to_string: "parse_string (to_string c) d = c"
proof -
  have "of_int (int (unat x)) = (x :: u8)" for x
    by simp
  then show ?thesis
    by (cases c) (simp add: parse_string_def to_string_def takeWhile_dec atoi_dec Let_def)
qed

lemma ParseMsgGroup_eq: "ParseMsgGroup gs pb = gs @ map (\<lambda>p. parse_msg_group p (CardGroup 0 [])) pb"
  by (simp add: ParseMsgGroup_def fold_snoc_map)

lemma parse_to_msg_group:
  "parse_msg_group (to_msg_group g \<lparr>pg_type = t, pg_cards = []\<rparr>) (CardGroup u []) = g"
  by (cases g)
     (simp add: parse_msg_group_def to_msg_group_def CopyCardToMsg_def fold_snoc_map comp_def)

lemma ParseMsgGroup_copy: "ParseMsgGroup [] (copy_group_to_msg gs []) = gs"
  by (simp add: ParseMsgGroup_eq copy_group_to_msg_def fold_snoc_map comp_def parse_to_msg_group)

end
