(* ===== verification/Card_Dealer.thy ===== *)
theory Card_Dealer
  imports Poker_Cards
begin

text \<open>
  \<open>class CardDealer\<close> of \<open>server/server/gamesvr/CardDealer.cpp\<close>: the double deck of 108
  cards, its shuffle and the dealing of cards. The values of \<open>rand()\<close> are a parameter: \<open>rs k\<close>
  is the value of the \<open>k\<close>-th call after the last \<open>srand\<close>, so every theorem holds for all of them.
\<close>

section \<open>Operations\<close>

definition CARD_COUNT :: nat where
  "CARD_COUNT = 108"

record card_dealer =
  dl_cards :: "poker_card list"      \<comment> \<open>\<open>m_cards\<close>\<close>
  dl_all_card :: "poker_card list"   \<comment> \<open>\<open>m_all_card\<close>\<close>

text \<open>\<open>cards[index] = cards.back(); cards.pop_back();\<close>, done only while more than one card is left.\<close>

definition take_out :: "nat \<Rightarrow> poker_card list \<Rightarrow> poker_card list" where
  "take_out index cards =
     (if length cards > 1 then butlast (cards[index := last cards]) else cards)"

text \<open>The loop both dealing routines share: \<open>n\<close> random draws, pushed to the back of \<open>out\<close>.\<close>

fun draw_loop :: "(nat \<Rightarrow> nat) \<Rightarrow> nat \<Rightarrow> nat \<Rightarrow> poker_card list \<Rightarrow> poker_card list \<Rightarrow> poker_card list option" where
  "draw_loop rs k 0 cards out = Some out"
| "draw_loop rs k (Suc n) cards out =
     (if cards = [] then None
      else let index = rs k mod length cards
           in draw_loop rs (Suc k) n (take_out index cards) (out @ [cards ! index]))"

definition rand_rank_cards :: "(nat \<Rightarrow> nat) \<Rightarrow> card_dealer \<Rightarrow> card_dealer option" where
  "rand_rank_cards rs d =
     (if length (dl_cards d) = CARD_COUNT
      then map_option (\<lambda>out. d\<lparr>dl_cards := out\<rparr>) (draw_loop rs 0 CARD_COUNT (dl_cards d) [])
      else None)"

definition rand_deal_card ::
  "(nat \<Rightarrow> nat) \<Rightarrow> card_dealer \<Rightarrow> poker_card list \<Rightarrow> nat \<Rightarrow> (card_dealer \<times> poker_card list) option" where
  "rand_deal_card rs d lstCard cnt =
     (if cnt \<le> CARD_COUNT
      then do {
        d' \<leftarrow> rand_rank_cards rs d;
        lst \<leftarrow> draw_loop rs CARD_COUNT cnt (dl_cards d') lstCard;
        Some (d', lst)
      }
      else None)"

definition deal_card ::
  "(nat \<Rightarrow> nat) \<Rightarrow> card_dealer \<Rightarrow> poker_card list \<Rightarrow> nat \<Rightarrow> (card_dealer \<times> poker_card list) option" where
  "deal_card rs d lstCard cnt = rand_deal_card rs d lstCard cnt"

text \<open>
  The writes of \<open>init_cards\<close>: the colour and the point of \<open>m_cards[index]\<close>, then \<open>++index\<close>. A write out of the
  array is a fault. The loops run to \<open>PokerCard::diamonds\<close>, 4, and \<open>PokerCard::A - 1\<close>, 13.
\<close>

definition write_card :: "u8 \<Rightarrow> u8 \<Rightarrow> nat \<times> poker_card list \<Rightarrow> (nat \<times> poker_card list) option" where
  "write_card color point = (\<lambda>(index, cards).
     if index < length cards then Some (Suc index, cards[index := PokerCard color point]) else None)"

definition write_suits :: "nat \<times> poker_card list \<Rightarrow> (nat \<times> poker_card list) option" where
  "write_suits =
     for_each (\<lambda>i. for_each (\<lambda>j s. do {
         s \<leftarrow> write_card (of_nat (i + 1)) (of_nat (j + 2)) s;
         write_card (of_nat (i + 1)) (of_nat (j + 2)) s
       }) [0..<13]) [0..<4]"

definition write_deck :: "nat \<times> poker_card list \<Rightarrow> (nat \<times> poker_card list) option" where
  "write_deck s = do {
     s \<leftarrow> write_suits s;
     s \<leftarrow> write_card 0 JOKER1 s;
     s \<leftarrow> write_card 0 JOKER1 s;
     s \<leftarrow> write_card 0 JOKER2 s;
     write_card 0 JOKER2 s
   }"

fun rank_times :: "(nat \<Rightarrow> nat) \<Rightarrow> nat \<Rightarrow> card_dealer \<Rightarrow> card_dealer option" where
  "rank_times rs 0 d = Some d"
| "rank_times rs (Suc n) d =
     (case rand_rank_cards rs d of None \<Rightarrow> None | Some d' \<Rightarrow> rank_times (\<lambda>k. rs (CARD_COUNT + k)) n d')"

definition init_cards :: "(nat \<Rightarrow> nat) \<Rightarrow> card_dealer option" where
  "init_cards rs =
     do {
       (_, cards) \<leftarrow> write_deck (0, replicate CARD_COUNT no_card);
       rank_times rs 1000 \<lparr>dl_cards = cards, dl_all_card = cards\<rparr>
     }"

definition get_all_card :: "card_dealer \<Rightarrow> poker_card list" where
  "get_all_card d = dl_all_card d"

section \<open>Drawing\<close>

lemma mset_take_out [mset_facts]:
  assumes "i < length cards" "1 < length cards"
  shows "add_mset (cards ! i) (mset (take_out i cards)) = mset cards"
proof (cases "i = length cards - 1")
  case True
  with assms have "cards[i := last cards] = cards"
    by (metis last_conv_nth length_0_conv list_update_id not_less_zero)
  with True assms show ?thesis
    by (metis (no_types, lifting) add_mset_add_single append_butlast_last_id last_conv_nth
        length_0_conv mset_append mset_single_iff not_less_zero take_out_def mset.simps)
next
  case False
  obtain xs x where c: "cards = xs @ [x]"
    using assms by (metis append_butlast_last_id list.size(3) not_less_zero)
  with False assms have i: "i < length xs" by simp
  then have "take_out i cards = xs[i := x]"
    using assms c by (simp add: take_out_def list_update_append)
  moreover have "cards ! i = xs ! i" using i c by (simp add: nth_append)
  moreover have "mset (xs[i := x]) = add_mset x (mset xs - {#xs ! i#})"
    using i by (simp add: mset_update)
  ultimately show ?thesis
    using i c by (simp add: add_mset_commute)
qed

lemma draw_loop_rest:
  assumes "n \<le> length cards"
  shows "\<exists>drawn rest. draw_loop rs k n cards out = Some (out @ drawn) \<and> length drawn = n
           \<and> mset drawn + mset rest = mset cards"
  using assms
proof (induction n arbitrary: k cards out)
  case 0
  then show ?case by (intro exI [of _ "[]"] exI [of _ cards]) simp
next
  case (Suc n)
  let ?i = "rs k mod length cards"
  from Suc.prems have ne: "cards \<noteq> []" and i: "?i < length cards"
    by (auto intro: mod_less_divisor)
  show ?case
  proof (cases "length cards > 1")
    case True
    have m: "add_mset (cards ! ?i) (mset (take_out ?i cards)) = mset cards"
      by (rule mset_take_out [OF i True])
    then have "length (take_out ?i cards) = length cards - 1"
      by (metis add_diff_cancel_left' plus_1_eq_Suc size_add_mset size_mset)
    with Suc.prems have "n \<le> length (take_out ?i cards)" by simp
    from Suc.IH [OF this, of "Suc k" "out @ [cards ! ?i]"] obtain drawn rest where
      "draw_loop rs (Suc k) n (take_out ?i cards) (out @ [cards ! ?i]) = Some ((out @ [cards ! ?i]) @ drawn)"
      "length drawn = n" "mset drawn + mset rest = mset (take_out ?i cards)"
      by blast
    with ne m show ?thesis
      by (intro exI [of _ "cards ! ?i # drawn"] exI [of _ rest]) (simp add: Let_def)
  next
    case False
    with Suc.prems have "n = 0" "length cards = 1" by auto
    then obtain c where "cards = [c]" by (metis One_nat_def length_0_conv length_Suc_conv)
    with \<open>n = 0\<close> show ?thesis by (intro exI [of _ "[c]"] exI [of _ "[]"]) simp
  qed
qed

section \<open>The dealer invariant\<close>

text \<open>The deck always holds the 108 cards of \<open>m_all_card\<close>, in some order.\<close>

definition dealer_ok :: "card_dealer \<Rightarrow> bool" where
  "dealer_ok d \<longleftrightarrow> mset (dl_cards d) = mset (dl_all_card d) \<and> length (dl_all_card d) = CARD_COUNT"

lemma dealer_ok_length: "dealer_ok d \<Longrightarrow> length (dl_cards d) = CARD_COUNT"
  by (metis dealer_ok_def size_mset)

lemma rand_rank_cards_ok:
  assumes "dealer_ok d"
  shows "\<exists>d'. rand_rank_cards rs d = Some d' \<and> dealer_ok d' \<and> dl_all_card d' = dl_all_card d"
proof -
  have len: "length (dl_cards d) = CARD_COUNT" by (rule dealer_ok_length [OF assms])
  then obtain drawn rest where d: "draw_loop rs 0 CARD_COUNT (dl_cards d) [] = Some drawn"
    "length drawn = CARD_COUNT" "mset drawn + mset rest = mset (dl_cards d)"
    using draw_loop_rest [of CARD_COUNT "dl_cards d" rs 0 "[]"] by auto
  from d(2,3) len have "rest = []"
    by (metis add_eq_0_iff_both_eq_0 add_left_cancel add.right_neutral length_0_conv size_mset size_union)
  with d len assms show ?thesis
    by (simp add: rand_rank_cards_def dealer_ok_def)
qed

lemma rand_deal_card_ok:
  assumes "dealer_ok d" and "cnt \<le> CARD_COUNT"
  shows "\<exists>d' dealt. rand_deal_card rs d lst cnt = Some (d', lst @ dealt) \<and> dealer_ok d'
           \<and> dl_all_card d' = dl_all_card d \<and> length dealt = cnt \<and> mset dealt \<subseteq># mset (dl_all_card d)"
proof -
  obtain d' where d': "rand_rank_cards rs d = Some d'" "dealer_ok d'" "dl_all_card d' = dl_all_card d"
    using rand_rank_cards_ok [OF assms(1)] by blast
  have "cnt \<le> length (dl_cards d')"
    using assms(2) dealer_ok_length [OF d'(2)] by simp
  then obtain drawn rest where dr: "draw_loop rs CARD_COUNT cnt (dl_cards d') lst = Some (lst @ drawn)"
    "length drawn = cnt" "mset drawn + mset rest = mset (dl_cards d')"
    using draw_loop_rest by blast
  from dr(3) d'(2,3) have "mset drawn \<subseteq># mset (dl_all_card d)"
    by (metis dealer_ok_def mset_subset_eq_add_left)
  with dr d' assms show ?thesis
    by (simp add: rand_deal_card_def)
qed

lemma rank_times_ok:
  assumes "dealer_ok d"
  shows "\<exists>d'. rank_times rs n d = Some d' \<and> dealer_ok d' \<and> dl_all_card d' = dl_all_card d"
  using assms
proof (induction n arbitrary: rs d)
  case 0
  then show ?case by simp
next
  case (Suc n)
  obtain d' where d': "rand_rank_cards rs d = Some d'" "dealer_ok d'" "dl_all_card d' = dl_all_card d"
    using rand_rank_cards_ok [OF Suc.prems] by blast
  with Suc.IH [OF d'(2), of "\<lambda>k. rs (CARD_COUNT + k)"] show ?case by auto
qed

section \<open>The double deck\<close>

text \<open>
  The 54 cards of a deck of rummy, four colours of thirteen points and two jokers without a colour, and the deck of the
  game, which has each of them twice.
\<close>

definition deck_card :: "poker_card \<Rightarrow> bool" where
  "deck_card c \<longleftrightarrow> m_color c \<in> {1..4} \<and> m_point c \<in> {2..14} \<or> m_color c = 0 \<and> m_point c \<in> {JOKER1, JOKER2}"

definition single_deck :: "poker_card list" where
  "single_deck = [PokerCard (of_nat (i + 1)) (of_nat (j + 2)). i \<leftarrow> [0..<4], j \<leftarrow> [0..<13]] @ [PokerCard 0 JOKER1, PokerCard 0 JOKER2]"

definition double_deck :: "poker_card list" where
  "double_deck = concat (map (\<lambda>c. [c, c]) single_deck)"

lemma distinct_single_deck: "distinct single_deck"
  by code_simp

lemma length_single_deck: "length single_deck = 54"
  by code_simp

lemma length_double_deck: "length double_deck = CARD_COUNT"
  by code_simp

lemma suit_range: "(\<exists>i < n. w = of_nat (i + k)) \<longleftrightarrow> w \<in> {of_nat k..<of_nat (n + k)}" if "n + k < 2 ^ 8" for w :: u8
proof
  assume "\<exists>i < n. w = of_nat (i + k)"
  then obtain i where "i < n" "w = of_nat (i + k)" by blast
  with that show "w \<in> {of_nat k..<of_nat (n + k)}"
    by (simp add: word_le_nat_alt word_less_nat_alt unsigned_of_nat take_bit_nat_eq_self del: of_nat_add)
next
  assume "w \<in> {of_nat k..<of_nat (n + k)}"
  with that have "k \<le> unat w" "unat w < n + k"
    by (simp_all add: word_le_nat_alt word_less_nat_alt unsigned_of_nat take_bit_nat_eq_self del: of_nat_add)
  then show "\<exists>i < n. w = of_nat (i + k)"
    by (intro exI [of _ "unat w - k"]) (simp del: of_nat_add)
qed

lemma set_single_deck: "c \<in> set single_deck \<longleftrightarrow> deck_card c"
proof -
  have upto: "{1..<5} = {1..4 :: u8}" "{2..<15} = {2..14 :: u8}"
    by (auto simp: word_le_nat_alt word_less_nat_alt)
  obtain a b where c: "c = PokerCard a b" by (cases c)
  have "c \<in> set single_deck \<longleftrightarrow>
      (\<exists>i < 4. a = of_nat (i + 1)) \<and> (\<exists>j < 13. b = of_nat (j + 2)) \<or> a = 0 \<and> (b = JOKER1 \<or> b = JOKER2)"
    unfolding single_deck_def c by (auto simp del: of_nat_add simp: image_iff)
  then show ?thesis
    using suit_range [of 4 1 a] suit_range [of 13 2 b] by (simp add: deck_card_def c upto)
qed

lemma count_doubled: "count (mset (concat (map (\<lambda>c. [c, c]) xs))) c = 2 * count (mset xs) c"
  by (induction xs) auto

lemma count_double_deck: "count (mset double_deck) c = (if deck_card c then 2 else 0)"
  unfolding double_deck_def count_doubled
  using distinct_single_deck by (simp add: distinct_count_atmost_1 set_single_deck)

lemma card_deck_cards: "card {c. deck_card c} = 54"
  using distinct_card [OF distinct_single_deck] length_single_deck by (simp add: set_single_deck flip: set_single_deck)

text \<open>What the loops of \<open>init_cards\<close> write is the double deck.\<close>

lemma write_deck_cards: "write_deck (0, replicate CARD_COUNT no_card) = Some (CARD_COUNT, double_deck)"
  by code_simp

lemma init_cards_ok:
  "\<exists>d. init_cards rs = Some d \<and> dealer_ok d \<and> dl_all_card d = double_deck"
proof -
  have "dealer_ok \<lparr>dl_cards = double_deck, dl_all_card = double_deck\<rparr>"
    by (simp add: dealer_ok_def length_double_deck)
  then show ?thesis
    using rank_times_ok by (fastforce simp: init_cards_def write_deck_cards)
qed

end
