(* ===== verification/Card_Rules.thy ===== *)
theory Card_Rules
  imports Poker_Cards
begin

text \<open>
  The rules of the game as \<open>class Combination\<close> (\<open>server/server/gamesvr/Combination.cpp\<close> and
  \<open>Combination.h\<close>) checks them: wild cards, pure straights, straights filled with wild cards,
  sets of three or four of a kind, and the two declarations of a player. \<open>joker_point\<close> is the
  point of the wild card of the game, a C++ \<open>int\<close>.
\<close>

section \<open>Operations\<close>

definition is_joker :: "int \<Rightarrow> poker_card \<Rightarrow> bool" where
  "is_joker joker_point c \<longleftrightarrow> uint (m_point c) = joker_point \<or> m_point c \<ge> JOKER1"

definition caculate_card_score :: "poker_card list \<Rightarrow> int \<Rightarrow> int" where
  "caculate_card_score cards joker_point = fold (\<lambda>c score. score + get_score joker_point c) cards 0"

text \<open>The loop of \<open>is_cards_pure_straight\<close>: \<open>c0\<close> is the first card, \<open>itLast\<close> the card before the rest.\<close>

fun pure_loop :: "poker_card \<Rightarrow> poker_card \<Rightarrow> poker_card list \<Rightarrow> bool" where
  "pure_loop c0 itLast [] = True"
| "pure_loop c0 itLast (it # cs) =
     (if m_color itLast \<noteq> m_color it \<or> m_point itLast \<ge> JOKER1 \<or> m_point it \<ge> JOKER1 then False
      else if uint (m_point itLast) + 1 \<noteq> uint (m_point it)
      then (if m_point it \<noteq> PA then False else m_point c0 = P2)
      else pure_loop c0 it cs)"

definition is_cards_pure_straight :: "poker_card list \<Rightarrow> bool" where
  "is_cards_pure_straight cards =
     (if length cards < 3 then False else pure_loop (hd cards) (hd cards) (tl cards))"

text \<open>
  The first loop of \<open>is_cards_straight\<close>: the last card that is no joker, the number of jokers, the
  number of jokers needed and \<open>tempcards\<close>. \<open>None\<close> is the \<open>return false\<close> inside the loop.
\<close>

fun straight_scan ::
  "int \<Rightarrow> poker_card list \<Rightarrow> poker_card option \<Rightarrow> int \<Rightarrow> int \<Rightarrow> poker_card list
   \<Rightarrow> (int \<times> int \<times> poker_card list) option" where
  "straight_scan jp [] itLast joker_count need tmp = Some (joker_count, need, tmp)"
| "straight_scan jp (it # cs) itLast joker_count need tmp =
     (if is_joker jp it then straight_scan jp cs itLast (joker_count + 1) need tmp
      else case itLast of
        None \<Rightarrow> straight_scan jp cs (Some it) joker_count need (tmp @ [it])
      | Some l \<Rightarrow>
          (if m_color l \<noteq> m_color it then None
           else let diff = uint (m_point it) - uint (m_point l)
                in if diff = 0 then None
                   else straight_scan jp cs (Some it) joker_count (need + (diff - 1)) (tmp @ [it])))"

text \<open>The second loop, over \<open>tempcards\<close> with the aces counted as one.\<close>

fun straight_gaps :: "poker_card list \<Rightarrow> poker_card option \<Rightarrow> int \<Rightarrow> int option" where
  "straight_gaps [] itLast need = Some need"
| "straight_gaps (it # cs) itLast need =
     (case itLast of
        None \<Rightarrow> straight_gaps cs (Some it) need
      | Some l \<Rightarrow>
          (if m_color l \<noteq> m_color it then None
           else let diff = uint (m_point it) - uint (m_point l)
                in if diff = 0 then None else straight_gaps cs (Some it) (need + (diff - 1))))"

definition ace_low :: "poker_card \<Rightarrow> poker_card" where
  "ace_low c = (if m_point c = PA then PokerCard (m_color c) 1 else c)"

definition is_cards_straight :: "poker_card list \<Rightarrow> int \<Rightarrow> bool" where
  "is_cards_straight cards joker_point =
     (if length cards < 3 then False
      else case straight_scan joker_point cards None 0 0 [] of
        None \<Rightarrow> False
      | Some (joker_count, need, tempcards) \<Rightarrow>
          (if need \<le> joker_count then True
           else if joker_point = uint PA \<or> m_point (last tempcards) \<noteq> PA then False
           else case straight_gaps (sort (map ace_low tempcards)) None 0 of
             None \<Rightarrow> False
           | Some need1 \<Rightarrow> need1 \<le> joker_count))"

text \<open>The loop of \<open>is_cards_three_of_kind\<close> after the first card.\<close>

fun kind_loop :: "int \<Rightarrow> poker_card \<Rightarrow> bool \<Rightarrow> int \<Rightarrow> poker_card list \<Rightarrow> bool" where
  "kind_loop jp itLast is_last_is_joker un_joker_count [] = (\<not> un_joker_count < 2)"
| "kind_loop jp itLast is_last_is_joker un_joker_count (it # cs) =
     (if is_joker jp it then kind_loop jp it True un_joker_count cs
      else if \<not> is_last_is_joker \<and> (m_point it \<noteq> m_point itLast \<or> m_color it = m_color itLast) then False
      else kind_loop jp it False (un_joker_count + 1) cs)"

definition is_cards_three_of_kind :: "poker_card list \<Rightarrow> int \<Rightarrow> bool" where
  "is_cards_three_of_kind one_group joker_point =
     (if length one_group < 3 \<or> length one_group > 4 then False
      else let itLast = hd one_group
           in kind_loop joker_point itLast (is_joker joker_point itLast)
                (if is_joker joker_point itLast then 0 else 1) (tl one_group))"

text \<open>\<open>is_groups_declare\<close>: the loop with its counters; \<open>None\<close> is a \<open>return false\<close> inside it.\<close>

fun declare_loop :: "int \<Rightarrow> card_group list \<Rightarrow> int \<Rightarrow> int \<Rightarrow> (int \<times> int) option" where
  "declare_loop jp [] pure_count straight_count = Some (pure_count, straight_count)"
| "declare_loop jp (g # gs) pure_count straight_count =
     (if m_type g = GROUP_INVALID then None
      else let cards = sort (m_cards g)
           in if m_type g = GROUP_STAIGHT
              then (if is_cards_straight cards jp
                    then declare_loop jp gs
                           (if is_cards_pure_straight cards then pure_count + 1 else pure_count)
                           (straight_count + 1)
                    else None)
              else if m_type g = GROUP_THREE_KIND \<and> \<not> is_cards_three_of_kind cards jp then None
              else declare_loop jp gs pure_count straight_count)"

definition is_groups_declare :: "card_group list \<Rightarrow> int \<Rightarrow> bool" where
  "is_groups_declare groups joker_point =
     (case declare_loop joker_point groups 0 0 of
        None \<Rightarrow> False
      | Some (pure_count, straight_count) \<Rightarrow> \<not> (pure_count < 1 \<or> straight_count < 2))"

text \<open>\<open>check_lose_declare\<close>: the counting loop, the scoring loop, and the result with the score.\<close>

fun lose_count_loop :: "int \<Rightarrow> card_group list \<Rightarrow> int \<Rightarrow> int \<Rightarrow> (int \<times> int) option" where
  "lose_count_loop jp [] pure_count straight_count = Some (pure_count, straight_count)"
| "lose_count_loop jp (g # gs) pure_count straight_count =
     (let cards = sort (m_cards g)
      in if m_type g = GROUP_STAIGHT
         then (if is_cards_straight cards jp
               then lose_count_loop jp gs
                      (if is_cards_pure_straight cards then pure_count + 1 else pure_count)
                      (straight_count + 1)
               else None)
         else lose_count_loop jp gs pure_count straight_count)"

fun lose_score_loop :: "int \<Rightarrow> int \<Rightarrow> int \<Rightarrow> card_group list \<Rightarrow> int \<Rightarrow> bool \<times> int" where
  "lose_score_loop jp pure_count straight_count [] score = (True, score)"
| "lose_score_loop jp pure_count straight_count (g # gs) score =
     (let cards = sort (m_cards g)
      in if m_type g = GROUP_INVALID
         then lose_score_loop jp pure_count straight_count gs (score + caculate_card_score cards jp)
         else if m_type g = GROUP_STAIGHT
         then (if pure_count < 1 then (False, score)
               else lose_score_loop jp pure_count straight_count gs score)
         else if m_type g = GROUP_THREE_KIND
         then (if pure_count < 1 \<or> straight_count < 2 then (False, score)
               else if \<not> is_cards_three_of_kind cards jp then (False, score)
               else lose_score_loop jp pure_count straight_count gs score)
         else (False, score))"

definition check_lose_declare :: "card_group list \<Rightarrow> int \<Rightarrow> bool \<times> int" where
  "check_lose_declare groups joker_point =
     (case lose_count_loop joker_point groups 0 0 of
        None \<Rightarrow> (False, 0)
      | Some (pure_count, straight_count) \<Rightarrow>
          lose_score_loop joker_point pure_count straight_count groups 0)"

definition cards_to_string :: "poker_card list \<Rightarrow> string" where
  "cards_to_string cards = fold (\<lambda>c str. str @ to_string c @ '', '') cards []"

section \<open>Scores\<close>

lemma fold_add_sum_list: "fold (\<lambda>c s. s + f c) cs a = a + (\<Sum>c \<leftarrow> cs. (f c :: int))"
  by (induction cs arbitrary: a) auto

lemma caculate_card_score_eq: "caculate_card_score cards jp = (\<Sum>c \<leftarrow> cards. get_score jp c)"
  by (simp add: caculate_card_score_def fold_add_sum_list)

lemma caculate_card_score_mset: "mset xs = mset ys \<Longrightarrow> caculate_card_score xs jp = caculate_card_score ys jp"
  by (metis caculate_card_score_eq mset_map sum_mset_sum_list)

lemma caculate_card_score_append:
  "caculate_card_score (xs @ ys) jp = caculate_card_score xs jp + caculate_card_score ys jp"
  by (simp add: caculate_card_score_eq)

lemma caculate_card_score_nonneg: "0 \<le> caculate_card_score cards jp"
  by (induction cards) (simp_all add: caculate_card_score_eq)

lemma caculate_card_score_bound: "caculate_card_score cards jp \<le> 10 * int (length cards)"
proof (induction cards)
  case Nil
  then show ?case by (simp add: caculate_card_score_eq)
next
  case (Cons c cs)
  then show ?case
    using get_score_le_10 [of jp c] by (simp add: caculate_card_score_eq)
qed

section \<open>Pure straights\<close>

text \<open>A run: neighbours of one colour, each one point above the one before, none a printed joker.\<close>

definition next_in_run :: "poker_card \<Rightarrow> poker_card \<Rightarrow> bool" where
  "next_in_run a b \<longleftrightarrow> m_color a = m_color b \<and> m_point a < JOKER1 \<and> m_point b < JOKER1
     \<and> uint (m_point a) + 1 = uint (m_point b)"

abbreviation is_run :: "poker_card list \<Rightarrow> bool" where
  "is_run \<equiv> successively next_in_run"

text \<open>A run from the two, then an ace of the colour that is not next in it: ace counted low.\<close>

definition ace_low_run :: "poker_card list \<Rightarrow> poker_card \<Rightarrow> bool" where
  "ace_low_run pre a \<longleftrightarrow> pre \<noteq> [] \<and> is_run pre \<and> m_point (hd pre) = P2 \<and> m_point a = PA
     \<and> m_color a = m_color (last pre) \<and> m_point (last pre) < JOKER1
     \<and> uint (m_point (last pre)) + 1 \<noteq> uint PA"

lemma pure_loop_iff:
  "pure_loop c0 l cs \<longleftrightarrow> is_run (l # cs) \<or>
     (\<exists>pre a rest. cs = pre @ a # rest \<and> is_run (l # pre) \<and> m_point c0 = P2 \<and> m_point a = PA
        \<and> m_color a = m_color (last (l # pre)) \<and> m_point (last (l # pre)) < JOKER1
        \<and> uint (m_point (last (l # pre))) + 1 \<noteq> uint PA)"
  (is "_ \<longleftrightarrow> _ \<or> (\<exists>pre a rest. ?low l cs pre a rest)")
proof (induction cs arbitrary: l)
  case Nil
  then show ?case by simp
next
  case (Cons b cs)
  have split: "(\<exists>pre a rest. ?low l (b # cs) pre a rest) \<longleftrightarrow>
      ?low l (b # cs) [] b cs \<or> next_in_run l b \<and> (\<exists>pre a rest. ?low b cs pre a rest)"
    (is "?L \<longleftrightarrow> ?R")
  proof
    assume ?L
    then obtain pre a rest where *: "?low l (b # cs) pre a rest" by blast
    show ?R
    proof (cases pre)
      case Nil
      with * show ?thesis by auto
    next
      case (Cons x pre')
      with * have "x = b" "?low b cs pre' a rest" "next_in_run l b" by auto
      then show ?thesis by blast
    qed
  next
    assume ?R
    then show ?L
    proof
      assume "?low l (b # cs) [] b cs"
      then show ?L by blast
    next
      assume "next_in_run l b \<and> (\<exists>pre a rest. ?low b cs pre a rest)"
      then obtain pre a rest where "next_in_run l b" "?low b cs pre a rest" by blast
      then have "?low l (b # cs) (b # pre) a rest" by simp
      then show ?L by blast
    qed
  qed
  show ?case
    unfolding split using Cons.IH [of b]
    by (auto simp: next_in_run_def word_less_def word_le_def not_le)
qed

lemma is_cards_pure_straight_iff:
  "is_cards_pure_straight cards \<longleftrightarrow>
     3 \<le> length cards \<and> (is_run cards \<or> (\<exists>pre a rest. cards = pre @ a # rest \<and> ace_low_run pre a))"
proof (cases cards)
  case Nil
  then show ?thesis by (simp add: is_cards_pure_straight_def)
next
  case (Cons c0 cs)
  have E: "(\<exists>pre a rest. cs = pre @ a # rest \<and> is_run (c0 # pre) \<and> m_point c0 = P2 \<and> m_point a = PA
        \<and> m_color a = m_color (last (c0 # pre)) \<and> m_point (last (c0 # pre)) < JOKER1
        \<and> uint (m_point (last (c0 # pre))) + 1 \<noteq> uint PA)
     \<longleftrightarrow> (\<exists>pre a rest. c0 # cs = pre @ a # rest \<and> ace_low_run pre a)" (is "?L \<longleftrightarrow> ?R")
  proof
    assume ?L
    then obtain pre a rest where "c0 # cs = (c0 # pre) @ a # rest \<and> ace_low_run (c0 # pre) a"
      by (auto simp: ace_low_run_def)
    then show ?R by blast
  next
    assume ?R
    then obtain pre a rest where *: "c0 # cs = pre @ a # rest" "ace_low_run pre a" by blast
    then obtain pre' where pre: "pre = c0 # pre'" by (cases pre) (simp_all add: ace_low_run_def)
    from *(1) have "cs = pre' @ a # rest" by (simp add: pre)
    with *(2) show ?L unfolding ace_low_run_def pre list.sel by blast
  qed
  have "is_cards_pure_straight cards \<longleftrightarrow> 3 \<le> length cards \<and> pure_loop c0 c0 cs"
    by (simp add: Cons is_cards_pure_straight_def not_less)
  then show ?thesis
    unfolding pure_loop_iff E Cons .
qed

section \<open>Straights with wild cards\<close>

text \<open>Neighbours a straight may have: one colour, different points.\<close>

definition suited_step :: "poker_card \<Rightarrow> poker_card \<Rightarrow> bool" where
  "suited_step a b \<longleftrightarrow> m_color a = m_color b \<and> m_point a \<noteq> m_point b"

abbreviation naturals :: "int \<Rightarrow> poker_card list \<Rightarrow> poker_card list" where
  "naturals jp \<equiv> filter (\<lambda>c. \<not> is_joker jp c)"

abbreviation jokers :: "int \<Rightarrow> poker_card list \<Rightarrow> poker_card list" where
  "jokers jp \<equiv> filter (is_joker jp)"

text \<open>The gaps between the first and the last card of a list, added up neighbour by neighbour.\<close>

definition gaps :: "poker_card list \<Rightarrow> int" where
  "gaps cs = (if cs = [] then 0
              else uint (m_point (last cs)) - uint (m_point (hd cs)) - (int (length cs) - 1))"

lemma straight_scan_from:
  "straight_scan jp cs (Some l) jc need tmp =
     (if successively suited_step (l # naturals jp cs)
      then Some (jc + int (length (jokers jp cs)), need + gaps (l # naturals jp cs), tmp @ naturals jp cs)
      else None)"
proof (induction cs arbitrary: l jc need tmp)
  case Nil
  then show ?case by (simp add: gaps_def)
next
  case (Cons c cs)
  show ?case
  proof (cases "is_joker jp c")
    case True
    then show ?thesis by (simp add: Cons.IH)
  next
    case False
    then show ?thesis
      by (auto simp: Cons.IH suited_step_def Let_def gaps_def)
  qed
qed

lemma straight_scan_eq:
  "straight_scan jp cs None jc 0 tmp =
     (if successively suited_step (naturals jp cs)
      then Some (jc + int (length (jokers jp cs)), gaps (naturals jp cs), tmp @ naturals jp cs)
      else None)"
proof (induction cs arbitrary: jc tmp)
  case Nil
  then show ?case by (simp add: gaps_def)
next
  case (Cons c cs)
  then show ?case by (cases "is_joker jp c") (simp_all add: straight_scan_from)
qed

lemma straight_gaps_from:
  "straight_gaps cs (Some l) need =
     (if successively suited_step (l # cs) then Some (need + gaps (l # cs)) else None)"
proof (induction cs arbitrary: l need)
  case Nil
  then show ?case by (simp add: gaps_def)
next
  case (Cons c cs)
  then show ?case by (auto simp: suited_step_def Let_def gaps_def)
qed

lemma straight_gaps_eq:
  "straight_gaps cs None 0 = (if successively suited_step cs then Some (gaps cs) else None)"
  by (cases cs) (simp_all add: straight_gaps_from gaps_def)

text \<open>
  The second pass is reached only with a card in \<open>tempcards\<close>, so that \<open>tempcards.back()\<close> is defined.
\<close>

lemma straight_scan_nonempty:
  assumes "straight_scan jp cards None 0 0 [] = Some (jc, need, tmp)" "\<not> need \<le> jc"
  shows "tmp \<noteq> []"
  using assms by (auto simp: straight_scan_eq gaps_def split: if_splits)

lemma is_cards_straight_eq:
  "is_cards_straight cards jp \<longleftrightarrow> 3 \<le> length cards \<and> successively suited_step (naturals jp cards)
     \<and> (gaps (naturals jp cards) \<le> int (length (jokers jp cards))
        \<or> jp \<noteq> uint PA \<and> m_point (last (naturals jp cards)) = PA
          \<and> successively suited_step (sort (map ace_low (naturals jp cards)))
          \<and> gaps (sort (map ace_low (naturals jp cards))) \<le> int (length (jokers jp cards)))"
  by (auto simp: is_cards_straight_def straight_scan_eq straight_gaps_eq not_less split: if_splits)

subsection \<open>The rule of the game\<close>

text \<open>
  The cards fit into one window of \<open>n\<close> consecutive points, where \<open>pt\<close> gives the points.
\<close>

definition in_window :: "(poker_card \<Rightarrow> int) \<Rightarrow> nat \<Rightarrow> poker_card list \<Rightarrow> bool" where
  "in_window pt n cs \<longleftrightarrow> (\<exists>lo. \<forall>c \<in> set cs. lo \<le> pt c \<and> pt c < lo + int n)"

abbreviation high_point :: "poker_card \<Rightarrow> int" where
  "high_point c \<equiv> uint (m_point c)"

abbreviation low_point :: "poker_card \<Rightarrow> int" where
  "low_point c \<equiv> uint (m_point (ace_low c))"

definition one_colour :: "poker_card list \<Rightarrow> bool" where
  "one_colour cs \<longleftrightarrow> (\<exists>col. \<forall>c \<in> set cs. m_color c = col)"

lemma one_colour_code [code]: "one_colour cs \<longleftrightarrow> (\<forall>c \<in> set cs. m_color c = m_color (hd cs))"
  by (cases cs) (auto simp: one_colour_def)

definition same_suit_distinct :: "poker_card list \<Rightarrow> bool" where
  "same_suit_distinct cs \<longleftrightarrow> one_colour cs \<and> distinct cs"

lemma same_suit_distinct_mset: "mset xs = mset ys \<Longrightarrow> same_suit_distinct xs = same_suit_distinct ys"
  unfolding same_suit_distinct_def one_colour_def
  by (metis mset_eq_setD mset_eq_imp_distinct_iff)

lemma in_window_set: "set xs = set ys \<Longrightarrow> in_window pt n xs = in_window pt n ys"
  unfolding in_window_def by (simp only:)

text \<open>Along a sorted list of one colour, different neighbours make all cards different.\<close>

lemma successively_suited_iff:
  "sorted cs \<Longrightarrow> successively suited_step cs \<longleftrightarrow> same_suit_distinct cs"
proof (induction cs)
  case Nil
  then show ?case by (simp add: same_suit_distinct_def one_colour_def)
next
  case (Cons c cs)
  show ?case
  proof (cases cs)
    case Nil
    then show ?thesis by (simp add: same_suit_distinct_def one_colour_def)
  next
    case (Cons d ds)
    have IH: "successively suited_step cs \<longleftrightarrow> same_suit_distinct cs"
      using Cons.IH Cons.prems by simp
    have "suited_step c d \<longleftrightarrow> m_color c = m_color d \<and> c \<noteq> d"
      by (cases c; cases d) (auto simp: suited_step_def)
    moreover have "c \<in> set cs \<Longrightarrow> c = d"
    proof -
      assume "c \<in> set cs"
      then have "d \<le> c" using Cons.prems Cons by auto
      moreover have "c \<le> d" using Cons.prems Cons by simp
      ultimately show "c = d" by simp
    qed
    moreover have "one_colour (c # cs) \<longleftrightarrow> m_color c = m_color d \<and> one_colour cs"
      using Cons by (auto simp: one_colour_def)
    moreover have "successively suited_step (c # cs) \<longleftrightarrow> suited_step c d \<and> successively suited_step cs"
      using Cons by simp
    moreover have "d \<in> set cs" using Cons by simp
    ultimately show ?thesis
      using IH by (auto simp: same_suit_distinct_def)
  qed
qed

lemma sorted_bounds:
  assumes "sorted cs" "c \<in> set cs"
  shows "uint (m_point (hd cs)) \<le> uint (m_point c)" "uint (m_point c) \<le> uint (m_point (last cs))"
proof -
  have "hd cs \<le> c" using assms by (cases cs) auto
  then show "uint (m_point (hd cs)) \<le> uint (m_point c)"
    by (metis le_point word_le_def)
  have "c \<le> last cs"
    using assms by (cases cs rule: rev_cases) (auto simp: sorted_append)
  then show "uint (m_point c) \<le> uint (m_point (last cs))"
    by (metis le_point word_le_def)
qed

text \<open>For a sorted list, few gaps and a narrow window are the same.\<close>

lemma gaps_window:
  assumes "sorted cs"
  shows "gaps cs \<le> int j \<longleftrightarrow> in_window high_point (length cs + j) cs"
proof (cases cs)
  case Nil
  then show ?thesis by (simp add: gaps_def in_window_def)
next
  case (Cons c0 cs')
  then have ne: "cs \<noteq> []" by simp
  show ?thesis
  proof
    assume "gaps cs \<le> int j"
    then have "high_point (last cs) < high_point (hd cs) + int (length cs + j)"
      using ne by (simp add: gaps_def)
    then have "\<forall>c \<in> set cs. high_point (hd cs) \<le> high_point c \<and> high_point c < high_point (hd cs) + int (length cs + j)"
      using sorted_bounds [OF assms] by fastforce
    then show "in_window high_point (length cs + j) cs"
      unfolding in_window_def by blast
  next
    assume "in_window high_point (length cs + j) cs"
    then obtain lo where "lo \<le> high_point (hd cs)" "high_point (last cs) < lo + int (length cs + j)"
      using ne unfolding in_window_def by (meson hd_in_set last_in_set)
    then show "gaps cs \<le> int j" using ne by (simp add: gaps_def)
  qed
qed

subsection \<open>Aces counted low\<close>

text \<open>
  On a sorted list of different valid cards of one colour that ends with the ace, turning the ace
  into a one and sorting moves it to the front; otherwise nothing changes.
\<close>

lemma natural_points:
  assumes "is_valid_card c" "\<not> is_joker jp c"
  shows "2 \<le> uint (m_point c)" "uint (m_point c) \<le> 14"
proof -
  have "m_point c \<ge> P2" "m_point c \<le> PA"
    using assms by (auto simp: is_valid_card_def is_joker_def split: if_splits)
  then show "2 \<le> uint (m_point c)" "uint (m_point c) \<le> 14"
    by (simp_all add: word_le_def)
qed

lemma ace_low_inj:
  assumes "2 \<le> uint (m_point c)" "2 \<le> uint (m_point d)" "ace_low c = ace_low d"
  shows "c = d"
  using assms by (cases c; cases d) (auto simp: ace_low_def split: if_splits)

lemma ace_low_color [simp]: "m_color (ace_low c) = m_color c"
  by (simp add: ace_low_def)

lemma same_suit_ace_low:
  assumes "\<forall>c \<in> set cs. 2 \<le> uint (m_point c)"
  shows "same_suit_distinct (sort (map ace_low cs)) \<longleftrightarrow> same_suit_distinct cs"
proof -
  have "inj_on ace_low (set cs)"
    using assms by (auto intro!: inj_onI ace_low_inj)
  then have "distinct (map ace_low cs) \<longleftrightarrow> distinct cs"
    by (simp add: distinct_map)
  then show ?thesis
    by (simp add: same_suit_distinct_def one_colour_def)
qed

lemma gaps_low_window:
  "gaps (sort (map ace_low cs)) \<le> int j \<longleftrightarrow> in_window low_point (length cs + j) cs"
proof -
  have "gaps (sort (map ace_low cs)) \<le> int j \<longleftrightarrow>
      in_window high_point (length (sort (map ace_low cs)) + j) (sort (map ace_low cs))"
    by (rule gaps_window) simp
  also have "\<dots> \<longleftrightarrow> in_window low_point (length cs + j) cs"
    by (simp add: in_window_def)
  finally show ?thesis .
qed

text \<open>Without an ace at the end, counting aces low changes nothing.\<close>

lemma uint_numeral_PA: "uint PA = 14"
  by simp

lemma no_ace_low:
  assumes "sorted cs" "cs \<noteq> []" "m_point (last cs) \<noteq> PA" "\<forall>c \<in> set cs. uint (m_point c) \<le> 14" "c \<in> set cs"
  shows "ace_low c = c"
proof -
  have "uint (m_point (last cs)) \<le> 14" using assms by simp
  moreover have "uint (m_point (last cs)) \<noteq> 14"
    using assms(3) by (metis uint_eq_iff uint_numeral_PA)
  ultimately have "uint (m_point c) < 14"
    using sorted_bounds(2) [OF assms(1,5)] by linarith
  then have "m_point c \<noteq> PA" by auto
  then show ?thesis by (simp add: ace_low_def)
qed

lemma is_cards_straight_rule:
  assumes valid: "\<forall>c \<in> set cards. is_valid_card c"
  shows "is_cards_straight (sort cards) jp \<longleftrightarrow>
     3 \<le> length cards \<and> same_suit_distinct (naturals jp cards)
     \<and> (in_window high_point (length cards) (naturals jp cards)
        \<or> in_window low_point (length cards) (naturals jp cards))"
proof -
  let ?s = "naturals jp (sort cards)" and ?j = "length (jokers jp (sort cards))"
  have sorted: "sorted ?s" by (simp add: sorted_wrt_filter)
  have len: "length ?s + ?j = length cards"
    using sum_length_filter_compl [of "is_joker jp" "sort cards"] by simp
  have set: "set ?s = set (naturals jp cards)" by simp
  have ms: "mset ?s = mset (naturals jp cards)" by simp
  have pts: "\<forall>c \<in> set ?s. 2 \<le> uint (m_point c) \<and> uint (m_point c) \<le> 14"
    using valid natural_points by auto
  have suit: "successively suited_step ?s \<longleftrightarrow> same_suit_distinct (naturals jp cards)"
    using successively_suited_iff [OF sorted] same_suit_distinct_mset [OF ms] by simp
  have suit_low: "successively suited_step (sort (map ace_low ?s)) \<longleftrightarrow> same_suit_distinct (naturals jp cards)"
    using successively_suited_iff [of "sort (map ace_low ?s)"] same_suit_ace_low [of ?s] pts
      same_suit_distinct_mset [OF ms] by simp
  have high: "gaps ?s \<le> int ?j \<longleftrightarrow> in_window high_point (length cards) (naturals jp cards)"
    using gaps_window [OF sorted, of ?j] in_window_set [OF set] by (simp only: len)
  have low: "gaps (sort (map ace_low ?s)) \<le> int ?j \<longleftrightarrow> in_window low_point (length cards) (naturals jp cards)"
    using gaps_low_window [of ?s ?j] in_window_set [OF set] by (simp only: len)
  have noace: "jp = uint PA \<or> m_point (last ?s) \<noteq> PA \<Longrightarrow> in_window low_point (length cards) (naturals jp cards)
      \<Longrightarrow> in_window high_point (length cards) (naturals jp cards)"
  proof (cases "?s = []")
    case True
    then have "set (naturals jp cards) = {}" using set by simp
    then show ?thesis unfolding in_window_def by (simp only: ball_empty) simp
  next
    case False
    assume a: "jp = uint PA \<or> m_point (last ?s) \<noteq> PA" and w: "in_window low_point (length cards) (naturals jp cards)"
    have "last ?s \<in> set ?s" using False by (rule last_in_set)
    then have "jp = uint PA \<Longrightarrow> m_point (last ?s) \<noteq> PA"
      by (auto simp: is_joker_def)
    with a have "m_point (last ?s) \<noteq> PA" by blast
    then have "\<forall>c \<in> set ?s. ace_low c = c"
      using no_ace_low [OF sorted False] pts by blast
    with w show ?thesis unfolding in_window_def set by metis
  qed
  show ?thesis
    unfolding is_cards_straight_eq suit suit_low high low
    using noace by auto
qed

section \<open>Sets of one point\<close>

text \<open>The neighbours the loop compares: two cards in a row of which neither is a wild card.\<close>

definition kind_step :: "int \<Rightarrow> poker_card \<Rightarrow> poker_card \<Rightarrow> bool" where
  "kind_step jp a b \<longleftrightarrow> is_joker jp a \<or> is_joker jp b \<or> m_point a = m_point b \<and> m_color a \<noteq> m_color b"

lemma kind_loop_eq:
  "kind_loop jp l (is_joker jp l) n cs \<longleftrightarrow>
     successively (kind_step jp) (l # cs) \<and> 2 \<le> n + int (length (naturals jp cs))"
proof (induction cs arbitrary: l n)
  case Nil
  then show ?case by auto
next
  case (Cons c cs)
  show ?case
  proof (cases "is_joker jp c")
    case True
    then show ?thesis using Cons.IH [of c n] by (simp add: kind_step_def)
  next
    case False
    then show ?thesis
      using Cons.IH [of c "n + 1"] by (auto simp: kind_step_def)
  qed
qed

lemma is_cards_three_of_kind_eq:
  "is_cards_three_of_kind cs jp \<longleftrightarrow>
     3 \<le> length cs \<and> length cs \<le> 4 \<and> 2 \<le> length (naturals jp cs) \<and> successively (kind_step jp) cs"
proof (cases cs)
  case Nil
  then show ?thesis by (simp add: is_cards_three_of_kind_def)
next
  case (Cons c ds)
  have "is_cards_three_of_kind cs jp \<longleftrightarrow> \<not> (length cs < 3 \<or> length cs > 4)
      \<and> kind_loop jp c (is_joker jp c) (if is_joker jp c then 0 else 1) ds"
    by (simp add: is_cards_three_of_kind_def Cons Let_def)
  then show ?thesis
    unfolding kind_loop_eq by (auto simp: Cons)
qed

text \<open>One point, all colours different: the rule for the cards that are not wild.\<close>

definition one_point :: "poker_card list \<Rightarrow> bool" where
  "one_point cs \<longleftrightarrow> (\<exists>p. \<forall>c \<in> set cs. m_point c = p)"

lemma one_point_code [code]: "one_point cs \<longleftrightarrow> (\<forall>c \<in> set cs. m_point c = m_point (hd cs))"
  by (cases cs) (auto simp: one_point_def)

lemma kind_step_run:
  assumes "sorted cs" "\<forall>c \<in> set cs. \<not> is_joker jp c"
  shows "successively (kind_step jp) cs \<longleftrightarrow> one_point cs \<and> distinct cs"
  using assms
proof (induction cs)
  case Nil
  then show ?case by (simp add: one_point_def)
next
  case (Cons c cs)
  show ?case
  proof (cases cs)
    case Nil
    then show ?thesis by (simp add: one_point_def)
  next
    case (Cons d ds)
    have IH: "successively (kind_step jp) cs \<longleftrightarrow> one_point cs \<and> distinct cs"
      using Cons.IH Cons.prems by simp
    have "kind_step jp c d \<longleftrightarrow> m_point c = m_point d \<and> c \<noteq> d"
      using Cons.prems Cons by (cases c; cases d) (auto simp: kind_step_def)
    moreover have "c \<in> set cs \<Longrightarrow> c = d"
    proof -
      assume "c \<in> set cs"
      then have "d \<le> c" using Cons.prems Cons by auto
      moreover have "c \<le> d" using Cons.prems Cons by simp
      ultimately show "c = d" by simp
    qed
    moreover have "one_point (c # cs) \<longleftrightarrow> m_point c = m_point d \<and> one_point cs"
      using Cons by (auto simp: one_point_def)
    moreover have "successively (kind_step jp) (c # cs) \<longleftrightarrow> kind_step jp c d \<and> successively (kind_step jp) cs"
      using Cons by simp
    moreover have "d \<in> set cs" using Cons by simp
    ultimately show ?thesis using IH by auto
  qed
qed

lemma successively_kind_jokers:
  assumes "\<forall>c \<in> set js. is_joker jp c"
  shows "successively (kind_step jp) (cs @ js) \<longleftrightarrow> successively (kind_step jp) cs"
proof -
  have "successively (kind_step jp) js"
    using assms by (induction js rule: induct_list012) (auto simp: kind_step_def)
  moreover have "js \<noteq> [] \<Longrightarrow> kind_step jp (last cs) (hd js)"
    using assms by (simp add: kind_step_def)
  ultimately show ?thesis by (auto simp: successively_append_iff)
qed

text \<open>
  When no natural card of the wild point is among them, the wild cards of a sorted group are
  its printed jokers at the end, and the check is the rule of the game.
\<close>

lemma sorted_naturals_first:
  assumes "sorted cs" "\<forall>c \<in> set cs. uint (m_point c) \<noteq> jp"
  shows "cs = naturals jp cs @ jokers jp cs"
  using assms
proof (induction cs)
  case Nil
  then show ?case by simp
next
  case (Cons c cs)
  show ?case
  proof (cases "is_joker jp c")
    case True
    then have "m_point c \<ge> JOKER1" using Cons.prems by (simp add: is_joker_def)
    then have "\<forall>d \<in> set cs. is_joker jp d"
      using Cons.prems(1) le_point by (fastforce simp: is_joker_def)
    with True show ?thesis by (simp add: filter_empty_conv)
  next
    case False
    with Cons show ?thesis by simp
  qed
qed

lemma is_cards_three_of_kind_rule:
  assumes "\<forall>c \<in> set cards. uint (m_point c) \<noteq> jp"
  shows "is_cards_three_of_kind (sort cards) jp \<longleftrightarrow>
     3 \<le> length cards \<and> length cards \<le> 4 \<and> 2 \<le> length (naturals jp cards)
     \<and> one_point (naturals jp cards) \<and> distinct (naturals jp cards)"
proof -
  let ?n = "naturals jp (sort cards)" and ?j = "jokers jp (sort cards)"
  have "sort cards = ?n @ ?j"
    by (rule sorted_naturals_first) (use assms in simp_all)
  then have "successively (kind_step jp) (sort cards) \<longleftrightarrow> successively (kind_step jp) (?n @ ?j)"
    by simp
  also have "\<dots> \<longleftrightarrow> successively (kind_step jp) ?n"
    by (rule successively_kind_jokers) simp
  also have "\<dots> \<longleftrightarrow> one_point ?n \<and> distinct ?n"
    by (rule kind_step_run) (simp_all add: sorted_wrt_filter)
  also have "\<dots> \<longleftrightarrow> one_point (naturals jp cards) \<and> distinct (naturals jp cards)"
    using mset_eq_imp_distinct_iff [of ?n "naturals jp cards"] by (simp add: one_point_def)
  finally show ?thesis
    using mset_eq_length [of ?n "naturals jp cards"] by (simp add: is_cards_three_of_kind_eq)
qed

section \<open>Declarations\<close>

text \<open>A group the winning declaration accepts, and the two counters it keeps.\<close>

definition group_accepted :: "int \<Rightarrow> card_group \<Rightarrow> bool" where
  "group_accepted jp g \<longleftrightarrow> m_type g \<noteq> GROUP_INVALID
     \<and> (m_type g = GROUP_STAIGHT \<longrightarrow> is_cards_straight (sort (m_cards g)) jp)
     \<and> (m_type g = GROUP_THREE_KIND \<longrightarrow> is_cards_three_of_kind (sort (m_cards g)) jp)"

definition straights :: "card_group list \<Rightarrow> card_group list" where
  "straights gs = filter (\<lambda>g. m_type g = GROUP_STAIGHT) gs"

definition pure_straights :: "card_group list \<Rightarrow> card_group list" where
  "pure_straights gs = filter (\<lambda>g. is_cards_pure_straight (sort (m_cards g))) (straights gs)"

lemma declare_loop_eq:
  "declare_loop jp gs p s =
     (if \<forall>g \<in> set gs. group_accepted jp g
      then Some (p + int (length (pure_straights gs)), s + int (length (straights gs))) else None)"
  by (induction gs arbitrary: p s)
     (auto simp: group_accepted_def pure_straights_def straights_def Let_def)

lemma is_groups_declare_iff:
  "is_groups_declare gs jp \<longleftrightarrow>
     (\<forall>g \<in> set gs. group_accepted jp g) \<and> 1 \<le> length (pure_straights gs) \<and> 2 \<le> length (straights gs)"
  by (simp add: is_groups_declare_def declare_loop_eq not_less Suc_le_eq)

lemma lose_count_loop_eq:
  "lose_count_loop jp gs p s =
     (if \<forall>g \<in> set (straights gs). is_cards_straight (sort (m_cards g)) jp
      then Some (p + int (length (pure_straights gs)), s + int (length (straights gs))) else None)"
  by (induction gs arbitrary: p s) (auto simp: pure_straights_def straights_def Let_def)

text \<open>What the scoring loop requires of every group.\<close>

definition lose_group_accepted :: "int \<Rightarrow> int \<Rightarrow> int \<Rightarrow> card_group \<Rightarrow> bool" where
  "lose_group_accepted jp p s g \<longleftrightarrow>
     m_type g = GROUP_INVALID \<or> m_type g = GROUP_STAIGHT \<and> 1 \<le> p
     \<or> m_type g = GROUP_THREE_KIND \<and> 1 \<le> p \<and> 2 \<le> s \<and> is_cards_three_of_kind (sort (m_cards g)) jp"

definition invalid_cards :: "card_group list \<Rightarrow> poker_card list" where
  "invalid_cards gs = concat (map m_cards (filter (\<lambda>g. m_type g = GROUP_INVALID) gs))"

lemma lose_score_loop_ok:
  "fst (lose_score_loop jp p s gs sc) \<longleftrightarrow> (\<forall>g \<in> set gs. lose_group_accepted jp p s g)"
  by (induction gs arbitrary: sc) (auto simp: lose_group_accepted_def Let_def)

lemma lose_score_loop_score:
  "\<forall>g \<in> set gs. lose_group_accepted jp p s g \<Longrightarrow>
   snd (lose_score_loop jp p s gs sc) = sc + caculate_card_score (invalid_cards gs) jp"
proof (induction gs arbitrary: sc)
  case Nil
  then show ?case by (simp add: invalid_cards_def caculate_card_score_def)
next
  case (Cons g gs)
  have "caculate_card_score (sort (m_cards g)) jp = caculate_card_score (m_cards g) jp"
    by (rule caculate_card_score_mset) simp
  with Cons show ?case
    by (auto simp: lose_group_accepted_def invalid_cards_def caculate_card_score_append Let_def)
qed

end
