(* ===== verification/Card_Choices.thy ===== *)
theory Card_Choices
  imports Stars_Prelude "HOL-Library.Sublist"
begin

text \<open>
  The enumeration of all selections of \<open>n\<close> elements: the templates \<open>index_to_elem\<close> and
  \<open>caculate_all_choices\<close> of \<open>server/server/gamesvr/Combination.h\<close>. The C++ keeps a vector of
  0/1 flags, starts with the \<open>n\<close> ones in front, and repeatedly moves the first one that has a
  zero after it one place up while sorting the flags before it back to the front, restarting
  the scan (\<open>i = -1\<close>) after every move. The flags are \<open>bool\<close>s here; everything else is the
  code's loop. The main result is that this loop produces exactly the sub-sequences of length
  \<open>n\<close>, each selection once.
\<close>

section \<open>Operations\<close>

definition index_to_elem :: "'a list \<Rightarrow> bool list \<Rightarrow> 'a list \<Rightarrow> 'a list" where
  "index_to_elem vec_elem vec_index out_vec = out_vec @ map fst (filter snd (zip vec_elem vec_index))"

text \<open>\<open>swap(vec_index[i], vec_index[i+1])\<close>, then sort the flags before \<open>i\<close> in descending order.\<close>

definition move_flag :: "bool list \<Rightarrow> nat \<Rightarrow> bool list" where
  "move_flag v i =
     (let w = v[i := v ! Suc i, Suc i := v ! i] in rev (sort (take i w)) @ drop i w)"

text \<open>The number the flags stand for, lowest bit first; every move makes it larger.\<close>

fun flag_value :: "bool list \<Rightarrow> nat" where
  "flag_value [] = 0"
| "flag_value (b # v) = (if b then 1 else 0) + 2 * flag_value v"

lemma flag_value_append: "flag_value (u @ v) = flag_value u + 2 ^ length u * flag_value v"
  by (induction u) (auto simp: algebra_simps)

lemma flag_value_bound: "flag_value v < 2 ^ length v"
  by (induction v) auto

lemma move_flag_split:
  assumes "Suc i < length v" "v ! i" "\<not> v ! Suc i"
  shows "v = take i v @ [True, False] @ drop (Suc (Suc i)) v"
    and "move_flag v i = rev (sort (take i v)) @ [False, True] @ drop (Suc (Suc i)) v"
proof -
  show v: "v = take i v @ [True, False] @ drop (Suc (Suc i)) v"
    using id_take_nth_drop [of i v] Cons_nth_drop_Suc [of "Suc i" v] assms by simp
  let ?w = "v[i := v ! Suc i, Suc i := v ! i]"
  have t: "take i ?w = take i v" by simp
  have "drop i ?w = [False, True] @ drop (Suc (Suc i)) v"
    using assms by (simp add: Cons_nth_drop_Suc [symmetric] list_eq_iff_nth_eq nth_list_update)
  with t show "move_flag v i = rev (sort (take i v)) @ [False, True] @ drop (Suc (Suc i)) v"
    by (simp add: move_flag_def Let_def)
qed

lemma length_move_flag [simp]: "length (move_flag v i) = length v"
  by (simp add: move_flag_def Let_def)

lemma move_flag_increases:
  assumes "Suc i < length v" "v ! i" "\<not> v ! Suc i"
  shows "flag_value v < flag_value (move_flag v i)"
proof -
  have i: "i < length v" using assms by simp
  have "flag_value (take i v) < 2 ^ i"
    using flag_value_bound [of "take i v"] i by simp
  moreover have "flag_value v = flag_value (take i v @ [True, False] @ drop (Suc (Suc i)) v)"
    using move_flag_split(1) [OF assms] by simp
  ultimately show ?thesis
    using i by (simp add: move_flag_split(2) [OF assms] flag_value_append algebra_simps)
qed

text \<open>The scanning loop from position \<open>i\<close>: the flag vectors it goes through after \<open>v\<close>.\<close>

function choice_loop :: "bool list \<Rightarrow> nat \<Rightarrow> bool list list" where
  "choice_loop v i =
     (if Suc i < length v
      then (if v ! i \<and> \<not> v ! Suc i
            then move_flag v i # choice_loop (move_flag v i) 0
            else choice_loop v (Suc i))
      else [])"
  by pat_completeness auto
termination
proof (relation "measures [\<lambda>(v, i). 2 ^ length v - flag_value v, \<lambda>(v, i). length v - i]")
  fix v :: "bool list" and i
  assume a: "Suc i < length v" "v ! i \<and> \<not> v ! Suc i"
  then have "flag_value v < flag_value (move_flag v i)"
    by (simp add: move_flag_increases)
  moreover have "flag_value (move_flag v i) < 2 ^ length v"
    using flag_value_bound [of "move_flag v i"] by simp
  ultimately show "((move_flag v i, 0), (v, i)) \<in>
      measures [\<lambda>(v, i). 2 ^ length v - flag_value v, \<lambda>(v, i). length v - i]"
    by (simp add: diff_less_mono2)
qed auto

declare choice_loop.simps [simp del]

definition first_choice :: "nat \<Rightarrow> nat \<Rightarrow> bool list" where
  "first_choice m n = map (\<lambda>i. i < n) [0..<m]"

definition caculate_all_choices :: "'a list \<Rightarrow> nat \<Rightarrow> 'a list list \<Rightarrow> 'a list list" where
  "caculate_all_choices arr n all_combines =
     (if length arr < n then all_combines
      else let v = first_choice (length arr) n
           in all_combines @ map (\<lambda>w. index_to_elem arr w []) (v # choice_loop v 0))"

section \<open>The reference enumeration\<close>

text \<open>All flag vectors of length \<open>m\<close> with \<open>n\<close> flags set, by recursion on the last flag.\<close>

fun all_flags :: "nat \<Rightarrow> nat \<Rightarrow> bool list list" where
  "all_flags 0 n = (if n = 0 then [[]] else [])"
| "all_flags (Suc m) n =
     map (\<lambda>v. v @ [False]) (all_flags m n) @
     (if n = 0 then [] else map (\<lambda>v. v @ [True]) (all_flags m (n - 1)))"

lemma set_all_flags: "set (all_flags m n) = {v. length v = m \<and> count_list v True = n}"
proof (induction m arbitrary: n)
  case 0
  then show ?case by auto
next
  case (Suc m)
  have "v \<in> set (all_flags (Suc m) n) \<longleftrightarrow> length v = Suc m \<and> count_list v True = n" for v
    by (cases v rule: rev_cases) (auto simp: Suc)
  then show ?case by blast
qed

lemma length_all_flags: "length (all_flags m n) = m choose n"
proof (induction m arbitrary: n)
  case 0
  then show ?case by (cases n) auto
next
  case (Suc m)
  then show ?case by (cases n) auto
qed

lemma distinct_all_flags: "distinct (all_flags m n)"
  by (induction m arbitrary: n) (auto simp: distinct_map inj_on_def)

lemma all_flags_nonempty: "n \<le> m \<Longrightarrow> all_flags m n \<noteq> []"
  using length_all_flags [of m n] by (metis binomial_eq_0_iff length_0_conv linorder_not_less)

lemma all_flags_too_many: "m < n \<Longrightarrow> all_flags m n = []"
  using length_all_flags [of m n] by (metis binomial_eq_0_iff length_0_conv)

lemma last_all_flags:
  assumes "0 < n" "n \<le> m"
  shows "\<exists>u. last (all_flags m n) = u @ [True] \<and> length u = m - 1 \<and> count_list u True = n - 1"
proof -
  obtain m' where m: "m = Suc m'" using assms by (cases m) auto
  have "all_flags m' (n - 1) \<noteq> []" using assms m by (intro all_flags_nonempty) simp
  then have "last (all_flags m n) = last (all_flags m' (n - 1)) @ [True]"
    and "last (all_flags m' (n - 1)) \<in> set (all_flags m' (n - 1))"
    using assms m by (simp_all add: last_map)
  then show ?thesis using m by (auto simp: set_all_flags)
qed

section \<open>The loop is the reference enumeration\<close>

lemma first_choice_eq: "n \<le> m \<Longrightarrow> first_choice m n = replicate n True @ replicate (m - n) False"
  by (rule nth_equalityI) (auto simp: first_choice_def nth_append)

lemma first_choice_Suc: "n \<le> m \<Longrightarrow> first_choice (Suc m) n = first_choice m n @ [False]"
  by (simp add: first_choice_def)

lemma rev_sort_flags:
  "rev (sort u) = replicate (count_list u True) True @ replicate (length u - count_list u True) False"
proof -
  have c: "count_list u True \<le> length u" by (simp add: count_le_length)
  have "mset (replicate (length u - count_list u True) False @ replicate (count_list u True) True) = mset u"
  proof (rule multiset_eqI)
    fix b
    have "count_list u True + count_list u False = length u"
      by (induction u) auto
    then show "count (mset (replicate (length u - count_list u True) False @
        replicate (count_list u True) True)) b = count (mset u) b"
      by (cases b) (auto simp: count_mset)
  qed
  then have "sort u = replicate (length u - count_list u True) False @ replicate (count_list u True) True"
    by (intro properties_for_sort) (auto simp: sorted_append)
  then show ?thesis by simp
qed

text \<open>One more flag behind \<open>v\<close>: the loop first runs through \<open>v\<close>, then carries into the new flag.\<close>

definition carry_one :: "bool list \<Rightarrow> bool \<Rightarrow> bool list list" where
  "carry_one u b = (if last u \<and> \<not> b
                then let w = rev (sort (butlast u)) @ [False, True] in w # choice_loop w 0 else [])"

lemma choice_loop_snoc:
  assumes "i < length v"
  shows "choice_loop (v @ [b]) i = map (\<lambda>w. w @ [b]) (choice_loop v i) @ carry_one (last (v # choice_loop v i)) b"
  using assms
proof (induction v i rule: choice_loop.induct)
  case (1 v i)
  consider (move) "Suc i < length v" "v ! i" "\<not> v ! Suc i" | (skip) "Suc i < length v" "\<not> (v ! i \<and> \<not> v ! Suc i)"
    | (fin) "length v = Suc i"
    using 1(3) by linarith
  then show ?case
  proof cases
    case move
    have "move_flag (v @ [b]) i = move_flag v i @ [b]"
      using move by (simp add: move_flag_split(2) nth_append)
    moreover have "v \<noteq> []" using move by auto
    ultimately show ?thesis
      using move 1(1) by (auto simp: choice_loop.simps [of v i] choice_loop.simps [of "v @ [b]" i] nth_append)
  next
    case skip
    then show ?thesis
      using 1(2) by (auto simp: choice_loop.simps [of v i] choice_loop.simps [of "v @ [b]" i] nth_append)
  next
    case fin
    then obtain u c where v: "v = u @ [c]" and u: "length u = i"
      by (cases v rule: rev_cases) auto
    have "choice_loop (v @ [b]) (Suc i) = []"
      using fin by (simp add: choice_loop.simps [of "v @ [b]" "Suc i"])
    moreover have "c \<Longrightarrow> \<not> b \<Longrightarrow> move_flag (v @ [b]) i = rev (sort u) @ [False, True]"
      using fin v u move_flag_split(2) [of i "v @ [b]"] by (simp add: nth_append)
    moreover have "choice_loop v i = []"
      using fin by (simp add: choice_loop.simps [of v i])
    ultimately show ?thesis
      using fin v u choice_loop.simps [of "v @ [b]" i]
      by (cases "c \<and> \<not> b") (simp_all add: carry_one_def nth_append Let_def)
  qed
qed

lemma choice_loop_snoc_True: "v \<noteq> [] \<Longrightarrow> choice_loop (v @ [True]) 0 = map (\<lambda>w. w @ [True]) (choice_loop v 0)"
  by (simp add: choice_loop_snoc carry_one_def)

theorem choice_loop_all_flags: "n \<le> m \<Longrightarrow> first_choice m n # choice_loop (first_choice m n) 0 = all_flags m n"
proof (induction m arbitrary: n)
  case 0
  then show ?case by (simp add: first_choice_def choice_loop.simps)
next
  case (Suc m)
  show ?case
  proof (cases "m = 0")
    case True
    with Suc.prems show ?thesis
      by (cases n) (auto simp: first_choice_def choice_loop.simps [of _ 0])
  next
    case False
    have ne: "first_choice m k \<noteq> []" for k using False by (simp add: first_choice_def)
    show ?thesis
    proof (cases "n \<le> m")
      case le: True
      let ?v = "first_choice m n"
      have IH: "?v # choice_loop ?v 0 = all_flags m n" by (rule Suc.IH [OF le])
      have "choice_loop (?v @ [False]) 0 = map (\<lambda>w. w @ [False]) (choice_loop ?v 0) @ carry_one (last (all_flags m n)) False"
        using ne by (simp add: choice_loop_snoc IH [symmetric])
      moreover have "carry_one (last (all_flags m n)) False =
          (if n = 0 then [] else map (\<lambda>v. v @ [True]) (all_flags m (n - 1)))"
      proof (cases n)
        case 0
        have "last (all_flags m 0) \<in> set (all_flags m 0)"
          by (rule last_in_set [OF all_flags_nonempty]) simp
        then have "length (last (all_flags m 0)) = m" "count_list (last (all_flags m 0)) True = 0"
          by (auto simp: set_all_flags)
        then have "\<not> last (last (all_flags m 0))"
          using False by (metis count_list_0_iff last_in_set length_0_conv)
        with 0 show ?thesis by (simp add: carry_one_def)
      next
        case (Suc k)
        then obtain u where u: "last (all_flags m n) = u @ [True]" "length u = m - 1" "count_list u True = k"
          using last_all_flags [of n m] le by auto
        have k: "k \<le> m - 1" using le Suc by simp
        have "replicate (m - 1 - k) False @ [False] = replicate (m - k) False"
          using k False by (metis Suc_diff_le Suc_pred' neq0_conv replicate_Suc replicate_append_same)
        then have w: "rev (sort u) @ [False] = first_choice m k"
          using k u by (simp add: rev_sort_flags first_choice_eq)
        then have w2: "rev (sort u) @ [False, True] = first_choice m k @ [True]"
          by (metis append_Cons append_Nil append_assoc)
        have "carry_one (last (all_flags m n)) False = map (\<lambda>v. v @ [True]) (first_choice m k # choice_loop (first_choice m k) 0)"
          using ne choice_loop_snoc_True [of "first_choice m k"]
          by (simp add: carry_one_def u(1) Let_def w2)
        also have "\<dots> = map (\<lambda>v. v @ [True]) (all_flags m k)"
          using Suc.IH [of k] k by simp
        finally show ?thesis using Suc by simp
      qed
      ultimately have "first_choice (Suc m) n # choice_loop (first_choice (Suc m) n) 0 =
          map (\<lambda>w. w @ [False]) (?v # choice_loop ?v 0) @
          (if n = 0 then [] else map (\<lambda>v. v @ [True]) (all_flags m (n - 1)))"
        by (simp add: first_choice_Suc [OF le])
      then show ?thesis by (simp only: IH all_flags.simps)
    next
      case False
      with Suc.prems have n: "n = Suc m" by simp
      have "first_choice (Suc m) n = first_choice m m @ [True]"
        using n by (simp add: first_choice_def)
      then have "first_choice (Suc m) n # choice_loop (first_choice (Suc m) n) 0 =
          map (\<lambda>w. w @ [True]) (first_choice m m # choice_loop (first_choice m m) 0)"
        using ne by (simp add: choice_loop_snoc_True)
      also have "\<dots> = map (\<lambda>w. w @ [True]) (all_flags m m)"
        using Suc.IH [of m] by simp
      finally show ?thesis using n by (simp add: all_flags_too_many)
    qed
  qed
qed

section \<open>The choices are the sub-sequences\<close>

lemma index_to_elem_Cons [simp]:
  "index_to_elem (x # xs) (b # v) [] = (if b then x # index_to_elem xs v [] else index_to_elem xs v [])"
  by (simp add: index_to_elem_def)

lemma index_to_elem_Nil [simp]: "index_to_elem [] v [] = []"
  by (simp add: index_to_elem_def)

lemma index_to_elem_subseq:
  "length v = length xs \<Longrightarrow> subseq (index_to_elem xs v []) xs \<and> length (index_to_elem xs v []) = count_list v True"
proof (induction xs arbitrary: v)
  case Nil
  then show ?case by simp
next
  case (Cons x xs)
  then obtain b w where "v = b # w" by (cases v) auto
  with Cons show ?case by auto
qed

lemma subseq_index_to_elem:
  "subseq ys xs \<Longrightarrow> \<exists>v. length v = length xs \<and> count_list v True = length ys \<and> index_to_elem xs v [] = ys"
proof (induction rule: list_emb.induct)
  case (list_emb_Nil xs)
  have "index_to_elem xs (replicate (length xs) False) [] = []" by (induction xs) simp_all
  moreover have "count_list (replicate (length xs) False) True = 0" by (induction xs) simp_all
  ultimately show ?case by (intro exI [of _ "replicate (length xs) False"]) simp
next
  case (list_emb_Cons ys xs x)
  then obtain v where "length v = length xs" "count_list v True = length ys" "index_to_elem xs v [] = ys" by blast
  then show ?case by (intro exI [of _ "False # v"]) simp
next
  case (list_emb_Cons2 y x ys xs)
  then obtain v where "length v = length xs" "count_list v True = length ys" "index_to_elem xs v [] = ys" by blast
  with list_emb_Cons2 show ?case by (intro exI [of _ "True # v"]) simp
qed

lemma caculate_all_choices_eq:
  "caculate_all_choices arr n out = out @ map (\<lambda>v. index_to_elem arr v []) (all_flags (length arr) n)"
proof (cases "length arr < n")
  case True
  then show ?thesis by (simp add: caculate_all_choices_def all_flags_too_many)
next
  case False
  then have "first_choice (length arr) n # choice_loop (first_choice (length arr) n) 0 = all_flags (length arr) n"
    by (intro choice_loop_all_flags) simp
  with False show ?thesis by (simp only: caculate_all_choices_def Let_def if_False)
qed

lemma set_caculate_all_choices:
  "set (caculate_all_choices arr n []) = {ys. subseq ys arr \<and> length ys = n}"
proof -
  have "ys \<in> set (caculate_all_choices arr n []) \<longleftrightarrow>
      (\<exists>v. length v = length arr \<and> count_list v True = n \<and> index_to_elem arr v [] = ys)" for ys
    by (auto simp: caculate_all_choices_eq set_all_flags)
  moreover have "(\<exists>v. length v = length arr \<and> count_list v True = n \<and> index_to_elem arr v [] = ys)
      \<longleftrightarrow> subseq ys arr \<and> length ys = n" for ys
    using index_to_elem_subseq [of _ arr] subseq_index_to_elem [of ys arr] by blast
  ultimately show ?thesis by blast
qed

lemma length_caculate_all_choices: "length (caculate_all_choices arr n []) = length arr choose n"
  by (simp add: caculate_all_choices_eq length_all_flags)

lemma index_to_elem_inj:
  assumes "distinct arr" "length v = length arr" "length w = length arr"
    and "index_to_elem arr v [] = index_to_elem arr w []"
  shows "v = w"
  using assms
proof (induction arr arbitrary: v w)
  case Nil
  then show ?case by simp
next
  case (Cons x xs)
  then obtain b v' c w' where [simp]: "v = b # v'" "w = c # w'" by (cases v; cases w) auto
  have "x \<notin> set (index_to_elem xs v' [])" "x \<notin> set (index_to_elem xs w' [])"
    using Cons.prems index_to_elem_subseq [of v' xs] index_to_elem_subseq [of w' xs]
    by (auto dest: list_emb_set)
  then have "x # index_to_elem xs v' [] \<noteq> index_to_elem xs w' []"
    "index_to_elem xs v' [] \<noteq> x # index_to_elem xs w' []"
    by (metis list.set_intros(1))+
  with Cons show ?case by (cases b; cases c) auto
qed

lemma distinct_caculate_all_choices: "distinct arr \<Longrightarrow> distinct (caculate_all_choices arr n [])"
  by (auto simp: caculate_all_choices_eq distinct_map distinct_all_flags inj_on_def set_all_flags
      intro: index_to_elem_inj)

text \<open>What a client of the enumeration uses of a sub-sequence.\<close>

lemma subseq_mset: "subseq ys xs \<Longrightarrow> mset ys \<subseteq># mset xs"
  by (induction rule: list_emb.induct) (auto simp: subset_mset.le_supI1 intro: mset_subset_eq_mono_add_left_cancel subset_mset.order_trans)

lemma subseq_set: "subseq ys xs \<Longrightarrow> set ys \<subseteq> set xs"
  using subseq_mset set_mset_mono by fastforce

lemma subseq_distinct: "subseq ys xs \<Longrightarrow> distinct xs \<Longrightarrow> distinct ys"
  using mset_subset_eq_count [OF subseq_mset] unfolding distinct_iff_count_le_1 by (meson order_trans)

lemma subseq_sorted: "subseq ys xs \<Longrightarrow> sorted_wrt R xs \<Longrightarrow> sorted_wrt R ys"
  by (induction rule: list_emb.induct) (auto dest: list_emb_set)

end
