(* ===== verification/Card_Search.thy ===== *)
theory Card_Search
  imports Card_Rules Card_Choices
begin

text \<open>
  The searches of \<open>class Combination\<close> (\<open>server/server/gamesvr/Combination.cpp\<close>) for straights and
  for sets of one point in a hand. The object's fields are a record; a search appends the groups
  it finds to \<open>card_group\<close>. \<open>None\<close> is an \<open>assert\<close> that fails or a write past the array of
  \<open>MAX_CARD_COUNT\<close> cards.
\<close>

section \<open>Operations\<close>

definition MAX_CARD_COUNT :: nat where
  "MAX_CARD_COUNT = 14"

record combination =
  cb_joker_cards :: "poker_card list"            \<comment> \<open>\<open>m_joker_cards\<close>\<close>
  cb_joker_combines :: "poker_card list list"    \<comment> \<open>\<open>m_joker_combines\<close>\<close>
  cb_joker_point :: int                          \<comment> \<open>\<open>m_joker_point\<close>\<close>

definition search_joker_cards :: "combination \<Rightarrow> poker_card list \<Rightarrow> poker_card list \<Rightarrow> poker_card list" where
  "search_joker_cards cb all_cards joker_cards =
     fold (\<lambda>c js. if is_joker (cb_joker_point cb) c then js @ [c] else js) all_cards joker_cards"

definition select_card_combine :: "poker_card list \<Rightarrow> nat \<Rightarrow> poker_card list list \<Rightarrow> poker_card list list" where
  "select_card_combine all_cards select_n all_combines = caculate_all_choices all_cards select_n all_combines"

definition caculate_all_cards_combines ::
  "poker_card list \<Rightarrow> nat \<Rightarrow> nat \<Rightarrow> poker_card list list \<Rightarrow> poker_card list list" where
  "caculate_all_cards_combines all_cards min_select max_select out_combines =
     fold (\<lambda>i out. select_card_combine all_cards i out) [min_select..<Suc max_select] out_combines"

subsection \<open>Straights\<close>

fun fill_loop :: "poker_card \<Rightarrow> poker_card list \<Rightarrow> int \<Rightarrow> int" where
  "fill_loop it_last [] fill_num = fill_num"
| "fill_loop it_last (it # cs) fill_num =
     fill_loop it cs
       (if m_point it_last = PA then fill_num + (uint (m_point it) - 1 - 1)
        else fill_num + (uint (m_point it) - uint (m_point it_last) - 1))"

text \<open>The result is \<open>(min_num, max_num)\<close>.\<close>

definition to_straight_fill_joker_num :: "combination \<Rightarrow> poker_card list \<Rightarrow> (int \<times> int) option" where
  "to_straight_fill_joker_num cb cards =
     (case cards of
        [] \<Rightarrow> None
      | c # cs \<Rightarrow>
          (let fill0 = fill_loop c cs 0;
               joker_card_num = int (length (cb_joker_cards cb));
               total_num = int (length cards) + fill0;
               fill1 = (if total_num < 3 then fill0 + (3 - total_num) else fill0);
               fill_num = (if fill1 = 0 then 1 else fill1)
           in if fill_num > joker_card_num then Some (0, 0)
              else Some (fill_num, fill_num + (joker_card_num - fill_num))))"

definition combine_with_joker_card ::
  "combination \<Rightarrow> poker_card list \<Rightarrow> card_group list \<Rightarrow> card_group list option" where
  "combine_with_joker_card cb all_cards groups = do {
     (min_fill, max_fill) \<leftarrow> to_straight_fill_joker_num cb all_cards;
     if min_fill = 0 then Some groups
     else Some (fold (\<lambda>i gs.
            fold (\<lambda>j gs. if int (length j) \<noteq> i then gs
                          else gs @ [CardGroup GROUP_STAIGHT (sort (all_cards @ j))])
              (cb_joker_combines cb) gs)
          [min_fill..max_fill] groups)
   }"

text \<open>The body of the loop over the selections \<open>itHand\<close>.\<close>

definition straight_of_hand ::
  "combination \<Rightarrow> poker_card list \<Rightarrow> card_group list \<Rightarrow> card_group list option" where
  "straight_of_hand cb itHand groups = do {
     gs \<leftarrow> combine_with_joker_card cb itHand
            (if is_cards_pure_straight itHand then groups @ [CardGroup GROUP_STAIGHT itHand] else groups);
     if length itHand > 1 \<and> m_point (last itHand) = PA
     then combine_with_joker_card cb (last itHand # butlast itHand) gs
     else Some gs
   }"

definition search_straight_flush_select_n ::
  "combination \<Rightarrow> poker_card list \<Rightarrow> nat \<Rightarrow> card_group list \<Rightarrow> card_group list option" where
  "search_straight_flush_select_n cb all_cards select_n groups =
     (if \<not> (select_n \<ge> 1 \<and> select_n \<le> 14) then None
      else if length all_cards < select_n then Some groups
      else for_each (straight_of_hand cb) (select_card_combine all_cards select_n []) groups)"

definition search_straight_flush_i ::
  "combination \<Rightarrow> poker_card list \<Rightarrow> poker_card list \<Rightarrow> card_group list \<Rightarrow> card_group list option" where
  "search_straight_flush_i cb flush_cards reteat_card groups = do {
     gs \<leftarrow> for_each (\<lambda>i. search_straight_flush_select_n cb flush_cards i)
            [1..<Suc (length flush_cards + length (cb_joker_cards cb))] groups;
     Some (fold (\<lambda>i gs.
            fold (\<lambda>h gs. if is_cards_pure_straight h then gs @ [CardGroup GROUP_STAIGHT h] else gs)
              (select_card_combine reteat_card i []) gs)
          [1..<Suc (length reteat_card)] gs)
   }"

text \<open>\<open>std::map<TY_UINT8, vector>\<close> from colour to the cards of the colour, in the order of its keys.\<close>

definition flush_cards_of :: "poker_card list \<Rightarrow> poker_card list list" where
  "flush_cards_of all_cards =
     map (\<lambda>col. filter (\<lambda>c. m_color c = col) all_cards) (sort (remdups (map m_color all_cards)))"

text \<open>One card of the sorted colour goes to \<open>pop_cards\<close>, or to \<open>pop_repeat_cards\<close> when its point is there.\<close>

definition pop_step :: "int \<Rightarrow> poker_card \<Rightarrow> poker_card list \<times> poker_card list \<Rightarrow> poker_card list \<times> poker_card list" where
  "pop_step jp it = (\<lambda>(pop_cards, pop_repeat).
     if is_joker jp it then (pop_cards, pop_repeat)
     else if pop_cards = [] then (pop_cards @ [it], pop_repeat)
     else if m_point (last pop_cards) = m_point it then (pop_cards, pop_repeat @ [it])
     else (pop_cards @ [it], pop_repeat))"

definition search_straight_flush ::
  "combination \<Rightarrow> poker_card list \<Rightarrow> card_group list \<Rightarrow> card_group list option" where
  "search_straight_flush cb all_cards groups = do {
     gs \<leftarrow> for_each (\<lambda>colour gs.
              let (pop_cards, pop_repeat) = fold (pop_step (cb_joker_point cb)) (sort colour) ([], [])
              in search_straight_flush_i cb pop_cards pop_repeat gs)
            (flush_cards_of all_cards) groups;
     Some (fold (\<lambda>j gs. if length j < 3 then gs else gs @ [CardGroup GROUP_STAIGHT j])
            (cb_joker_combines cb) gs)
   }"

definition search_pure_straight_flush :: "card_group list \<Rightarrow> card_group list \<Rightarrow> card_group list" where
  "search_pure_straight_flush groups pure_group =
     fold (\<lambda>g pure. if is_cards_pure_straight (m_cards g) then pure @ [g] else pure) groups pure_group"

subsection \<open>Sets of one point\<close>

definition is_card_in_group :: "poker_card \<Rightarrow> poker_card list \<Rightarrow> bool" where
  "is_card_in_group c all_cards \<longleftrightarrow> c \<in> set all_cards"

definition kind_of_hand :: "combination \<Rightarrow> poker_card list \<Rightarrow> card_group list \<Rightarrow> card_group list" where
  "kind_of_hand cb itHand groups =
     fold (\<lambda>j gs. gs @ [CardGroup GROUP_THREE_KIND (itHand @ j)]) (cb_joker_combines cb)
       (if length itHand > 2 then groups @ [CardGroup GROUP_THREE_KIND itHand] else groups)"

definition search_three_of_kind_select_n ::
  "combination \<Rightarrow> poker_card list \<Rightarrow> nat \<Rightarrow> card_group list \<Rightarrow> card_group list option" where
  "search_three_of_kind_select_n cb all_cards select_n groups =
     (if \<not> (select_n \<ge> 2 \<and> select_n \<le> 4) then None
      else if length all_cards < select_n then Some groups
      else Some (fold (kind_of_hand cb) (select_card_combine all_cards select_n []) groups))"

definition search_three_of_kind_i ::
  "combination \<Rightarrow> poker_card list \<Rightarrow> poker_card list \<Rightarrow> card_group list \<Rightarrow> card_group list option" where
  "search_three_of_kind_i cb all_cards reteat_card groups = do {
     gs \<leftarrow> for_each (\<lambda>i. search_three_of_kind_select_n cb all_cards i) [2..<5] groups;
     Some (fold (\<lambda>i gs. fold (\<lambda>h gs. gs @ [CardGroup GROUP_THREE_KIND h])
                          (select_card_combine reteat_card i []) gs) [3..<5] gs)
   }"

text \<open>The \<open>while\<close> loop of \<open>search_three_of_kind\<close> over the sorted list \<open>left_cards\<close>.\<close>

fun kind_search_loop ::
  "combination \<Rightarrow> poker_card list \<Rightarrow> poker_card list \<Rightarrow> poker_card list \<Rightarrow> card_group list \<Rightarrow> card_group list option" where
  "kind_search_loop cb [] pop_cards pop_repeat groups =
     (if length pop_cards \<ge> 2 then search_three_of_kind_i cb pop_cards pop_repeat groups else Some groups)"
| "kind_search_loop cb (c # left_cards) pop_cards pop_repeat groups =
     (if (pop_cards = [] \<or> m_point (hd pop_cards) = m_point c) \<and> \<not> is_joker (cb_joker_point cb) c
      then (if is_card_in_group c pop_cards
            then kind_search_loop cb left_cards pop_cards (pop_repeat @ [c]) groups
            else kind_search_loop cb left_cards (pop_cards @ [c]) pop_repeat groups)
      else do {
        gs \<leftarrow> (if length pop_cards \<ge> 2 then search_three_of_kind_i cb pop_cards pop_repeat groups
               else Some groups);
        kind_search_loop cb left_cards [c] [] gs
      })"

definition search_three_of_kind ::
  "combination \<Rightarrow> poker_card list \<Rightarrow> card_group list \<Rightarrow> card_group list option" where
  "search_three_of_kind cb all_cards groups = kind_search_loop cb (sort all_cards) [] [] groups"

subsection \<open>Taking groups out of a hand\<close>

definition remove_cards :: "card_group \<Rightarrow> poker_card list \<Rightarrow> poker_card list" where
  "remove_cards one_group all_cards = fold remove1 (m_cards one_group) all_cards"

text \<open>Looking a group's cards up in the array \<open>arr_card\<close>; a card found is overwritten with zeros.\<close>

fun take_from_array :: "poker_card list \<Rightarrow> poker_card list \<Rightarrow> bool" where
  "take_from_array arr [] = True"
| "take_from_array arr (c # cs) =
     (if c \<in> set arr
      then take_from_array (arr[length (takeWhile (\<lambda>d. d \<noteq> c) arr) := no_card]) cs
      else False)"

definition remove_card_group ::
  "poker_card list \<Rightarrow> card_group list \<Rightarrow> card_group list \<Rightarrow> card_group list option" where
  "remove_card_group all_cards groups out_group =
     (if groups \<noteq> [] \<and> length all_cards > MAX_CARD_COUNT then None
      else Some (fold (\<lambda>g out.
             if take_from_array (all_cards @ replicate (MAX_CARD_COUNT - length all_cards) no_card) (m_cards g)
             then out @ [g] else out) groups out_group))"

definition gen_valid_card_group :: "combination \<Rightarrow> poker_card list \<Rightarrow> card_group \<times> int" where
  "gen_valid_card_group cb all_cards =
     (CardGroup GROUP_INVALID all_cards, caculate_card_score all_cards (cb_joker_point cb))"

section \<open>Hands and the groups found in them\<close>

text \<open>A hand of at most 14 cards of the double deck.\<close>

definition playable :: "poker_card list \<Rightarrow> bool" where
  "playable hand \<longleftrightarrow> length hand \<le> MAX_CARD_COUNT \<and> (\<forall>c \<in> set hand. is_valid_card c \<and> count_list hand c \<le> 2)"

definition group_in :: "poker_card list \<Rightarrow> card_group \<Rightarrow> bool" where
  "group_in hand g \<longleftrightarrow> mset (m_cards g) \<subseteq># mset hand \<and> 3 \<le> length (m_cards g)"

definition straight_in :: "int \<Rightarrow> poker_card list \<Rightarrow> card_group \<Rightarrow> bool" where
  "straight_in jp hand g \<longleftrightarrow> group_in hand g \<and> m_type g = GROUP_STAIGHT \<and> is_cards_straight (sort (m_cards g)) jp"

definition kind_in :: "int \<Rightarrow> poker_card list \<Rightarrow> card_group \<Rightarrow> bool" where
  "kind_in jp hand g \<longleftrightarrow> group_in hand g \<and> m_type g = GROUP_THREE_KIND
     \<and> one_point (naturals jp (m_cards g)) \<and> distinct (naturals jp (m_cards g)) \<and> 2 \<le> length (naturals jp (m_cards g))"

text \<open>The jokers the object remembers are those of the hand, with all their selections.\<close>

definition jokers_of :: "combination \<Rightarrow> poker_card list \<Rightarrow> bool" where
  "jokers_of cb hand \<longleftrightarrow>
     mset (cb_joker_cards cb) = mset (jokers (cb_joker_point cb) hand) \<and>
     cb_joker_combines cb = caculate_all_cards_combines (cb_joker_cards cb) 1 (length (cb_joker_cards cb)) []"

lemma playable_subset:
  assumes "playable hand" "mset cards \<subseteq># mset hand"
  shows "playable cards"
proof -
  have "length cards \<le> length hand" using assms(2) by (metis size_mset size_mset_mono)
  moreover have "count_list cards c \<le> count_list hand c" for c
    using assms(2) by (metis count_mset mset_subset_eq_count)
  moreover have "set cards \<subseteq> set hand" using assms(2) by (metis set_mset_mono set_mset_mset)
  ultimately show ?thesis
    using assms(1) unfolding playable_def by (meson order_trans subsetD)
qed

lemma playable_valid: "playable hand \<Longrightarrow> \<forall>c \<in> set hand. is_valid_card c"
  by (simp add: playable_def)

lemma hand_split: "mset (naturals jp hand) + mset (jokers jp hand) = mset hand"
  using mset_sort_filter_split [of "is_joker jp" hand] by (simp add: add.commute)

lemma search_joker_cards_eq: "search_joker_cards cb hand js = js @ jokers (cb_joker_point cb) hand"
  unfolding search_joker_cards_def by (induction hand arbitrary: js) auto

lemma set_combines_fold:
  "set (fold (\<lambda>i out. caculate_all_choices cs i out) is out) =
     set out \<union> {j. subseq j cs \<and> length j \<in> set is}"
proof (induction "is" arbitrary: out)
  case Nil
  then show ?case by simp
next
  case (Cons i "is")
  have "caculate_all_choices cs i out = out @ caculate_all_choices cs i []"
    by (simp add: caculate_all_choices_eq)
  then have "set (caculate_all_choices cs i out) = set out \<union> {j. subseq j cs \<and> length j = i}"
    by (simp add: set_caculate_all_choices)
  then show ?case by (auto simp: Cons.IH)
qed

lemma set_caculate_all_cards_combines:
  "set (caculate_all_cards_combines cs mn mx []) = {j. subseq j cs \<and> mn \<le> length j \<and> length j \<le> mx}"
  by (auto simp: caculate_all_cards_combines_def select_card_combine_def set_combines_fold)

lemma joker_combine:
  assumes "jokers_of cb hand" "j \<in> set (cb_joker_combines cb)"
  shows "j \<noteq> []" "mset j \<subseteq># mset (jokers (cb_joker_point cb) hand)"
proof -
  have j: "subseq j (cb_joker_cards cb)" "1 \<le> length j"
    using assms by (auto simp: jokers_of_def set_caculate_all_cards_combines)
  then show "j \<noteq> []" by auto
  show "mset j \<subseteq># mset (jokers (cb_joker_point cb) hand)"
    using subseq_mset [OF j(1)] assms(1) by (simp add: jokers_of_def)
qed

text \<open>What is pushed as a straight: natural cards of one colour that fit, filled with jokers.\<close>

lemma straight_inI:
  assumes play: "playable hand" and cs: "mset cs = mset h + mset j"
    and h: "mset h \<subseteq># mset (naturals jp hand)" and j: "mset j \<subseteq># mset (jokers jp hand)"
    and suit: "same_suit_distinct h" and len: "3 \<le> length h + length j"
    and win: "in_window high_point (length h + length j) h \<or> in_window low_point (length h + length j) h"
  shows "straight_in jp hand (CardGroup GROUP_STAIGHT cs)"
proof -
  have sub: "mset cs \<subseteq># mset hand"
    using cs subset_mset.add_mono [OF h j] by (simp add: hand_split)
  have setj: "\<forall>c \<in> set j. is_joker jp c"
    using set_mset_mono [OF j] by auto
  have seth: "\<forall>c \<in> set h. \<not> is_joker jp c"
    using set_mset_mono [OF h] by auto
  have "mset (naturals jp cs) = mset (naturals jp h) + mset (naturals jp j)"
    using cs by simp
  moreover have "naturals jp h = h" "naturals jp j = []"
    using seth setj by (auto simp: filter_id_conv filter_empty_conv)
  ultimately have ms: "mset (naturals jp cs) = mset h" by simp
  have lencs: "length cs = length h + length j" using cs by (metis size_mset size_union)
  have "is_cards_straight (sort cs) jp"
    using is_cards_straight_rule [OF playable_valid [OF playable_subset [OF play sub]], of jp]
      len win suit same_suit_distinct_mset [OF ms] in_window_set [OF mset_eq_setD [OF ms]]
    unfolding lencs by simp
  then show ?thesis
    using sub len lencs by (simp add: straight_in_def group_in_def)
qed

section \<open>Selections of natural cards\<close>

text \<open>A selection the search of straights makes: natural cards of one colour, in strict order.\<close>

definition suited_selection :: "int \<Rightarrow> poker_card list \<Rightarrow> poker_card list \<Rightarrow> bool" where
  "suited_selection jp hand h \<longleftrightarrow>
     mset h \<subseteq># mset (naturals jp hand) \<and> one_colour h \<and> sorted_wrt (<) h"

lemma suited_selection_suit: "suited_selection jp hand h \<Longrightarrow> same_suit_distinct h"
  using strict_sorted_iff [of h] by (simp add: suited_selection_def same_suit_distinct_def)

lemma suited_selection_sorted: "suited_selection jp hand h \<Longrightarrow> sorted h"
  using strict_sorted_iff [of h] by (simp add: suited_selection_def)

lemma suited_selection_points:
  assumes "playable hand" "suited_selection jp hand h" "c \<in> set h"
  shows "2 \<le> high_point c" "high_point c \<le> 14" "\<not> is_joker jp c"
proof -
  have "c \<in> set (naturals jp hand)"
    using assms(2,3) set_mset_mono [of "mset h" "mset (naturals jp hand)"] by (auto simp: suited_selection_def)
  then have "is_valid_card c" "\<not> is_joker jp c"
    using assms(1) by (auto simp: playable_def)
  then show "2 \<le> high_point c" "high_point c \<le> 14" "\<not> is_joker jp c"
    using natural_points by auto
qed

lemma suited_selection_subseq:
  assumes "suited_selection jp hand xs" "subseq h xs"
  shows "suited_selection jp hand h"
proof -
  have "mset h \<subseteq># mset (naturals jp hand)"
    using assms subseq_mset by (auto simp: suited_selection_def intro: subset_mset.order_trans)
  moreover have "one_colour h"
    using assms(1) subseq_set [OF assms(2)] by (auto simp: suited_selection_def one_colour_def)
  ultimately show ?thesis
    using assms subseq_sorted by (auto simp: suited_selection_def)
qed

text \<open>Points of one colour in strict order increase strictly.\<close>

lemma suited_selection_less:
  assumes "one_colour h" "sorted_wrt (<) h" "h = xs @ c # ys" "d \<in> set ys"
  shows "high_point c < high_point d"
proof -
  have "c < d" using assms by (auto simp: sorted_wrt_append)
  moreover have "m_color c = m_color d" using assms by (auto simp: one_colour_def)
  ultimately show ?thesis
    by (auto simp: less_poker_card_def card_less_def word_less_def split: if_splits)
qed

section \<open>Pure straights among the selections\<close>

lemma run_points: "is_run (c # cs) \<Longrightarrow> d \<in> set (c # cs) \<Longrightarrow>
    high_point c \<le> high_point d \<and> high_point d \<le> high_point c + int (length cs)"
proof (induction cs arbitrary: c d)
  case Nil
  then show ?case by simp
next
  case (Cons b cs)
  then have "next_in_run c b" "is_run (b # cs)" by simp_all
  then show ?case
    using Cons.IH [of b d] Cons.IH [of b b] Cons.prems(2)
    by (cases "d = c") (auto simp: next_in_run_def)
qed

lemma run_window: "is_run h \<Longrightarrow> in_window high_point (length h) h"
proof (cases h)
  case Nil
  then show ?thesis by (simp add: in_window_def)
next
  case (Cons c cs)
  assume "is_run h"
  then have "\<forall>d \<in> set h. high_point c \<le> high_point d \<and> high_point d < high_point c + int (length h)"
    using run_points [of c cs] Cons by fastforce
  then show ?thesis unfolding in_window_def by blast
qed

lemma ace_low_run_window:
  assumes "ace_low_run pre a"
  shows "in_window low_point (length (pre @ [a])) (pre @ [a])"
proof -
  obtain c cs where pre: "pre = c # cs" using assms by (cases pre) (simp_all add: ace_low_run_def)
  have "\<forall>d \<in> set (pre @ [a]). 1 \<le> low_point d \<and> low_point d < 1 + int (length (pre @ [a]))"
  proof
    fix d assume "d \<in> set (pre @ [a])"
    then consider "d = a" | "d \<in> set pre" by auto
    then show "1 \<le> low_point d \<and> low_point d < 1 + int (length (pre @ [a]))"
    proof cases
      case 1
      with assms show ?thesis by (simp add: ace_low_run_def ace_low_def)
    next
      case 2
      have "is_run (c # cs)" "high_point c = 2"
        using assms by (simp_all add: ace_low_run_def pre)
      then have "2 \<le> high_point d" "high_point d \<le> 2 + int (length cs)"
        using run_points [of c cs d] 2 pre by auto
      then show ?thesis by (simp add: ace_low_def pre)
    qed
  qed
  then show ?thesis unfolding in_window_def by blast
qed

lemma pure_straight_window:
  assumes "playable hand" "suited_selection jp hand h" "is_cards_pure_straight h"
  shows "in_window high_point (length h) h \<or> in_window low_point (length h) h"
proof -
  consider "is_run h" | pre a rest where "h = pre @ a # rest" "ace_low_run pre a"
    using assms(3) by (auto simp: is_cards_pure_straight_iff)
  then show ?thesis
  proof cases
    case 1
    then show ?thesis by (simp add: run_window)
  next
    case 2
    have "rest = []"
    proof (rule ccontr)
      assume "rest \<noteq> []"
      then have d: "hd rest \<in> set rest" by simp
      have "high_point a < high_point (hd rest)"
        using suited_selection_less [OF _ _ 2(1) d] assms(2) by (simp add: suited_selection_def)
      moreover have "high_point a = 14" using 2(2) by (simp add: ace_low_run_def)
      moreover have "high_point (hd rest) \<le> 14"
        using suited_selection_points(2) [OF assms(1,2)] 2(1) d by simp
      ultimately show False by simp
    qed
    with 2 ace_low_run_window show ?thesis by blast
  qed
qed

lemma pure_straight_in:
  assumes "playable hand" "suited_selection jp hand h" "is_cards_pure_straight h"
  shows "straight_in jp hand (CardGroup GROUP_STAIGHT h)"
proof (rule straight_inI [where h = h and j = "[]"])
  show "3 \<le> length h + length []" using assms(3) by (simp add: is_cards_pure_straight_iff)
qed (use assms pure_straight_window suited_selection_suit in \<open>auto simp: suited_selection_def\<close>)

section \<open>Filling gaps with jokers\<close>

lemma fill_loop_gaps:
  "\<forall>c \<in> set (butlast (l # cs)). m_point c \<noteq> PA \<Longrightarrow> fill_loop l cs f = f + gaps (l # cs)"
proof (induction cs arbitrary: l f)
  case Nil
  then show ?case by (simp add: gaps_def)
next
  case (Cons c cs)
  then show ?case by (auto simp: gaps_def)
qed

lemma fill_total: "\<exists>mn mx. to_straight_fill_joker_num cb (c # cs) = Some (mn, mx)"
  by (simp add: to_straight_fill_joker_num_def Let_def)

lemma fill_bounds:
  assumes "to_straight_fill_joker_num cb (c # cs) = Some (mn, mx)" "mn \<noteq> 0"
  shows "fill_loop c cs 0 \<le> mn" "3 \<le> int (length (c # cs)) + mn"
  using assms by (auto simp: to_straight_fill_joker_num_def Let_def split: if_splits)

lemma combine_with_joker_grows:
  assumes play: "playable hand" and jo: "jokers_of cb hand" and jp: "cb_joker_point cb = jp"
    and sel: "suited_selection jp hand h" and perm: "mset (c # cs) = mset h"
    and fits: "\<And>n. fill_loop c cs 0 \<le> int n \<Longrightarrow>
       in_window high_point (length h + n) h \<or> in_window low_point (length h + n) h"
    and gs: "grows (straight_in jp hand) gs0 gs"
  shows "\<exists>gs'. combine_with_joker_card cb (c # cs) gs = Some gs' \<and> grows (straight_in jp hand) gs0 gs'"
proof -
  obtain mn mx where fill: "to_straight_fill_joker_num cb (c # cs) = Some (mn, mx)"
    using fill_total by blast
  have push: "straight_in jp hand (CardGroup GROUP_STAIGHT (sort ((c # cs) @ j)))"
    if "mn \<noteq> 0" "int (length j) = i" "i \<in> set [mn..mx]" "j \<in> set (cb_joker_combines cb)" for i j
  proof (rule straight_inI [OF play, where h = h and j = j])
    show "mset (sort ((c # cs) @ j)) = mset h + mset j" using perm by simp
    show "mset j \<subseteq># mset (jokers jp hand)" using joker_combine(2) [OF jo that(4)] jp by simp
    have "length (c # cs) = length h" using perm by (metis size_mset)
    then show "3 \<le> length h + length j"
      using fill_bounds(2) [OF fill that(1)] that(2,3) by simp
    have "fill_loop c cs 0 \<le> int (length j)"
      using fill_bounds(1) [OF fill that(1)] that(2,3) by simp
    then show "in_window high_point (length h + length j) h \<or> in_window low_point (length h + length j) h"
      by (rule fits)
  qed (use sel suited_selection_suit in \<open>auto simp: suited_selection_def\<close>)
  show ?thesis
    using gs push by (auto simp: combine_with_joker_card_def fill intro!: grows_fold grows_push)
qed

text \<open>The two ways a selection is combined: in its order, and with a last ace moved to the front.\<close>

lemma fill_fits_high:
  assumes "playable hand" "suited_selection jp hand (c # cs)" "fill_loop c cs 0 \<le> int n"
  shows "in_window high_point (length (c # cs) + n) (c # cs)"
proof -
  have "m_point d \<noteq> PA" if "d \<in> set (butlast (c # cs))" for d
  proof -
    have "c # cs = butlast (c # cs) @ [last (c # cs)]" by simp
    moreover from split_list [OF that] obtain xs ys where "butlast (c # cs) = xs @ d # ys" by blast
    ultimately have eq: "c # cs = xs @ d # (ys @ [last (c # cs)])" by simp
    have "high_point d < high_point (last (c # cs))"
      by (rule suited_selection_less [OF _ _ eq]) (use assms(2) in \<open>auto simp: suited_selection_def\<close>)
    moreover have "high_point (last (c # cs)) \<le> 14"
      by (rule suited_selection_points(2) [OF assms(1,2)]) simp
    ultimately show ?thesis by auto
  qed
  then have "gaps (c # cs) \<le> int n"
    using fill_loop_gaps [of c cs 0] assms(3) by simp
  then show ?thesis
    using gaps_window [OF suited_selection_sorted [OF assms(2)]] by simp
qed

lemma fill_fits_low:
  assumes "playable hand" "suited_selection jp hand (h @ [a])" "h \<noteq> []" "m_point a = PA"
    and fill: "fill_loop a h 0 \<le> int n"
  shows "in_window low_point (length (h @ [a]) + n) (h @ [a])"
proof -
  obtain d ds where h: "h = d # ds" using assms(3) by (cases h) auto
  have lt: "high_point c < 14" if "c \<in> set h" for c
  proof -
    from split_list [OF that] obtain xs ys where "h = xs @ c # ys" by blast
    then have eq: "h @ [a] = xs @ c # (ys @ [a])" by simp
    have "high_point c < high_point a"
      by (rule suited_selection_less [OF _ _ eq]) (use assms(2) in \<open>auto simp: suited_selection_def\<close>)
    then show ?thesis by (simp add: assms(4))
  qed
  then have "\<forall>c \<in> set (butlast (d # ds)). m_point c \<noteq> PA"
    using h by (metis in_set_butlastD order_less_irrefl uint_numeral_PA)
  then have "fill_loop a h 0 = (high_point d - 2) + gaps h"
    using fill_loop_gaps [of d ds "high_point d - 2"] by (simp add: h assms(4))
  then have last: "high_point (last h) \<le> int (length (h @ [a]) + n)"
    using fill by (simp add: h gaps_def)
  have "sorted h"
    using suited_selection_sorted [OF assms(2)] by (simp add: sorted_append)
  then have "\<forall>c \<in> set (h @ [a]). 1 \<le> low_point c \<and> low_point c < 1 + int (length (h @ [a]) + n)"
  proof (intro ballI)
    fix c assume "c \<in> set (h @ [a])"
    then consider "c = a" | "c \<in> set h" by auto
    then show "1 \<le> low_point c \<and> low_point c < 1 + int (length (h @ [a]) + n)"
    proof cases
      case 1
      then show ?thesis by (simp add: ace_low_def assms(4))
    next
      case 2
      have "2 \<le> high_point c"
        by (rule suited_selection_points(1) [OF assms(1,2)]) (use 2 in simp)
      moreover have "m_point c \<noteq> PA" using lt [OF 2] by auto
      ultimately show ?thesis
        using sorted_bounds(2) [OF \<open>sorted h\<close> 2] last by (simp add: ace_low_def)
    qed
  qed
  then show ?thesis unfolding in_window_def by blast
qed

lemma straight_of_hand_grows:
  assumes play: "playable hand" and jo: "jokers_of cb hand" and jp: "cb_joker_point cb = jp"
    and sel: "suited_selection jp hand h" and ne: "h \<noteq> []"
    and gs: "grows (straight_in jp hand) gs0 gs"
  shows "\<exists>gs'. straight_of_hand cb h gs = Some gs' \<and> grows (straight_in jp hand) gs0 gs'"
proof -
  obtain c cs where h: "h = c # cs" using ne by (cases h) auto
  let ?gs = "if is_cards_pure_straight h then gs @ [CardGroup GROUP_STAIGHT h] else gs"
  have "grows (straight_in jp hand) gs0 ?gs"
    using gs pure_straight_in [OF play sel] by auto
  then have "\<exists>gs1. combine_with_joker_card cb (c # cs) ?gs = Some gs1 \<and> grows (straight_in jp hand) gs0 gs1"
    using fill_fits_high [OF play, of jp c cs] sel h
    by (intro combine_with_joker_grows [OF play jo jp sel]) auto
  then obtain gs1 where gs1: "combine_with_joker_card cb h ?gs = Some gs1" "grows (straight_in jp hand) gs0 gs1"
    using h by blast
  show ?thesis
  proof (cases "length h > 1 \<and> m_point (last h) = PA")
    case True
    have eq: "h = butlast h @ [last h]" using ne by simp
    have b: "butlast h \<noteq> []" using True by (cases h rule: rev_cases) auto
    have "\<exists>gs'. combine_with_joker_card cb (last h # butlast h) gs1 = Some gs' \<and> grows (straight_in jp hand) gs0 gs'"
    proof (rule combine_with_joker_grows [OF play jo jp sel])
      show "mset (last h # butlast h) = mset h" by (subst (3) eq) simp
      fix n assume "fill_loop (last h) (butlast h) 0 \<le> int n"
      then have "in_window low_point (length (butlast h @ [last h]) + n) (butlast h @ [last h])"
        by (intro fill_fits_low [OF play _ b, where jp = jp]) (use sel True ne in simp_all)
      then show "in_window high_point (length h + n) h \<or> in_window low_point (length h + n) h"
        using eq by simp
    qed (rule gs1(2))
    with True gs1(1) show ?thesis by (auto simp: straight_of_hand_def)
  next
    case False
    with gs1 show ?thesis by (auto simp: straight_of_hand_def)
  qed
qed

lemma straight_select_n_grows:
  assumes play: "playable hand" and jo: "jokers_of cb hand" and jp: "cb_joker_point cb = jp"
    and sel: "suited_selection jp hand xs" and n: "1 \<le> n" "n \<le> 14"
    and gs: "grows (straight_in jp hand) gs0 gs"
  shows "\<exists>gs'. search_straight_flush_select_n cb xs n gs = Some gs' \<and> grows (straight_in jp hand) gs0 gs'"
proof (cases "length xs < n")
  case True
  with n gs show ?thesis by (simp add: search_straight_flush_select_n_def)
next
  case False
  have "\<exists>gs'. for_each (straight_of_hand cb) (select_card_combine xs n []) gs = Some gs' \<and> grows (straight_in jp hand) gs0 gs'"
  proof (rule for_each_rule [where P = "grows (straight_in jp hand) gs0", OF gs])
    fix h s assume h: "h \<in> set (select_card_combine xs n [])" and s: "grows (straight_in jp hand) gs0 s"
    from h have "subseq h xs" "h \<noteq> []"
      using n by (auto simp: select_card_combine_def set_caculate_all_choices)
    then show "\<exists>s'. straight_of_hand cb h s = Some s' \<and> grows (straight_in jp hand) gs0 s'"
      using straight_of_hand_grows [OF play jo jp suited_selection_subseq [OF sel] _ s] by blast
  qed
  with n False show ?thesis by (simp add: search_straight_flush_select_n_def)
qed

section \<open>The search of straights\<close>

text \<open>The split of a sorted colour into \<open>pop_cards\<close> and \<open>pop_repeat_cards\<close>.\<close>

lemma pop_step_split:
  assumes "sorted xs" "one_colour xs" "fold (pop_step jp) xs ([], []) = (pop, rep)"
  shows "sorted_wrt (<) pop \<and> set pop = set (naturals jp xs) \<and> sorted rep
    \<and> mset pop + mset rep = mset (naturals jp xs)"
  using assms
proof (induction xs arbitrary: pop rep rule: rev_induct)
  case Nil
  then show ?case by simp
next
  case (snoc x xs)
  obtain pop' rep' where f: "fold (pop_step jp) xs ([], []) = (pop', rep')" by fastforce
  have "sorted xs" "one_colour xs" using snoc.prems by (auto simp: sorted_append one_colour_def)
  from snoc.IH [OF this f] have IH: "sorted_wrt (<) pop'" "set pop' = set (naturals jp xs)" "sorted rep'"
    "mset pop' + mset rep' = mset (naturals jp xs)" by auto
  have le: "\<forall>c \<in> set xs. c \<le> x" using snoc.prems(1) by (simp add: sorted_append)
  have rep_le: "\<forall>c \<in> set rep'. c \<le> x"
    using le IH(4) by (metis filter_is_subset mset_subset_eq_add_right set_mset_mono set_mset_mset subsetD)
  have step: "(pop, rep) = pop_step jp x (pop', rep')" using snoc.prems(3) f by simp
  consider "is_joker jp x" | "\<not> is_joker jp x" "pop' = []"
    | "\<not> is_joker jp x" "pop' \<noteq> []" "m_point (last pop') = m_point x"
    | "\<not> is_joker jp x" "pop' \<noteq> []" "m_point (last pop') \<noteq> m_point x" by blast
  then show ?case
  proof cases
    case 1
    with step IH show ?thesis by (simp add: pop_step_def)
  next
    case 2
    then have "naturals jp xs = []" using IH(2) by simp
    with 2 step IH show ?thesis by (simp add: pop_step_def)
  next
    case 3
    have l: "last pop' \<in> set xs" using 3(2) IH(2) last_in_set [of pop'] by auto
    then have "last pop' = x"
      using 3(3) snoc.prems(2) by (intro poker_card_eqI) (auto simp: one_colour_def)
    then have "x \<in> set (naturals jp xs)" using 3(2) IH(2) last_in_set [of pop'] by simp
    with 3 step IH rep_le show ?thesis by (auto simp: pop_step_def sorted_append)
  next
    case 4
    have "c < x" if "c \<in> set pop'" for c
    proof -
      have "c \<le> last pop'"
        using that IH(1) strict_sorted_iff [of pop'] by (cases pop' rule: rev_cases) (auto simp: sorted_append)
      moreover have "last pop' \<le> x" "last pop' \<noteq> x"
        using 4 le IH(2) last_in_set [of pop'] by auto
      ultimately show ?thesis by simp
    qed
    with 4 step IH show ?thesis by (auto simp: pop_step_def sorted_wrt_append)
  qed
qed

lemma one_colour_filter: "one_colour (sort (filter (\<lambda>c. m_color c = col) hand))"
  by (auto simp: one_colour_def)

text \<open>With two copies of a card at most, the repeated cards are a selection as well.\<close>

lemma pop_selections:
  assumes play: "playable hand"
    and pop: "fold (pop_step jp) (sort (filter (\<lambda>c. m_color c = col) hand)) ([], []) = (pop, rep)"
  shows "suited_selection jp hand pop" "suited_selection jp hand rep"
proof -
  let ?xs = "sort (filter (\<lambda>c. m_color c = col) hand)"
  have s: "sorted_wrt (<) pop" "set pop = set (naturals jp ?xs)" "sorted rep"
    "mset pop + mset rep = mset (naturals jp ?xs)"
    using pop_step_split [OF _ one_colour_filter pop] by auto
  have sub: "mset (naturals jp ?xs) \<subseteq># mset (naturals jp hand)"
    by (simp add: multiset_filter_mono)
  have col: "\<forall>c \<in> set (naturals jp ?xs). m_color c = col" by auto
  have mp: "mset pop \<subseteq># mset (naturals jp ?xs)" and mr: "mset rep \<subseteq># mset (naturals jp ?xs)"
    using s(4) by (metis mset_subset_eq_add_left, metis mset_subset_eq_add_right)
  have setr: "set rep \<subseteq> set (naturals jp ?xs)" using set_mset_mono [OF mr] by simp
  have "count (mset rep) c \<le> 1" for c
  proof (cases "c \<in> set rep")
    case True
    then have c: "c \<in> set pop" using setr s(2) by blast
    have "count (mset pop) c + count (mset rep) c = count (mset (naturals jp ?xs)) c"
      using s(4) by (metis count_union)
    also have "\<dots> \<le> count (mset hand) c" by simp
    also have "\<dots> \<le> 2"
      using play True setr by (auto simp: playable_def count_mset)
    finally have "count (mset pop) c + count (mset rep) c \<le> 2" .
    moreover have "0 < count (mset pop) c" using c by (simp only: count_greater_zero_iff set_mset_mset)
    ultimately show ?thesis by linarith
  next
    case False
    then have "count (mset rep) c = 0" by (simp only: count_eq_zero_iff set_mset_mset not_False_eq_True)
    then show ?thesis by linarith
  qed
  then have "distinct rep" by (simp add: distinct_iff_count_le_1)
  then have "sorted_wrt (<) rep" using s(3) by (simp add: strict_sorted_iff)
  moreover have "one_colour pop" "one_colour rep"
    using col s(2) setr unfolding one_colour_def by blast+
  ultimately show "suited_selection jp hand pop" "suited_selection jp hand rep"
    using s(1) subset_mset.order_trans [OF mp sub] subset_mset.order_trans [OF mr sub]
    unfolding suited_selection_def by blast+
qed

lemma selection_with_jokers_length:
  assumes "playable hand" "jokers_of cb hand" "suited_selection (cb_joker_point cb) hand xs"
  shows "length xs + length (cb_joker_cards cb) \<le> 14"
proof -
  let ?jp = "cb_joker_point cb"
  have "size (mset xs) \<le> size (mset (naturals ?jp hand))"
    using assms(3) by (intro size_mset_mono) (simp add: suited_selection_def)
  moreover have "size (mset (cb_joker_cards cb)) = size (mset (jokers ?jp hand))"
    using assms(2) by (simp only: jokers_of_def)
  moreover have "size (mset (naturals ?jp hand)) + size (mset (jokers ?jp hand)) = size (mset hand)"
    by (metis hand_split size_union)
  ultimately show ?thesis
    using assms(1) by (simp add: playable_def MAX_CARD_COUNT_def)
qed

lemma straight_flush_i_grows:
  assumes play: "playable hand" and jo: "jokers_of cb hand" and jp: "cb_joker_point cb = jp"
    and pop: "suited_selection jp hand pop" and rep: "suited_selection jp hand rep"
    and gs: "grows (straight_in jp hand) gs0 gs"
  shows "\<exists>gs'. search_straight_flush_i cb pop rep gs = Some gs' \<and> grows (straight_in jp hand) gs0 gs'"
proof -
  have le: "length pop + length (cb_joker_cards cb) \<le> 14"
    using selection_with_jokers_length [OF play jo] pop jp by simp
  have "\<exists>gs'. for_each (\<lambda>i. search_straight_flush_select_n cb pop i)
           [1..<Suc (length pop + length (cb_joker_cards cb))] gs = Some gs' \<and> grows (straight_in jp hand) gs0 gs'"
  proof (rule for_each_rule [where P = "grows (straight_in jp hand) gs0", OF gs])
    fix i s assume i: "i \<in> set [1..<Suc (length pop + length (cb_joker_cards cb))]"
      and s: "grows (straight_in jp hand) gs0 s"
    from i have "1 \<le> i" "i \<le> 14" using le by auto
    then show "\<exists>s'. search_straight_flush_select_n cb pop i s = Some s' \<and> grows (straight_in jp hand) gs0 s'"
      by (rule straight_select_n_grows [OF play jo jp pop _ _ s])
  qed
  then obtain gs1 where gs1: "for_each (\<lambda>i. search_straight_flush_select_n cb pop i)
           [1..<Suc (length pop + length (cb_joker_cards cb))] gs = Some gs1" "grows (straight_in jp hand) gs0 gs1"
    by blast
  have push: "straight_in jp hand (CardGroup GROUP_STAIGHT h)"
    if "h \<in> set (select_card_combine rep i [])" "is_cards_pure_straight h" for h i
    using that pure_straight_in [OF play suited_selection_subseq [OF rep]]
    by (simp add: select_card_combine_def set_caculate_all_choices)
  have "grows (straight_in jp hand) gs0
     (fold (\<lambda>i gs. fold (\<lambda>h gs. if is_cards_pure_straight h then gs @ [CardGroup GROUP_STAIGHT h] else gs)
              (select_card_combine rep i []) gs) [1..<Suc (length rep)] gs1)"
    by (intro grows_fold gs1(2)) (auto intro: push)
  with gs1(1) show ?thesis
    unfolding search_straight_flush_i_def by simp
qed

lemma joker_straight_in:
  assumes "playable hand" "jokers_of cb hand" "j \<in> set (cb_joker_combines cb)" "3 \<le> length j"
  shows "straight_in (cb_joker_point cb) hand (CardGroup GROUP_STAIGHT j)"
  by (rule straight_inI [where h = "[]" and j = j])
    (use assms joker_combine(2) in \<open>auto simp: same_suit_distinct_def one_colour_def in_window_def\<close>)

lemma search_straight_flush_grows:
  assumes play: "playable hand" and jo: "jokers_of cb hand" and jp: "cb_joker_point cb = jp"
  shows "\<exists>gs'. search_straight_flush cb hand gs = Some gs' \<and> grows (straight_in jp hand) gs gs'"
proof -
  let ?f = "\<lambda>colour gs. let (pop_cards, pop_repeat) = fold (pop_step (cb_joker_point cb)) (sort colour) ([], [])
              in search_straight_flush_i cb pop_cards pop_repeat gs"
  have "\<exists>gs'. for_each ?f (flush_cards_of hand) gs = Some gs' \<and> grows (straight_in jp hand) gs gs'"
  proof (rule for_each_rule [where P = "grows (straight_in jp hand) gs", OF grows_refl])
    fix colour s assume colour: "colour \<in> set (flush_cards_of hand)" and s: "grows (straight_in jp hand) gs s"
    obtain col where col: "colour = filter (\<lambda>c. m_color c = col) hand"
      using colour by (auto simp: flush_cards_of_def)
    obtain pop rep where f: "fold (pop_step jp) (sort colour) ([], []) = (pop, rep)" by fastforce
    show "\<exists>s'. ?f colour s = Some s' \<and> grows (straight_in jp hand) gs s'"
      using straight_flush_i_grows [OF play jo jp pop_selections [OF play f [unfolded col]] s]
      by (simp add: f jp)
  qed
  then obtain gs1 where gs1: "for_each ?f (flush_cards_of hand) gs = Some gs1" "grows (straight_in jp hand) gs gs1"
    by blast
  have "grows (straight_in jp hand) gs
     (fold (\<lambda>j gs. if length j < 3 then gs else gs @ [CardGroup GROUP_STAIGHT j]) (cb_joker_combines cb) gs1)"
    using joker_straight_in [OF play jo] by (intro grows_fold gs1(2)) (auto simp: jp)
  with gs1(1) show ?thesis
    unfolding search_straight_flush_def by simp
qed

lemma search_pure_straight_flush_eq:
  "search_pure_straight_flush gs pure = pure @ filter (\<lambda>g. is_cards_pure_straight (m_cards g)) gs"
  unfolding search_pure_straight_flush_def by (induction gs arbitrary: pure) auto

section \<open>The search of sets\<close>

text \<open>A selection of the search of sets: different natural cards of one point.\<close>

definition point_selection :: "int \<Rightarrow> poker_card list \<Rightarrow> poker_card list \<Rightarrow> bool" where
  "point_selection jp hand h \<longleftrightarrow> mset h \<subseteq># mset (naturals jp hand) \<and> one_point h \<and> distinct h"

lemma point_selection_subseq:
  assumes "point_selection jp hand xs" "subseq h xs"
  shows "point_selection jp hand h"
  using assms subseq_mset [OF assms(2)] subseq_set [OF assms(2)] subseq_distinct [OF assms(2)]
  unfolding point_selection_def one_point_def by (meson subset_mset.order_trans subsetD)

lemma kind_inI:
  assumes h: "point_selection jp hand h" "2 \<le> length h" and j: "mset j \<subseteq># mset (jokers jp hand)"
    and len: "3 \<le> length h + length j"
  shows "kind_in jp hand (CardGroup GROUP_THREE_KIND (h @ j))"
proof -
  have sub: "mset h \<subseteq># mset (naturals jp hand)" using h(1) by (simp add: point_selection_def)
  have "naturals jp h = h" "naturals jp j = []"
    using set_mset_mono [OF sub] set_mset_mono [OF j] by (auto simp: filter_id_conv filter_empty_conv)
  then have nat: "naturals jp (h @ j) = h" by simp
  have "mset (h @ j) \<subseteq># mset hand"
    using subset_mset.add_mono [OF sub j] by (simp add: hand_split)
  with nat h len show ?thesis
    by (simp add: kind_in_def group_in_def point_selection_def)
qed

lemma kind_of_hand_grows:
  assumes jo: "jokers_of cb hand" and jp: "cb_joker_point cb = jp"
    and h: "point_selection jp hand h" "2 \<le> length h" and gs: "grows (kind_in jp hand) gs0 gs"
  shows "grows (kind_in jp hand) gs0 (kind_of_hand cb h gs)"
proof -
  have "kind_in jp hand (CardGroup GROUP_THREE_KIND h)" if "2 < length h"
    using kind_inI [OF h, of "[]"] that by simp
  moreover have "kind_in jp hand (CardGroup GROUP_THREE_KIND (h @ j))" if "j \<in> set (cb_joker_combines cb)" for j
  proof -
    have "mset j \<subseteq># mset (jokers jp hand)" "j \<noteq> []" using joker_combine [OF jo that] jp by auto
    moreover have "0 < length j" using \<open>j \<noteq> []\<close> by simp
    ultimately show ?thesis using h(2) by (intro kind_inI [OF h]) linarith+
  qed
  ultimately show ?thesis
    unfolding kind_of_hand_def using gs by (intro grows_fold) auto
qed

lemma three_of_kind_select_n_grows:
  assumes jo: "jokers_of cb hand" and jp: "cb_joker_point cb = jp"
    and xs: "point_selection jp hand xs" and n: "2 \<le> n" "n \<le> 4" and gs: "grows (kind_in jp hand) gs0 gs"
  shows "\<exists>gs'. search_three_of_kind_select_n cb xs n gs = Some gs' \<and> grows (kind_in jp hand) gs0 gs'"
proof -
  have "grows (kind_in jp hand) gs0 (fold (kind_of_hand cb) (select_card_combine xs n []) gs)"
  proof (intro grows_fold gs)
    fix h s assume "h \<in> set (select_card_combine xs n [])" and s: "grows (kind_in jp hand) gs0 s"
    then have "subseq h xs" "length h = n"
      by (auto simp: select_card_combine_def set_caculate_all_choices)
    then show "grows (kind_in jp hand) gs0 (kind_of_hand cb h s)"
      using n by (intro kind_of_hand_grows [OF jo jp point_selection_subseq [OF xs] _ s]) auto
  qed
  with n gs show ?thesis by (simp add: search_three_of_kind_select_n_def)
qed

lemma three_of_kind_i_grows:
  assumes jo: "jokers_of cb hand" and jp: "cb_joker_point cb = jp"
    and pop: "point_selection jp hand pop" and rep: "point_selection jp hand rep"
    and gs: "grows (kind_in jp hand) gs0 gs"
  shows "\<exists>gs'. search_three_of_kind_i cb pop rep gs = Some gs' \<and> grows (kind_in jp hand) gs0 gs'"
proof -
  have "\<exists>gs'. for_each (\<lambda>i. search_three_of_kind_select_n cb pop i) [2..<5] gs = Some gs' \<and> grows (kind_in jp hand) gs0 gs'"
    by (rule for_each_rule [where P = "grows (kind_in jp hand) gs0", OF gs])
      (rule three_of_kind_select_n_grows [OF jo jp pop], auto)
  then obtain gs1 where gs1: "for_each (\<lambda>i. search_three_of_kind_select_n cb pop i) [2..<5] gs = Some gs1"
    "grows (kind_in jp hand) gs0 gs1" by blast
  have push: "kind_in jp hand (CardGroup GROUP_THREE_KIND h)"
    if "h \<in> set (select_card_combine rep i [])" "i \<in> set [3..<5]" for h i
  proof -
    have "subseq h rep" "length h = i"
      using that(1) by (auto simp: select_card_combine_def set_caculate_all_choices)
    then show ?thesis
      using kind_inI [OF point_selection_subseq [OF rep], of h "[]"] that(2) by auto
  qed
  have "grows (kind_in jp hand) gs0 (fold (\<lambda>i gs. fold (\<lambda>h gs. gs @ [CardGroup GROUP_THREE_KIND h])
                          (select_card_combine rep i []) gs) [3..<5] gs1)"
    by (intro grows_fold gs1(2)) (assumption, rule grows_push, assumption, rule push)
  with gs1(1) show ?thesis unfolding search_three_of_kind_i_def by simp
qed

text \<open>The state of the \<open>while\<close> loop: the cards popped and those left are cards of the hand.\<close>

definition kind_loop_inv ::
  "int \<Rightarrow> poker_card list \<Rightarrow> poker_card list \<Rightarrow> poker_card list \<Rightarrow> poker_card list \<Rightarrow> bool" where
  "kind_loop_inv jp hand left pop rep \<longleftrightarrow>
     mset pop + mset rep + mset left \<subseteq># mset hand \<and> set rep \<subseteq> set pop \<and> distinct pop \<and> distinct rep \<and>
     one_point pop \<and> (rep = [] \<and> length pop = 1 \<or> (\<forall>c \<in> set pop. \<not> is_joker jp c))"

lemma kind_loop_selections:
  assumes inv: "kind_loop_inv jp hand left pop rep" and len: "2 \<le> length pop"
  shows "point_selection jp hand pop" "point_selection jp hand rep"
proof -
  have nat: "naturals jp pop = pop" "naturals jp rep = rep"
    using inv len unfolding kind_loop_inv_def by (auto simp: filter_id_conv subset_iff)
  have sub: "mset pop + mset rep \<subseteq># mset hand"
    using inv unfolding kind_loop_inv_def by (metis mset_subset_eq_add_left subset_mset.order_trans)
  have "mset pop \<subseteq># mset hand" "mset rep \<subseteq># mset hand"
    using subset_mset.order_trans [OF mset_subset_eq_add_left sub]
      subset_mset.order_trans [OF mset_subset_eq_add_right sub] by blast+
  then have "mset (naturals jp pop) \<subseteq># mset (naturals jp hand)" "mset (naturals jp rep) \<subseteq># mset (naturals jp hand)"
    by (simp_all add: multiset_filter_mono)
  moreover have "one_point rep"
    using inv unfolding kind_loop_inv_def one_point_def by blast
  ultimately show "point_selection jp hand pop" "point_selection jp hand rep"
    using inv unfolding nat kind_loop_inv_def point_selection_def by blast+
qed

lemma kind_loop_step_same:
  assumes play: "playable hand" and inv: "kind_loop_inv jp hand (c # left) pop rep"
    and same: "pop = [] \<or> m_point (hd pop) = m_point c" and nat: "\<not> is_joker jp c"
  shows "c \<in> set pop \<Longrightarrow> kind_loop_inv jp hand left pop (rep @ [c])"
    and "c \<notin> set pop \<Longrightarrow> kind_loop_inv jp hand left (pop @ [c]) rep"
proof -
  have sub: "mset pop + mset rep + mset (c # left) \<subseteq># mset hand"
    using inv unfolding kind_loop_inv_def by blast
  have pt: "m_point d = m_point c" if "d \<in> set pop" for d
  proof -
    have "m_point d = m_point (hd pop)"
      using inv that hd_in_set [of pop] unfolding kind_loop_inv_def one_point_def by fastforce
    then show ?thesis using same that by auto
  qed
  have "is_joker jp d \<longleftrightarrow> is_joker jp c" if "d \<in> set pop" for d
    using pt [OF that] by (simp add: is_joker_def)
  then have natp: "\<forall>d \<in> set pop. \<not> is_joker jp d" using nat by blast
  { assume c: "c \<in> set pop"
    have "c \<notin> set rep"
    proof
      assume "c \<in> set rep"
      then have "1 \<le> count (mset rep) c" "1 \<le> count (mset pop) c" using c by (simp_all add: Suc_le_eq)
      then have "3 \<le> count (mset pop + mset rep + mset (c # left)) c"
        unfolding count_union mset.simps count_add_mset if_P [OF refl] by linarith
      also have "\<dots> \<le> count (mset hand) c" by (rule mset_subset_eq_count [OF sub])
      also have "\<dots> \<le> 2"
        using play by (cases "c \<in> set hand") (auto simp: playable_def count_mset count_list_0_iff)
      finally show False by simp
    qed
    then show "kind_loop_inv jp hand left pop (rep @ [c])"
      using inv c natp sub unfolding kind_loop_inv_def by (auto simp: ac_simps) }
  { assume c: "c \<notin> set pop"
    have "one_point (pop @ [c])" using pt unfolding one_point_def by auto
    then show "kind_loop_inv jp hand left (pop @ [c]) rep"
      using inv c natp nat sub unfolding kind_loop_inv_def by (auto simp: ac_simps) }
qed

lemma kind_loop_step_new:
  assumes "kind_loop_inv jp hand (c # left) pop rep"
  shows "kind_loop_inv jp hand left [c] []"
proof -
  have "mset (c # left) \<subseteq># mset hand"
    using assms unfolding kind_loop_inv_def by (metis mset_subset_eq_add_right subset_mset.order_trans)
  then show ?thesis by (simp add: kind_loop_inv_def one_point_def)
qed

lemma kind_search_loop_grows:
  assumes play: "playable hand" and jo: "jokers_of cb hand" and jp: "cb_joker_point cb = jp"
    and "kind_loop_inv jp hand left pop rep" and "grows (kind_in jp hand) gs0 gs"
  shows "\<exists>gs'. kind_search_loop cb left pop rep gs = Some gs' \<and> grows (kind_in jp hand) gs0 gs'"
proof -
  have found: "\<exists>gs'. (if length pop \<ge> 2 then search_three_of_kind_i cb pop rep gs else Some gs) = Some gs'
      \<and> grows (kind_in jp hand) gs0 gs'"
    if "kind_loop_inv jp hand left pop rep" "grows (kind_in jp hand) gs0 gs" for left pop rep gs
    using that(2) three_of_kind_i_grows [OF jo jp kind_loop_selections [OF that(1)]] by auto
  show ?thesis using assms(4,5)
  proof (induction left arbitrary: pop rep gs)
    case Nil
    then show ?case using found by simp
  next
    case (Cons c left)
    show ?case
    proof (cases "(pop = [] \<or> m_point (hd pop) = m_point c) \<and> \<not> is_joker jp c")
      case True
      then show ?thesis
        using Cons.IH [OF kind_loop_step_same(1) [OF play Cons.prems(1)] Cons.prems(2)]
          Cons.IH [OF kind_loop_step_same(2) [OF play Cons.prems(1)] Cons.prems(2)]
        by (cases "c \<in> set pop") (simp_all add: jp is_card_in_group_def)
    next
      case False
      obtain gs1 where "(if length pop \<ge> 2 then search_three_of_kind_i cb pop rep gs else Some gs) = Some gs1"
        "grows (kind_in jp hand) gs0 gs1" using found [OF Cons.prems] by blast
      then show ?thesis
        using Cons.IH [OF kind_loop_step_new [OF Cons.prems(1)]] False
        by (simp only: kind_search_loop.simps jp if_False) (simp split del: if_split)
    qed
  qed
qed

lemma search_three_of_kind_grows:
  assumes "playable hand" "jokers_of cb hand" "cb_joker_point cb = jp"
  shows "\<exists>gs'. search_three_of_kind cb hand gs = Some gs' \<and> grows (kind_in jp hand) gs gs'"
  unfolding search_three_of_kind_def
  by (rule kind_search_loop_grows [OF assms]) (auto simp: kind_loop_inv_def one_point_def)

section \<open>Taking groups out of a hand\<close>

lemma remove_cards_mset [mset_facts]:
  "mset (m_cards g) \<subseteq># mset hand \<Longrightarrow> mset (m_cards g) + mset (remove_cards g hand) = mset hand"
  by (simp add: remove_cards_def fold_remove1_partition)

lemma remove_cards_subset: "mset (remove_cards g hand) \<subseteq># mset hand"
  by (simp add: remove_cards_def mset_fold_remove1)

lemma remove_cards_length:
  "mset (m_cards g) \<subseteq># mset hand \<Longrightarrow> length (m_cards g) + length (remove_cards g hand) = length hand"
  by (simp add: remove_cards_def length_fold_remove1)

text \<open>The jokers of what is left are the jokers with the group's cards removed.\<close>

lemma remove_cards_jokers:
  assumes "mset js = mset (jokers jp hand)"
  shows "mset (remove_cards g js) = mset (jokers jp (remove_cards g hand))"
proof -
  have "filter_mset P (A - B) = filter_mset P A - B" for P and A B :: "poker_card multiset"
    by (rule multiset_eqI) simp
  then show ?thesis by (simp add: remove_cards_def mset_fold_remove1 assms)
qed

lemma take_from_array_mset:
  assumes "no_card \<notin> set cs"
  shows "take_from_array arr cs \<longleftrightarrow> mset cs \<subseteq># filter_mset (\<lambda>c. c \<noteq> no_card) (mset arr)"
  using assms
proof (induction cs arbitrary: arr)
  case Nil
  then show ?case by simp
next
  case (Cons c cs)
  show ?case
  proof (cases "c \<in> set arr")
    case True
    then obtain ys zs where arr: "arr = ys @ c # zs" "c \<notin> set ys" by (meson split_list_first)
    then have "takeWhile (\<lambda>d. d \<noteq> c) arr = ys" by (auto simp: takeWhile_append)
    then have upd: "arr[length (takeWhile (\<lambda>d. d \<noteq> c) arr) := no_card] = ys @ no_card # zs"
      using arr(1) by simp
    have "filter_mset (\<lambda>c. c \<noteq> no_card) (mset arr)
        = add_mset c (filter_mset (\<lambda>c. c \<noteq> no_card) (mset (ys @ no_card # zs)))"
      using Cons.prems arr(1) by auto
    then show ?thesis using Cons True by (simp add: upd)
  next
    case False
    then show ?thesis by (auto dest: mset_subset_eqD)
  qed
qed

lemma remove_card_group_eq:
  assumes hand: "playable hand" and gs: "\<forall>g \<in> set gs. no_card \<notin> set (m_cards g)"
  shows "remove_card_group hand gs out = Some (out @ filter (\<lambda>g. mset (m_cards g) \<subseteq># mset hand) gs)"
proof -
  let ?arr = "hand @ replicate (MAX_CARD_COUNT - length hand) no_card"
  have "no_card \<notin> set hand" using playable_valid [OF hand] no_card_invalid by blast
  then have "filter (\<lambda>c. c \<noteq> no_card) ?arr = hand" by (auto simp: filter_id_conv)
  then have arr: "filter_mset (\<lambda>c. c \<noteq> no_card) (mset ?arr) = mset hand" by (metis mset_filter)
  have "fold (\<lambda>g out. if take_from_array ?arr (m_cards g) then out @ [g] else out) gs out
     = out @ filter (\<lambda>g. mset (m_cards g) \<subseteq># mset hand) gs"
    using gs by (induction gs arbitrary: out) (auto simp: take_from_array_mset arr simp del: mset_append)
  then show ?thesis
    using hand by (simp add: remove_card_group_def playable_def)
qed

end
