(* ===== verification/Card_Declare.thy ===== *)
theory Card_Declare
  imports Card_Search "HOL-Library.Product_Lexorder"
begin

text \<open>
  The decisions of \<open>class Combination\<close> (\<open>server/server/gamesvr/Combination.cpp\<close>): the search for the
  ways to split a hand into groups, the declaration made for a player who does not declare, and
  the card a robot discards. \<open>None\<close> is a failed \<open>assert\<close>. The pure straight is the ``first life''
  of a hand, a second straight its ``second life''.
\<close>

section \<open>Operations\<close>

record combination_info =
  m_score :: int
  m_card_group :: "card_group list"
  m_valid_cards :: "poker_card list"
  m_is_has_firtlife :: bool
  m_is_has_secondelife :: bool

definition CombinationInfo :: combination_info where
  "CombinationInfo = \<lparr>m_score = 0, m_card_group = [], m_valid_cards = [],
     m_is_has_firtlife = False, m_is_has_secondelife = False\<rparr>"

definition sort_combine_func :: "combination_info \<Rightarrow> combination_info \<Rightarrow> bool" where
  "sort_combine_func left_comb right_comb =
     (if m_is_has_firtlife left_comb = m_is_has_firtlife right_comb
      then (if m_is_has_firtlife left_comb \<and> m_is_has_secondelife left_comb \<noteq> m_is_has_secondelife right_comb
            then m_is_has_secondelife left_comb
            else if length (m_valid_cards left_comb) \<noteq> length (m_valid_cards right_comb)
            then length (m_valid_cards left_comb) < length (m_valid_cards right_comb)
            else False)
      else m_is_has_firtlife left_comb)"

subsection \<open>The search of all splits\<close>

text \<open>The combination pushed when the cards \<open>cards\<close> are left over next to the groups \<open>gs\<close>.\<close>

definition leftover_comb ::
  "combination \<Rightarrow> bool \<Rightarrow> bool \<Rightarrow> card_group list \<Rightarrow> poker_card list \<Rightarrow> combination_info" where
  "leftover_comb cb first second gs cards =
     (let (onegroup, score) = gen_valid_card_group cb cards
      in CombinationInfo\<lparr>m_score := score, m_card_group := gs @ [onegroup], m_valid_cards := cards,
           m_is_has_firtlife := first, m_is_has_secondelife := second\<rparr>)"

text \<open>The combination pushed when the groups \<open>gs\<close> use all cards.\<close>

definition complete_comb :: "card_group list \<Rightarrow> combination_info" where
  "complete_comb gs = CombinationInfo\<lparr>m_card_group := gs, m_is_has_firtlife := True, m_is_has_secondelife := True\<rparr>"

type_synonym search_state = "combination \<times> combination_info list"

definition fourth_group ::
  "nat \<Rightarrow> card_group list \<Rightarrow> poker_card list \<Rightarrow> card_group \<Rightarrow> search_state \<Rightarrow> (bool \<times> search_state) option" where
  "fourth_group stop gs cards3 it3 = (\<lambda>(cb, combs).
     let cards4 = remove_cards it3 cards3 in
     if cards4 = [] then Some (0 \<le> stop, cb, combs @ [complete_comb (gs @ [it3])])
     else if \<not> (length cards4 > 0 \<and> length cards4 < 3) then None
     else Some (0 \<le> stop \<and> length cards4 \<le> stop, cb, combs @ [leftover_comb cb True True (gs @ [it3]) cards4]))"

definition third_group ::
  "nat \<Rightarrow> card_group list \<Rightarrow> card_group list \<Rightarrow> poker_card list \<Rightarrow> card_group \<Rightarrow> search_state \<Rightarrow> (bool \<times> search_state) option" where
  "third_group stop all_group2 gs cards2 it2 = (\<lambda>(cb, combs).
     let cards3 = remove_cards it2 cards2 in
     if cards3 = [] then Some (0 \<le> stop, cb, combs @ [complete_comb (gs @ [it2])])
     else do {
       all_group3 \<leftarrow> remove_card_group cards3 all_group2 [];
       if all_group3 = []
       then Some (0 \<le> stop \<and> length cards3 \<le> stop, cb, combs @ [leftover_comb cb True True (gs @ [it2]) cards3])
       else for_return (fourth_group stop (gs @ [it2]) cards3) all_group3 (cb, combs)
     })"

definition second_group ::
  "nat \<Rightarrow> card_group \<Rightarrow> poker_card list \<Rightarrow> poker_card list \<Rightarrow> card_group \<Rightarrow> search_state \<Rightarrow> (bool \<times> search_state) option" where
  "second_group stop it cards1 joker_cards1 itSecond = (\<lambda>(cb, combs).
     let cards2 = remove_cards itSecond cards1;
         joker_cards2 = remove_cards itSecond joker_cards1 in
     if cards2 = [] then Some (0 \<le> stop, cb, combs @ [complete_comb [it, itSecond]])
     else do {
       let cb = (if cb_joker_cards cb \<noteq> joker_cards2
                 then cb\<lparr>cb_joker_cards := joker_cards2,
                   cb_joker_combines := caculate_all_cards_combines joker_cards2 1 (length joker_cards2) []\<rparr>
                 else cb);
       straights \<leftarrow> search_straight_flush cb cards2 [];
       all_group2 \<leftarrow> search_three_of_kind cb cards2 straights;
       if all_group2 = []
       then Some (0 \<le> stop \<and> length cards2 \<le> stop, cb, combs @ [leftover_comb cb True True [it, itSecond] cards2])
       else for_return (third_group stop all_group2 [it, itSecond] cards2) all_group2 (cb, combs)
     })"

definition first_group ::
  "nat \<Rightarrow> poker_card list \<Rightarrow> poker_card list \<Rightarrow> card_group list \<Rightarrow> card_group \<Rightarrow> search_state \<Rightarrow> (bool \<times> search_state) option" where
  "first_group stop all_cards all_joker_cards strai_group it = (\<lambda>(cb, combs).
     let cards1 = remove_cards it all_cards;
         joker_cards1 = remove_cards it all_joker_cards in
     if cards1 = [] then Some (False, cb, combs)
     else do {
       secondlife_group \<leftarrow> remove_card_group cards1 strai_group [];
       if secondlife_group = []
       then Some (False, cb, combs @ [leftover_comb cb True False [it] cards1])
       else for_return (second_group stop it cards1 joker_cards1) secondlife_group (cb, combs)
     })"

definition search_all_group ::
  "combination \<Rightarrow> poker_card list \<Rightarrow> nat \<Rightarrow> combination_info list \<Rightarrow> search_state option" where
  "search_all_group cb all_cards valid_card_num_stop card_combs = do {
     let all_joker_cards = search_joker_cards cb all_cards [];
     let all_joker_combine = caculate_all_cards_combines all_joker_cards 1 (length all_joker_cards) [];
     let cb = cb\<lparr>cb_joker_cards := all_joker_cards, cb_joker_combines := all_joker_combine\<rparr>;
     strai_group \<leftarrow> search_straight_flush cb all_cards [];
     let fistlife_group = search_pure_straight_flush strai_group [];
     if fistlife_group = []
     then Some (cb, card_combs @ [leftover_comb cb False False [] all_cards])
     else do {
       (_, s) \<leftarrow> for_return (first_group valid_card_num_stop all_cards all_joker_cards strai_group)
                   fistlife_group (cb, card_combs);
       Some s
     }
   }"

subsection \<open>The declaration of a player who does not declare\<close>

text \<open>The loop over \<open>card_combs\<close>: the score and the combination \<open>it_min\<close>.\<close>

definition min_step :: "combination_info \<Rightarrow> int \<times> combination_info \<Rightarrow> int \<times> combination_info" where
  "min_step it = (\<lambda>(score, it_min). if m_score it < score then (m_score it, it) else (score, it_min))"

definition default_declare ::
  "combination \<Rightarrow> poker_card list \<Rightarrow> int \<Rightarrow> (combination \<times> int \<times> card_group list) option" where
  "default_declare cb hand_card joker_point = do {
     (cb, card_combs) \<leftarrow> search_all_group (cb\<lparr>cb_joker_point := joker_point\<rparr>) hand_card 0 [];
     if card_combs = [] then None
     else if m_score (last card_combs) = 0
     then Some (cb, m_score (last card_combs), m_card_group (last card_combs))
     else let (score, it_min) = fold min_step card_combs (m_score (hd card_combs), hd card_combs)
          in Some (cb, score, m_card_group it_min)
   }"

subsection \<open>The card to discard\<close>

text \<open>The last card that is, and the last that is not a joker; both start at the first card.\<close>

definition last_cards_step ::
  "int \<Rightarrow> poker_card \<Rightarrow> nat \<times> poker_card \<times> poker_card \<Rightarrow> nat \<times> poker_card \<times> poker_card" where
  "last_cards_step jp c = (\<lambda>(nonjoker_count, itnojoker, itjoker).
     if is_joker jp c then (nonjoker_count, itnojoker, c) else (nonjoker_count + 1, c, itjoker))"

definition bigest_step :: "int \<Rightarrow> card_group \<Rightarrow> int \<times> poker_card \<Rightarrow> int \<times> poker_card" where
  "bigest_step jp it = (\<lambda>(score, c).
     if length (m_cards it) < 4 then (score, c)
     else let list_cards = sort (m_cards it);
              (nonjoker_count, itnojoker, itjoker) =
                fold (last_cards_step jp) list_cards (0, hd list_cards, hd list_cards);
              itpost = (if nonjoker_count \<le> 1 then itjoker else itnojoker)
          in if get_score jp itpost > score then (get_score jp itpost, itpost) else (score, c))"

definition post_valid_group_bigest_card :: "card_group list \<Rightarrow> int \<Rightarrow> poker_card \<Rightarrow> poker_card" where
  "post_valid_group_bigest_card card_groups joker_point c = snd (fold (bigest_step joker_point) card_groups (-1, c))"

record card_relation =
  rel_card :: poker_card          \<comment> \<open>\<open>m_card\<close>\<close>
  m_relate_degree :: int

definition raise :: "nat \<Rightarrow> int \<Rightarrow> card_relation list \<Rightarrow> card_relation list" where
  "raise i d rs = rs[i := (rs ! i)\<lparr>m_relate_degree := m_relate_degree (rs ! i) + d\<rparr>]"

definition rel_point :: "card_relation list \<Rightarrow> nat \<Rightarrow> int" where
  "rel_point rs i = uint (m_point (rel_card (rs ! i)))"

definition rel_color :: "card_relation list \<Rightarrow> nat \<Rightarrow> u8" where
  "rel_color rs i = m_color (rel_card (rs ! i))"

text \<open>The inner loop over the later cards \<open>it_next\<close>, with its \<open>break\<close>.\<close>

fun relate_later :: "nat \<Rightarrow> nat list \<Rightarrow> card_relation list \<Rightarrow> card_relation list" where
  "relate_later i [] rs = rs"
| "relate_later i (j # js) rs =
     (if rel_point rs j = rel_point rs i then relate_later i js (raise j 2 (raise i 2 rs))
      else if \<bar>rel_point rs j - rel_point rs i\<bar> = 2 \<and> rel_color rs j = rel_color rs i
      then relate_later i js (raise j 3 (raise i 3 rs))
      else if \<bar>rel_point rs j - rel_point rs i\<bar> = 1 \<and> rel_color rs j = rel_color rs i
      then relate_later i js (raise j 4 (raise i 4 rs))
      else if \<bar>rel_point rs j - rel_point rs i\<bar> > 2 then rs
      else relate_later i js rs)"

text \<open>The loop over the low cards when \<open>it\<close> is an ace; it ends at the first card above 3.\<close>

fun relate_ace :: "nat \<Rightarrow> nat list \<Rightarrow> card_relation list \<Rightarrow> card_relation list" where
  "relate_ace i [] rs = rs"
| "relate_ace i (j # js) rs =
     (if rel_point rs j > 3 then rs
      else if rel_color rs j = rel_color rs i \<and> rel_point rs j = 2 then relate_ace i js (raise j 4 (raise i 4 rs))
      else if rel_color rs j = rel_color rs i \<and> rel_point rs j = 3 then relate_ace i js (raise j 3 (raise i 3 rs))
      else relate_ace i js rs)"

definition caculate_cards_relation :: "card_relation list \<Rightarrow> card_relation list" where
  "caculate_cards_relation rs =
     fold (\<lambda>i rs. let rs' = relate_later i [Suc i..<length rs] rs
                   in if rel_point rs' i = uint (PA :: u8) then relate_ace i [0..<length rs'] rs' else rs')
       [0..<length rs] rs"

text \<open>The loop that splits the sorted cards into \<open>first_cards\<close> and \<open>repeat_cards\<close>.\<close>

fun split_relations ::
  "int \<Rightarrow> poker_card list \<Rightarrow> card_relation list \<times> card_relation list \<Rightarrow> card_relation list \<times> card_relation list" where
  "split_relations jp [] (first_cards, repeat_cards) = (first_cards, repeat_cards)"
| "split_relations jp (c # cs) (first_cards, repeat_cards) =
     (if is_joker jp c then split_relations jp cs (first_cards, repeat_cards)
      else if cs = [] then (first_cards @ [\<lparr>rel_card = c, m_relate_degree = 0\<rparr>], repeat_cards)
      else if hd cs = c
      then split_relations jp cs (first_cards, repeat_cards @ [\<lparr>rel_card = c, m_relate_degree = -1\<rparr>])
      else split_relations jp cs (first_cards @ [\<lparr>rel_card = c, m_relate_degree = 0\<rparr>], repeat_cards))"

definition less_related :: "int \<Rightarrow> card_relation \<Rightarrow> card_relation \<Rightarrow> card_relation" where
  "less_related jp it it_min =
     (if m_relate_degree it < m_relate_degree it_min then it
      else if m_relate_degree it = m_relate_degree it_min
              \<and> get_score jp (rel_card it) > get_score jp (rel_card it_min) then it
      else it_min)"

definition post_less_relation_card :: "poker_card list \<Rightarrow> int \<Rightarrow> poker_card option" where
  "post_less_relation_card hand_card joker_point =
     (if hand_card = [] then None
      else let cards = sort hand_card;
               (first_cards, repeat_cards) = split_relations joker_point cards ([], [])
           in if first_cards = [] then Some (last cards)
              else let all_rel = caculate_cards_relation first_cards @ caculate_cards_relation repeat_cards
                   in Some (rel_card (fold (less_related joker_point) (tl all_rel) (hd all_rel))))"

text \<open>
  The loop over the combinations that tie with the first one. \<open>std::sort\<close> is not stable, so the order of ties is that of the parameter \<open>std_sort\<close>.
\<close>

fun post_ties ::
  "int \<Rightarrow> combination_info list \<Rightarrow> combination_info \<Rightarrow> int \<Rightarrow> poker_card \<Rightarrow> (poker_card \<times> int) option" where
  "post_ties jp [] itmin min_score c = Some (c, min_score)"
| "post_ties jp (it # its) itmin min_score c =
     (if m_is_has_firtlife itmin \<noteq> m_is_has_firtlife it \<or> m_is_has_secondelife itmin \<noteq> m_is_has_secondelife it
         \<or> length (m_valid_cards itmin) \<noteq> length (m_valid_cards it)
      then Some (c, min_score)
      else if m_valid_cards it = [] then Some (post_valid_group_bigest_card (m_card_group it) jp c, 0)
      else do {
        postcard \<leftarrow> post_less_relation_card (m_valid_cards it) jp;
        let score = m_score it - get_score jp postcard;
        if score < min_score then post_ties jp its it score postcard
        else post_ties jp its itmin min_score c
      })"

definition post_best_card ::
  "(combination_info list \<Rightarrow> combination_info list) \<Rightarrow> combination \<Rightarrow> poker_card list \<Rightarrow> int \<Rightarrow> poker_card
     \<Rightarrow> (combination \<times> poker_card \<times> int) option" where
  "post_best_card std_sort cb hand_card joker_point c = do {
     (cb, card_combs) \<leftarrow> search_all_group (cb\<lparr>cb_joker_point := joker_point\<rparr>) hand_card 1 [];
     if card_combs = [] then None else
     case std_sort card_combs of
       [] \<Rightarrow> None
     | itmin # rest \<Rightarrow>
         (if m_valid_cards itmin = []
          then Some (cb, post_valid_group_bigest_card (m_card_group itmin) joker_point c, 0)
          else do {
            postcard \<leftarrow> post_less_relation_card (m_valid_cards itmin) joker_point;
            (c, score) \<leftarrow> post_ties joker_point rest itmin (m_score itmin - get_score joker_point postcard) postcard;
            Some (cb, c, score)
          })
   }"

section \<open>The combinations found\<close>

text \<open>A split of the hand: groups found by the searches, and the cards left over.\<close>

definition split_into :: "int \<Rightarrow> poker_card list \<Rightarrow> card_group list \<Rightarrow> poker_card list \<Rightarrow> bool" where
  "split_into jp hand melds cards \<longleftrightarrow>
     mset (concat (map m_cards melds)) + mset cards = mset hand \<and>
     (\<forall>g \<in> set melds. straight_in jp hand g \<or> kind_in jp hand g) \<and>
     (melds \<noteq> [] \<longrightarrow> straight_in jp hand (hd melds) \<and> is_cards_pure_straight (m_cards (hd melds))) \<and>
     (2 \<le> length melds \<longrightarrow> straight_in jp hand (melds ! 1))"

definition info_ok :: "int \<Rightarrow> poker_card list \<Rightarrow> combination_info \<Rightarrow> bool" where
  "info_ok jp hand info \<longleftrightarrow> (\<exists>melds.
     split_into jp hand melds (m_valid_cards info) \<and>
     m_card_group info = melds @ (if m_valid_cards info = [] then [] else [CardGroup GROUP_INVALID (m_valid_cards info)]) \<and>
     m_score info = caculate_card_score (m_valid_cards info) jp \<and>
     length melds \<le> 4 \<and>
     m_is_has_firtlife info = (1 \<le> length melds) \<and> m_is_has_secondelife info = (2 \<le> length melds))"

lemma group_in_mono: "group_in cards g \<Longrightarrow> mset cards \<subseteq># mset hand \<Longrightarrow> group_in hand g"
  unfolding group_in_def by (meson subset_mset.order_trans)

lemma straight_in_mono: "straight_in jp cards g \<Longrightarrow> mset cards \<subseteq># mset hand \<Longrightarrow> straight_in jp hand g"
  unfolding straight_in_def by (blast intro: group_in_mono)

lemma kind_in_mono: "kind_in jp cards g \<Longrightarrow> mset cards \<subseteq># mset hand \<Longrightarrow> kind_in jp hand g"
  unfolding kind_in_def by (blast intro: group_in_mono)

lemma split_into_subset: "split_into jp hand melds cards \<Longrightarrow> mset cards \<subseteq># mset hand"
  unfolding split_into_def by (metis mset_subset_eq_add_right)

text \<open>Taking one more group out of the cards left over.\<close>

lemma split_into_step:
  assumes split: "split_into jp hand melds cards" and g: "straight_in jp cards g \<or> kind_in jp cards g"
    and first: "melds = [] \<Longrightarrow> straight_in jp cards g \<and> is_cards_pure_straight (m_cards g)"
    and second: "length melds = 1 \<Longrightarrow> straight_in jp cards g"
  shows "split_into jp hand (melds @ [g]) (remove_cards g cards)"
proof -
  note sub = split_into_subset [OF split]
  have "mset (m_cards g) \<subseteq># mset cards"
    using g by (auto simp: straight_in_def kind_in_def group_in_def)
  from remove_cards_mset [OF this]
  have parts: "mset (concat (map m_cards (melds @ [g]))) + mset (remove_cards g cards) = mset hand"
    using split by (simp add: split_into_def add.assoc)
  have mono: "straight_in jp cards g \<Longrightarrow> straight_in jp hand g" "kind_in jp cards g \<Longrightarrow> kind_in jp hand g"
    using straight_in_mono [OF _ sub] kind_in_mono [OF _ sub] by blast+
  have second': "straight_in jp hand ((melds @ [g]) ! 1)" if "2 \<le> length (melds @ [g])"
  proof (cases "length melds = 1")
    case True
    then show ?thesis using second mono(1) by (simp add: nth_append)
  next
    case False
    then have "2 \<le> length melds" using that by simp
    then show ?thesis using split by (simp add: split_into_def nth_append)
  qed
  have "straight_in jp hand (hd (melds @ [g])) \<and> is_cards_pure_straight (m_cards (hd (melds @ [g])))"
    using first mono(1) split by (cases melds) (auto simp: split_into_def)
  then show ?thesis
    using parts second' split g mono unfolding split_into_def by auto
qed

lemma leftover_ok:
  assumes "split_into jp hand melds cards" "cards \<noteq> []" "cb_joker_point cb = jp" "length melds \<le> 4"
  shows "info_ok jp hand (leftover_comb cb (1 \<le> length melds) (2 \<le> length melds) melds cards)"
  using assms by (auto simp: info_ok_def leftover_comb_def gen_valid_card_group_def CombinationInfo_def)

lemma complete_ok:
  assumes "split_into jp hand melds []" "2 \<le> length melds" "length melds \<le> 4"
  shows "info_ok jp hand (complete_comb melds)"
  using assms by (auto simp: info_ok_def complete_comb_def CombinationInfo_def caculate_card_score_def)

subsection \<open>The nested loops\<close>

text \<open>What each round of a loop keeps of the object, and the combinations it must push.\<close>

definition search_ok :: "int \<Rightarrow> search_state \<Rightarrow> bool" where
  "search_ok jp s \<longleftrightarrow> cb_joker_point (fst s) = jp \<and>
     cb_joker_combines (fst s) = caculate_all_cards_combines (cb_joker_cards (fst s)) 1 (length (cb_joker_cards (fst s))) []"

definition pushes :: "int \<Rightarrow> poker_card list \<Rightarrow> search_state \<Rightarrow> search_state \<Rightarrow> bool" where
  "pushes jp hand s s' \<longleftrightarrow> grows (info_ok jp hand) (snd s) (snd s') \<and> length (snd s) < length (snd s')"

lemma transp_pushes: "transp (pushes jp hand)"
  unfolding pushes_def by (intro transpI) (blast intro: grows_trans less_trans)

lemma pushes_one: "info_ok jp hand info \<Longrightarrow> pushes jp hand (cb, combs) (cb', combs @ [info])"
  by (auto simp: pushes_def)

lemma playable_groups:
  assumes "playable cards" "\<forall>g \<in> set gs. straight_in jp cards g \<or> kind_in jp cards g"
  shows "\<forall>g \<in> set gs. no_card \<notin> set (m_cards g)"
proof
  fix g assume "g \<in> set gs"
  then have "mset (m_cards g) \<subseteq># mset cards"
    using assms(2) by (auto simp: straight_in_def kind_in_def group_in_def)
  then have "set (m_cards g) \<subseteq> set cards" by (metis set_mset_mono set_mset_mset)
  then show "no_card \<notin> set (m_cards g)"
    using playable_valid [OF assms(1)] no_card_invalid by blast
qed

text \<open>The groups \<open>remove_card_group\<close> keeps are groups of the cards left.\<close>

lemma remove_card_group_in:
  assumes "playable cards" "\<forall>g \<in> set gs. straight_in jp cards g \<or> kind_in jp cards g" "mset cards' \<subseteq># mset cards"
  shows "\<exists>gs'. remove_card_group cards' gs [] = Some gs' \<and> set gs' \<subseteq> set gs
    \<and> (\<forall>g \<in> set gs'. (straight_in jp cards g \<longrightarrow> straight_in jp cards' g) \<and> (kind_in jp cards g \<longrightarrow> kind_in jp cards' g))"
  using remove_card_group_eq [OF playable_subset [OF assms(1,3)] playable_groups [OF assms(1,2)], of "[]"]
  by (auto simp: straight_in_def kind_in_def group_in_def)

lemma split_into_length:
  "split_into jp hand melds cards \<Longrightarrow> 3 * length melds + length cards \<le> length hand"
proof -
  assume split: "split_into jp hand melds cards"
  then have "\<forall>g \<in> set melds. 3 \<le> length (m_cards g)"
    by (auto simp: split_into_def straight_in_def kind_in_def group_in_def)
  then have "3 * length melds \<le> length (concat (map m_cards melds))"
    by (induction melds) auto
  moreover have "length (concat (map m_cards melds)) + length cards = length hand"
    using split unfolding split_into_def by (metis size_mset size_union)
  ultimately show ?thesis by simp
qed

lemma fourth_group_ok:
  assumes play: "playable hand" and s: "search_ok jp s" and split: "split_into jp hand gs cards3"
    and len: "length gs = 3" and g: "straight_in jp cards3 g \<or> kind_in jp cards3 g"
  shows "\<exists>b s'. fourth_group stop gs cards3 g s = Some (b, s') \<and> search_ok jp s' \<and> pushes jp hand s s'"
proof -
  obtain cb combs where s': "s = (cb, combs)" by (cases s)
  have split': "split_into jp hand (gs @ [g]) (remove_cards g cards3)"
    using len by (intro split_into_step [OF split g]) auto
  show ?thesis
  proof (cases "remove_cards g cards3 = []")
    case True
    then show ?thesis
      using s complete_ok [OF split' [unfolded True]] len
      by (auto simp: fourth_group_def s' search_ok_def intro: pushes_one)
  next
    case False
    moreover have "length (remove_cards g cards3) < 3"
      using split_into_length [OF split'] len play by (simp add: playable_def MAX_CARD_COUNT_def)
    moreover have "info_ok jp hand (leftover_comb cb True True (gs @ [g]) (remove_cards g cards3))"
      using leftover_ok [OF split' False, of cb] s len by (simp add: s' search_ok_def)
    ultimately show ?thesis
      using s by (auto simp: fourth_group_def s' search_ok_def Let_def intro: pushes_one)
  qed
qed

lemma third_group_ok:
  assumes play: "playable hand" and s: "search_ok jp s" and split: "split_into jp hand gs cards2"
    and len: "length gs = 2" and gs2: "\<forall>g \<in> set gs2. straight_in jp cards2 g \<or> kind_in jp cards2 g"
    and g: "g \<in> set gs2"
  shows "\<exists>b s'. third_group stop gs2 gs cards2 g s = Some (b, s') \<and> search_ok jp s' \<and> pushes jp hand s s'"
proof -
  obtain cb combs where s': "s = (cb, combs)" by (cases s)
  let ?cards3 = "remove_cards g cards2"
  have split': "split_into jp hand (gs @ [g]) ?cards3"
    using len gs2 g by (intro split_into_step [OF split]) auto
  have play2: "playable cards2" by (rule playable_subset [OF play split_into_subset [OF split]])
  from remove_card_group_in [OF play2 gs2 remove_cards_subset]
  obtain gs3 where gs3: "remove_card_group ?cards3 gs2 [] = Some gs3" "set gs3 \<subseteq> set gs2"
    "\<forall>g \<in> set gs3. (straight_in jp cards2 g \<longrightarrow> straight_in jp ?cards3 g) \<and> (kind_in jp cards2 g \<longrightarrow> kind_in jp ?cards3 g)"
    by blast
  then have in3: "straight_in jp ?cards3 g \<or> kind_in jp ?cards3 g" if "g \<in> set gs3" for g
    using gs2 that by blast
  consider "?cards3 = []" | "?cards3 \<noteq> []" "gs3 = []" | "?cards3 \<noteq> []" "gs3 \<noteq> []" by blast
  then show ?thesis
  proof cases
    case 1
    then show ?thesis
      using s complete_ok [OF split' [unfolded 1]] len
      by (auto simp: third_group_def s' search_ok_def intro: pushes_one)
  next
    case 2
    have "info_ok jp hand (leftover_comb cb True True (gs @ [g]) ?cards3)"
      using leftover_ok [OF split' 2(1), of cb] s len by (simp add: s' search_ok_def)
    with 2 gs3(1) show ?thesis
      using s by (auto simp: third_group_def s' search_ok_def Let_def intro: pushes_one)
  next
    case 3
    have "\<exists>b s'. for_return (fourth_group stop (gs @ [g]) ?cards3) gs3 s = Some (b, s') \<and> search_ok jp s' \<and> pushes jp hand s s'"
      using len
      by (intro for_return_progress [where I = "search_ok jp" and R = "pushes jp hand", OF 3(2) s transp_pushes]
          fourth_group_ok [OF play _ split'] in3) auto
    with 3(1,2) gs3(1) show ?thesis by (simp add: third_group_def s' Let_def)
  qed
qed

text \<open>The object when the groups of \<open>cards2\<close> are searched: its jokers are those of \<open>cards2\<close>.\<close>

lemma searched_groups:
  assumes play: "playable cards" and jo: "jokers_of cb cards" and jp: "cb_joker_point cb = jp"
  shows "\<exists>gs gs'. search_straight_flush cb cards [] = Some gs \<and> search_three_of_kind cb cards gs = Some gs'
    \<and> (\<forall>g \<in> set gs. straight_in jp cards g) \<and> (\<forall>g \<in> set gs'. straight_in jp cards g \<or> kind_in jp cards g)"
proof -
  obtain gs where gs: "search_straight_flush cb cards [] = Some gs" "grows (straight_in jp cards) [] gs"
    using search_straight_flush_grows [OF play jo jp] by blast
  obtain gs' where gs': "search_three_of_kind cb cards gs = Some gs'" "grows (kind_in jp cards) gs gs'"
    using search_three_of_kind_grows [OF play jo jp] by blast
  from gs(2) have "\<forall>g \<in> set gs. straight_in jp cards g" by (simp add: grows_Nil)
  moreover from this gs'(2) have "\<forall>g \<in> set gs'. straight_in jp cards g \<or> kind_in jp cards g"
    unfolding grows_def by auto
  ultimately show ?thesis using gs(1) gs'(1) by blast
qed

lemma second_group_ok:
  assumes play: "playable hand" and s: "search_ok jp s" and split: "split_into jp hand [it] cards1"
    and js: "mset js = mset (jokers jp cards1)" and g: "straight_in jp cards1 g"
  shows "\<exists>b s'. second_group stop it cards1 js g s = Some (b, s') \<and> search_ok jp s' \<and> pushes jp hand s s'"
proof -
  obtain cb combs where s': "s = (cb, combs)" by (cases s)
  let ?cards2 = "remove_cards g cards1" and ?js2 = "remove_cards g js"
  let ?cb = "if cb_joker_cards cb \<noteq> ?js2
             then cb\<lparr>cb_joker_cards := ?js2, cb_joker_combines := caculate_all_cards_combines ?js2 1 (length ?js2) []\<rparr>
             else cb"
  have split': "split_into jp hand [it, g] ?cards2"
    using split_into_step [OF split, of g] g by simp
  have play2: "playable ?cards2" by (rule playable_subset [OF play split_into_subset [OF split']])
  have ok: "search_ok jp (?cb, combs)" for combs using s by (auto simp: search_ok_def s')
  have pt: "cb_joker_point ?cb = jp" and cards: "cb_joker_cards ?cb = ?js2"
    using s by (auto simp: search_ok_def s')
  have "jokers_of ?cb ?cards2"
    using ok cards pt remove_cards_jokers [OF js, of g] by (simp add: jokers_of_def search_ok_def)
  from searched_groups [OF play2 this pt] obtain strs gs2 where
    found: "search_straight_flush ?cb ?cards2 [] = Some strs" "search_three_of_kind ?cb ?cards2 strs = Some gs2"
      and in2: "\<forall>g \<in> set gs2. straight_in jp ?cards2 g \<or> kind_in jp ?cards2 g"
    by blast
  have body: "second_group stop it cards1 js g s =
     (if ?cards2 = [] then Some (True, cb, combs @ [complete_comb [it, g]])
      else if gs2 = [] then Some (length ?cards2 \<le> stop, ?cb, combs @ [leftover_comb ?cb True True [it, g] ?cards2])
      else for_return (third_group stop gs2 [it, g] ?cards2) gs2 (?cb, combs))"
    using found unfolding second_group_def s' Let_def by simp
  consider "?cards2 = []" | "?cards2 \<noteq> []" "gs2 = []" | "?cards2 \<noteq> []" "gs2 \<noteq> []" by blast
  then show ?thesis
  proof cases
    case 1
    then show ?thesis
      using s complete_ok [OF split' [unfolded 1]] body by (auto simp: s' search_ok_def intro: pushes_one)
  next
    case 2
    have "info_ok jp hand (leftover_comb ?cb True True [it, g] ?cards2)"
      using leftover_ok [OF split' 2(1) pt] by simp
    from pushes_one [OF this] ok body show ?thesis unfolding s' if_not_P [OF 2(1)] if_P [OF 2(2)] by blast
  next
    case 3
    have "\<exists>b s'. for_return (third_group stop gs2 [it, g] ?cards2) gs2 (?cb, combs) = Some (b, s')
        \<and> search_ok jp s' \<and> pushes jp hand (?cb, combs) s'"
      by (intro for_return_progress [where I = "search_ok jp" and R = "pushes jp hand", OF 3(2) ok transp_pushes]
          third_group_ok [OF play _ split' _ in2]) simp_all
    with 3 body show ?thesis by (simp add: s' pushes_def)
  qed
qed

text \<open>A first group that does not use up the hand leads to a combination; one that does is skipped.\<close>

lemma first_group_ok:
  assumes play: "playable hand" and s: "search_ok jp s" and js: "mset js = mset (jokers jp hand)"
    and strs: "\<forall>g \<in> set strs. straight_in jp hand g" and g: "g \<in> set strs" "is_cards_pure_straight (m_cards g)"
  shows "\<exists>b s'. first_group stop hand js strs g s = Some (b, s') \<and> search_ok jp s' \<and>
    (if mset (m_cards g) = mset hand then b = False \<and> s' = s else pushes jp hand s s')"
proof -
  obtain cb combs where s': "s = (cb, combs)" by (cases s)
  let ?cards1 = "remove_cards g hand" and ?js1 = "remove_cards g js"
  have sub: "mset (m_cards g) \<subseteq># mset hand" and gin: "straight_in jp hand g"
    using strs g(1) by (auto simp: straight_in_def group_in_def)
  have covers: "?cards1 = [] \<longleftrightarrow> mset (m_cards g) = mset hand"
    using remove_cards_mset [OF sub] by (metis add_cancel_right_right mset_zero_iff)
  have split: "split_into jp hand [g] ?cards1"
    using split_into_step [of jp hand "[]" hand g] gin g(2) by (simp add: split_into_def)
  have in_strs: "\<forall>g \<in> set strs. straight_in jp hand g \<or> kind_in jp hand g" using strs by blast
  from remove_card_group_in [OF play in_strs remove_cards_subset [of g hand]]
  obtain gs1 where gs1: "remove_card_group ?cards1 strs [] = Some gs1" "set gs1 \<subseteq> set strs"
    "\<forall>g \<in> set gs1. straight_in jp hand g \<longrightarrow> straight_in jp ?cards1 g" by blast
  then have in1: "straight_in jp ?cards1 g" if "g \<in> set gs1" for g using strs that by blast
  consider "?cards1 = []" | "?cards1 \<noteq> []" "gs1 = []" | "?cards1 \<noteq> []" "gs1 \<noteq> []" by blast
  then show ?thesis
  proof cases
    case 1
    then show ?thesis using s covers by (auto simp: first_group_def s')
  next
    case 2
    have "info_ok jp hand (leftover_comb cb True False [g] ?cards1)"
      using leftover_ok [OF split 2(1), of cb] s by (simp add: s' search_ok_def)
    with 2 gs1(1) covers s show ?thesis
      by (auto simp: first_group_def s' search_ok_def Let_def intro: pushes_one)
  next
    case 3
    have "\<exists>b s'. for_return (second_group stop g ?cards1 ?js1) gs1 s = Some (b, s') \<and> search_ok jp s' \<and> pushes jp hand s s'"
      by (intro for_return_progress [where I = "search_ok jp" and R = "pushes jp hand", OF 3(2) s transp_pushes]
          second_group_ok [OF play _ split remove_cards_jokers [OF js]] in1)
    with 3 gs1(1) covers show ?thesis by (simp add: first_group_def s' Let_def)
  qed
qed

subsection \<open>The whole search\<close>

text \<open>The straights of the hand that the search starts from.\<close>

definition straights_found :: "combination \<Rightarrow> poker_card list \<Rightarrow> card_group list" where
  "straights_found cb hand =
     (let js = search_joker_cards cb hand []
      in the (search_straight_flush (cb\<lparr>cb_joker_cards := js,
                cb_joker_combines := caculate_all_cards_combines js 1 (length js) []\<rparr>) hand []))"

definition first_lives :: "combination \<Rightarrow> poker_card list \<Rightarrow> card_group list" where
  "first_lives cb hand = search_pure_straight_flush (straights_found cb hand) []"

text \<open>No combination is found when there are first lives and each of them is the whole hand.\<close>

definition only_whole_hand :: "combination \<Rightarrow> poker_card list \<Rightarrow> bool" where
  "only_whole_hand cb hand \<longleftrightarrow>
     first_lives cb hand \<noteq> [] \<and> (\<forall>g \<in> set (first_lives cb hand). mset (m_cards g) = mset hand)"

lemma straights_found_in:
  fixes cb
  assumes play: "playable hand"
  defines "js \<equiv> search_joker_cards cb hand []"
  defines "cb' \<equiv> cb\<lparr>cb_joker_cards := js, cb_joker_combines := caculate_all_cards_combines js 1 (length js) []\<rparr>"
  shows "search_straight_flush cb' hand [] = Some (straights_found cb hand)"
    and "\<forall>g \<in> set (straights_found cb hand). straight_in (cb_joker_point cb) hand g"
proof -
  have "jokers_of cb' hand" by (simp add: cb'_def js_def jokers_of_def search_joker_cards_eq)
  with search_straight_flush_grows [OF play this, of "cb_joker_point cb" "[]"]
  obtain gs where gs: "search_straight_flush cb' hand [] = Some gs" "grows (straight_in (cb_joker_point cb) hand) [] gs"
    by (auto simp: cb'_def)
  then have "straights_found cb hand = gs"
    by (simp add: straights_found_def cb'_def js_def Let_def)
  with gs show "search_straight_flush cb' hand [] = Some (straights_found cb hand)"
    "\<forall>g \<in> set (straights_found cb hand). straight_in (cb_joker_point cb) hand g"
    by (simp_all add: grows_Nil)
qed

text \<open>Skipped rounds push nothing; as soon as one group is not the whole hand, something is pushed.\<close>

lemma first_loop:
  assumes "search_ok jp s"
    and "\<And>g s. g \<in> set gs \<Longrightarrow> search_ok jp s \<Longrightarrow> \<exists>b s'. f g s = Some (b, s') \<and> search_ok jp s' \<and>
       (if whole g then b = False \<and> s' = s else pushes jp hand s s')"
  shows "\<exists>b s'. for_return f gs s = Some (b, s') \<and> search_ok jp s' \<and>
       (if \<forall>g \<in> set gs. whole g then s' = s else pushes jp hand s s')"
  using assms
proof (induction gs arbitrary: s)
  case Nil
  then show ?case by auto
next
  case (Cons g gs)
  obtain b s1 where step: "f g s = Some (b, s1)" "search_ok jp s1"
    "if whole g then b = False \<and> s1 = s else pushes jp hand s s1"
    using Cons.prems(2) [OF _ Cons.prems(1), of g] by auto
  have "\<exists>b s'. for_return f gs s1 = Some (b, s') \<and> search_ok jp s' \<and>
       (if \<forall>g \<in> set gs. whole g then s' = s1 else pushes jp hand s1 s')"
    by (rule Cons.IH [OF step(2)]) (rule Cons.prems(2), auto)
  then obtain b' s2 where rest: "for_return f gs s1 = Some (b', s2)" "search_ok jp s2"
    "if \<forall>g \<in> set gs. whole g then s2 = s1 else pushes jp hand s1 s2" by blast
  show ?case
  proof (cases "whole g")
    case True
    with step rest show ?thesis by (auto split: if_splits)
  next
    case False
    then have "pushes jp hand s s2"
      using step(3) rest(3) transpD [OF transp_pushes] by (auto split: if_splits)
    with False step rest show ?thesis by (cases b) auto
  qed
qed

lemma search_all_group_ok:
  assumes play: "playable hand" and ne: "hand \<noteq> []" and jp: "cb_joker_point cb = jp"
  shows "\<exists>cb' combs. search_all_group cb hand stop [] = Some (cb', combs) \<and> cb_joker_point cb' = jp
    \<and> (\<forall>info \<in> set combs. info_ok jp hand info) \<and> (combs = [] \<longleftrightarrow> only_whole_hand cb hand)"
proof -
  let ?js = "search_joker_cards cb hand []"
  let ?cb = "cb\<lparr>cb_joker_cards := ?js, cb_joker_combines := caculate_all_cards_combines ?js 1 (length ?js) []\<rparr>"
  let ?first = "first_lives cb hand"
  note strs = straights_found_in [OF play, of cb]
  have body: "search_all_group cb hand stop [] =
      (if ?first = [] then Some (?cb, [leftover_comb ?cb False False [] hand])
       else map_option snd (for_return (first_group stop hand ?js (straights_found cb hand)) ?first (?cb, [])))"
    using strs(1) by (simp add: search_all_group_def first_lives_def Let_def map_option_case split: option.split)
  show ?thesis
  proof (cases "?first = []")
    case True
    have "info_ok jp hand (leftover_comb ?cb False False [] hand)"
      using leftover_ok [of jp hand "[]" hand ?cb] ne jp by (simp add: split_into_def)
    with True body jp show ?thesis by (auto simp: only_whole_hand_def)
  next
    case False
    have ok: "search_ok jp (?cb, [])" using jp by (simp add: search_ok_def)
    have "\<exists>b s'. for_return (first_group stop hand ?js (straights_found cb hand)) ?first (?cb, []) = Some (b, s')
        \<and> search_ok jp s' \<and>
        (if \<forall>g \<in> set ?first. mset (m_cards g) = mset hand then s' = (?cb, []) else pushes jp hand (?cb, []) s')"
    proof (rule first_loop [OF ok])
      fix g s assume g: "g \<in> set ?first" and s: "search_ok jp s"
      from g have g': "g \<in> set (straights_found cb hand)" "is_cards_pure_straight (m_cards g)"
        by (auto simp: first_lives_def search_pure_straight_flush_eq)
      have js: "mset ?js = mset (jokers jp hand)" by (simp add: search_joker_cards_eq jp)
      show "\<exists>b s'. first_group stop hand ?js (straights_found cb hand) g s = Some (b, s') \<and> search_ok jp s' \<and>
          (if mset (m_cards g) = mset hand then b = False \<and> s' = s else pushes jp hand s s')"
        using first_group_ok [OF play s js strs(2) [unfolded jp] g', of stop] .
    qed
    then obtain b cb' combs where res: "for_return (first_group stop hand ?js (straights_found cb hand)) ?first (?cb, [])
        = Some (b, cb', combs)" "search_ok jp (cb', combs)"
      "if \<forall>g \<in> set ?first. mset (m_cards g) = mset hand then (cb', combs) = (?cb, []) else pushes jp hand (?cb, []) (cb', combs)"
      by (metis prod.collapse)
    then show ?thesis
      using False body by (auto simp: only_whole_hand_def search_ok_def pushes_def grows_Nil split: if_splits)
  qed
qed

text \<open>A straight has natural cards of one colour: it is never the whole of a hand with two colours.\<close>

lemma straight_in_one_colour:
  assumes "playable hand" "straight_in jp hand g"
  shows "one_colour (naturals jp (m_cards g))"
proof -
  have sub: "mset (m_cards g) \<subseteq># mset hand" and straight: "is_cards_straight (sort (m_cards g)) jp"
    using assms(2) by (simp_all add: straight_in_def group_in_def)
  have "same_suit_distinct (naturals jp (m_cards g))"
    using is_cards_straight_rule [OF playable_valid [OF playable_subset [OF assms(1) sub]], of jp] straight by blast
  then show ?thesis by (simp add: same_suit_distinct_def)
qed

lemma two_colours_not_whole:
  assumes play: "playable hand" and two: "\<not> one_colour (naturals (cb_joker_point cb) hand)"
  shows "\<not> only_whole_hand cb hand"
proof
  assume whole: "only_whole_hand cb hand"
  then obtain g where g: "g \<in> set (first_lives cb hand)" "mset (m_cards g) = mset hand"
    unfolding only_whole_hand_def by (meson last_in_set)
  then have "g \<in> set (straights_found cb hand)" by (simp add: first_lives_def search_pure_straight_flush_eq)
  then have "one_colour (naturals (cb_joker_point cb) (m_cards g))"
    using straights_found_in(2) [OF play, of cb] straight_in_one_colour [OF play] by blast
  moreover have "set (naturals (cb_joker_point cb) (m_cards g)) = set (naturals (cb_joker_point cb) hand)"
    using mset_eq_setD [OF g(2)] by simp
  ultimately show False using two by (simp only: one_colour_def not_True_eq_False)
qed

section \<open>The declaration of a player who does not declare\<close>

lemma fold_min_step:
  assumes "fold min_step combs (m_score i0, i0) = (score, i)"
  shows "i \<in> set (i0 # combs) \<and> score = m_score i \<and> (\<forall>j \<in> set (i0 # combs). score \<le> m_score j)"
  using assms
proof (induction combs arbitrary: i0)
  case Nil
  then show ?case by auto
next
  case (Cons c combs)
  have step: "min_step c (m_score i0, i0) = (m_score (if m_score c < m_score i0 then c else i0), if m_score c < m_score i0 then c else i0)"
    by (simp add: min_step_def)
  have "fold min_step combs (min_step c (m_score i0, i0)) = (score, i)" using Cons.prems by simp
  from Cons.IH [OF this [unfolded step]] show ?case
    by (cases "m_score c < m_score i0") auto
qed

lemma info_ok_score_nonneg: "info_ok jp hand info \<Longrightarrow> 0 \<le> m_score info"
  by (auto simp: info_ok_def caculate_card_score_nonneg)

lemma info_ok_partition:
  assumes "info_ok jp hand info"
  shows "mset (concat (map m_cards (m_card_group info))) = mset hand"
proof -
  obtain melds where "split_into jp hand melds (m_valid_cards info)"
    "m_card_group info = melds @ (if m_valid_cards info = [] then [] else [CardGroup GROUP_INVALID (m_valid_cards info)])"
    using assms unfolding info_ok_def by blast
  then show ?thesis by (auto simp: split_into_def split: if_splits)
qed

text \<open>
  The declaration is one of the combinations of the search, and none has a lower score. It
  faults only when every first life is the whole hand.
\<close>

lemma default_declare_ok:
  assumes play: "playable hand" and ne: "hand \<noteq> []"
    and s: "search_all_group (cb\<lparr>cb_joker_point := jp\<rparr>) hand 0 [] = Some (cb', combs)" and combs: "combs \<noteq> []"
  shows "\<exists>info \<in> set combs. default_declare cb hand jp = Some (cb', m_score info, m_card_group info)
    \<and> (\<forall>j \<in> set combs. m_score info \<le> m_score j)"
proof -
  have ok: "\<forall>info \<in> set combs. info_ok jp hand info"
    using search_all_group_ok [OF play ne, of "cb\<lparr>cb_joker_point := jp\<rparr>" jp 0] s by auto
  show ?thesis
  proof (cases "m_score (last combs) = 0")
    case True
    then have "\<forall>j \<in> set combs. m_score (last combs) \<le> m_score j"
      using ok info_ok_score_nonneg by fastforce
    then show ?thesis
      using True s combs by (intro bexI [where x = "last combs"]) (auto simp: default_declare_def)
  next
    case False
    obtain score i where f: "fold min_step combs (m_score (hd combs), hd combs) = (score, i)" by fastforce
    have "set (hd combs # combs) = set combs" using combs by (cases combs) auto
    then have "i \<in> set combs" "score = m_score i" "\<forall>j \<in> set combs. score \<le> m_score j"
      using fold_min_step [OF f] by auto
    then show ?thesis
      using False s combs f by (intro bexI [where x = i]) (auto simp: default_declare_def)
  qed
qed

lemma default_declare_fault:
  assumes "playable hand" "hand \<noteq> []"
  shows "default_declare cb hand jp = None \<longleftrightarrow> only_whole_hand (cb\<lparr>cb_joker_point := jp\<rparr>) hand"
proof -
  obtain cb' combs where s: "search_all_group (cb\<lparr>cb_joker_point := jp\<rparr>) hand 0 [] = Some (cb', combs)"
    "combs = [] \<longleftrightarrow> only_whole_hand (cb\<lparr>cb_joker_point := jp\<rparr>) hand"
    using search_all_group_ok [OF assms, of "cb\<lparr>cb_joker_point := jp\<rparr>" jp 0] by auto
  then show ?thesis
    using default_declare_ok [OF assms s(1)] by (cases "combs = []") (auto simp: default_declare_def)
qed

section \<open>The order of the combinations\<close>

text \<open>
  \<open>std::sort\<close> with a comparison \<open>less\<close>: the result is a permutation in which no element is less
  than an earlier one.
\<close>

locale std_sort_spec =
  fixes less :: "'a \<Rightarrow> 'a \<Rightarrow> bool" and std_sort :: "'a list \<Rightarrow> 'a list"
  assumes sort_perm: "mset (std_sort xs) = mset xs"
    and sort_sorted: "sorted_wrt (\<lambda>x y. \<not> less y x) (std_sort xs)"
begin

lemma sort_set: "set (std_sort xs) = set xs"
  using sort_perm by (metis set_mset_mset)

lemma sort_eq_Nil: "std_sort xs = [] \<longleftrightarrow> xs = []"
  using sort_perm [of xs] by (metis mset_zero_iff)

lemma sort_first:
  assumes "std_sort xs = x # ys"
  shows "x \<in> set xs" "\<forall>y \<in> set ys. \<not> less y x" "set (x # ys) = set xs"
  using assms sort_sorted [of xs] sort_set [of xs] by auto

end

text \<open>\<open>sort_combine_func\<close> compares a rank: it is a strict weak order, as \<open>std::sort\<close> demands.\<close>

definition comb_rank :: "combination_info \<Rightarrow> nat \<times> nat" where
  "comb_rank i = ((if m_is_has_firtlife i then (if m_is_has_secondelife i then 0 else 1) else 2), length (m_valid_cards i))"

lemma sort_combine_func_rank: "sort_combine_func i j \<longleftrightarrow> comb_rank i < comb_rank j"
  by (auto simp: sort_combine_func_def comb_rank_def)

definition stable_sort_combs :: "combination_info list \<Rightarrow> combination_info list" where
  "stable_sort_combs = sort_key comb_rank"

interpretation comb_sort: std_sort_spec sort_combine_func stable_sort_combs
  by unfold_locales
    (auto simp: stable_sort_combs_def sort_combine_func_rank not_less sorted_wrt_map [symmetric]
      intro: sorted_sort_key [unfolded sorted_map])

section \<open>The card to discard\<close>

lemma map_raise [simp]: "map rel_card (raise i d rs) = map rel_card rs"
proof (rule nth_equalityI)
  fix k assume "k < length (map rel_card (raise i d rs))"
  then show "map rel_card (raise i d rs) ! k = map rel_card rs ! k"
    by (cases "k = i") (simp_all add: raise_def)
qed (simp add: raise_def)

lemma map_relate_later [simp]: "map rel_card (relate_later i js rs) = map rel_card rs"
  by (induction js arbitrary: rs) simp_all

lemma map_relate_ace [simp]: "map rel_card (relate_ace i js rs) = map rel_card rs"
  by (induction js arbitrary: rs) simp_all

lemma map_caculate_cards_relation [simp]: "map rel_card (caculate_cards_relation rs) = map rel_card rs"
proof -
  have "map rel_card (fold (\<lambda>i rs. let rs' = relate_later i [Suc i..<length rs] rs
           in if rel_point rs' i = uint (PA :: u8) then relate_ace i [0..<length rs'] rs' else rs') is rs) = map rel_card rs" for "is"
    by (induction "is" arbitrary: rs) (simp_all add: Let_def)
  then show ?thesis by (simp add: caculate_cards_relation_def)
qed

lemma split_relations_mset:
  assumes "split_relations jp cs (f, r) = (f', r')"
  shows "mset (map rel_card f') + mset (map rel_card r') = mset (map rel_card f) + mset (map rel_card r) + mset (naturals jp cs)
    \<and> (f \<noteq> [] \<or> naturals jp cs \<noteq> [] \<longrightarrow> f' \<noteq> [])"
  using assms
proof (induction cs arbitrary: f r)
  case Nil
  then show ?case by simp
next
  case (Cons c cs)
  consider "is_joker jp c" | "\<not> is_joker jp c" "cs = []" | "\<not> is_joker jp c" "cs \<noteq> []" "hd cs = c"
    | "\<not> is_joker jp c" "cs \<noteq> []" "hd cs \<noteq> c" by blast
  then show ?case
  proof cases
    case 3
    then have "naturals jp cs \<noteq> []" by (cases cs) auto
    with 3 Cons.IH Cons.prems show ?thesis by fastforce
  qed (use Cons.IH Cons.prems in fastforce)+
qed

lemma fold_less_related:
  "fold (less_related jp) rs r0 \<in> set (r0 # rs) \<and>
     (\<forall>r \<in> set (r0 # rs). m_relate_degree (fold (less_related jp) rs r0) \<le> m_relate_degree r)"
proof (induction rs arbitrary: r0)
  case Nil
  then show ?case by simp
next
  case (Cons r rs)
  have "less_related jp r r0 \<in> {r, r0}" "m_relate_degree (less_related jp r r0) \<le> m_relate_degree r"
    "m_relate_degree (less_related jp r r0) \<le> m_relate_degree r0"
    by (auto simp: less_related_def)
  with Cons.IH [of "less_related jp r r0"] show ?case by fastforce
qed

lemma post_less_relation_card_ok:
  assumes "cs \<noteq> []"
  shows "\<exists>c. post_less_relation_card cs jp = Some c \<and> c \<in> set cs \<and> (is_joker jp c \<longrightarrow> naturals jp cs = [])"
proof -
  obtain f r where split: "split_relations jp (sort cs) ([], []) = (f, r)" by fastforce
  have ms: "mset (map rel_card f) + mset (map rel_card r) = mset (naturals jp cs)"
    and ne: "naturals jp (sort cs) \<noteq> [] \<longrightarrow> f \<noteq> []"
    using split_relations_mset [OF split] by simp_all
  show ?thesis
  proof (cases "f = []")
    case True
    then have "naturals jp cs = []" using ne by (simp add: filter_empty_conv)
    moreover have "last (sort cs) \<in> set cs"
      using assms by (metis last_in_set length_0_conv length_sort set_sort)
    ultimately show ?thesis using True split assms by (simp add: post_less_relation_card_def)
  next
    case False
    let ?rel = "caculate_cards_relation f @ caculate_cards_relation r"
    let ?min = "fold (less_related jp) (tl ?rel) (hd ?rel)"
    have "?rel \<noteq> []" using False by (metis Nil_is_append_conv Nil_is_map_conv map_caculate_cards_relation)
    then have "?min \<in> set ?rel" using fold_less_related [of jp "tl ?rel" "hd ?rel"] by (metis list.collapse)
    then have "rel_card ?min \<in> set (map rel_card ?rel)" unfolding set_map by (rule imageI)
    then have "rel_card ?min \<in># mset (map rel_card f) + mset (map rel_card r)" by auto
    then have "rel_card ?min \<in> set (naturals jp cs)" unfolding ms by (simp only: set_mset_mset)
    then show ?thesis using False split assms by (auto simp: post_less_relation_card_def Let_def)
  qed
qed

lemma last_cards_step_in:
  assumes "fold (last_cards_step jp) cs (n, a, b) = (n', a', b')"
  shows "a' \<in> insert a (set cs) \<and> b' \<in> insert b (set cs)"
  using assms
proof (induction cs arbitrary: n a b)
  case Nil
  then show ?case by simp
next
  case (Cons c cs)
  show ?case
  proof (cases "is_joker jp c")
    case True
    then show ?thesis using Cons.IH [of n a c] Cons.prems by (auto simp: last_cards_step_def)
  next
    case False
    then show ?thesis using Cons.IH [of "n + 1" c b] Cons.prems by (auto simp: last_cards_step_def)
  qed
qed

text \<open>A group of four or more cards always gives a card.\<close>

lemma bigest_step_in:
  assumes "bigest_step jp g (score, c) = (score', c')"
  shows "score' = score \<and> c' = c \<or> c' \<in> set (m_cards g) \<and> 4 \<le> length (m_cards g) \<and> 0 \<le> score'"
    and "4 \<le> length (m_cards g) \<Longrightarrow> 0 \<le> score'"
proof -
  obtain n a b where f: "fold (last_cards_step jp) (sort (m_cards g)) (0, hd (sort (m_cards g)), hd (sort (m_cards g))) = (n, a, b)"
    by (metis prod_cases3)
  have "hd (sort (m_cards g)) \<in> set (m_cards g)" if "4 \<le> length (m_cards g)"
    using that by (metis hd_in_set length_0_conv length_sort not_numeral_le_zero set_sort)
  then have ab: "a \<in> set (m_cards g) \<and> b \<in> set (m_cards g)" if "4 \<le> length (m_cards g)"
    using last_cards_step_in [OF f] that by auto
  let ?post = "if n \<le> 1 then b else a"
  have eq: "bigest_step jp g (score, c) =
      (if length (m_cards g) < 4 then (score, c)
       else if get_score jp ?post > score then (get_score jp ?post, ?post) else (score, c))"
    by (simp add: bigest_step_def f Let_def)
  show "score' = score \<and> c' = c \<or> c' \<in> set (m_cards g) \<and> 4 \<le> length (m_cards g) \<and> 0 \<le> score'"
    using assms ab get_score_nonneg unfolding eq by (auto split: if_splits)
  show "4 \<le> length (m_cards g) \<Longrightarrow> 0 \<le> score'"
    using assms unfolding eq by (auto simp: not_less split: if_splits intro: order_trans [OF get_score_nonneg])
qed

lemma bigest_fold:
  assumes "fold (bigest_step jp) gs (score, c) = (score', c')"
    and "0 \<le> score \<longrightarrow> c \<in> C" and "\<forall>g \<in> set gs. set (m_cards g) \<subseteq> C"
    and "0 \<le> score \<or> (\<exists>g \<in> set gs. 4 \<le> length (m_cards g))"
  shows "c' \<in> C"
  using assms
proof (induction gs arbitrary: score c)
  case Nil
  then show ?case by simp
next
  case (Cons g gs)
  obtain s1 c1 where step: "bigest_step jp g (score, c) = (s1, c1)" by fastforce
  note facts = bigest_step_in [OF step]
  have "fold (bigest_step jp) gs (s1, c1) = (score', c')" using Cons.prems(1) step by simp
  moreover have "0 \<le> s1 \<longrightarrow> c1 \<in> C" using facts Cons.prems(2,3) by auto
  moreover have "0 \<le> s1 \<or> (\<exists>g \<in> set gs. 4 \<le> length (m_cards g))"
    using facts Cons.prems(4) by auto
  ultimately show ?case using Cons.IH Cons.prems(3) by (meson list.set_intros(2))
qed

lemma post_valid_group_bigest_card_in:
  assumes "\<forall>g \<in> set gs. set (m_cards g) \<subseteq> C" "\<exists>g \<in> set gs. 4 \<le> length (m_cards g)"
  shows "post_valid_group_bigest_card gs jp c \<in> C"
  unfolding post_valid_group_bigest_card_def
  by (rule bigest_fold [of jp gs "-1" c, OF surjective_pairing]) (use assms in auto)

text \<open>Fourteen cards in at most four groups: one of the groups has four cards.\<close>

lemma concat_length_le: "\<forall>g \<in> set gs. length (m_cards g) \<le> k \<Longrightarrow> length (concat (map m_cards gs)) \<le> k * length gs"
  by (induction gs) auto

lemma info_ok_big_group:
  assumes ok: "info_ok jp hand info" and all: "m_valid_cards info = []" and len: "length hand = 14"
  shows "\<exists>g \<in> set (m_card_group info). 4 \<le> length (m_cards g)"
proof (rule ccontr)
  assume small: "\<not> ?thesis"
  have "length (m_card_group info) \<le> 4" using ok all by (auto simp: info_ok_def)
  moreover have "length (concat (map m_cards (m_card_group info))) \<le> 3 * length (m_card_group info)"
    by (rule concat_length_le) (use small in \<open>auto simp: not_le\<close>)
  moreover have "length (concat (map m_cards (m_card_group info))) = 14"
    using info_ok_partition [OF ok] len by (metis size_mset)
  ultimately show False by simp
qed

text \<open>The choice among the combinations of the best rank.\<close>

definition discard_score :: "int \<Rightarrow> combination_info \<Rightarrow> poker_card \<Rightarrow> int \<Rightarrow> bool" where
  "discard_score jp info c score \<longleftrightarrow>
     post_less_relation_card (m_valid_cards info) jp = Some c \<and> score = m_score info - get_score jp c"

lemma info_ok_rank:
  assumes "info_ok jp hand i" "info_ok jp hand j"
  shows "comb_rank i = comb_rank j \<longleftrightarrow> m_is_has_firtlife i = m_is_has_firtlife j
    \<and> m_is_has_secondelife i = m_is_has_secondelife j \<and> length (m_valid_cards i) = length (m_valid_cards j)"
proof -
  have "m_is_has_secondelife i \<longrightarrow> m_is_has_firtlife i" "m_is_has_secondelife j \<longrightarrow> m_is_has_firtlife j"
    using assms by (auto simp: info_ok_def)
  then show ?thesis by (auto simp: comb_rank_def)
qed

lemma post_ties_ok:
  assumes "\<forall>i \<in> set (itmin # its). info_ok jp hand i" and "discard_score jp itmin c score"
    and "m_valid_cards itmin \<noteq> []" and "sorted_wrt (\<lambda>i j. comb_rank i \<le> comb_rank j) (itmin # its)"
  shows "\<exists>c' score'. post_ties jp its itmin score c = Some (c', score') \<and>
    (\<exists>i \<in> set (itmin # its). comb_rank i = comb_rank itmin \<and> discard_score jp i c' score') \<and>
    (\<forall>i \<in> set (itmin # its). comb_rank i = comb_rank itmin \<longrightarrow> (\<forall>d s. discard_score jp i d s \<longrightarrow> score' \<le> s))"
  using assms
proof (induction its arbitrary: itmin score c)
  case Nil
  then show ?case by (auto simp: discard_score_def)
next
  case (Cons it its)
  have rank: "comb_rank itmin = comb_rank it \<longleftrightarrow> m_is_has_firtlife itmin = m_is_has_firtlife it
    \<and> m_is_has_secondelife itmin = m_is_has_secondelife it \<and> length (m_valid_cards itmin) = length (m_valid_cards it)"
    using info_ok_rank Cons.prems(1) by (metis list.set_intros)
  show ?case
  proof (cases "comb_rank itmin = comb_rank it")
    case False
    have lt: "comb_rank itmin < comb_rank i" if "i \<in> set (it # its)" for i
      using Cons.prems(4) False that by (auto intro: order.strict_trans1 simp: order.order_iff_strict)
    have "post_ties jp (it # its) itmin score c = Some (c, score)" using False rank by auto
    moreover have "\<forall>d s. discard_score jp itmin d s \<longrightarrow> score \<le> s"
      using Cons.prems(2) by (simp add: discard_score_def)
    ultimately show ?thesis using Cons.prems(2) lt by (metis less_irrefl list.set_intros(1) set_ConsD)
  next
    case True
    then have ne: "m_valid_cards it \<noteq> []" using rank Cons.prems(3) by (metis length_0_conv)
    then obtain d where d: "post_less_relation_card (m_valid_cards it) jp = Some d"
      using post_less_relation_card_ok by blast
    let ?s = "m_score it - get_score jp d"
    have it: "discard_score jp it d ?s" using d by (simp add: discard_score_def)
    define best where "best = (if ?s < score then (it, ?s, d) else (itmin, score, c))"
    have bst: "discard_score jp (fst best) (snd (snd best)) (fst (snd best))" "fst best \<in> {it, itmin}"
      "fst (snd best) \<le> ?s" "fst (snd best) \<le> score"
      using it Cons.prems(2) by (auto simp: best_def)
    have rb: "comb_rank (fst best) = comb_rank itmin" "m_valid_cards (fst best) \<noteq> []"
      using True bst(2) ne Cons.prems(3) by auto
    have eq: "post_ties jp (it # its) itmin score c = post_ties jp its (fst best) (fst (snd best)) (snd (snd best))"
      using True rank ne d by (simp add: best_def Let_def)
    have "\<exists>c' score'. post_ties jp its (fst best) (fst (snd best)) (snd (snd best)) = Some (c', score') \<and>
      (\<exists>i \<in> set (fst best # its). comb_rank i = comb_rank (fst best) \<and> discard_score jp i c' score') \<and>
      (\<forall>i \<in> set (fst best # its). comb_rank i = comb_rank (fst best) \<longrightarrow> (\<forall>d s. discard_score jp i d s \<longrightarrow> score' \<le> s))"
      using bst rb Cons.prems(1,4) by (intro Cons.IH) auto
    then obtain c' score' where res: "post_ties jp its (fst best) (fst (snd best)) (snd (snd best)) = Some (c', score')"
      "\<exists>i \<in> set (fst best # its). comb_rank i = comb_rank itmin \<and> discard_score jp i c' score'"
      "\<forall>i \<in> set (fst best # its). comb_rank i = comb_rank itmin \<longrightarrow> (\<forall>d s. discard_score jp i d s \<longrightarrow> score' \<le> s)"
      unfolding rb(1) by blast
    have "score' \<le> fst (snd best)" using res(3) bst(1) rb(1) by (meson list.set_intros(1))
    then have "\<forall>i \<in> {it, itmin}. \<forall>d s. discard_score jp i d s \<longrightarrow> score' \<le> s"
      using bst(3,4) it Cons.prems(2) by (auto simp: discard_score_def)
    then show ?thesis
      using res bst(2) unfolding eq by (intro exI [of _ c'] exI [of _ score']) (auto 0 4)
  qed
qed

text \<open>The result of \<open>post_best_card\<close> for the best combination \<open>info\<close> among \<open>combs\<close>.\<close>

definition best_discard :: "int \<Rightarrow> combination_info list \<Rightarrow> combination_info \<Rightarrow> poker_card \<Rightarrow> int \<Rightarrow> bool" where
  "best_discard jp combs info c score \<longleftrightarrow>
     info \<in> set combs \<and> (\<forall>j \<in> set combs. \<not> sort_combine_func j info) \<and>
     (if m_valid_cards info = [] then score = 0
      else c \<in> set (m_valid_cards info) \<and>
           score = caculate_card_score (remove1 c (m_valid_cards info)) jp \<and>
           (\<forall>j \<in> set combs. \<forall>d s. \<not> sort_combine_func info j \<and> discard_score jp j d s \<longrightarrow> score \<le> s))"

lemma caculate_card_score_remove1:
  assumes "c \<in> set cs"
  shows "caculate_card_score (remove1 c cs) jp = caculate_card_score cs jp - get_score jp c"
proof -
  have "mset cs = mset (c # remove1 c cs)" using assms by simp
  then have "caculate_card_score cs jp = caculate_card_score (c # remove1 c cs) jp"
    by (rule caculate_card_score_mset)
  then show ?thesis by (simp add: caculate_card_score_eq)
qed

lemma discard_scoreD:
  assumes "info_ok jp hand info" "m_valid_cards info \<noteq> []" "discard_score jp info c score"
  shows "c \<in> set (m_valid_cards info)" "score = caculate_card_score (remove1 c (m_valid_cards info)) jp"
proof -
  show c: "c \<in> set (m_valid_cards info)"
    using assms(3) post_less_relation_card_ok [OF assms(2), of jp] by (auto simp: discard_score_def)
  show "score = caculate_card_score (remove1 c (m_valid_cards info)) jp"
    using assms(1,3) by (auto simp: discard_score_def info_ok_def caculate_card_score_remove1 [OF c])
qed

lemma info_ok_cards: "info_ok jp hand info \<Longrightarrow> set (m_valid_cards info) \<subseteq> set hand"
  unfolding info_ok_def by (metis split_into_subset set_mset_mono set_mset_mset)

lemma info_ok_group_cards: "info_ok jp hand info \<Longrightarrow> g \<in> set (m_card_group info) \<Longrightarrow> set (m_cards g) \<subseteq> set hand"
  using mset_eq_setD [OF info_ok_partition, of jp hand info] by auto

lemma post_best_card_ok:
  assumes play: "playable hand" and len: "length hand = 14"
    and s: "search_all_group (cb\<lparr>cb_joker_point := jp\<rparr>) hand 1 [] = Some (cb', combs)" and combs: "combs \<noteq> []"
    and sorter: "std_sort_spec sort_combine_func srt"
  shows "\<exists>info c' score. post_best_card srt cb hand jp c = Some (cb', c', score) \<and> c' \<in> set hand
    \<and> best_discard jp combs info c' score"
proof -
  have ne: "hand \<noteq> []" using len by auto
  have ok: "\<forall>info \<in> set combs. info_ok jp hand info"
    using search_all_group_ok [OF play ne, of "cb\<lparr>cb_joker_point := jp\<rparr>" jp 1] s by auto
  obtain itmin rest where srt: "srt combs = itmin # rest"
    using std_sort_spec.sort_eq_Nil [OF sorter, of combs] combs by (cases "srt combs") auto
  note first = std_sort_spec.sort_first [OF sorter srt]
  have best: "\<forall>j \<in> set combs. \<not> sort_combine_func j itmin"
    using first(2,3) by (auto simp: sort_combine_func_rank)
  have okmin: "info_ok jp hand itmin" using ok first(1) by blast
  show ?thesis
  proof (cases "m_valid_cards itmin = []")
    case True
    have "post_valid_group_bigest_card (m_card_group itmin) jp c \<in> set hand"
      using info_ok_group_cards [OF okmin] info_ok_big_group [OF okmin True len]
      by (intro post_valid_group_bigest_card_in) auto
    moreover have "best_discard jp combs itmin (post_valid_group_bigest_card (m_card_group itmin) jp c) 0"
      using True best first(1) by (simp add: best_discard_def)
    moreover have "post_best_card srt cb hand jp c = Some (cb', post_valid_group_bigest_card (m_card_group itmin) jp c, 0)"
      using True s combs srt by (simp add: post_best_card_def)
    ultimately show ?thesis by blast
  next
    case False
    obtain d where d: "post_less_relation_card (m_valid_cards itmin) jp = Some d"
      using post_less_relation_card_ok [OF False] by blast
    have sorted: "sorted_wrt (\<lambda>i j. comb_rank i \<le> comb_rank j) (itmin # rest)"
      using std_sort_spec.sort_sorted [OF sorter, of combs] unfolding srt
      by (simp add: sort_combine_func_rank not_less)
    have "discard_score jp itmin d (m_score itmin - get_score jp d)" using d by (simp add: discard_score_def)
    from post_ties_ok [OF _ this False sorted] obtain c' score info where
      ties: "post_ties jp rest itmin (m_score itmin - get_score jp d) d = Some (c', score)"
      and info: "info \<in> set combs" "comb_rank info = comb_rank itmin" "discard_score jp info c' score"
      and least: "\<forall>i \<in> set combs. comb_rank i = comb_rank itmin \<longrightarrow> (\<forall>d s. discard_score jp i d s \<longrightarrow> score \<le> s)"
      using ok unfolding first(3) by blast
    have okinfo: "info_ok jp hand info" using ok info(1) by blast
    have ne': "m_valid_cards info \<noteq> []" using info(2) False by (auto simp: comb_rank_def)
    have "best_discard jp combs info c' score"
      using info(1,2) best discard_scoreD [OF okinfo ne' info(3)] least ne'
      by (auto simp: best_discard_def sort_combine_func_rank not_less intro: order.antisym)
    moreover have "c' \<in> set hand" using discard_scoreD(1) [OF okinfo ne' info(3)] info_ok_cards [OF okinfo] by blast
    ultimately show ?thesis using s combs srt False d ties by (auto simp: post_best_card_def)
  qed
qed

end
