(* ===== verification/Game_State.thy ===== *)
theory Game_State
  imports Card_Dealer Card_Declare "HOL-Library.Signed_Division"
begin

text \<open>
  The state of one game room: the room (\<open>GG_GameArea\<close>), its desk (\<open>GameDesk\<close>), the seats of the
  desk (\<open>GameSeat\<close>) and the players in the room (\<open>GG_Player\<close>), all under
  \<open>server/server/gamesvr\<close> and its copy directory.

  The objects point at each other; a pointer to a player is his user id, a pointer to a seat its
  number, and the null pointer is \<open>None\<close>. Following a null pointer or leaving an array is the
  fault \<open>None\<close> of an operation. The map \<open>m_all_player\<close> from user ids to players is the list of its
  keys in order; the player objects are in \<open>players\<close>. Amounts of chips and times are \<open>int\<close>: in the sources they are 64-bit and signed, where an
  overflow has no meaning.

  What the room gets from outside is the parameter \<open>env\<close> of each handler: the clock, the values
  of \<open>rand()\<close>, the answers of the money service and the file of prepared cards.
\<close>

section \<open>Status masks\<close>

definition has :: "u32 \<Rightarrow> u32 \<Rightarrow> bool" where
  "has st m \<longleftrightarrow> st AND m \<noteq> 0"

abbreviation (input) GAME_WAIT_MASK :: u32 where "GAME_WAIT_MASK \<equiv> 0x80000000"
abbreviation (input) GAME_ROUND_MASK :: u32 where "GAME_ROUND_MASK \<equiv> 0x0000FFFF"
abbreviation (input) GAME_UNREADY :: u32 where "GAME_UNREADY \<equiv> 0x01"
abbreviation (input) GAME_WAIT_PLAYING :: u32 where "GAME_WAIT_PLAYING \<equiv> 0x02"
abbreviation (input) GAME_DEALER_CARD :: u32 where "GAME_DEALER_CARD \<equiv> 0x04"
abbreviation (input) GAME_ACTIVE1 :: u32 where "GAME_ACTIVE1 \<equiv> 0x08"
abbreviation (input) GAME_ACTIVE2 :: u32 where "GAME_ACTIVE2 \<equiv> 0x10"
abbreviation (input) GAME_DECLARE :: u32 where "GAME_DECLARE \<equiv> 0x20"
abbreviation (input) GAME_DISTRIBUTE :: u32 where "GAME_DISTRIBUTE \<equiv> 0x40"
abbreviation (input) GAME_SHUFFLE_CARD :: u32 where "GAME_SHUFFLE_CARD \<equiv> 0x80"

abbreviation (input) st_seated :: u32 where "st_seated \<equiv> 0x0001"
abbreviation (input) st_ingame :: u32 where "st_ingame \<equiv> 0x0002"
abbreviation (input) st_win :: u32 where "st_win \<equiv> 0x0008"
abbreviation (input) st_cur_join :: u32 where "st_cur_join \<equiv> 0x0010"
abbreviation (input) st_escape :: u32 where "st_escape \<equiv> 0x0040"
abbreviation (input) st_drop :: u32 where "st_drop \<equiv> 0x0080"
abbreviation (input) st_declared :: u32 where "st_declared \<equiv> 0x0100"

abbreviation (input) PLAYER_MASK :: u32 where "PLAYER_MASK \<equiv> 0x000F"
abbreviation (input) PLAYER_TRUSTEED :: u32 where "PLAYER_TRUSTEED \<equiv> 0x0080"
abbreviation (input) PLAYER_OFFLINE :: u32 where "PLAYER_OFFLINE \<equiv> 0x0100"
abbreviation (input) PLAYER_ESCAPED :: u32 where "PLAYER_ESCAPED \<equiv> 0x0200"
abbreviation (input) PLAYER_WAIT_NEXT_GAME :: u32 where "PLAYER_WAIT_NEXT_GAME \<equiv> 1"
abbreviation (input) PLAYER_UNREADY :: u32 where "PLAYER_UNREADY \<equiv> 2"
abbreviation (input) PLAYER_PLAYING :: u32 where "PLAYER_PLAYING \<equiv> 3"
abbreviation (input) PLAYER_DROP :: u32 where "PLAYER_DROP \<equiv> 4"
abbreviation (input) PLAYER_DECLARE :: u32 where "PLAYER_DECLARE \<equiv> 5"
abbreviation (input) PLAYER_STAND_UP :: u32 where "PLAYER_STAND_UP \<equiv> 6"

abbreviation (input) NORMAL_OVER :: int where "NORMAL_OVER \<equiv> 0"
abbreviation (input) DROP_OVER :: int where "DROP_OVER \<equiv> 1"
abbreviation (input) BORNING_OVER :: int where "BORNING_OVER \<equiv> 2"

section \<open>Objects\<close>

record player =
  m_player_id :: int
  m_player_name :: string
  m_cur_status :: u32
  m_online_check_time :: int
  m_is_recv_broadcast :: bool
  m_cur_carry :: int
  m_active_chips :: int
  m_pGameSeat :: "nat option"
  m_session_id :: int

record seat =
  m_player :: "int option"
  m_seat_stauts :: u32
  m_ingame_player_id :: int
  m_handcards_total :: "poker_card list"
  m_match_over_account_chips :: int
  seat_score :: int                 \<comment> \<open>\<open>m_score\<close>\<close>
  m_card_score :: int
  m_dig_card :: poker_card
  seat_card_group :: "card_group list"   \<comment> \<open>\<open>m_card_group\<close>\<close>

record wait_interval =
  m_time_deal_card :: int
  m_time_active1 :: int
  m_time_active2 :: int
  m_time_post_card :: int
  m_time_shuffle_card :: int
  m_time_drop :: int
  m_time_distribute :: int
  m_time_declare :: int
  m_time_account_animat :: int
  m_time_wait_next_game :: int
  m_time_declare_animat :: int

record area_info =
  m_area_id :: int
  m_small_blind :: int
  m_min_carry :: int
  m_max_carry :: int
  m_max_playing :: int
  m_room_type :: int
  m_base_exp_win :: int
  m_base_exp_lose :: int
  m_tips_persent :: int
  m_desk_type :: int
  m_draw_tips :: int
  m_game_wait_interval :: wait_interval

text \<open>The answers to a request.\<close>

datatype gg_error = GG_ERROR_SUCCESS | GG_ERROR_INVALID_STATUS | GG_ERROR_PARAMETER_INVALID
  | GG_ERROR_USER_NOT_IN_ROOM | GG_ERROR_HAVE_NO_SEAT | GG_ERROR_HAVE_NO_IDLE_SEAT
  | GG_ERROR_USER_BUY_IN_FAILED | GG_ERROR_HAVENO_TOKEN_LOGIN | GG_ERROR_GAME_NOT_OVER

text \<open>The status of a room for the room server, \<open>GG_FlushRoomStausRequest\<close>.\<close>

datatype room_status = ROOM_NONE | ROOM_IDLE | ROOM_PLAYING | ROOM_END1

record loser_info =
  li_userid :: int
  li_isdrop :: bool
  li_loseaccount :: int
  li_score :: int
  li_cardscore :: int
  li_cardgroup :: "pb_card_group list"

record game_over_msg =
  go_gameovertype :: int
  go_winnerid :: int
  go_winaccount :: int
  go_winnercardgroup :: "pb_card_group list"
  go_winnerscore :: int
  go_loserinfo :: "loser_info list"
  go_playerchips :: "(int \<times> int) list"

text \<open>The name of the round for the clients, \<open>GG_FlushRoomRequest\<close>.\<close>

datatype app_status = APP_UNREADY | APP_WAIT_PLAYING | APP_DEALER_CARD | APP_ACTIVE1 | APP_ACTIVE2 | APP_DECLARE
  | APP_DISTRIBUTE | APP_SHUFFLE_CARD

text \<open>\<open>GG_PlayerInfo\<close>, the public view of a seat, and \<open>GG_FlushRoomRequest\<close>, the whole room for one player.\<close>

record player_info =
  pi_id :: int
  pi_name :: string
  pi_totalchips :: int
  pi_status :: u32
  pi_seatnumber :: nat
  pi_score :: int
  pi_cardgroup :: "pb_card_group list"
  pi_handcardcount :: nat

record flush_room_msg =
  fr_roomtype :: int
  fr_smallblind :: int
  fr_mincarry :: int
  fr_gamestatus :: app_status
  fr_maxplaying :: int
  fr_desktype :: int
  fr_cardpool :: "msg_card list"
  fr_bottomcardcount :: nat
  fr_jokercard :: msg_card
  fr_chipspool :: int
  fr_dealerindex :: int
  fr_applydeclareseatnum :: int
  fr_active1sec :: int
  fr_active2sec :: int
  fr_distributsec :: int
  fr_declaresec :: int
  fr_waitgamesec :: int
  fr_dropscore1 :: int
  fr_dropscore2 :: int
  fr_ispoolcardcandig :: bool
  fr_handcard :: "msg_card list"
  fr_currentactiveseat :: int
  fr_timeleft :: int
  fr_player :: "player_info list"
  fr_ingameplayer :: "(int \<times> nat) list"     \<comment> \<open>user, seat\<close>

text \<open>
  The messages the room sends to its players; the last two are the answers to a request that
  carry more than an error code.
\<close>

datatype msg =
    PlayerSitDown int string nat                        \<comment> \<open>user, name, seat\<close>
  | PlayerStandUp int int                               \<comment> \<open>user, reason\<close>
  | NotifyWaitGame int int                              \<comment> \<open>flag, seconds\<close>
  | DealCards int nat "nat list" "msg_card list" nat msg_card msg_card
      \<comment> \<open>dealer, cards per hand, order, own hand, cards left, first card of the pool, joker\<close>
  | ActivePlayer int bool                               \<comment> \<open>user, whether the pool card can be taken\<close>
  | PlayerDigCard int msg_card int                      \<comment> \<open>user, card, dig type\<close>
  | PlayerPostCard int msg_card
  | ShuffleCard nat nat                                 \<comment> \<open>cards of the bottom, of the pool\<close>
  | PlayerDeclare int msg_card "pb_card_group list"
  | PlayerLoseDeclare int "pb_card_group list" int int  \<comment> \<open>user, groups, score, chips\<close>
  | PlayerDrop int msg_card int int                     \<comment> \<open>user, card, score, chips\<close>
  | PlayerCloseAccountBox int
  | PlayerTrusteeOn int
  | PlayerTrusteeOff int
  | PlayerBuyin bool int
  | GameOver game_over_msg
  | FlushRoom flush_room_msg
  | ApplyPostCardResponse "msg_card list" "msg_card list"   \<comment> \<open>own hand, pool\<close>
  | ApplyRoomStatusResponse app_status
  | PlayerFaceShow int int                              \<comment> \<open>user, face\<close>
  | PlayerChat bool string int string                   \<comment> \<open>shortcut, text, user, name\<close>
  | PlayerUseProps int int string                       \<comment> \<open>user, acceptor, name of the prop\<close>
  | PlayerPresentGift bool int int "int list"           \<comment> \<open>whether under the command of the new interface; user, gift, acceptors\<close>
  | PlayerPresentGiftNewInter int int string "int list" \<comment> \<open>user, gift, url, acceptors\<close>
  | PlayerTransmitMessage int int string int            \<comment> \<open>type, id, data, user\<close>

text \<open>The messages to other servers that carry results or money.\<close>

datatype mq_msg =
    SubmitGameResult "(int \<times> int \<times> int \<times> u32) list"  \<comment> \<open>user, chips, experience, status mask\<close>
  | MatchOverAccount int int int                        \<comment> \<open>user, to add to the account, carry\<close>
  | GameLeaveAccount int int                            \<comment> \<open>user, carry\<close>
  | UserJoinGame int nat                                \<comment> \<open>user, players at the desk\<close>
  | UserLeaveGame int nat int                           \<comment> \<open>user, players at the desk, chips given back\<close>
  | UserEscapeGame int nat
  | UserEnterRoom int
  | UserQuitRoom int

record room =
  \<comment> \<open>\<open>GG_GameArea\<close>\<close>
  m_area_info :: area_info
  players :: "int \<Rightarrow> player option"        \<comment> \<open>the objects of \<open>GamePlayer_Manager\<close>\<close>
  m_all_player :: "int list"                \<comment> \<open>the keys, ascending\<close>
  m_pCardDealer :: card_dealer
  m_combination :: combination              \<comment> \<open>\<open>CombinationInstance\<close>\<close>
  \<comment> \<open>\<open>GameDesk\<close>\<close>
  m_seats :: "seat list"
  m_dealer_index :: int
  m_game_status :: u32
  m_wait_round_timer :: "int option"        \<comment> \<open>milliseconds of the timer that runs\<close>
  m_active_seatnum :: int
  m_joker_card :: poker_card
  m_pokercard_pool :: "poker_card list"
  m_bottom_cards :: "poker_card list"
  m_last_winner_seatnum :: int
  m_wait_begin :: int
  m_chips_pool :: int
  m_apply_declare_seatnum :: int
  m_time_game_begin :: int
  m_is_first_pool_card :: bool
  m_gameover_type :: int
  m_notify_room_type :: room_status
  m_wait_game_sec :: int
  m_draw_sec :: int
  \<comment> \<open>what was sent: to players, as answers to requests, to other servers\<close>
  sent :: "(int \<times> msg) list"
  replies :: "gg_error list"
  mq_sent :: "mq_msg list"

text \<open>The file \<open>hand_card_rummy.txt\<close> as \<open>get_card_from_file\<close> reads it from its JSON text.\<close>

record deal_file =
  df_available :: bool
  df_small_blind :: "int list"          \<comment> \<open>empty when the file has none\<close>
  df_draw_sec :: "int option"
  df_left_count :: "int option"
  df_cards :: "string list list"
  df_bottom_cards :: "string list"

record game_env =
  now :: int
  rand_deal :: "nat \<Rightarrow> nat"             \<comment> \<open>\<open>rand()\<close> in \<open>CardDealer\<close>\<close>
  rand_seat :: nat                       \<comment> \<open>\<open>rand()\<close> in \<open>step_dealer_seat\<close>\<close>
  rand_shuffle :: "nat \<Rightarrow> nat"          \<comment> \<open>\<open>rand()\<close> in \<open>step_shuffle_card\<close>\<close>
  card_from_file :: "deal_file option option"
    \<comment> \<open>\<open>None\<close>: the configuration switches it off; \<open>Some None\<close>: no file or no object in it\<close>
  money_lose :: "int \<Rightarrow> int \<Rightarrow> int \<Rightarrow> int \<Rightarrow> (int \<times> int \<times> int) option"
    \<comment> \<open>\<open>deal_lose_account\<close> of user, carry, buy-in, loss: carry, chips, amount really taken\<close>
  money_bet :: "int \<Rightarrow> int \<Rightarrow> (int \<times> int \<times> int) option"
    \<comment> \<open>\<open>bet_chips\<close> of user, amount: chips, carry, amount really taken\<close>
  money_buy_in :: "int \<Rightarrow> int \<Rightarrow> int \<Rightarrow> (int \<times> int) option"
    \<comment> \<open>\<open>GG_CMD_GAME_BUY_CHIPS_IN\<close> of user, amount, least amount: chips left, amount bought\<close>
  money_add_carry :: "int \<Rightarrow> int \<Rightarrow> int \<Rightarrow> bool"
    \<comment> \<open>whether \<open>GG_CMD_GAME_ADD_CARRY\<close> of user, carry, amount succeeds\<close>
  money_user :: "int \<Rightarrow> (int option \<times> int option) option"
    \<comment> \<open>\<open>get_user_money\<close>: chips and carry, where the answer has them\<close>
  player_online :: "int \<Rightarrow> bool"         \<comment> \<open>\<open>GamePlayer_Manager::is_player_online\<close>\<close>
  make_player :: "int \<Rightarrow> int \<Rightarrow> player option"
    \<comment> \<open>\<open>GamePlayer_Manager::make_player\<close> of user and session\<close>

section \<open>Queries\<close>

definition is_seated :: "seat \<Rightarrow> bool" where
  "is_seated s = has (m_seat_stauts s) st_seated"

definition is_in_game :: "seat \<Rightarrow> bool" where
  "is_in_game s = has (m_seat_stauts s) st_ingame"

definition is_winner :: "seat \<Rightarrow> bool" where
  "is_winner s = has (m_seat_stauts s) st_win"

definition is_player_joined :: "seat \<Rightarrow> bool" where
  "is_player_joined s = has (m_seat_stauts s) st_cur_join"

definition is_drop :: "seat \<Rightarrow> bool" where
  "is_drop s = has (m_seat_stauts s) st_drop"

definition is_declared :: "seat \<Rightarrow> bool" where
  "is_declared s = has (m_seat_stauts s) st_declared"

definition get_seated_count :: "room \<Rightarrow> nat" where
  "get_seated_count g = fold (\<lambda>s cnt. if is_seated s then Suc cnt else cnt) (m_seats g) 0"

definition get_ingame_count :: "room \<Rightarrow> nat" where
  "get_ingame_count g = fold (\<lambda>s cnt. if is_in_game s then Suc cnt else cnt) (m_seats g) 0"

definition is_game_over :: "room \<Rightarrow> bool" where
  "is_game_over g \<longleftrightarrow> has (m_game_status g) GAME_UNREADY \<or> has (m_game_status g) GAME_WAIT_PLAYING
     \<or> has (m_game_status g) GAME_DISTRIBUTE"

definition is_wait_active1 :: "room \<Rightarrow> bool" where
  "is_wait_active1 g = has (m_game_status g) GAME_ACTIVE1"

definition is_wait_active2 :: "room \<Rightarrow> bool" where
  "is_wait_active2 g = has (m_game_status g) GAME_ACTIVE2"

definition is_wait_active :: "room \<Rightarrow> bool" where
  "is_wait_active g \<longleftrightarrow> is_wait_active1 g \<or> is_wait_active2 g"

definition is_distribut :: "room \<Rightarrow> bool" where
  "is_distribut g = has (m_game_status g) GAME_DISTRIBUTE"

definition is_declareing :: "room \<Rightarrow> bool" where
  "is_declareing g = has (m_game_status g) GAME_DECLARE"

definition is_dealer_card :: "room \<Rightarrow> bool" where
  "is_dealer_card g = has (m_game_status g) GAME_DEALER_CARD"

definition is_waiting_for_round :: "room \<Rightarrow> bool" where
  "is_waiting_for_round g = has (m_game_status g) GAME_WAIT_MASK"

definition is_game_wait_playing :: "room \<Rightarrow> bool" where
  "is_game_wait_playing g \<longleftrightarrow> is_waiting_for_round g \<and> has (m_game_status g) GAME_WAIT_PLAYING"

definition is_game_can_start :: "room \<Rightarrow> bool" where
  "is_game_can_start g \<longleftrightarrow> get_seated_count g > 1"

definition joker_point :: "room \<Rightarrow> int" where
  "joker_point g = uint (m_point (m_joker_card g))"

definition get_sitdown_buyin_count :: "room \<Rightarrow> int" where
  "get_sitdown_buyin_count g = m_min_carry (m_area_info g)"

definition find_player :: "int \<Rightarrow> room \<Rightarrow> int option" where
  "find_player u g = (if u \<in> set (m_all_player g) then Some u else None)"

section \<open>Updates and messages\<close>

definition upd_player :: "int \<Rightarrow> (player \<Rightarrow> player) \<Rightarrow> room \<Rightarrow> room" where
  "upd_player u f g = g\<lparr>players := (players g)(u := map_option f (players g u))\<rparr>"

definition upd_seat :: "nat \<Rightarrow> (seat \<Rightarrow> seat) \<Rightarrow> room \<Rightarrow> room" where
  "upd_seat i f g = g\<lparr>m_seats := (m_seats g)[i := f (m_seats g ! i)]\<rparr>"

text \<open>Following the pointer \<open>m_seats[i]\<close> with an index that may be \<open>-1\<close>.\<close>

definition seat_index :: "int \<Rightarrow> room \<Rightarrow> nat option" where
  "seat_index i g = (if 0 \<le> i \<and> i < int (length (m_seats g)) then Some (nat i) else None)"

definition reply :: "gg_error \<Rightarrow> room \<Rightarrow> room" where
  "reply e g = g\<lparr>replies := replies g @ [e]\<rparr>"

definition send_to :: "int \<Rightarrow> msg \<Rightarrow> room \<Rightarrow> room" where
  "send_to u m g = g\<lparr>sent := sent g @ [(u, m)]\<rparr>"

definition send_mq :: "mq_msg \<Rightarrow> room \<Rightarrow> room" where
  "send_mq m g = g\<lparr>mq_sent := mq_sent g @ [m]\<rparr>"

definition receivers :: "room \<Rightarrow> int list" where
  "receivers g = filter (\<lambda>u. case players g u of Some p \<Rightarrow> m_is_recv_broadcast p | None \<Rightarrow> False) (m_all_player g)"

definition broadcast_message :: "msg \<Rightarrow> room \<Rightarrow> room" where
  "broadcast_message m g = fold (\<lambda>u. send_to u m) (receivers g) g"

end
