(* ===== verification/Game_Player.thy ===== *)
theory Game_Player
  imports Game_State
begin

text \<open>
  \<open>class GG_Player\<close> (\<open>GG_Player.cpp\<close>): the status bits of a player, his carry (the chips at the
  desk) and his account, and the requests to the money service. An operation gets the player's
  user id and the room.
\<close>

section \<open>Operations\<close>

subsection \<open>Status\<close>

definition set_status :: "u32 \<Rightarrow> player \<Rightarrow> player" where
  "set_status st p = (if st \<noteq> m_cur_status p then p\<lparr>m_cur_status := st\<rparr> else p)"

text \<open>\<open>set_status((get_status() & ~PLAYER_MASK) | st)\<close>\<close>

definition set_phase :: "u32 \<Rightarrow> player \<Rightarrow> player" where
  "set_phase st p = set_status ((m_cur_status p AND NOT PLAYER_MASK) OR st) p"

definition is_player_trusteed_on :: "player \<Rightarrow> bool" where
  "is_player_trusteed_on p = has (m_cur_status p) PLAYER_TRUSTEED"

definition is_player_offline :: "player \<Rightarrow> bool" where
  "is_player_offline p = has (m_cur_status p) PLAYER_OFFLINE"

definition is_player_escaped :: "player \<Rightarrow> bool" where
  "is_player_escaped p = has (m_cur_status p) PLAYER_ESCAPED"

definition is_player_playing :: "player \<Rightarrow> bool" where
  "is_player_playing p =
     (let status = m_cur_status p AND PLAYER_MASK
      in if status = PLAYER_PLAYING \<or> status = PLAYER_DROP \<or> status = PLAYER_DECLARE then True else False)"

definition is_player_need_standup :: "player \<Rightarrow> bool" where
  "is_player_need_standup p =
     (if is_player_offline p \<or> is_player_trusteed_on p \<or> is_player_escaped p then True else False)"

definition set_offline :: "player \<Rightarrow> player" where
  "set_offline p = (if \<not> is_player_offline p then set_status (m_cur_status p OR PLAYER_OFFLINE) p else p)"

definition set_online :: "player \<Rightarrow> player" where
  "set_online p = (if is_player_offline p then set_status (m_cur_status p AND NOT PLAYER_OFFLINE) p else p)"

definition flush_online_time :: "game_env \<Rightarrow> player \<Rightarrow> player" where
  "flush_online_time env p = set_online (p\<lparr>m_online_check_time := now env\<rparr>)"

definition set_trustee_on :: "int \<Rightarrow> room \<Rightarrow> room option" where
  "set_trustee_on u g =
     (case players g u of
        None \<Rightarrow> None
      | Some p \<Rightarrow>
          (if \<not> is_player_trusteed_on p
           then Some (broadcast_message (PlayerTrusteeOn u)
                  (upd_player u (\<lambda>p. set_status (m_cur_status p OR PLAYER_TRUSTEED) p) g))
           else Some g))"

definition set_trustee_off :: "int \<Rightarrow> room \<Rightarrow> room option" where
  "set_trustee_off u g =
     (case players g u of
        None \<Rightarrow> None
      | Some p \<Rightarrow>
          (if is_player_trusteed_on p
           then Some (broadcast_message (PlayerTrusteeOff u)
                  (upd_player u (\<lambda>p. set_status (m_cur_status p AND NOT PLAYER_TRUSTEED) p) g))
           else Some g))"

definition set_escaped :: "int \<Rightarrow> room \<Rightarrow> room option" where
  "set_escaped u g =
     (case players g u of
        None \<Rightarrow> None
      | Some p \<Rightarrow>
          (if \<not> is_player_escaped p
           then set_trustee_on u (upd_player u (\<lambda>p. set_offline (set_status (m_cur_status p OR PLAYER_ESCAPED) p)) g)
           else Some g))"

definition set_unescaped :: "int \<Rightarrow> room \<Rightarrow> room option" where
  "set_unescaped u g =
     (case players g u of
        None \<Rightarrow> None
      | Some p \<Rightarrow>
          (if is_player_escaped p
           then set_trustee_off u (upd_player u (\<lambda>p. set_online (set_status (m_cur_status p AND NOT PLAYER_ESCAPED) p)) g)
           else Some g))"

definition come_back_game :: "int \<Rightarrow> room \<Rightarrow> room option" where
  "come_back_game u g =
     (case players g u of
        None \<Rightarrow> None
      | Some p \<Rightarrow> (if is_player_escaped p then set_unescaped u g else Some g))"

definition escape_game :: "int \<Rightarrow> room \<Rightarrow> room option" where
  "escape_game u g = do {
     g \<leftarrow> set_escaped u g;
     Some (send_mq (UserEscapeGame u (get_seated_count g)) g)
   }"

definition is_online :: "game_env \<Rightarrow> player \<Rightarrow> bool" where
  "is_online env p \<longleftrightarrow> player_online env (m_player_id p) \<and> m_online_check_time p + 40 > now env"

definition is_seated_player :: "player \<Rightarrow> bool" where
  "is_seated_player p \<longleftrightarrow> m_pGameSeat p \<noteq> None"

definition need_kickout_room :: "game_env \<Rightarrow> room \<Rightarrow> player \<Rightarrow> bool" where
  "need_kickout_room env g p \<longleftrightarrow>
     m_online_check_time p + 10 < now env \<and> (is_game_over g \<or> \<not> is_seated_player p)"

definition need_set_offline :: "game_env \<Rightarrow> player \<Rightarrow> bool" where
  "need_set_offline env p \<longleftrightarrow> m_online_check_time p + 3 < now env"

definition get_seat_number :: "player \<Rightarrow> int" where
  "get_seat_number p = (case m_pGameSeat p of Some i \<Rightarrow> int i | None \<Rightarrow> -1)"

definition player_ready_for_game :: "player \<Rightarrow> player" where
  "player_ready_for_game p = set_phase PLAYER_PLAYING p"

subsection \<open>Chips\<close>

definition get_chips :: "player \<Rightarrow> int" where
  "get_chips p = m_active_chips p + m_cur_carry p"

definition set_carry :: "int \<Rightarrow> player \<Rightarrow> player" where
  "set_carry carry p = p\<lparr>m_cur_carry := carry\<rparr>"

definition carry_add :: "int \<Rightarrow> player \<Rightarrow> player" where
  "carry_add add_count p = set_carry (m_cur_carry p + add_count) p"

definition carry_sub :: "int \<Rightarrow> player \<Rightarrow> player" where
  "carry_sub sub_count p = set_carry (m_cur_carry p - sub_count) p"

text \<open>The result is the amount bought, \<open>-1\<close> for a failure; the \<open>assert\<close> is \<open>buy_count \<ge> min_count\<close>.\<close>

definition buy_chips :: "game_env \<Rightarrow> int \<Rightarrow> int \<Rightarrow> int \<Rightarrow> room \<Rightarrow> (room \<times> int) option" where
  "buy_chips env u buy_count min_count g =
     (if buy_count < min_count \<or> players g u = None then None
      else case money_buy_in env u buy_count min_count of
        None \<Rightarrow> Some (g, -1)
      | Some (chipsleft, buychipsreal) \<Rightarrow>
          Some (upd_player u (\<lambda>p. p\<lparr>m_active_chips := chipsleft\<rparr>) g, buychipsreal))"

definition buy_in :: "game_env \<Rightarrow> int \<Rightarrow> int \<Rightarrow> int \<Rightarrow> room \<Rightarrow> (room \<times> int) option" where
  "buy_in env u buy_count min_count g = do {
     (g, real_buy_count) \<leftarrow> buy_chips env u buy_count min_count g;
     if real_buy_count < min_count
     then Some (send_to u (PlayerBuyin False buy_count) g, -1)
     else Some (send_to u (PlayerBuyin True real_buy_count) (upd_player u (carry_add real_buy_count) g), real_buy_count)
   }"

definition buy_add_carry_chips :: "game_env \<Rightarrow> int \<Rightarrow> int \<Rightarrow> room \<Rightarrow> (room \<times> int) option" where
  "buy_add_carry_chips env u need_add_carry g =
     (case players g u of
        None \<Rightarrow> None
      | Some p \<Rightarrow>
          (if \<not> money_add_carry env u (m_cur_carry p) need_add_carry then Some (g, -1)
           else if m_active_chips p < need_add_carry then Some (g, -1)
           else Some (upd_player u (\<lambda>p. p\<lparr>m_active_chips := m_active_chips p - need_add_carry\<rparr>) g, need_add_carry)))"

definition check_chips_carry :: "game_env \<Rightarrow> int \<Rightarrow> room \<Rightarrow> (room \<times> bool) option" where
  "check_chips_carry env u g =
     (case players g u of
        None \<Rightarrow> None
      | Some p \<Rightarrow>
          (let need_add_carry = get_sitdown_buyin_count g - m_cur_carry p
           in if need_add_carry \<le> 0 then Some (g, True)
              else do {
                (g, real_buy_count) \<leftarrow> buy_add_carry_chips env u need_add_carry g;
                if real_buy_count < need_add_carry
                then Some (send_to u (PlayerBuyin False need_add_carry) g, False)
                else Some (send_to u (PlayerBuyin True real_buy_count) (upd_player u (carry_add real_buy_count) g), True)
              }))"

definition get_user_money :: "game_env \<Rightarrow> int \<Rightarrow> room \<Rightarrow> (room \<times> int) option" where
  "get_user_money env u g =
     (case players g u of
        None \<Rightarrow> None
      | Some p \<Rightarrow>
          (case money_user env u of
             None \<Rightarrow> Some (g, 0)
           | Some (chips, carry) \<Rightarrow>
               (let flush = (\<lambda>p. p\<lparr>m_active_chips := (case chips of Some n \<Rightarrow> n | None \<Rightarrow> m_active_chips p),
                          m_cur_carry := (case carry of Some n \<Rightarrow> n | None \<Rightarrow> m_cur_carry p)\<rparr>)
                in Some (upd_player u flush g, m_active_chips (flush p) + m_cur_carry (flush p)))))"

text \<open>The result is \<open>real_count\<close>, which the caller has set to 0.\<close>

definition deal_loser_account :: "game_env \<Rightarrow> int \<Rightarrow> int \<Rightarrow> room \<Rightarrow> (room \<times> int) option" where
  "deal_loser_account env u all_loser_count g =
     (case players g u of
        None \<Rightarrow> None
      | Some p \<Rightarrow>
          (case money_lose env u (m_cur_carry p) (get_sitdown_buyin_count g) all_loser_count of
             None \<Rightarrow> Some (g, 0)
           | Some (carry, chips, real_account) \<Rightarrow>
               Some (upd_player u (\<lambda>p. p\<lparr>m_cur_carry := carry, m_active_chips := chips\<rparr>) g, real_account)))"

definition bet_chips :: "game_env \<Rightarrow> int \<Rightarrow> int \<Rightarrow> room \<Rightarrow> (room \<times> int) option" where
  "bet_chips env u chips g =
     (case players g u of
        None \<Rightarrow> None
      | Some p \<Rightarrow>
          (case money_bet env u chips of
             None \<Rightarrow> Some (g, 0)
           | Some (active, carry, real_bet) \<Rightarrow>
               Some (upd_player u (\<lambda>p. p\<lparr>m_active_chips := active, m_cur_carry := carry\<rparr>) g, real_bet)))"

subsection \<open>Sitting down and standing up\<close>

definition sit_down :: "int \<Rightarrow> nat \<Rightarrow> room \<Rightarrow> room option" where
  "sit_down u i g =
     (case players g u of
        None \<Rightarrow> None
      | Some p \<Rightarrow>
          (let g = upd_player u (\<lambda>p. p\<lparr>m_pGameSeat := Some i\<rparr>) g;
               m = UserJoinGame u (get_seated_count g)
           in Some (send_mq m (send_mq m g))))"

definition stand_up :: "int \<Rightarrow> room \<Rightarrow> room option" where
  "stand_up u g =
     (case players g u of
        None \<Rightarrow> None
      | Some p \<Rightarrow>
          (if m_pGameSeat p = None then None
           else let g = upd_player u (\<lambda>p. set_phase PLAYER_STAND_UP (p\<lparr>m_pGameSeat := None\<rparr>)) g;
                    m = UserLeaveGame u (get_seated_count g) (m_cur_carry p);
                    g = send_mq (GameLeaveAccount u (m_cur_carry p)) (send_mq m (send_mq m g))
                in Some (if m_cur_carry p > 0 then upd_player u (carry_sub (m_cur_carry p)) g else g)))"

end
