(* ===== verification/Game_Seat.thy ===== *)
theory Game_Seat
  imports Game_Player
begin

text \<open>
  \<open>class GameSeat\<close> (\<open>GameSeat.cpp\<close>): the cards, the score and the account of one seat. An operation
  gets the number of the seat and the room; \<open>None\<close> is a null pointer or a failed \<open>assert\<close>.
\<close>

section \<open>Operations\<close>

definition seat_status :: "u32 \<Rightarrow> seat \<Rightarrow> seat" where
  "seat_status new_status s = s\<lparr>m_seat_stauts := new_status\<rparr>"

definition GameSeat :: seat where
  "GameSeat = \<lparr>m_player = None, m_seat_stauts = 0, m_ingame_player_id = 0, m_handcards_total = [],
     m_match_over_account_chips = 0, seat_score = 0, m_card_score = 0, m_dig_card = no_card, seat_card_group = []\<rparr>"

definition ready_for_game :: "nat \<Rightarrow> room \<Rightarrow> room option" where
  "ready_for_game i g = do {
     let g = upd_seat i (\<lambda>s. s\<lparr>m_ingame_player_id := 0, seat_score := 20, m_card_score := 0\<rparr>) g;
     g \<leftarrow> (if is_seated (m_seats g ! i)
           then do {
             u \<leftarrow> m_player (m_seats g ! i);
             p \<leftarrow> players g u;
             Some (upd_player u player_ready_for_game
               (upd_seat i (\<lambda>s. (seat_status (st_seated OR st_ingame OR st_cur_join) s)\<lparr>m_ingame_player_id := m_player_id p\<rparr>) g))
           }
           else Some (upd_seat i (seat_status 0) g));
     Some (upd_seat i (\<lambda>s. s\<lparr>m_match_over_account_chips := 0, m_handcards_total := []\<rparr>) g)
   }"

definition seat_stand_up :: "nat \<Rightarrow> room \<Rightarrow> room option" where
  "seat_stand_up i g = do {
     u \<leftarrow> m_player (m_seats g ! i);
     let g = (if \<not> is_game_over g
              then upd_seat i (\<lambda>s. seat_status ((m_seat_stauts s AND NOT st_ingame) AND NOT st_seated) s) g
              else upd_seat i (seat_status 0) g);
     g \<leftarrow> stand_up u g;
     Some (upd_seat i (\<lambda>s. s\<lparr>m_player := None, m_handcards_total := []\<rparr>) g)
   }"

definition game_over :: "nat \<Rightarrow> room \<Rightarrow> room" where
  "game_over i g = upd_seat i (\<lambda>s. seat_status ((m_seat_stauts s AND NOT st_ingame) AND NOT st_escape) s) g"

definition seat_sit_down :: "nat \<Rightarrow> int \<Rightarrow> room \<Rightarrow> room option" where
  "seat_sit_down i u g =
     sit_down u i (upd_seat i (\<lambda>s. seat_status (m_seat_stauts s OR st_seated) (s\<lparr>m_player := Some u\<rparr>)) g)"

definition deal_cards :: "nat \<Rightarrow> poker_card list \<Rightarrow> room \<Rightarrow> room" where
  "deal_cards i hand_cards g = upd_seat i (\<lambda>s. s\<lparr>m_handcards_total := sort hand_cards\<rparr>) g"

definition send_match_over_account :: "nat \<Rightarrow> room \<Rightarrow> room option" where
  "send_match_over_account i g = do {
     u \<leftarrow> m_player (m_seats g ! i);
     p \<leftarrow> players g u;
     let cur_carray = m_cur_carry p;
     let buy_carry = get_sitdown_buyin_count g;
     let temp_count = cur_carray - buy_carry;
     if temp_count \<le> 0
     then Some (send_mq (MatchOverAccount u 0 cur_carray) g)
     else Some (send_mq (MatchOverAccount u temp_count buy_carry) (upd_player u (set_carry buy_carry) g))
   }"

definition match_over_account :: "game_env \<Rightarrow> nat \<Rightarrow> int \<Rightarrow> room \<Rightarrow> (room \<times> int) option" where
  "match_over_account env i chips g = do {
     u \<leftarrow> m_player (m_seats g ! i);
     if chips \<le> 0
     then do {
       (g, real_count) \<leftarrow> deal_loser_account env u (- chips) g;
       Some (upd_seat i (\<lambda>s. s\<lparr>m_match_over_account_chips := m_match_over_account_chips s - real_count\<rparr>) g, real_count)
     }
     else do {
       p \<leftarrow> players g u;
       let g = upd_player u (carry_add chips) (upd_seat i (\<lambda>s. seat_status (m_seat_stauts s OR st_win) s) g);
       let g = upd_seat i (\<lambda>s. s\<lparr>m_match_over_account_chips := m_match_over_account_chips s + chips\<rparr>) g;
       g \<leftarrow> send_match_over_account i g;
       (g, all_money) \<leftarrow> get_user_money env u g;
       Some (g, chips)
     }
   }"

definition is_player_escape :: "seat \<Rightarrow> bool" where
  "is_player_escape s = (if has (m_seat_stauts s) st_escape then True else False)"

definition discard_card :: "nat \<Rightarrow> poker_card \<Rightarrow> room \<Rightarrow> room \<times> bool" where
  "discard_card i c g =
     (if c \<notin> set (m_handcards_total (m_seats g ! i)) then (g, False)
      else (upd_seat i (\<lambda>s. s\<lparr>m_handcards_total := remove1 c (m_handcards_total s)\<rparr>) g, True))"

definition seat_post_default_card :: "nat \<Rightarrow> room \<Rightarrow> (room \<times> poker_card) option" where
  "seat_post_default_card i g =
     (let s = m_seats g ! i
      in if m_dig_card s \<notin> set (m_handcards_total s) then None
         else Some (upd_seat i (\<lambda>s. s\<lparr>m_handcards_total := remove1 (m_dig_card s) (m_handcards_total s)\<rparr>) g, m_dig_card s))"

definition game_over_account :: "seat \<Rightarrow> int \<Rightarrow> int" where
  "game_over_account s small_blind =
     (let accout_size = int (length (m_handcards_total s)) - 1
      in if accout_size \<le> 0 then 0 else accout_size * small_blind)"

definition reset_seat :: "seat \<Rightarrow> seat" where
  "reset_seat s = s\<lparr>m_match_over_account_chips := 0, m_handcards_total := [], m_dig_card := no_card, seat_card_group := []\<rparr>"

definition dig_card :: "nat \<Rightarrow> poker_card \<Rightarrow> room \<Rightarrow> room" where
  "dig_card i c g =
     upd_seat i (\<lambda>s. s\<lparr>seat_score := 40, m_dig_card := c, m_handcards_total := sort (m_handcards_total s @ [c])\<rparr>) g"

text \<open>\<open>default_declare(m_handcards_total, joker_point, m_card_score, m_card_group)\<close>\<close>

definition declare_hand :: "nat \<Rightarrow> room \<Rightarrow> room option" where
  "declare_hand i g = do {
     (cb, score, groups) \<leftarrow> default_declare (m_combination g) (m_handcards_total (m_seats g ! i)) (joker_point g);
     Some (upd_seat i (\<lambda>s. s\<lparr>m_card_score := score, seat_card_group := groups\<rparr>) (g\<lparr>m_combination := cb\<rparr>))
   }"

definition borning_over :: "nat \<Rightarrow> room \<Rightarrow> room option" where
  "borning_over i g = declare_hand i (upd_seat i (\<lambda>s. s\<lparr>seat_score := 0\<rparr>) g)"

definition drop_win :: "nat \<Rightarrow> room \<Rightarrow> room option" where
  "drop_win i g = declare_hand i (upd_seat i (\<lambda>s. s\<lparr>seat_score := 0\<rparr>) g)"

definition seat_drop :: "nat \<Rightarrow> bool \<Rightarrow> room \<Rightarrow> room option" where
  "seat_drop i drop_card g = do {
     u \<leftarrow> m_player (m_seats g ! i);
     p \<leftarrow> players g u;
     let g = upd_player u (set_phase PLAYER_DROP)
               (upd_seat i (\<lambda>s. seat_status ((m_seat_stauts s AND NOT st_ingame) OR st_drop) s) g);
     g \<leftarrow> (if drop_card
           then (if m_dig_card (m_seats g ! i) \<notin> set (m_handcards_total (m_seats g ! i)) then None
                 else Some (upd_seat i (\<lambda>s. s\<lparr>m_handcards_total := remove1 (m_dig_card s) (m_handcards_total s)\<rparr>) g))
           else Some g);
     declare_hand i g
   }"

definition check_declare :: "nat \<Rightarrow> msg_card \<Rightarrow> pb_card_group list \<Rightarrow> room \<Rightarrow> (room \<times> bool) option" where
  "check_declare i declarecard cardgroup g =
     (let deccard = parse_msg_card declarecard;
          groups = ParseMsgGroup [] cardgroup
      in if deccard \<notin> set (m_handcards_total (m_seats g ! i)) then Some (g, False)
         else let decsequnce = sort (fold (\<lambda>grp out. out @ m_cards grp) groups [] @ [deccard]);
                  g = upd_seat i (\<lambda>s. s\<lparr>m_handcards_total := sort (m_handcards_total s)\<rparr>) g
              in if decsequnce \<noteq> m_handcards_total (m_seats g ! i) then Some (g, False)
                 else if \<not> is_groups_declare groups (joker_point g) then Some (g, False)
                 else do {
                   u \<leftarrow> m_player (m_seats g ! i);
                   p \<leftarrow> players g u;
                   Some (upd_player u (set_phase PLAYER_DECLARE)
                     (upd_seat i (\<lambda>s. seat_status (m_seat_stauts s OR st_declared)
                        (s\<lparr>seat_score := 0, m_card_score := 0, seat_card_group := groups\<rparr>)) g), True)
                 })"

text \<open>
  The score a loser pays for cards worth \<open>score\<close>: \<open>(m_score, m_card_score, score)\<close>, with a least
  payment of 1 and a largest of 80.
\<close>

definition lose_scores :: "int \<Rightarrow> int \<times> int \<times> int" where
  "lose_scores score = (if score = 0 then (1, 0, score) else if score > 80 then (80, score, 80) else (score, score, score))"

definition seat_declared :: "nat \<Rightarrow> int \<Rightarrow> card_group list \<Rightarrow> room \<Rightarrow> (room \<times> int) option" where
  "seat_declared i score groups g = do {
     let (m_sc, card_sc, score) = lose_scores score;
     let g = upd_seat i (\<lambda>s. seat_status ((m_seat_stauts s AND NOT st_ingame) OR st_declared)
               (s\<lparr>seat_score := m_sc, m_card_score := card_sc, seat_card_group := groups\<rparr>)) g;
     u \<leftarrow> m_player (m_seats g ! i);
     p \<leftarrow> players g u;
     Some (upd_player u (set_phase PLAYER_DECLARE) g, score)
   }"

definition seat_check_lose_declare :: "nat \<Rightarrow> pb_card_group list \<Rightarrow> room \<Rightarrow> (room \<times> bool \<times> int) option" where
  "seat_check_lose_declare i cardgroup g =
     (let groups = ParseMsgGroup [] cardgroup;
          decsequnce = sort (fold (\<lambda>grp out. out @ m_cards grp) groups []);
          g = upd_seat i (\<lambda>s. s\<lparr>m_handcards_total := sort (m_handcards_total s)\<rparr>) g
      in if decsequnce \<noteq> m_handcards_total (m_seats g ! i) then Some (g, False, 0)
         else case check_lose_declare groups (joker_point g) of
           (False, score) \<Rightarrow> Some (g, False, score)
         | (True, score) \<Rightarrow> do {
             (g, score) \<leftarrow> seat_declared i score groups g;
             Some (g, True, score)
           })"

definition seat_default_declare :: "nat \<Rightarrow> room \<Rightarrow> (room \<times> int \<times> card_group list) option" where
  "seat_default_declare i g = do {
     (cb, score, cardGroup) \<leftarrow> default_declare (m_combination g) (m_handcards_total (m_seats g ! i)) (joker_point g);
     (g, score) \<leftarrow> seat_declared i score cardGroup (g\<lparr>m_combination := cb\<rparr>);
     Some (g, score, cardGroup)
   }"

end
