(* ===== verification/Game_Desk.thy ===== *)
theory Game_Desk
  imports Game_Seat
begin

text \<open>
  \<open>class GameDesk\<close> (\<open>GameDesk.cpp\<close>): the rounds of a game of rummy, the actions of the players and
  the timer between them. \<open>None\<close> is a failed \<open>assert\<close>, a null pointer or an access outside an array.
  The timer of the desk is the field \<open>m_wait_round_timer\<close>; its expiry is \<open>on_wait_round_timeout\<close>.
\<close>

abbreviation (input) HAND_CARD_COUNT :: nat where "HAND_CARD_COUNT \<equiv> 13"
abbreviation (input) ENTER_SCORE1 :: int where "ENTER_SCORE1 \<equiv> 15"
abbreviation (input) DIG_BOTTOM :: int where "DIG_BOTTOM \<equiv> 0"
abbreviation (input) APPLY_STAND_UP :: int where "APPLY_STAND_UP \<equiv> 0"
abbreviation (input) NO_MORE_CHIPS :: int where "NO_MORE_CHIPS \<equiv> 2"
abbreviation (input) OTHER_REASON :: int where "OTHER_REASON \<equiv> 4"
abbreviation (input) QUIT_ROOM :: int where "QUIT_ROOM \<equiv> 1"

section \<open>Operations\<close>

subsection \<open>The room's part\<close>

definition get_game_desk_tips :: "int \<Rightarrow> room \<Rightarrow> int" where
  "get_game_desk_tips chips g = (chips * m_tips_persent (m_area_info g)) sdiv 100"

definition wait_ms :: "(wait_interval \<Rightarrow> int) \<Rightarrow> room \<Rightarrow> int" where
  "wait_ms f g = f (m_game_wait_interval (m_area_info g))"

definition destroy_player_i :: "int \<Rightarrow> room \<Rightarrow> room" where
  "destroy_player_i u g = (send_mq (UserQuitRoom u) g)\<lparr>players := (players g)(u := None)\<rparr>"

definition destroy_player :: "int \<Rightarrow> room \<Rightarrow> room" where
  "destroy_player u g = destroy_player_i u (g\<lparr>m_all_player := remove1 u (m_all_player g)\<rparr>)"

definition broadcast_player_standup :: "int \<Rightarrow> int \<Rightarrow> room \<Rightarrow> room" where
  "broadcast_player_standup u reason g = fold (\<lambda>r. send_to r (PlayerStandUp u reason)) (receivers g) g"

text \<open>The dug card is shown to the player who digs and blanked for the others.\<close>

definition broadcast_player_digcard :: "int \<Rightarrow> msg_card \<Rightarrow> int \<Rightarrow> room \<Rightarrow> room" where
  "broadcast_player_digcard u c digtype g =
     fold (\<lambda>r. send_to r (PlayerDigCard u (if r \<noteq> u then \<lparr>mc_point = 0, mc_color = 0\<rparr> else c) digtype)) (receivers g) g"

subsection \<open>Rounds\<close>

definition set_game_status :: "u32 \<Rightarrow> room \<Rightarrow> room" where
  "set_game_status status g = g\<lparr>m_game_status := status\<rparr>"

text \<open>
  The call \<open>async_wait(std::bind)\<close> of \<open>wait_for_round\<close> is not complete in the source. The model takes \<open>on_wait_round_timeout\<close>
  for the handler, the only function of the class that runs the step of a round.
\<close>

definition wait_for_round :: "u32 \<Rightarrow> int \<Rightarrow> room \<Rightarrow> room" where
  "wait_for_round round ms g =
     (set_game_status ((GAME_WAIT_MASK OR round) OR (m_game_status g AND NOT GAME_ROUND_MASK)) g)
       \<lparr>m_wait_round_timer := Some ms\<rparr>"

definition notify_room_status :: "room_status \<Rightarrow> room \<Rightarrow> room" where
  "notify_room_status type g = g\<lparr>m_notify_room_type := type\<rparr>"

definition notify_room_will_over :: "int \<Rightarrow> room \<Rightarrow> room" where
  "notify_room_will_over cur_score g =
     (if cur_score \<le> ENTER_SCORE1 \<and> cur_score \<ge> 0 \<and> m_notify_room_type g = ROOM_PLAYING
      then notify_room_status ROOM_END1 g else g)"

definition notify_player_wait_nextgame :: "int \<Rightarrow> room \<Rightarrow> room" where
  "notify_player_wait_nextgame flag g =
     (let secs = (if get_seated_count g = 2 then 10 else if get_seated_count g = 3 then 8 else 5)
      in broadcast_message (NotifyWaitGame flag secs) (g\<lparr>m_wait_game_sec := secs\<rparr>))"

subsection \<open>Seats in order\<close>

definition next_seat_number :: "nat \<Rightarrow> room \<Rightarrow> nat" where
  "next_seat_number i g = (i + 1) mod length (m_seats g)"

text \<open>The \<open>while (next_seat != start_seat)\<close> loop, with as much fuel as there are seats.\<close>

fun next_seat_loop :: "(nat \<Rightarrow> bool) \<Rightarrow> room \<Rightarrow> nat \<Rightarrow> nat \<Rightarrow> nat \<Rightarrow> nat option" where
  "next_seat_loop P g start_seat next_seat 0 = None"
| "next_seat_loop P g start_seat next_seat (Suc fuel) =
     (if next_seat = start_seat then Some next_seat
      else if P next_seat then Some next_seat
      else next_seat_loop P g start_seat (next_seat_number next_seat g) fuel)"

definition next_seated_number :: "nat \<Rightarrow> room \<Rightarrow> nat option" where
  "next_seated_number i g =
     next_seat_loop (\<lambda>j. is_seated (m_seats g ! j)) g i (next_seat_number i g) (length (m_seats g))"

definition next_ingame_seat_number :: "nat \<Rightarrow> room \<Rightarrow> nat option" where
  "next_ingame_seat_number i g =
     next_seat_loop (\<lambda>j. is_in_game (m_seats g ! j)) g i (next_seat_number i g) (length (m_seats g))"

text \<open>The \<open>do ... while (seat != m_dealer_index)\<close> loop of \<open>get_player_deal_order\<close>.\<close>

fun deal_order_loop :: "room \<Rightarrow> nat \<Rightarrow> nat \<Rightarrow> nat list \<Rightarrow> nat \<Rightarrow> nat list option" where
  "deal_order_loop g dealer i order 0 = None"
| "deal_order_loop g dealer i order (Suc fuel) =
     (let order = (if is_seated (m_seats g ! i) then order @ [i] else order);
          i = next_seat_number i g
      in if i = dealer then Some order else deal_order_loop g dealer i order fuel)"

definition get_player_deal_order :: "room \<Rightarrow> nat list option" where
  "get_player_deal_order g = do {
     d \<leftarrow> seat_index (m_dealer_index g) g;
     deal_order_loop g d d [] (length (m_seats g))
   }"

fun idle_loop :: "nat \<Rightarrow> seat list \<Rightarrow> int" where
  "idle_loop i [] = -1"
| "idle_loop i (s # ss) = (if \<not> is_seated s then int i else idle_loop (Suc i) ss)"

definition get_idle_seat_number :: "room \<Rightarrow> int" where
  "get_idle_seat_number g = idle_loop 0 (m_seats g)"

definition is_seat_idle :: "int \<Rightarrow> room \<Rightarrow> bool" where
  "is_seat_idle i g =
     (if i < 0 \<or> i > int (length (m_seats g)) - 1 then False else \<not> is_seated (m_seats g ! nat i))"

fun last_ingame_loop :: "nat \<Rightarrow> seat list \<Rightarrow> int" where
  "last_ingame_loop i [] = -1"
| "last_ingame_loop i (s # ss) = (if is_seated s \<and> is_in_game s then int i else last_ingame_loop (Suc i) ss)"

definition get_last_ingame_seatnum :: "room \<Rightarrow> int" where
  "get_last_ingame_seatnum g = last_ingame_loop 0 (m_seats g)"

definition is_active_player :: "player \<Rightarrow> room \<Rightarrow> bool" where
  "is_active_player p g = (if m_active_seatnum g = -1 then False else get_seat_number p = m_active_seatnum g)"

text \<open>The player object at a seat.\<close>

definition seated_player :: "nat \<Rightarrow> room \<Rightarrow> player option" where
  "seated_player i g = Option.bind (m_player (m_seats g ! i)) (players g)"

fun all_over_account :: "room \<Rightarrow> nat list \<Rightarrow> bool option" where
  "all_over_account g [] = Some True"
| "all_over_account g (i # is) =
     (if \<not> is_seated (m_seats g ! i) then all_over_account g is
      else case seated_player i g of
        None \<Rightarrow> None
      | Some p \<Rightarrow> (if is_player_playing p then Some False else all_over_account g is))"

definition is_all_player_over_account :: "room \<Rightarrow> bool option" where
  "is_all_player_over_account g = all_over_account g [0..<length (m_seats g)]"

subsection \<open>The end of a game\<close>

text \<open>Setting the phase of the players at some seats.\<close>

definition set_ingame_player_over_status :: "room \<Rightarrow> room option" where
  "set_ingame_player_over_status g =
     for_each (\<lambda>i g.
       if \<not> is_seated (m_seats g ! i) then Some g
       else do {
         u \<leftarrow> m_player (m_seats g ! i);
         p \<leftarrow> players g u;
         let player_status = m_cur_status p AND NOT PLAYER_MASK;
         if is_player_joined (m_seats g ! i) \<and> player_status \<noteq> PLAYER_UNREADY \<and> player_status \<noteq> PLAYER_WAIT_NEXT_GAME
         then Some (upd_player u (\<lambda>p. set_status (PLAYER_PLAYING OR (m_cur_status p AND NOT PLAYER_MASK)) p) g)
         else Some g
       }) [0..<length (m_seats g)] g"

definition set_player_matchover_status :: "room \<Rightarrow> room option" where
  "set_player_matchover_status g =
     for_each (\<lambda>i g.
       if \<not> is_seated (m_seats g ! i) then Some g
       else if is_player_joined (m_seats g ! i)
       then do {
         u \<leftarrow> m_player (m_seats g ! i);
         p \<leftarrow> players g u;
         Some (upd_player u (\<lambda>p. set_status (PLAYER_UNREADY OR (m_cur_status p AND NOT PLAYER_MASK)) p) g)
       }
       else Some g) [0..<length (m_seats g)] g"

definition clear_desk :: "room \<Rightarrow> room" where
  "clear_desk g = g\<lparr>m_bottom_cards := [], m_joker_card := no_card, m_pokercard_pool := [], m_chips_pool := 0,
     m_apply_declare_seatnum := -1, m_active_seatnum := -1, m_gameover_type := -1, m_seats := map reset_seat (m_seats g)\<rparr>"

text \<open>The chips shown for the player of a seat, 0 when he has left.\<close>

definition shown_chips :: "nat \<Rightarrow> room \<Rightarrow> int option" where
  "shown_chips i g =
     (if is_seated (m_seats g ! i)
      then case seated_player i g of
        None \<Rightarrow> None
      | Some p \<Rightarrow> Some (if m_ingame_player_id (m_seats g ! i) = m_player_id p then get_chips p else 0)
      else Some 0)"

definition account_seat :: "nat \<Rightarrow> room \<times> game_over_msg \<Rightarrow> (room \<times> game_over_msg) option" where
  "account_seat i = (\<lambda>(g, request).
     let s = m_seats g ! i in
     if \<not> is_player_joined s then Some (g, request)
     else if int i = m_apply_declare_seatnum g
     then do {
       chips \<leftarrow> shown_chips i g;
       Some (g, request\<lparr>go_playerchips := go_playerchips request @ [(m_ingame_player_id s, chips)]\<rparr>)
     }
     else do {
       g \<leftarrow> (if m_apply_declare_seatnum g = -1 then borning_over i g else Some g);
       let s' = m_seats g ! i;
       chips \<leftarrow> shown_chips i g;
       Some (g, request\<lparr>
         go_loserinfo := go_loserinfo request @
           [\<lparr>li_userid = m_ingame_player_id s, li_isdrop = is_drop s, li_loseaccount = m_match_over_account_chips s,
             li_score = seat_score s', li_cardscore = m_card_score s',
             li_cardgroup = copy_group_to_msg (seat_card_group s') []\<rparr>],
         go_playerchips := go_playerchips request @ [(m_ingame_player_id s, chips)]\<rparr>)
     })"

definition caculate_over_account :: "game_env \<Rightarrow> room \<Rightarrow> (room \<times> game_over_msg) option" where
  "caculate_over_account env g = do {
     let g = g\<lparr>m_last_winner_seatnum := m_apply_declare_seatnum g\<rparr>;
     let request = \<lparr>go_gameovertype = m_gameover_type g, go_winnerid = -1, go_winaccount = 0, go_winnercardgroup = [],
                     go_winnerscore = 0, go_loserinfo = [], go_playerchips = []\<rparr>;
     (g, request) \<leftarrow>
       (if m_apply_declare_seatnum g = -1 then Some (g, request)
        else do {
          w \<leftarrow> seat_index (m_apply_declare_seatnum g) g;
          let tips_persent = get_game_desk_tips (m_chips_pool g) g;
          (g, real_chips) \<leftarrow> match_over_account env w (m_chips_pool g - tips_persent) g;
          Some (g, request\<lparr>go_winaccount := real_chips, go_winnerid := m_ingame_player_id (m_seats g ! w),
            go_winnercardgroup := copy_group_to_msg (seat_card_group (m_seats g ! w)) [],
            go_winnerscore := m_card_score (m_seats g ! w)\<rparr>)
        });
     for_each account_seat [0..<length (m_seats g)] (g, request)
   }"

definition submit_game_result :: "room \<Rightarrow> room" where
  "submit_game_result g =
     send_mq (SubmitGameResult
       (map (\<lambda>s. (m_ingame_player_id s, m_match_over_account_chips s,
                 (if is_winner s then m_base_exp_win (m_area_info g) else m_base_exp_lose (m_area_info g)),
                 m_seat_stauts s AND st_win))
         (filter is_player_joined (m_seats g)))) g"

definition step_gameover_distrbute :: "game_env \<Rightarrow> room \<Rightarrow> room option" where
  "step_gameover_distrbute env g = do {
     (g, request) \<leftarrow> caculate_over_account env g;
     let g = broadcast_message (GameOver request) g;
     let g = submit_game_result g;
     let g = g\<lparr>m_wait_begin := now env\<rparr>;
     let g = (if m_gameover_type g = DROP_OVER
              then wait_for_round GAME_DISTRIBUTE (wait_ms m_time_distribute g + wait_ms m_time_account_animat g + 3000) g
              else wait_for_round GAME_DISTRIBUTE (wait_ms m_time_distribute g + wait_ms m_time_account_animat g) g);
     g \<leftarrow> set_ingame_player_over_status g;
     Some (clear_desk g)
   }"

definition deduct_draw_tips :: "game_env \<Rightarrow> room \<Rightarrow> room option" where
  "deduct_draw_tips env g =
     (let one_tips = m_draw_tips (m_area_info g)
      in if one_tips = 0 then Some g
         else for_each (\<lambda>i g.
           if is_in_game (m_seats g ! i)
           then do {
             u \<leftarrow> m_player (m_seats g ! i);
             (g, realchips) \<leftarrow> bet_chips env u one_tips g;
             Some g
           }
           else Some g) [0..<length (m_seats g)] g)"

subsection \<open>Dealing\<close>

text \<open>\<open>find_card\<close> and the loops of \<open>get_card_from_file\<close> that take named cards out of \<open>all_card\<close>.\<close>

definition find_card :: "poker_card list \<Rightarrow> poker_card \<Rightarrow> bool" where
  "find_card cards pc \<longleftrightarrow> (\<exists>c \<in> set cards. m_color c = m_color pc \<and> m_point c = m_point pc)"

text \<open>The result is the cards left, the cards taken and whether all names were found.\<close>

fun take_named :: "string list \<Rightarrow> poker_card list \<Rightarrow> poker_card list \<Rightarrow> poker_card list \<times> poker_card list \<times> bool" where
  "take_named [] all_card out = (all_card, out, True)"
| "take_named (s # ss) all_card out =
     (let pc = parse_string s no_card
      in if \<not> find_card all_card pc then (all_card, out, False)
         else take_named ss (remove1 pc all_card) (out @ [pc]))"

fun take_hands :: "string list list \<Rightarrow> poker_card list \<Rightarrow> poker_card list list \<Rightarrow> poker_card list \<times> poker_card list list \<times> bool" where
  "take_hands [] all_card hands = (all_card, hands, True)"
| "take_hands (h # hs) all_card hands =
     (case take_named (take HAND_CARD_COUNT h) all_card [] of
        (all_card, hand, False) \<Rightarrow> (all_card, hands @ [hand], False)
      | (all_card, hand, True) \<Rightarrow> take_hands hs all_card (hands @ [hand]))"

text \<open>A prepared hand is filled up to 13 cards from the front of the other cards.\<close>

fun fill_hands :: "poker_card list list \<Rightarrow> poker_card list \<Rightarrow> poker_card list \<Rightarrow> (poker_card list \<times> poker_card list) option" where
  "fill_hands [] all_card vec_card = Some (all_card, vec_card)"
| "fill_hands (h # hs) all_card vec_card =
     (let need = HAND_CARD_COUNT - length h
      in if length all_card < need then None
         else fill_hands hs (drop need all_card) (vec_card @ h @ take need all_card))"

text \<open>The result is \<open>(vec_card, draw_sec, left_bottom_count)\<close>.\<close>

definition get_card_from_file ::
  "deal_file option \<Rightarrow> poker_card list \<Rightarrow> int \<Rightarrow> int \<Rightarrow> int \<Rightarrow> (poker_card list \<times> int \<times> int) option" where
  "get_card_from_file file all_card draw_sec left_bottom_count smallblind =
     (case file of
        None \<Rightarrow> Some (all_card, draw_sec, left_bottom_count)
      | Some f \<Rightarrow>
          (if \<not> df_available f then Some (all_card, draw_sec, left_bottom_count)
           else if df_small_blind f \<noteq> [] \<and> smallblind \<notin> set (df_small_blind f)
           then Some (all_card, draw_sec, left_bottom_count)
           else
             let draw_sec = (case df_draw_sec f of Some n \<Rightarrow> n | None \<Rightarrow> draw_sec);
                 left_count = (case df_left_count f of Some n \<Rightarrow> n | None \<Rightarrow> left_bottom_count)
             in case take_hands (take 5 (df_cards f)) all_card [] of
                  (all_card, hands, False) \<Rightarrow> Some (all_card, draw_sec, left_count)
                | (all_card, hands, True) \<Rightarrow>
                    (case take_named (df_bottom_cards f) all_card [] of
                       (all_card, bottomCard, False) \<Rightarrow> Some (all_card, draw_sec, left_count)
                     | (all_card, bottomCard, True) \<Rightarrow>
                         (case fill_hands hands all_card [] of
                            None \<Rightarrow> None
                          | Some (all_card, vec_card) \<Rightarrow> Some (vec_card @ bottomCard @ all_card, draw_sec, left_count)))))"

text \<open>The hand of a seat: 13 cards from the front of the bottom cards.\<close>

definition deal_seat :: "nat \<Rightarrow> room \<Rightarrow> room option" where
  "deal_seat i g =
     (if \<not> is_seated (m_seats g ! i) then Some g
      else if length (m_bottom_cards g) < HAND_CARD_COUNT then None
      else Some (deal_cards i (take HAND_CARD_COUNT (m_bottom_cards g))
             (g\<lparr>m_bottom_cards := drop HAND_CARD_COUNT (m_bottom_cards g)\<rparr>)))"

definition send_deal_cards :: "int \<Rightarrow> room \<Rightarrow> room option" where
  "send_deal_cards u g = do {
     p \<leftarrow> players g u;
     order \<leftarrow> get_player_deal_order g;
     let hand = (case m_pGameSeat p of Some i \<Rightarrow> m_handcards_total (m_seats g ! i) | None \<Rightarrow> []);
     if m_pokercard_pool g = [] then None
     else Some (send_to u (DealCards (m_dealer_index g) HAND_CARD_COUNT order (CopyCardToMsg hand [])
            (length (m_bottom_cards g)) (to_msg_card (hd (m_pokercard_pool g))) (to_msg_card (m_joker_card g))) g)
   }"

definition broadcast_deal_cards :: "room \<Rightarrow> room option" where
  "broadcast_deal_cards g = for_each send_deal_cards (receivers g) g"

text \<open>
  The parts of \<open>step_deal_cards\<close>: the 108 cards, the first card of the pool and the first card of
  the bottom that is no joker as the card of the wild point, and the cut of the bottom.
\<close>

definition deal_bottom :: "game_env \<Rightarrow> room \<Rightarrow> (room \<times> int) option" where
  "deal_bottom env g = do {
     let g = g\<lparr>m_draw_sec := 20 * 60\<rparr>;
     (d, bottom) \<leftarrow> deal_card (rand_deal env) (m_pCardDealer g) [] CARD_COUNT;
     let g = g\<lparr>m_pCardDealer := d, m_bottom_cards := bottom\<rparr>;
     case card_from_file env of
       None \<Rightarrow> Some (g, 0)
     | Some file \<Rightarrow> do {
         (vec_card, draw_sec, left_count) \<leftarrow>
           get_card_from_file file (m_bottom_cards g) (m_draw_sec g) 0 (m_small_blind (m_area_info g));
         Some (g\<lparr>m_bottom_cards := vec_card, m_draw_sec := draw_sec\<rparr>, left_count)
       }
   }"

definition turn_joker :: "room \<Rightarrow> room option" where
  "turn_joker g =
     (if m_bottom_cards g = [] then None
      else let g = g\<lparr>m_pokercard_pool := m_pokercard_pool g @ [hd (m_bottom_cards g)], m_bottom_cards := tl (m_bottom_cards g)\<rparr>;
               jokers_first = takeWhile (\<lambda>c. m_point c \<ge> JOKER1) (m_bottom_cards g);
               rest = dropWhile (\<lambda>c. m_point c \<ge> JOKER1) (m_bottom_cards g)
           in if rest = [] then None
              else Some (g\<lparr>m_joker_card := hd rest, m_bottom_cards := jokers_first @ tl rest\<rparr>))"

definition cut_bottom :: "int \<Rightarrow> room \<Rightarrow> room option" where
  "cut_bottom left_count g =
     (if left_count > 0
      then (if int (length (m_bottom_cards g)) < left_count then None
            else Some (g\<lparr>m_bottom_cards := take (nat left_count) (m_bottom_cards g)\<rparr>))
      else Some g)"

definition step_deal_cards :: "game_env \<Rightarrow> room \<Rightarrow> room option" where
  "step_deal_cards env g = do {
     (g, left_count) \<leftarrow> deal_bottom env g;
     g \<leftarrow> for_each deal_seat [0..<length (m_seats g)] g;
     g \<leftarrow> turn_joker g;
     g \<leftarrow> cut_bottom left_count g;
     broadcast_deal_cards g
   }"

subsection \<open>A new game\<close>

definition step_desk_ready :: "room \<Rightarrow> room option" where
  "step_desk_ready g =
     for_each ready_for_game [0..<length (m_seats g)]
       (g\<lparr>m_wait_round_timer := None, m_pokercard_pool := [], m_is_first_pool_card := True\<rparr>)"

definition seated_seats :: "room \<Rightarrow> nat list" where
  "seated_seats g = filter (\<lambda>i. is_seated (m_seats g ! i)) [0..<length (m_seats g)]"

definition step_dealer_seat :: "game_env \<Rightarrow> room \<Rightarrow> room option" where
  "step_dealer_seat env g = do {
     w \<leftarrow> (if m_last_winner_seatnum g \<noteq> -1
           then do { i \<leftarrow> seat_index (m_last_winner_seatnum g) g; Some (is_seated (m_seats g ! i)) }
           else Some False);
     if w then Some (g\<lparr>m_dealer_index := m_last_winner_seatnum g\<rparr>)
     else if seated_seats g = [] then None
     else Some (g\<lparr>m_dealer_index := int (seated_seats g ! (rand_seat env mod length (seated_seats g)))\<rparr>)
   }"

definition start_new_game :: "game_env \<Rightarrow> room \<Rightarrow> room option" where
  "start_new_game env g = do {
     g \<leftarrow> step_desk_ready g;
     g \<leftarrow> step_dealer_seat env g;
     if m_dealer_index g = -1 then None
     else do {
       g \<leftarrow> step_deal_cards env g;
       Some ((wait_for_round GAME_DEALER_CARD (wait_ms m_time_deal_card g) g)\<lparr>m_time_game_begin := now env\<rparr>)
     }
   }"

subsection \<open>Turns\<close>

text \<open>Whether the top of the pool may be taken: a joker only as the first card of the pool.\<close>

definition pool_card_can_dig :: "room \<Rightarrow> bool" where
  "pool_card_can_dig g \<longleftrightarrow>
     \<not> (is_joker (joker_point g) (last (m_pokercard_pool g)) \<and> \<not> m_is_first_pool_card g)"

text \<open>The three parts of \<open>active_player\<close>: the seat whose turn it is, the end of a game that took too long, the turn.\<close>

definition next_active :: "room \<Rightarrow> room option" where
  "next_active g =
     (if m_active_seatnum g = -1 then Some (g\<lparr>m_active_seatnum := m_dealer_index g\<rparr>)
      else do {
        a \<leftarrow> seat_index (m_active_seatnum g) g;
        n \<leftarrow> next_ingame_seat_number a g;
        Some (g\<lparr>m_active_seatnum := int n\<rparr>)
      })"

definition draw_game :: "game_env \<Rightarrow> room \<Rightarrow> room option" where
  "draw_game env g = do {
     let g = notify_room_status ROOM_IDLE (g\<lparr>m_gameover_type := BORNING_OVER\<rparr>);
     g \<leftarrow> deduct_draw_tips env g;
     step_gameover_distrbute env g
   }"

definition announce_active :: "game_env \<Rightarrow> int \<Rightarrow> room \<Rightarrow> room option" where
  "announce_active env extra_time g = do {
     a \<leftarrow> seat_index (m_active_seatnum g) g;
     p \<leftarrow> seated_player a g;
     if m_pokercard_pool g = [] then None
     else do {
       let g = broadcast_message (ActivePlayer (m_player_id p) (pool_card_can_dig g)) g;
       let g = wait_for_round GAME_ACTIVE1
                 (if is_player_trusteed_on p then extra_time + 1000 else wait_ms m_time_active1 g + extra_time + 1500) g;
       Some (g\<lparr>m_wait_begin := now env\<rparr>)
     }
   }"

definition active_player :: "game_env \<Rightarrow> int \<Rightarrow> room \<Rightarrow> room option" where
  "active_player env extra_time g = do {
     g \<leftarrow> next_active g;
     if m_time_game_begin g + m_draw_sec g < now env then draw_game env g
     else announce_active env extra_time g
   }"

text \<open>The loop that moves all but the last two cards of the pool, in random order, to the bottom.\<close>

function shuffle_loop :: "(nat \<Rightarrow> nat) \<Rightarrow> nat \<Rightarrow> poker_card list \<Rightarrow> poker_card list \<Rightarrow> poker_card list" where
  "shuffle_loop rs k cards bottom =
     (if cards = [] then bottom
      else let index = rs k mod length cards
           in shuffle_loop rs (Suc k)
                (butlast (if length cards > 1 then cards[index := last cards] else cards))
                (bottom @ [cards ! index]))"
  by pat_completeness auto

termination
  by (relation "measure (\<lambda>(rs, k, cards, bottom). length cards)") auto

declare shuffle_loop.simps [simp del]

definition step_shuffle_card :: "game_env \<Rightarrow> room \<Rightarrow> room option" where
  "step_shuffle_card env g =
     (if length (m_pokercard_pool g) < 2 then None
      else let n = length (m_pokercard_pool g) - 2;
               cards = take n (m_pokercard_pool g);
               g = g\<lparr>m_pokercard_pool := drop n (m_pokercard_pool g),
                     m_bottom_cards := shuffle_loop (rand_shuffle env) 0 cards (m_bottom_cards g)\<rparr>
           in Some (broadcast_message (ShuffleCard (length (m_bottom_cards g)) (length (m_pokercard_pool g))) g))"

text \<open>The card that is dug, taken from the bottom or from the top of the pool.\<close>

definition take_dug_card :: "int \<Rightarrow> room \<Rightarrow> poker_card \<times> room" where
  "take_dug_card digtype g =
     (if digtype = DIG_BOTTOM then (hd (m_bottom_cards g), g\<lparr>m_bottom_cards := tl (m_bottom_cards g)\<rparr>)
      else (last (m_pokercard_pool g), g\<lparr>m_pokercard_pool := butlast (m_pokercard_pool g)\<rparr>))"

text \<open>The rest of \<open>player_dig_card\<close> for the card \<open>c\<close>.\<close>

definition give_dug_card :: "game_env \<Rightarrow> int \<Rightarrow> bool \<Rightarrow> int \<Rightarrow> poker_card \<Rightarrow> room \<Rightarrow> room option" where
  "give_dug_card env u trusteed digtype c g = do {
     let g = (reply GG_ERROR_SUCCESS g)\<lparr>m_is_first_pool_card := False\<rparr>;
     a \<leftarrow> seat_index (m_active_seatnum g) g;
     let g = (broadcast_player_digcard u (to_msg_card c) digtype (dig_card a c g))\<lparr>m_wait_begin := now env\<rparr>;
     Some (wait_for_round GAME_ACTIVE2 (if trusteed then 1000 else wait_ms m_time_active2 g + 1500) g)
   }"

definition player_dig_card :: "game_env \<Rightarrow> int \<Rightarrow> int \<Rightarrow> room \<Rightarrow> room option" where
  "player_dig_card env u digtype g = do {
     p \<leftarrow> players g u;
     if \<not> is_active_player p g \<or> \<not> is_wait_active1 g then Some (reply GG_ERROR_INVALID_STATUS g)
     else if m_bottom_cards g = [] \<or> m_pokercard_pool g = [] then None
     else if digtype \<noteq> DIG_BOTTOM \<and> \<not> pool_card_can_dig g then Some g
     else let (c, g) = take_dug_card digtype g
          in give_dug_card env u (is_player_trusteed_on p) digtype c g
   }"

definition broadcast_post_card :: "int \<Rightarrow> poker_card \<Rightarrow> room \<Rightarrow> room" where
  "broadcast_post_card u c g = broadcast_message (PlayerPostCard u (to_msg_card c)) g"

text \<open>After a card was put on the pool: a shuffle when one card is left at the bottom, else the next turn.\<close>

definition after_post :: "game_env \<Rightarrow> room \<Rightarrow> room option" where
  "after_post env g =
     (if length (m_bottom_cards g) = 1
      then do {
        g \<leftarrow> step_shuffle_card env g;
        Some (wait_for_round GAME_SHUFFLE_CARD (wait_ms m_time_shuffle_card g + wait_ms m_time_post_card g) g)
      }
      else active_player env (wait_ms m_time_post_card g) g)"

definition post_default_card :: "game_env \<Rightarrow> room \<Rightarrow> room option" where
  "post_default_card env g = do {
     a \<leftarrow> seat_index (m_active_seatnum g) g;
     p \<leftarrow> seated_player a g;
     (g, c) \<leftarrow> seat_post_default_card a g;
     let g = g\<lparr>m_pokercard_pool := m_pokercard_pool g @ [c]\<rparr>;
     after_post env (broadcast_post_card (m_player_id p) c g)
   }"

definition player_post_card :: "game_env \<Rightarrow> int \<Rightarrow> msg_card \<Rightarrow> int \<Rightarrow> room \<Rightarrow> room option" where
  "player_post_card env u pbcard appscore g = do {
     p \<leftarrow> players g u;
     i \<leftarrow> m_pGameSeat p;
     let response = ApplyPostCardResponse (CopyCardToMsg (m_handcards_total (m_seats g ! i)) []) (CopyCardToMsg (m_pokercard_pool g) []);
     if \<not> is_active_player p g \<or> \<not> is_wait_active2 g then Some (send_to u response (reply GG_ERROR_INVALID_STATUS g))
     else do {
       let c = parse_msg_card pbcard;
       a \<leftarrow> seat_index (m_active_seatnum g) g;
       let (g, ok) = discard_card a c g;
       if \<not> ok then Some (send_to u response (reply GG_ERROR_PARAMETER_INVALID g))
       else do {
         let g = reply GG_ERROR_SUCCESS g;
         let g = g\<lparr>m_pokercard_pool := m_pokercard_pool g @ [c]\<rparr>;
         g \<leftarrow> after_post env (broadcast_post_card u c g);
         Some (notify_room_will_over appscore g)
       }
     }
   }"

subsection \<open>Declaring and dropping\<close>

text \<open>The last part of \<open>player_declare\<close>, for a declaration that was accepted.\<close>

definition start_declare :: "game_env \<Rightarrow> int \<Rightarrow> nat \<Rightarrow> msg_card \<Rightarrow> pb_card_group list \<Rightarrow> room \<Rightarrow> room" where
  "start_declare env u i declarecard cardgroup g =
     (let g = broadcast_message (PlayerDeclare u declarecard cardgroup) (reply GG_ERROR_SUCCESS g);
          g = g\<lparr>m_wait_begin := now env\<rparr>;
          g = wait_for_round GAME_DECLARE (wait_ms m_time_declare g + wait_ms m_time_declare_animat g + 3000) g;
          g = g\<lparr>m_apply_declare_seatnum := int i\<rparr>
      in (notify_room_status ROOM_IDLE g)\<lparr>m_gameover_type := NORMAL_OVER\<rparr>)"

definition player_declare :: "game_env \<Rightarrow> int \<Rightarrow> msg_card \<Rightarrow> pb_card_group list \<Rightarrow> room \<Rightarrow> room option" where
  "player_declare env u declarecard cardgroup g = do {
     p \<leftarrow> players g u;
     case m_pGameSeat p of
       None \<Rightarrow> Some (reply GG_ERROR_PARAMETER_INVALID g)
     | Some i \<Rightarrow>
         (if \<not> is_in_game (m_seats g ! i) \<or> \<not> is_wait_active2 g \<or> \<not> is_active_player p g
          then Some (reply GG_ERROR_PARAMETER_INVALID g)
          else do {
            (g, ok) \<leftarrow> check_declare i declarecard cardgroup g;
            if \<not> ok then Some (reply GG_ERROR_PARAMETER_INVALID g)
            else Some (start_declare env u i declarecard cardgroup g)
          })
   }"

text \<open>
  The chips of a loser go to the pool; with one player left in the game it ends. This is the common
  end of \<open>player_lose_declare\<close> and \<open>default_decalre\<close>; the second adds to the pool before the message,
  which does not show the pool.
\<close>

definition loser_pays :: "game_env \<Rightarrow> nat \<Rightarrow> int \<Rightarrow> pb_card_group list \<Rightarrow> int \<Rightarrow> room \<Rightarrow> room option" where
  "loser_pays env i u cardgroup score g = do {
     let lose_chips = m_small_blind (m_area_info g) * seat_score (m_seats g ! i);
     (g, real_chips) \<leftarrow> match_over_account env i (- lose_chips) g;
     let g = broadcast_message (PlayerLoseDeclare u cardgroup score real_chips) g;
     let g = g\<lparr>m_chips_pool := m_chips_pool g + real_chips\<rparr>;
     if get_ingame_count g = 1 then step_gameover_distrbute env g else Some g
   }"

definition player_lose_declare :: "game_env \<Rightarrow> int \<Rightarrow> pb_card_group list \<Rightarrow> room \<Rightarrow> room option" where
  "player_lose_declare env u cardgroup g = do {
     p \<leftarrow> players g u;
     case m_pGameSeat p of
       None \<Rightarrow> Some (reply GG_ERROR_PARAMETER_INVALID g)
     | Some i \<Rightarrow>
         (if \<not> is_in_game (m_seats g ! i) \<or> \<not> is_declareing g then Some (reply GG_ERROR_PARAMETER_INVALID g)
          else do {
            (g, ok, score) \<leftarrow> seat_check_lose_declare i cardgroup g;
            if \<not> ok then Some (reply GG_ERROR_PARAMETER_INVALID g)
            else loser_pays env i u cardgroup score (reply GG_ERROR_SUCCESS g)
          })
   }"

definition default_decalre :: "game_env \<Rightarrow> int \<Rightarrow> room \<Rightarrow> room option" where
  "default_decalre env u g = do {
     p \<leftarrow> players g u;
     i \<leftarrow> m_pGameSeat p;
     (g, score, cg) \<leftarrow> seat_default_declare i g;
     loser_pays env i u (copy_group_to_msg cg []) score g
   }"

text \<open>The parts of \<open>step_player_drop\<close> after the payment: the last player in the game wins, else the turn goes on.\<close>

definition drop_ends_game :: "game_env \<Rightarrow> room \<Rightarrow> room option" where
  "drop_ends_game env g = do {
     let g = g\<lparr>m_gameover_type := DROP_OVER, m_apply_declare_seatnum := get_last_ingame_seatnum g\<rparr>;
     w \<leftarrow> seat_index (m_apply_declare_seatnum g) g;
     g \<leftarrow> drop_win w g;
     step_gameover_distrbute env (notify_room_status ROOM_IDLE g)
   }"

definition after_drop :: "game_env \<Rightarrow> player \<Rightarrow> room \<Rightarrow> room option" where
  "after_drop env p g =
     (if get_ingame_count g = 1 then drop_ends_game env g
      else if is_wait_active g \<and> is_active_player p g then active_player env (wait_ms m_time_drop g) g
      else Some g)"

definition step_player_drop :: "game_env \<Rightarrow> int \<Rightarrow> room \<Rightarrow> room option" where
  "step_player_drop env u g = do {
     p \<leftarrow> players g u;
     i \<leftarrow> m_pGameSeat p;
     let drop_card = (is_wait_active2 g \<and> is_active_player p g);
     g \<leftarrow> seat_drop i drop_card g;
     let dropcard = to_msg_card (if drop_card then m_dig_card (m_seats g ! i) else no_card);
     let dropscore = seat_score (m_seats g ! i);
     (g, real_chips) \<leftarrow> match_over_account env i (- m_small_blind (m_area_info g) * dropscore) g;
     let g = g\<lparr>m_chips_pool := m_chips_pool g + real_chips\<rparr>;
     after_drop env p (broadcast_message (PlayerDrop u dropcard dropscore real_chips) g)
   }"

definition player_drop :: "game_env \<Rightarrow> int \<Rightarrow> room \<Rightarrow> room option" where
  "player_drop env u g = do {
     p \<leftarrow> players g u;
     if is_game_over g \<or> is_declareing g \<or> is_dealer_card g then Some (reply GG_ERROR_INVALID_STATUS g)
     else case m_pGameSeat p of
       None \<Rightarrow> Some (reply GG_ERROR_INVALID_STATUS g)
     | Some i \<Rightarrow>
         (if \<not> is_in_game (m_seats g ! i) \<or> is_drop (m_seats g ! i) then Some (reply GG_ERROR_INVALID_STATUS g)
          else step_player_drop env u (reply GG_ERROR_SUCCESS g))
   }"

subsection \<open>Sitting down and standing up\<close>

text \<open>The result of the two operations is the seat, 0 or \<open>-1\<close>.\<close>

text \<open>The last part of \<open>player_sit_down\<close>: the phase of the new player, and the wait that its arrival restarts.\<close>

definition seated_status :: "int \<Rightarrow> room \<Rightarrow> room" where
  "seated_status u g =
     (if \<not> is_game_over g then upd_player u (set_phase PLAYER_WAIT_NEXT_GAME) g
      else let g = upd_player u (set_phase PLAYER_UNREADY) g
           in if has (m_game_status g) GAME_UNREADY then wait_for_round GAME_UNREADY 0 g else g)"

definition player_sit_down :: "int \<Rightarrow> int \<Rightarrow> room \<Rightarrow> (room \<times> int) option" where
  "player_sit_down u seat_number g =
     (if seat_number < 0 \<or> seat_number > int (length (m_seats g)) - 1 then Some (g, -1)
      else if is_seated (m_seats g ! nat seat_number) then Some (g, -1)
      else do {
        g \<leftarrow> seat_sit_down (nat seat_number) u g;
        g \<leftarrow> set_trustee_off u g;
        let g = seated_status u g;
        p \<leftarrow> players g u;
        Some (broadcast_message (PlayerSitDown (m_player_id p) (m_player_name p) (nat seat_number)) g, seat_number)
      })"

text \<open>The first part of \<open>player_stand_up\<close>: whether the player may leave, after a forced declaration.\<close>

definition leave_game :: "game_env \<Rightarrow> int \<Rightarrow> nat \<Rightarrow> room \<Rightarrow> (room \<times> bool) option" where
  "leave_game env u i g =
     (if \<not> is_game_over g \<and> is_in_game (m_seats g ! i)
      then if is_declareing g
           then if int i = m_apply_declare_seatnum g then Some (g, False)
                else do { g \<leftarrow> default_decalre env u g; Some (g, True) }
           else Some (g, False)
      else Some (g, True))"

text \<open>The last part, with the seat empty: the end of the account when nobody is left in it, or of the wait for a game.\<close>

definition after_stand_up :: "bool \<Rightarrow> room \<Rightarrow> room option" where
  "after_stand_up is_playing g = do {
     over \<leftarrow> (if is_distribut g \<and> is_playing then is_all_player_over_account g else Some False);
     if over then set_player_matchover_status (wait_for_round GAME_DISTRIBUTE 0 g)
     else if \<not> is_game_can_start g \<and> is_game_wait_playing g
     then Some (notify_room_status ROOM_IDLE (wait_for_round GAME_UNREADY 0 (notify_player_wait_nextgame 0 g)))
     else Some g
   }"

definition player_stand_up :: "game_env \<Rightarrow> int \<Rightarrow> int \<Rightarrow> room \<Rightarrow> (room \<times> int) option" where
  "player_stand_up env u reason g = do {
     p \<leftarrow> players g u;
     i \<leftarrow> m_pGameSeat p;
     if \<not> i < length (m_seats g) \<or> m_player (m_seats g ! i) \<noteq> Some u then None
     else do {
       (g, may_leave) \<leftarrow> leave_game env u i g;
       if \<not> may_leave then Some (g, -1)
       else do {
         let g = (if int i = m_last_winner_seatnum g then g\<lparr>m_last_winner_seatnum := -1\<rparr> else g);
         p \<leftarrow> players g u;
         let is_playing = is_player_playing p;
         g \<leftarrow> seat_stand_up i (broadcast_player_standup u reason g);
         g \<leftarrow> after_stand_up is_playing g;
         Some (g, 0)
       }
     }
   }"

definition check_player_status :: "game_env \<Rightarrow> room \<Rightarrow> room option" where
  "check_player_status env g =
     for_each (\<lambda>i g.
       if \<not> is_seated (m_seats g ! i) then Some g
       else do {
         u \<leftarrow> m_player (m_seats g ! i);
         p \<leftarrow> players g u;
         if is_player_need_standup p
         then do { (g, _) \<leftarrow> player_stand_up env u OTHER_REASON g; Some (destroy_player u g) }
         else Some g
       }) [0..<length (m_seats g)] g"

definition check_player_chips :: "game_env \<Rightarrow> room \<Rightarrow> room option" where
  "check_player_chips env g =
     for_each (\<lambda>i g.
       case m_player (m_seats g ! i) of
         None \<Rightarrow> Some g
       | Some u \<Rightarrow> do {
           (g, enough) \<leftarrow> check_chips_carry env u g;
           if \<not> enough
           then do { (g, _) \<leftarrow> player_stand_up env u NO_MORE_CHIPS g; Some (destroy_player u g) }
           else Some g
         }) [0..<length (m_seats g)] g"

subsection \<open>The timer\<close>

definition ready_for_next_game :: "game_env \<Rightarrow> room \<Rightarrow> room option" where
  "ready_for_next_game env g = do {
     g \<leftarrow> check_player_status env (wait_for_round GAME_UNREADY 0 g);
     set_player_matchover_status g
   }"

definition step_unready :: "game_env \<Rightarrow> room \<Rightarrow> room option" where
  "step_unready env g = do {
     g \<leftarrow> check_player_chips env g;
     if is_game_can_start g
     then do {
       let g = notify_player_wait_nextgame 1 g;
       let g = g\<lparr>m_wait_begin := now env\<rparr>;
       Some (wait_for_round GAME_WAIT_PLAYING (m_wait_game_sec g * 1000) g)
     }
     else Some g
   }"

definition step_playing_begin :: "game_env \<Rightarrow> room \<Rightarrow> room option" where
  "step_playing_begin env g =
     (if \<not> is_game_can_start g then Some (wait_for_round GAME_UNREADY 0 (notify_room_status ROOM_IDLE g))
      else start_new_game env (notify_room_status ROOM_PLAYING g))"

definition step_active1_timeout :: "game_env \<Rightarrow> room \<Rightarrow> room option" where
  "step_active1_timeout env g = do {
     a \<leftarrow> seat_index (m_active_seatnum g) g;
     u \<leftarrow> m_player (m_seats g ! a);
     g \<leftarrow> set_trustee_on u g;
     active_player env 0 g
   }"

definition step_rand2_timeout :: "game_env \<Rightarrow> room \<Rightarrow> room option" where
  "step_rand2_timeout env g = do {
     a \<leftarrow> seat_index (m_active_seatnum g) g;
     u \<leftarrow> m_player (m_seats g ! a);
     g \<leftarrow> set_trustee_on u g;
     post_default_card env g
   }"

definition step_declare_timeout :: "game_env \<Rightarrow> room \<Rightarrow> room option" where
  "step_declare_timeout env g =
     for_each (\<lambda>i g.
       if is_seated (m_seats g ! i) \<and> is_in_game (m_seats g ! i) \<and> \<not> is_declared (m_seats g ! i)
       then do { u \<leftarrow> m_player (m_seats g ! i); default_decalre env u g }
       else Some g) [0..<length (m_seats g)] g"

definition step_new_round :: "game_env \<Rightarrow> room \<Rightarrow> room option" where
  "step_new_round env g =
     (let wait_round = m_game_status g AND GAME_ROUND_MASK;
          g = set_game_status (m_game_status g AND NOT GAME_WAIT_MASK) g
      in if wait_round = GAME_UNREADY then step_unready env g
         else if wait_round = GAME_WAIT_PLAYING then step_playing_begin env g
         else if wait_round = GAME_DEALER_CARD then active_player env 0 g
         else if wait_round = GAME_ACTIVE1 then step_active1_timeout env g
         else if wait_round = GAME_ACTIVE2 then step_rand2_timeout env g
         else if wait_round = GAME_DECLARE then step_declare_timeout env g
         else if wait_round = GAME_SHUFFLE_CARD then active_player env 0 g
         else if wait_round = GAME_DISTRIBUTE then ready_for_next_game env g
         else Some g)"

definition on_wait_round_timeout :: "game_env \<Rightarrow> room \<Rightarrow> room option" where
  "on_wait_round_timeout env g =
     (case m_wait_round_timer g of
        None \<Rightarrow> Some g
      | Some _ \<Rightarrow> step_new_round env (g\<lparr>m_wait_round_timer := None\<rparr>))"

subsection \<open>Other requests of a player\<close>

definition player_trusteeoff :: "game_env \<Rightarrow> int \<Rightarrow> room \<Rightarrow> room option" where
  "player_trusteeoff env u g = do {
     p \<leftarrow> players g u;
     if \<not> is_seated_player p then Some g
     else do {
       let g = (if is_wait_active g \<and> is_active_player p g \<and> is_player_trusteed_on p
                then let t = (if is_wait_active1 g then wait_ms m_time_active1 g else wait_ms m_time_active2 g);
                         lefttime = t sdiv 1000 - (now env - m_wait_begin g);
                         lefttime = (if lefttime \<le> 0 then 0 else lefttime)
                     in if is_wait_active1 g then wait_for_round GAME_ACTIVE1 (lefttime * 1000 + 1500) g
                        else wait_for_round GAME_ACTIVE2 (lefttime * 1000 + 1500) g
                else g);
       set_trustee_off u g
     }
   }"

definition player_close_account_box :: "game_env \<Rightarrow> int \<Rightarrow> room \<Rightarrow> room option" where
  "player_close_account_box env u g = do {
     p \<leftarrow> players g u;
     if \<not> is_seated_player p \<or> \<not> is_distribut g \<or> \<not> is_player_playing p then Some g
     else do {
       let g = broadcast_message (PlayerCloseAccountBox u) (upd_player u (set_phase PLAYER_UNREADY) g);
       over \<leftarrow> is_all_player_over_account g;
       if \<not> over then Some g else ready_for_next_game env g
     }
   }"

definition get_game_status_for_app :: "room \<Rightarrow> app_status" where
  "get_game_status_for_app g =
     (let game_round = m_game_status g AND GAME_ROUND_MASK
      in if has (m_game_status g) GAME_WAIT_MASK
         then (if game_round = GAME_UNREADY then APP_UNREADY
               else if game_round = GAME_WAIT_PLAYING then APP_WAIT_PLAYING
               else if game_round = GAME_DEALER_CARD then APP_DEALER_CARD
               else if game_round = GAME_ACTIVE1 then APP_ACTIVE1
               else if game_round = GAME_ACTIVE2 then APP_ACTIVE2
               else if game_round = GAME_DECLARE then APP_DECLARE
               else if game_round = GAME_DISTRIBUTE then APP_DISTRIBUTE
               else if game_round = GAME_SHUFFLE_CARD then APP_SHUFFLE_CARD
               else APP_UNREADY)
         else APP_UNREADY)"

text \<open>
  The public view of the seats. The status is compared with its flags, not masked by
  \<open>PLAYER_MASK\<close>.
\<close>

definition seat_player_info :: "nat \<Rightarrow> room \<Rightarrow> player_info option" where
  "seat_player_info i g = do {
     p \<leftarrow> seated_player i g;
     let s = m_seats g ! i;
     let shown = (m_cur_status p \<noteq> PLAYER_WAIT_NEXT_GAME \<and> m_cur_status p \<noteq> PLAYER_UNREADY \<and> m_cur_status p \<noteq> PLAYER_STAND_UP);
     Some \<lparr>pi_id = m_player_id p, pi_name = m_player_name p, pi_totalchips = get_chips p, pi_status = m_cur_status p,
       pi_seatnumber = i, pi_score = (if shown then seat_score s else 0),
       pi_cardgroup = (if shown then copy_group_to_msg (seat_card_group s) [] else []),
       pi_handcardcount = length (m_handcards_total s)\<rparr>
   }"

definition get_seat_player :: "room \<Rightarrow> player_info list option" where
  "get_seat_player g =
     for_each (\<lambda>i infos. do { info \<leftarrow> seat_player_info i g; Some (infos @ [info]) })
       (filter (\<lambda>i. is_seated (m_seats g ! i)) [0..<length (m_seats g)]) []"

definition get_joingame_player :: "room \<Rightarrow> (int \<times> nat) list" where
  "get_joingame_player g =
     (if is_game_over g then []
      else map (\<lambda>i. (m_ingame_player_id (m_seats g ! i), i))
             (filter (\<lambda>i. is_player_joined (m_seats g ! i)) [0..<length (m_seats g)]))"

text \<open>The seconds left of the round, at least 1.\<close>

definition flush_time_left :: "game_env \<Rightarrow> room \<Rightarrow> int" where
  "flush_time_left env g =
     (let secs = (\<lambda>ms. ms sdiv 1000);
          since = now env - m_wait_begin g;
          capped = (\<lambda>t. if t - since > t then t else t - since);
          tLeft =
            (if is_wait_active1 g then capped (secs (wait_ms m_time_active1 g))
             else if is_wait_active2 g then capped (secs (wait_ms m_time_active2 g))
             else if is_distribut g then secs (wait_ms m_time_distribute g + wait_ms m_time_account_animat g) - since
             else if is_declareing g then secs (wait_ms m_time_declare g) - since
             else if has (m_game_status g) GAME_WAIT_PLAYING then capped (m_wait_game_sec g)
             else 0)
      in if tLeft \<le> 0 then 1 else tLeft)"

definition own_hand :: "player \<Rightarrow> room \<Rightarrow> msg_card list" where
  "own_hand p g =
     (case m_pGameSeat p of
        None \<Rightarrow> []
      | Some i \<Rightarrow> (if is_in_game (m_seats g ! i) then CopyCardToMsg (m_handcards_total (m_seats g ! i)) [] else []))"

definition player_flush_room :: "game_env \<Rightarrow> int \<Rightarrow> room \<Rightarrow> room option" where
  "player_flush_room env u g = do {
     p \<leftarrow> players g u;
     infos \<leftarrow> get_seat_player g;
     let a = m_area_info g;
     Some (send_to u (FlushRoom
       \<lparr>fr_roomtype = m_room_type a, fr_smallblind = m_small_blind a, fr_mincarry = m_min_carry a,
        fr_gamestatus = get_game_status_for_app g, fr_maxplaying = m_max_playing a, fr_desktype = m_desk_type a,
        fr_cardpool = CopyCardToMsg (m_pokercard_pool g) [],
        fr_bottomcardcount = (if is_game_over g then CARD_COUNT else length (m_bottom_cards g)),
        fr_jokercard = to_msg_card (m_joker_card g), fr_chipspool = m_chips_pool g, fr_dealerindex = m_dealer_index g,
        fr_applydeclareseatnum = m_apply_declare_seatnum g,
        fr_active1sec = wait_ms m_time_active1 g sdiv 1000, fr_active2sec = wait_ms m_time_active2 g sdiv 1000,
        fr_distributsec = wait_ms m_time_distribute g sdiv 1000, fr_declaresec = wait_ms m_time_declare g sdiv 1000,
        fr_waitgamesec = wait_ms m_time_declare g sdiv 1000, fr_dropscore1 = 20, fr_dropscore2 = 40,
        fr_ispoolcardcandig = (m_pokercard_pool g \<noteq> [] \<and> pool_card_can_dig g), fr_handcard = own_hand p g,
        fr_currentactiveseat = (if is_wait_active g then m_active_seatnum g else -1),
        fr_timeleft = flush_time_left env g, fr_player = infos, fr_ingameplayer = get_joingame_player g\<rparr>) g)
   }"

end
