(* ===== verification/Game_Area.thy ===== *)
theory Game_Area
  imports Game_Desk
begin

text \<open>
  \<open>class GG_GameArea\<close> (\<open>GG_GameArea.cpp\<close>): the requests of users to a room, dispatched to the
  handlers of the room and of its desk. A request is a value of the type \<open>request\<close>. The entry for
  remote procedure calls, for which no procedure is registered, is left out.
\<close>

section \<open>Operations\<close>

definition add_player :: "game_env \<Rightarrow> int \<Rightarrow> int \<Rightarrow> room \<Rightarrow> room option" where
  "add_player env u session g =
     (if u \<in> set (m_all_player g) then Some g
      else case make_player env u session of
        None \<Rightarrow> None
      | Some p \<Rightarrow>
          Some ((send_mq (UserEnterRoom u) g)
            \<lparr>players := (players g)(u := Some p), m_all_player := insort u (m_all_player g)\<rparr>))"

text \<open>The \<open>erase\<close> before \<open>destroy_player\<close> is repeated there; the second one finds nothing.\<close>

definition on_new_player_enter :: "game_env \<Rightarrow> int \<Rightarrow> string \<Rightarrow> int \<Rightarrow> room \<Rightarrow> room option" where
  "on_new_player_enter env u name session g =
     (case add_player env u session g of
        None \<Rightarrow> Some (reply GG_ERROR_HAVENO_TOKEN_LOGIN g)
      | Some g \<Rightarrow> do {
          let g = upd_player u (\<lambda>p. p\<lparr>m_player_name := name\<rparr>) g;
          let idle_seat_number = get_idle_seat_number g;
          if idle_seat_number = -1
          then Some (destroy_player u (reply GG_ERROR_HAVE_NO_SEAT g))
          else do {
            (g, bought) \<leftarrow> buy_in env u (get_sitdown_buyin_count g) (get_sitdown_buyin_count g) g;
            if bought = -1 then Some (destroy_player u (reply GG_ERROR_USER_BUY_IN_FAILED g))
            else do {
              (g, seat_num) \<leftarrow> player_sit_down u idle_seat_number (reply GG_ERROR_SUCCESS g);
              if seat_num \<noteq> idle_seat_number then None else Some g
            }
          }
        })"

definition on_player_enter :: "game_env \<Rightarrow> int \<Rightarrow> string \<Rightarrow> int \<Rightarrow> room \<Rightarrow> room option" where
  "on_player_enter env u name session g =
     (case find_player u g of
        None \<Rightarrow> on_new_player_enter env u name session g
      | Some u \<Rightarrow> do {
          g \<leftarrow> come_back_game u (upd_player u (\<lambda>p. p\<lparr>m_player_name := name\<rparr>) g);
          Some (reply GG_ERROR_SUCCESS g)
        })"

definition on_player_exit :: "game_env \<Rightarrow> int \<Rightarrow> room \<Rightarrow> room option" where
  "on_player_exit env u g =
     (case find_player u g of
        None \<Rightarrow> Some (reply GG_ERROR_USER_NOT_IN_ROOM g)
      | Some u \<Rightarrow> do {
          p \<leftarrow> players g u;
          (g, r) \<leftarrow> (if get_seat_number p \<noteq> -1 then player_stand_up env u APPLY_STAND_UP g else Some (g, 0));
          if r = -1 then Some (reply GG_ERROR_GAME_NOT_OVER g)
          else Some (destroy_player u (reply GG_ERROR_SUCCESS g))
        })"

definition on_apply_seat :: "game_env \<Rightarrow> int \<Rightarrow> int \<Rightarrow> room \<Rightarrow> room option" where
  "on_apply_seat env u seatnumber g =
     (case find_player u g of
        None \<Rightarrow> Some (reply GG_ERROR_USER_NOT_IN_ROOM g)
      | Some u \<Rightarrow> do {
          let g = upd_player u (flush_online_time env) g;
          p \<leftarrow> players g u;
          if get_seat_number p \<noteq> -1 then Some (reply GG_ERROR_SUCCESS g)
          else if \<not> is_seat_idle seatnumber g then Some (reply GG_ERROR_HAVE_NO_IDLE_SEAT g)
          else do {
            (g, bought) \<leftarrow> buy_in env u (get_sitdown_buyin_count g) (get_sitdown_buyin_count g) g;
            if bought = -1 then Some (reply GG_ERROR_USER_BUY_IN_FAILED g)
            else do {
              (g, seat_num) \<leftarrow> player_sit_down u seatnumber (reply GG_ERROR_SUCCESS g);
              if seat_num = -1 then None else Some g
            }
          }
        })"

definition on_apply_standup :: "game_env \<Rightarrow> int \<Rightarrow> room \<Rightarrow> room option" where
  "on_apply_standup env u g =
     (case find_player u g of
        None \<Rightarrow> Some (reply GG_ERROR_USER_NOT_IN_ROOM g)
      | Some u \<Rightarrow> do {
          let g = upd_player u (flush_online_time env) (reply GG_ERROR_SUCCESS g);
          p \<leftarrow> players g u;
          if get_seat_number p \<noteq> -1
          then do {
            (g, r) \<leftarrow> player_stand_up env u APPLY_STAND_UP g;
            Some (if r \<noteq> -1 then destroy_player u g else g)
          }
          else Some g
        })"

text \<open>One round of the loop of \<open>check_player_online\<close>; a player kicked out is erased from the map first.\<close>

definition check_one_online :: "game_env \<Rightarrow> int \<Rightarrow> room \<Rightarrow> room option" where
  "check_one_online env u g = do {
     p \<leftarrow> players g u;
     if is_online env p then Some (upd_player u set_online g)
     else if need_kickout_room env g p
     then do {
       let g = g\<lparr>m_all_player := remove1 u (m_all_player g)\<rparr>;
       (g, _) \<leftarrow> (if get_seat_number p \<noteq> -1 then player_stand_up env u QUIT_ROOM g else Some (g, 0));
       Some (destroy_player_i u g)
     }
     else Some (upd_player u set_offline g)
   }"

definition check_player_online :: "game_env \<Rightarrow> room \<Rightarrow> room option" where
  "check_player_online env g = for_each (check_one_online env) (m_all_player g) g"

text \<open>The common frame of the requests to the desk.\<close>

definition desk_request :: "game_env \<Rightarrow> int \<Rightarrow> (room \<Rightarrow> room option) \<Rightarrow> room \<Rightarrow> room option" where
  "desk_request env u action g =
     (case find_player u g of
        None \<Rightarrow> Some (reply GG_ERROR_USER_NOT_IN_ROOM g)
      | Some u \<Rightarrow> action (upd_player u (flush_online_time env) g))"

datatype relay_request =
    ApplyFaceShow int int
  | ApplyChat int bool string
  | ApplyUseProps int int string
  | ApplyPresentChips int int "int list"
  | ApplyPresentGift int int "int list"
  | ApplyPresentGiftNewInter int int string "int list"
  | ApplyTransmitMessage int int int string "int list"  \<comment> \<open>user, type, id, data, receivers\<close>

datatype request =
    ApplyEnterRoom int string int
  | ApplyQuitRoom int
  | ApplySeat int int
  | ApplyStandup int
  | ApplyFlushRoom int
  | ApplyDigCard int int
  | ApplyPostCard int msg_card int
  | ApplyDrop int
  | ApplyDeclare int msg_card "pb_card_group list"
  | ApplyLoseDeclare int "pb_card_group list"
  | ApplyTrusteeOff int
  | ApplyCloseAccountBox int
  | ApplyRoomStatus int
  | Relay relay_request

definition on_apply_flush_room :: "game_env \<Rightarrow> int \<Rightarrow> room \<Rightarrow> room option" where
  "on_apply_flush_room env u =
     desk_request env u (\<lambda>g. do {
       g \<leftarrow> player_flush_room env u (reply GG_ERROR_SUCCESS g);
       Some (upd_player u (\<lambda>p. p\<lparr>m_is_recv_broadcast := True\<rparr>) g)
     })"

definition on_apply_dig_card :: "game_env \<Rightarrow> int \<Rightarrow> int \<Rightarrow> room \<Rightarrow> room option" where
  "on_apply_dig_card env u digtype = desk_request env u (player_dig_card env u digtype)"

definition on_apply_post_card :: "game_env \<Rightarrow> int \<Rightarrow> msg_card \<Rightarrow> int \<Rightarrow> room \<Rightarrow> room option" where
  "on_apply_post_card env u c appscore = desk_request env u (player_post_card env u c appscore)"

definition on_apply_drop :: "game_env \<Rightarrow> int \<Rightarrow> room \<Rightarrow> room option" where
  "on_apply_drop env u = desk_request env u (player_drop env u)"

definition on_apply_declare :: "game_env \<Rightarrow> int \<Rightarrow> msg_card \<Rightarrow> pb_card_group list \<Rightarrow> room \<Rightarrow> room option" where
  "on_apply_declare env u c groups = desk_request env u (player_declare env u c groups)"

definition on_apply_lose_declare :: "game_env \<Rightarrow> int \<Rightarrow> pb_card_group list \<Rightarrow> room \<Rightarrow> room option" where
  "on_apply_lose_declare env u groups = desk_request env u (player_lose_declare env u groups)"

definition on_apply_trustee_off :: "game_env \<Rightarrow> int \<Rightarrow> room \<Rightarrow> room option" where
  "on_apply_trustee_off env u = desk_request env u (\<lambda>g. player_trusteeoff env u (reply GG_ERROR_SUCCESS g))"

definition on_apply_close_account_box :: "game_env \<Rightarrow> int \<Rightarrow> room \<Rightarrow> room option" where
  "on_apply_close_account_box env u = desk_request env u (\<lambda>g. player_close_account_box env u (reply GG_ERROR_SUCCESS g))"

definition on_apply_room_status :: "game_env \<Rightarrow> int \<Rightarrow> room \<Rightarrow> room option" where
  "on_apply_room_status env u =
     desk_request env u (\<lambda>g. Some (send_to u (ApplyRoomStatusResponse (get_game_status_for_app g)) (reply GG_ERROR_SUCCESS g)))"

lemmas desk_request_defs = on_apply_flush_room_def on_apply_dig_card_def on_apply_post_card_def on_apply_drop_def
  on_apply_declare_def on_apply_lose_declare_def on_apply_trustee_off_def on_apply_close_account_box_def on_apply_room_status_def

text \<open>The requests that only relay something to the users of the room.\<close>

definition relay_to_all :: "int \<Rightarrow> (room \<Rightarrow> room) \<Rightarrow> (player \<Rightarrow> msg) \<Rightarrow> room \<Rightarrow> room option" where
  "relay_to_all u flush m g =
     (case find_player u g of
        None \<Rightarrow> Some (reply GG_ERROR_USER_NOT_IN_ROOM g)
      | Some u \<Rightarrow> do { p \<leftarrow> players g u; Some (broadcast_message (m p) (flush (reply GG_ERROR_SUCCESS g))) })"

definition on_apply_face_show :: "game_env \<Rightarrow> int \<Rightarrow> int \<Rightarrow> room \<Rightarrow> room option" where
  "on_apply_face_show env u faceid =
     relay_to_all u (upd_player u (flush_online_time env)) (\<lambda>p. PlayerFaceShow (m_player_id p) faceid)"

definition on_apply_chat :: "game_env \<Rightarrow> int \<Rightarrow> bool \<Rightarrow> string \<Rightarrow> room \<Rightarrow> room option" where
  "on_apply_chat env u isshortcut content =
     relay_to_all u (upd_player u (flush_online_time env)) (\<lambda>p. PlayerChat isshortcut content u (m_player_name p))"

definition on_apply_use_props :: "game_env \<Rightarrow> int \<Rightarrow> int \<Rightarrow> string \<Rightarrow> room \<Rightarrow> room option" where
  "on_apply_use_props env u acceptor propsname =
     relay_to_all u (upd_player u (flush_online_time env)) (\<lambda>_. PlayerUseProps u acceptor propsname)"

definition on_apply_present_chips :: "game_env \<Rightarrow> int \<Rightarrow> int \<Rightarrow> int list \<Rightarrow> room \<Rightarrow> room option" where
  "on_apply_present_chips env u giftid acceptors =
     relay_to_all u (upd_player u (flush_online_time env)) (\<lambda>_. PlayerPresentGift False u giftid acceptors)"

definition on_apply_present_gift :: "int \<Rightarrow> int \<Rightarrow> int list \<Rightarrow> room \<Rightarrow> room option" where
  "on_apply_present_gift u giftid acceptors = relay_to_all u id (\<lambda>_. PlayerPresentGift True u giftid acceptors)"

definition on_apply_present_gift_newinter :: "int \<Rightarrow> int \<Rightarrow> string \<Rightarrow> int list \<Rightarrow> room \<Rightarrow> room option" where
  "on_apply_present_gift_newinter u giftid url acceptors =
     relay_to_all u id (\<lambda>_. PlayerPresentGiftNewInter u giftid url acceptors)"

definition on_apply_transmit_message :: "int \<Rightarrow> int \<Rightarrow> int \<Rightarrow> string \<Rightarrow> int list \<Rightarrow> room \<Rightarrow> room" where
  "on_apply_transmit_message u ty i data recv g =
     (let m = PlayerTransmitMessage ty i data u; g = reply GG_ERROR_SUCCESS g in
      if recv \<noteq> [] then fold (\<lambda>v. send_to v m) (filter (\<lambda>v. v \<in> set (m_all_player g)) recv) g
      else fold (\<lambda>v. send_to v m) (filter (\<lambda>v. v \<noteq> u) (receivers g)) g)"

fun on_relay :: "game_env \<Rightarrow> relay_request \<Rightarrow> room \<Rightarrow> room option" where
  "on_relay env (ApplyFaceShow u faceid) g = on_apply_face_show env u faceid g"
| "on_relay env (ApplyChat u isshortcut content) g = on_apply_chat env u isshortcut content g"
| "on_relay env (ApplyUseProps u acceptor propsname) g = on_apply_use_props env u acceptor propsname g"
| "on_relay env (ApplyPresentChips u giftid acceptors) g = on_apply_present_chips env u giftid acceptors g"
| "on_relay env (ApplyPresentGift u giftid acceptors) g = on_apply_present_gift u giftid acceptors g"
| "on_relay env (ApplyPresentGiftNewInter u giftid url acceptors) g = on_apply_present_gift_newinter u giftid url acceptors g"
| "on_relay env (ApplyTransmitMessage u ty i data recv) g = Some (on_apply_transmit_message u ty i data recv g)"

lemmas relay_defs = on_apply_face_show_def on_apply_chat_def on_apply_use_props_def on_apply_present_chips_def
  on_apply_present_gift_def on_apply_present_gift_newinter_def on_apply_transmit_message_def

fun on_recv_msg :: "game_env \<Rightarrow> request \<Rightarrow> room \<Rightarrow> room option" where
  "on_recv_msg env (ApplyEnterRoom u name session) g = on_player_enter env u name session g"
| "on_recv_msg env (ApplyQuitRoom u) g = on_player_exit env u g"
| "on_recv_msg env (ApplySeat u i) g = on_apply_seat env u i g"
| "on_recv_msg env (ApplyStandup u) g = on_apply_standup env u g"
| "on_recv_msg env (ApplyFlushRoom u) g = on_apply_flush_room env u g"
| "on_recv_msg env (ApplyDigCard u digtype) g = on_apply_dig_card env u digtype g"
| "on_recv_msg env (ApplyPostCard u c appscore) g = on_apply_post_card env u c appscore g"
| "on_recv_msg env (ApplyDrop u) g = on_apply_drop env u g"
| "on_recv_msg env (ApplyDeclare u c groups) g = on_apply_declare env u c groups g"
| "on_recv_msg env (ApplyLoseDeclare u groups) g = on_apply_lose_declare env u groups g"
| "on_recv_msg env (ApplyTrusteeOff u) g = on_apply_trustee_off env u g"
| "on_recv_msg env (ApplyCloseAccountBox u) g = on_apply_close_account_box env u g"
| "on_recv_msg env (ApplyRoomStatus u) g = on_apply_room_status env u g"
| "on_recv_msg env (Relay q) g = on_relay env q g"

text \<open>A new room: five empty seats, no game (\<open>GG_GameArea::open\<close>, \<open>GameDesk::GameDesk\<close>, \<open>init_seats\<close>).\<close>

definition open_area :: "(nat \<Rightarrow> nat) \<Rightarrow> area_info \<Rightarrow> room option" where
  "open_area rs info = do {
     d \<leftarrow> init_cards rs;
     Some \<lparr>m_area_info = info, players = (\<lambda>_. None), m_all_player = [], m_pCardDealer = d,
       m_combination = \<lparr>cb_joker_cards = [], cb_joker_combines = [], cb_joker_point = 0\<rparr>,
       m_seats = replicate 5 GameSeat, m_dealer_index = 0, m_game_status = GAME_UNREADY, m_wait_round_timer = None,
       m_active_seatnum = -1, m_joker_card = no_card, m_pokercard_pool = [], m_bottom_cards = [],
       m_last_winner_seatnum = -1, m_wait_begin = 0, m_chips_pool = 0, m_apply_declare_seatnum = -1,
       m_time_game_begin = -1, m_is_first_pool_card = False, m_gameover_type = -1, m_notify_room_type = ROOM_NONE,
       m_wait_game_sec = 0, m_draw_sec = 0, sent = [], replies = [], mq_sent = []\<rparr>
   }"

section \<open>Runs of a room\<close>

text \<open>What can happen to a room: a request, the expiry of the timer, the online check.\<close>

datatype area_event = Request request | Timeout | CheckOnline

fun handle :: "game_env \<Rightarrow> area_event \<Rightarrow> room \<Rightarrow> room option" where
  "handle env (Request r) g = on_recv_msg env r g"
| "handle env Timeout g = on_wait_round_timeout env g"
| "handle env CheckOnline g = check_player_online env g"

text \<open>A new player object has the user's id and no seat (the constructor of \<open>GG_Player\<close>).\<close>

definition makes_fresh :: "game_env \<Rightarrow> bool" where
  "makes_fresh env \<longleftrightarrow> (\<forall>u s p. make_player env u s = Some p \<longrightarrow> m_player_id p = u \<and> m_pGameSeat p = None)"

text \<open>
  All rooms of a server share the singleton \<open>CombinationInstance\<close>: between two events of a room
  the other rooms may leave anything in it.
\<close>

inductive reachable :: "room \<Rightarrow> bool" where
  opened: "open_area rs info = Some g \<Longrightarrow> reachable g"
| step: "reachable g \<Longrightarrow> makes_fresh env \<Longrightarrow> handle env ev g = Some g' \<Longrightarrow> reachable g'"
| shared: "reachable g \<Longrightarrow> reachable (g\<lparr>m_combination := cb\<rparr>)"

text \<open>A property of rooms that a new room has and every event keeps holds in all rooms that can be reached.\<close>

locale room_invariant =
  fixes I :: "room \<Rightarrow> bool"
  assumes opened_ok: "open_area rs info = Some g \<Longrightarrow> I g"
    and handle_ok: "handle env ev g = Some g' \<Longrightarrow> makes_fresh env \<Longrightarrow> I g \<Longrightarrow> I g'"
    and combination_ok: "I g \<Longrightarrow> I (g\<lparr>m_combination := cb\<rparr>)"
begin

lemma always: "reachable g \<Longrightarrow> I g"
  by (induction rule: reachable.induct) (blast intro: opened_ok handle_ok combination_ok)+

end

end
