(* ===== verification/Game_Views.thy ===== *)
theory Game_Views
  imports Game_Area
begin

text \<open>
  What the operations of a room leave alone. A view is a part of the room's state. The locale
  \<open>room_base\<close> lists the elementary updates a view must not see and derives once that it does not
  see the messages, the changes of a player's status or chips and the requests to the money
  service. Its extensions are for views that do not see the score of a seat (\<open>room_core\<close>), its
  account and the pool of chips (\<open>room_view\<close>), which players are still in the game
  (\<open>room_view_seats\<close>), the round and its timer (\<open>room_view_rounds\<close>) or the cards
  (\<open>room_view_cards\<close>); each adds the operations that such a view does not see. They are
  interpreted for the cards, the links between seats and players, the players in the game, the
  round and its timer, the chips and the seats.
\<close>

lemmas bind_Some = Option.bind_eq_Some_conv

lemma has_or: "has (a OR b) m \<longleftrightarrow> has a m \<or> has b m"
  by (auto simp: has_def bit_eq_iff bit_simps)

lemmas seat_bit_defs = is_seated_def is_in_game_def is_declared_def

text \<open>The parts of \<open>step_gameover_distrbute\<close>.\<close>

lemma gameover_cases:
  assumes "step_gameover_distrbute env g = Some g'"
  obtains g0 r n g1 where "caculate_over_account env g = Some (g0, r)"
    "set_ingame_player_over_status
      (wait_for_round GAME_DISTRIBUTE n ((submit_game_result (broadcast_message (GameOver r) g0))\<lparr>m_wait_begin := now env\<rparr>)) = Some g1"
    "g' = clear_desk g1"
  using assms by (fastforce simp: step_gameover_distrbute_def bind_Some Let_def split: if_splits)

lemma player_declare_cases:
  assumes "player_declare env u c gs g = Some g'"
  obtains "g' = reply GG_ERROR_PARAMETER_INVALID g"
  | p i g1 where "players g u = Some p" "m_pGameSeat p = Some i" "is_in_game (m_seats g ! i)" "is_wait_active2 g" "is_active_player p g"
      "check_declare i c gs g = Some (g1, False)" "g' = reply GG_ERROR_PARAMETER_INVALID g1"
  | p i g1 where "players g u = Some p" "m_pGameSeat p = Some i" "is_in_game (m_seats g ! i)" "is_wait_active2 g" "is_active_player p g"
      "check_declare i c gs g = Some (g1, True)" "g' = start_declare env u i c gs g1"
proof -
  obtain p where p: "players g u = Some p" using assms by (auto simp: player_declare_def bind_Some)
  show thesis
  proof (cases "m_pGameSeat p")
    case None
    with assms p that(1) show thesis by (auto simp: player_declare_def)
  next
    case (Some i)
    with assms p that show thesis by (auto simp: player_declare_def bind_Some split: if_split_asm)
  qed
qed

lemma player_lose_declare_cases:
  assumes "player_lose_declare env u gs g = Some g'"
  obtains "g' = reply GG_ERROR_PARAMETER_INVALID g"
  | p i g1 n where "players g u = Some p" "m_pGameSeat p = Some i" "is_in_game (m_seats g ! i)" "is_declareing g"
      "seat_check_lose_declare i gs g = Some (g1, False, n)" "g' = reply GG_ERROR_PARAMETER_INVALID g1"
  | p i g1 n where "players g u = Some p" "m_pGameSeat p = Some i" "is_in_game (m_seats g ! i)" "is_declareing g"
      "seat_check_lose_declare i gs g = Some (g1, True, n)" "loser_pays env i u gs n (reply GG_ERROR_SUCCESS g1) = Some g'"
proof -
  obtain p where p: "players g u = Some p" using assms by (auto simp: player_lose_declare_def bind_Some)
  show thesis
  proof (cases "m_pGameSeat p")
    case None
    with assms p that(1) show thesis by (auto simp: player_lose_declare_def)
  next
    case (Some i)
    with assms p that show thesis by (auto simp: player_lose_declare_def bind_Some split: if_split_asm)
  qed
qed

locale room_base =
  fixes view :: "room \<Rightarrow> 'v"
  assumes view_sent: "view (g\<lparr>sent := ms\<rparr>) = view g"
    and view_replies: "view (g\<lparr>replies := rs\<rparr>) = view g"
    and view_mq_sent: "view (g\<lparr>mq_sent := mq\<rparr>) = view g"
    and view_upd_player: "(\<And>p. m_player_id (f p) = m_player_id p \<and> m_pGameSeat (f p) = m_pGameSeat p)
      \<Longrightarrow> view (upd_player u f g) = view g"
    and view_combination: "view (g\<lparr>m_combination := cb\<rparr>) = view g"
    and view_wait_begin: "view (g\<lparr>m_wait_begin := n\<rparr>) = view g"
    and view_notify_room_type: "view (g\<lparr>m_notify_room_type := st\<rparr>) = view g"
    and view_gameover_type: "view (g\<lparr>m_gameover_type := n\<rparr>) = view g"
    and view_last_winner: "view (g\<lparr>m_last_winner_seatnum := n\<rparr>) = view g"
    and view_apply_declare: "view (g\<lparr>m_apply_declare_seatnum := n\<rparr>) = view g"
    and view_active: "view (g\<lparr>m_active_seatnum := n\<rparr>) = view g"
    and view_dealer_index: "view (g\<lparr>m_dealer_index := n\<rparr>) = view g"
    and view_first_pool_card: "view (g\<lparr>m_is_first_pool_card := b\<rparr>) = view g"
    and view_wait_game_sec: "view (g\<lparr>m_wait_game_sec := n\<rparr>) = view g"
    and view_time_game_begin: "view (g\<lparr>m_time_game_begin := n\<rparr>) = view g"
    and view_draw_sec: "view (g\<lparr>m_draw_sec := n\<rparr>) = view g"
begin

lemmas core_fields = view_sent view_replies view_mq_sent view_combination view_wait_begin
  view_notify_room_type view_gameover_type view_last_winner view_apply_declare view_active view_dealer_index
  view_first_pool_card view_wait_game_sec view_time_game_begin view_draw_sec

lemma view_send_to: "view (send_to u m g) = view g"
  by (simp add: send_to_def core_fields)

lemma view_reply: "view (reply e g) = view g"
  by (simp add: reply_def core_fields)

lemma view_send_mq: "view (send_mq m g) = view g"
  by (simp add: send_mq_def core_fields)

lemma view_fold_send: "view (fold (\<lambda>u. send_to (f u) (m u)) us g) = view g"
  by (induction us arbitrary: g) (simp_all add: view_send_to)

lemma view_broadcast: "view (broadcast_message m g) = view g"
  unfolding broadcast_message_def by (rule view_fold_send)

lemma view_broadcast_standup: "view (broadcast_player_standup u reason g) = view g"
  unfolding broadcast_player_standup_def by (rule view_fold_send)

lemma view_broadcast_digcard: "view (broadcast_player_digcard u c t g) = view g"
  unfolding broadcast_player_digcard_def by (rule view_fold_send)

lemma view_notify: "view (notify_room_status st g) = view g" "view (notify_room_will_over n g) = view g"
    "view (notify_player_wait_nextgame n g) = view g"
  by (simp_all add: notify_room_status_def notify_room_will_over_def notify_player_wait_nextgame_def Let_def
      core_fields view_broadcast)

lemmas core_simps = core_fields view_send_to view_reply view_send_mq view_broadcast view_broadcast_standup
  view_broadcast_digcard view_notify

lemma view_set_phase: "view (upd_player u (set_phase st) g) = view g"
  by (rule view_upd_player) (simp add: set_phase_def set_status_def)

lemma view_set_status: "view (upd_player u (\<lambda>p. set_status (h p) p) g) = view g"
  by (rule view_upd_player) (simp add: set_status_def)

lemma view_carry_add: "view (upd_player u (carry_add n) g) = view g" "view (upd_player u (set_carry n) g) = view g"
  by (rule view_upd_player, simp add: carry_add_def set_carry_def)+

lemma view_flush_online: "view (upd_player u (flush_online_time env) g) = view g"
  by (rule view_upd_player) (simp add: flush_online_time_def set_online_def set_status_def)

lemma view_online: "view (upd_player u set_online g) = view g" "view (upd_player u set_offline g) = view g"
  by (rule view_upd_player, simp add: set_online_def set_offline_def set_status_def)+

lemma view_relay_to_all:
  "relay_to_all u f m g = Some g' \<Longrightarrow> (\<And>h. view (f h) = view h) \<Longrightarrow> view g' = view g"
  by (auto simp: relay_to_all_def bind_Some core_simps split: option.splits)

lemma view_relay: "on_relay env q g = Some g' \<Longrightarrow> view g' = view g"
  by (cases q) (auto simp: relay_defs Let_def view_fold_send view_reply view_flush_online dest!: view_relay_to_all split: if_splits)

lemmas view_player_simps = view_set_phase view_set_status view_carry_add view_flush_online view_online

lemma view_trustee: "set_trustee_on u g = Some g' \<Longrightarrow> view g' = view g" "set_trustee_off u g = Some g' \<Longrightarrow> view g' = view g"
  by (auto simp: set_trustee_on_def set_trustee_off_def core_simps view_player_simps split: option.splits if_splits)

lemma view_deal_loser: "deal_loser_account env u n g = Some (g', r) \<Longrightarrow> view g' = view g"
  by (auto simp: deal_loser_account_def split: option.splits intro: view_upd_player)

lemma view_bet_chips: "bet_chips env u n g = Some (g', r) \<Longrightarrow> view g' = view g"
  by (auto simp: bet_chips_def split: option.splits intro: view_upd_player)

lemma view_get_user_money: "get_user_money env u g = Some (g', r) \<Longrightarrow> view g' = view g"
  by (auto simp: get_user_money_def Let_def split: option.splits prod.splits intro!: view_upd_player)

lemma view_send_match_over: "send_match_over_account i g = Some g' \<Longrightarrow> view g' = view g"
  by (auto simp: send_match_over_account_def bind_Some Let_def core_simps view_player_simps split: if_splits)

lemma view_for_each:
  assumes "for_each f xs g = Some g'" and "\<And>x g g'. f x g = Some g' \<Longrightarrow> view g' = view g"
  shows "view g' = view g"
  using assms(1) by (induction xs arbitrary: g) (auto dest: assms(2) split: option.splits)

lemma view_over_status: "set_ingame_player_over_status g = Some g' \<Longrightarrow> view g' = view g"
    "set_player_matchover_status g = Some g' \<Longrightarrow> view g' = view g"
  unfolding set_ingame_player_over_status_def set_player_matchover_status_def
  by (erule view_for_each, auto simp: bind_Some Let_def view_player_simps split: if_splits)+

lemma view_draw_tips: "deduct_draw_tips env g = Some g' \<Longrightarrow> view g' = view g"
  unfolding deduct_draw_tips_def Let_def
  by (auto split: if_splits elim!: view_for_each) (auto simp: bind_Some dest!: view_bet_chips split: if_splits)

lemma view_submit: "view (submit_game_result g) = view g"
  by (simp add: submit_game_result_def core_simps)

lemma view_chips: "view (upd_player u (\<lambda>p. p\<lparr>m_active_chips := h p\<rparr>) g) = view g"
  by (rule view_upd_player) simp

lemma view_buy_in: "buy_in env u n k g = Some (g', r) \<Longrightarrow> view g' = view g"
  by (auto simp: buy_in_def buy_chips_def bind_Some core_simps view_player_simps view_chips
      split: if_splits option.splits)

lemma view_check_chips: "check_chips_carry env u g = Some (g', r) \<Longrightarrow> view g' = view g"
  by (auto simp: check_chips_carry_def buy_add_carry_chips_def bind_Some Let_def core_simps view_player_simps
      view_chips split: if_splits option.splits)

lemma view_come_back: "come_back_game u g = Some g' \<Longrightarrow> view g' = view g"
proof -
  have "view (upd_player u (\<lambda>p. set_online (set_status (m_cur_status p AND NOT PLAYER_ESCAPED) p)) g) = view g" for g
    by (rule view_upd_player) (simp add: set_online_def set_status_def)
  moreover assume "come_back_game u g = Some g'"
  ultimately show ?thesis
    by (auto simp: come_back_game_def set_unescaped_def dest!: view_trustee(2) split: option.splits if_splits)
qed

lemma view_set_name: "view (upd_player u (\<lambda>p. p\<lparr>m_player_name := n\<rparr>) g) = view g"
  "view (upd_player u (\<lambda>p. p\<lparr>m_is_recv_broadcast := b\<rparr>) g) = view g"
  by (rule view_upd_player, simp)+

lemma view_flush_room:
  "do { g \<leftarrow> player_flush_room env u (reply e g); Some (upd_player u (\<lambda>p. p\<lparr>m_is_recv_broadcast := b\<rparr>) g) } = Some g'
     \<Longrightarrow> view g' = view g"
  by (auto simp: player_flush_room_def bind_Some Let_def core_simps view_set_name)

lemma view_dealer_seat: "step_dealer_seat env g = Some g' \<Longrightarrow> view g' = view g"
  by (auto simp: step_dealer_seat_def bind_Some core_simps split: if_splits)

lemma view_broadcast_deal: "broadcast_deal_cards g = Some g' \<Longrightarrow> view g' = view g"
  unfolding broadcast_deal_cards_def
  by (erule view_for_each) (auto simp: send_deal_cards_def bind_Some Let_def core_simps split: if_splits)

end

text \<open>A view that does not see the score of a seat, its groups or the order of its hand.\<close>

locale room_core = room_base +
  assumes view_upd_seat: "(\<And>s. m_player (f' s) = m_player s \<and> is_seated (f' s) = is_seated s \<and> is_in_game (f' s) = is_in_game s \<and>
        is_declared (f' s) = is_declared s \<and> mset (m_handcards_total (f' s)) = mset (m_handcards_total s) \<and>
        m_match_over_account_chips (f' s) = m_match_over_account_chips s) \<Longrightarrow> view (upd_seat i f' g) = view g"
begin

lemma view_declare_hand: "declare_hand i g = Some g' \<Longrightarrow> view g' = view g"
  by (auto simp: declare_hand_def bind_Some core_simps seat_bit_defs intro!: trans [OF view_upd_seat])

lemma view_score: "view (upd_seat i (\<lambda>s. s\<lparr>seat_score := n\<rparr>) g) = view g"
  by (rule view_upd_seat) (simp add: seat_bit_defs)

lemma view_game_ends: "borning_over i g = Some g' \<Longrightarrow> view g' = view g" "drop_win i g = Some g' \<Longrightarrow> view g' = view g"
  by (auto simp: borning_over_def drop_win_def view_score dest!: view_declare_hand)

lemma view_account_seat: "account_seat i (g, r) = Some (g', r') \<Longrightarrow> view g' = view g"
  by (auto simp: account_seat_def bind_Some Let_def dest!: view_game_ends split: if_splits)

lemma view_sort_hand: "view (upd_seat i (\<lambda>s. s\<lparr>m_handcards_total := sort (m_handcards_total s)\<rparr>) g) = view g"
  by (rule view_upd_seat) (simp add: seat_bit_defs)

end

text \<open>A view that does not see the chips of the desk either.\<close>

locale room_view = room_core +
  assumes view_upd_chips: "(\<And>s. m_player (f' s) = m_player s \<and> is_seated (f' s) = is_seated s \<and> is_in_game (f' s) = is_in_game s \<and>
        is_declared (f' s) = is_declared s \<and> mset (m_handcards_total (f' s)) = mset (m_handcards_total s)) \<Longrightarrow> view (upd_seat i f' g) = view g"
    and view_chips_pool: "view (g\<lparr>m_chips_pool := n\<rparr>) = view g"
begin

lemmas view_simps = core_simps view_chips_pool

lemma view_match_over: "match_over_account env i n g = Some (g', r) \<Longrightarrow> view g' = view g"
proof -
  have win: "view (upd_seat i (\<lambda>s. seat_status (m_seat_stauts s OR st_win) s) g) = view g" for g
    by (rule view_upd_chips) (simp add: seat_status_def seat_bit_defs has_or, simp add: has_def)
  have account: "view (upd_seat i (\<lambda>s. s\<lparr>m_match_over_account_chips := k s\<rparr>) g) = view g" for k g
    by (rule view_upd_chips) (simp add: seat_bit_defs)
  assume "match_over_account env i n g = Some (g', r)"
  then show ?thesis
    by (auto simp: match_over_account_def bind_Some Let_def core_simps view_player_simps account
        win dest!: view_deal_loser view_send_match_over view_get_user_money split: if_splits)
qed

lemma view_over_account: "caculate_over_account env g = Some (g', r) \<Longrightarrow> view g' = view g"
proof -
  have loop: "view g' = view g" if "for_each account_seat xs (g, r) = Some (g', r')" for xs g r g' r'
    using that by (induction xs arbitrary: g r) (auto dest!: view_account_seat split: option.splits)
  assume "caculate_over_account env g = Some (g', r)"
  then show ?thesis
    by (auto simp: caculate_over_account_def bind_Some Let_def core_simps
        dest!: loop view_match_over split: if_splits)
qed

end

text \<open>A view that does not see which players are still in the game.\<close>

locale room_view_seats = room_view +
  assumes view_upd_bits: "(\<And>s. m_player (f' s) = m_player s \<and> is_seated (f' s) = is_seated s \<and>
        mset (m_handcards_total (f' s)) = mset (m_handcards_total s)) \<Longrightarrow> view (upd_seat i f' g) = view g"
begin

lemma view_seat_status:
  assumes "\<And>s. has (h s) st_seated = is_seated s"
  shows "view (upd_seat i (\<lambda>s. seat_status (h s) s) g) = view g"
  by (rule view_upd_bits) (use assms in \<open>simp add: seat_status_def is_seated_def\<close>)

lemma view_seat_declared: "seat_declared i n gs g = Some (g', r) \<Longrightarrow> view g' = view g"
proof -
  have st: "has ((m_seat_stauts s AND NOT st_ingame) OR st_declared) st_seated = is_seated s" for s
    by (simp add: has_def is_seated_def bit.conj_disj_distrib2 and.assoc)
  have "view (upd_seat i (\<lambda>s. seat_status ((m_seat_stauts s AND NOT st_ingame) OR st_declared)
      (s\<lparr>seat_score := a, m_card_score := b, seat_card_group := gs\<rparr>)) g) = view g" for a b g
    by (rule view_upd_bits) (use st in \<open>simp add: seat_status_def is_seated_def\<close>)
  moreover assume "seat_declared i n gs g = Some (g', r)"
  ultimately show ?thesis
    by (auto simp: seat_declared_def bind_Some Let_def view_player_simps split: prod.splits)
qed

lemma view_check_declare: "check_declare i c gs g = Some (g', r) \<Longrightarrow> view g' = view g"
proof -
  have st: "has (m_seat_stauts s OR st_declared) st_seated = is_seated s" for s
    by (simp add: has_def is_seated_def bit.conj_disj_distrib2)
  have "view (upd_seat i (\<lambda>s. seat_status (m_seat_stauts s OR st_declared)
      (s\<lparr>seat_score := 0, m_card_score := 0, seat_card_group := groups\<rparr>)) g) = view g" for groups g
    by (rule view_upd_bits) (simp add: seat_status_def is_seated_def st [unfolded is_seated_def])
  moreover assume "check_declare i c gs g = Some (g', r)"
  ultimately show ?thesis
    by (auto simp: check_declare_def bind_Some Let_def view_player_simps view_sort_hand split: if_splits)
qed

lemma view_check_lose_declare: "seat_check_lose_declare i gs g = Some (g', ok, r) \<Longrightarrow> view g' = view g"
  by (auto simp: seat_check_lose_declare_def bind_Some Let_def view_sort_hand
      dest!: view_seat_declared split: if_splits prod.splits bool.splits)

lemma view_default_declare: "seat_default_declare i g = Some (g', r, gs) \<Longrightarrow> view g' = view g"
  by (auto simp: seat_default_declare_def bind_Some view_simps dest!: view_seat_declared)

end

text \<open>A view that does not see the round either: the account at the end of a game up to \<open>clear_desk\<close>.\<close>

locale room_view_rounds = room_view +
  assumes view_status: "view (g\<lparr>m_game_status := st\<rparr>) = view g"
    and view_timer: "view (g\<lparr>m_wait_round_timer := t\<rparr>) = view g"
begin

lemma view_wait_for_round: "view (wait_for_round r n g) = view g"
  by (simp add: wait_for_round_def set_game_status_def view_timer view_status)

lemma view_gameover:
  assumes "step_gameover_distrbute env g = Some g'"
  shows "\<exists>g1. view g1 = view g \<and> g' = clear_desk g1"
  using assms
proof (cases rule: gameover_cases)
  case (1 g0 r n g1)
  from view_over_status(1) [OF 1(2)] have "view g1 = view g"
    by (simp add: view_wait_for_round view_simps view_submit view_over_account [OF 1(1)])
  with 1(3) show ?thesis by blast
qed

end

text \<open>A view that does not see the cards either: the turns and the dealing.\<close>

locale room_view_cards = room_view_rounds +
  assumes view_bottom: "view (g\<lparr>m_bottom_cards := cs\<rparr>) = view g"
    and view_pool: "view (g\<lparr>m_pokercard_pool := cs\<rparr>) = view g"
    and view_joker: "view (g\<lparr>m_joker_card := c\<rparr>) = view g"
    and view_dealer: "view (g\<lparr>m_pCardDealer := d\<rparr>) = view g"
    and view_upd_hand: "(\<And>s. m_player (f' s) = m_player s \<and> is_seated (f' s) = is_seated s \<and> is_in_game (f' s) = is_in_game s \<and>
        is_declared (f' s) = is_declared s) \<Longrightarrow> view (upd_seat i f' g) = view g"
    and view_clear: "view (clear_desk g) = view g"
begin

lemma view_hand:
  "view (upd_seat i (\<lambda>s. s\<lparr>m_handcards_total := h s\<rparr>) g) = view g"
  "view (upd_seat i (\<lambda>s. s\<lparr>seat_score := n, m_dig_card := c, m_handcards_total := h s\<rparr>) g) = view g"
  by (rule view_upd_hand, simp add: seat_bit_defs)+

lemmas view_card_simps = view_simps view_player_simps view_wait_for_round view_status view_timer view_bottom view_pool
  view_joker view_dealer view_hand view_clear

lemma view_game_over: "step_gameover_distrbute env g = Some g' \<Longrightarrow> view g' = view g"
  using view_gameover view_clear by metis

lemma view_active_player: "active_player env n g = Some g' \<Longrightarrow> view g' = view g"
  by (auto simp: active_player_def next_active_def draw_game_def announce_active_def bind_Some Let_def view_card_simps
      dest!: view_game_over view_draw_tips split: if_split_asm)

lemma view_after_post: "after_post env g = Some g' \<Longrightarrow> view g' = view g"
  by (auto simp: after_post_def step_shuffle_card_def bind_Some Let_def view_card_simps dest!: view_active_player split: if_split_asm)

lemma view_dig_card: "player_dig_card env u t g = Some g' \<Longrightarrow> view g' = view g"
  by (auto simp: player_dig_card_def take_dug_card_def give_dug_card_def dig_card_def bind_Some Let_def view_card_simps
      simp del: if_split split: if_split_asm)

lemma view_post_default_card: "post_default_card env g = Some g' \<Longrightarrow> view g' = view g"
  by (auto simp: post_default_card_def seat_post_default_card_def broadcast_post_card_def bind_Some Let_def view_card_simps
      dest!: view_after_post split: if_split_asm)

lemma view_post_card: "player_post_card env u c n g = Some g' \<Longrightarrow> view g' = view g"
  by (auto simp: player_post_card_def discard_card_def broadcast_post_card_def bind_Some Let_def view_card_simps
      dest!: view_after_post split: if_split_asm)

lemma view_deal_cards: "step_deal_cards env g = Some g' \<Longrightarrow> view g' = view g"
proof -
  have seat: "view g' = view g" if "deal_seat i g = Some g'" for i g g'
    using that by (auto simp: deal_seat_def deal_cards_def view_card_simps split: if_split_asm)
  have bottom: "view g' = view g" if "deal_bottom env g = Some (g', n)" for g g' n
    using that by (auto simp: deal_bottom_def bind_Some Let_def view_card_simps split: option.splits)
  have rest: "view g' = view g" if "turn_joker g = Some g' \<or> cut_bottom n g = Some g'" for g g' n
    using that by (auto simp: turn_joker_def cut_bottom_def Let_def view_card_simps split: if_split_asm)
  assume "step_deal_cards env g = Some g'"
  then show ?thesis
    by (auto simp: step_deal_cards_def bind_Some dest!: bottom view_for_each [OF _ seat] view_broadcast_deal
        rest [OF disjI1] rest [OF disjI2])
qed

lemma view_active1_timeout: "step_active1_timeout env g = Some g' \<Longrightarrow> view g' = view g"
  by (auto simp: step_active1_timeout_def bind_Some dest!: view_active_player view_trustee(1))

lemma view_rand2_timeout: "step_rand2_timeout env g = Some g' \<Longrightarrow> view g' = view g"
  by (auto simp: step_rand2_timeout_def bind_Some dest!: view_post_default_card view_trustee(1))

lemma view_trusteeoff: "player_trusteeoff env u g = Some g' \<Longrightarrow> view g' = view g"
  by (auto simp: player_trusteeoff_def bind_Some Let_def view_card_simps dest!: view_trustee(2)
      simp del: if_split split: if_split_asm)

lemma view_after_stand_up: "after_stand_up b g = Some g' \<Longrightarrow> view g' = view g"
  by (auto simp: after_stand_up_def bind_Some view_card_simps dest: view_over_status(2) split: if_splits)

end

text \<open>A view that sees neither.\<close>

locale room_view_all = room_view_seats + room_view_rounds

section \<open>The status of the game\<close>

interpretation status: room_view_seats m_game_status
  by unfold_locales (simp_all add: upd_player_def upd_seat_def)

lemma status_wait: "m_game_status (wait_for_round r n g) = (GAME_WAIT_MASK OR r) OR (m_game_status g AND NOT GAME_ROUND_MASK)"
  by (simp add: wait_for_round_def set_game_status_def)

lemma wait_game_over: "is_game_over (wait_for_round GAME_UNREADY n g)" "is_game_over (wait_for_round GAME_DISTRIBUTE n g)"
  by (simp_all add: is_game_over_def status_wait has_or) (simp_all add: has_def)

lemma game_over_status: "m_game_status g' = m_game_status g \<Longrightarrow> is_game_over g' \<longleftrightarrow> is_game_over g"
  by (simp add: is_game_over_def)

end
