(* ===== verification/Game_Cards.thy ===== *)
theory Game_Cards
  imports Game_Views
begin

text \<open>
  The cards of a game: the bottom cards, the pool, the card that names the wild point and the
  hands. No step of a room makes a card: all of them together are always part of the double deck
  that was dealt. Digging, posting and shuffling keep every card; the only card that leaves a
  running game is the one a player has dug when he drops.
\<close>

section \<open>The cards on a desk\<close>

definition hands :: "room \<Rightarrow> poker_card multiset" where
  "hands g = (\<Sum>s \<leftarrow> m_seats g. mset (m_handcards_total s))"

definition joker_cards :: "room \<Rightarrow> poker_card multiset" where
  "joker_cards g = (if m_joker_card g = no_card then {#} else {#m_joker_card g#})"

definition desk_cards :: "room \<Rightarrow> poker_card multiset" where
  "desk_cards g = mset (m_bottom_cards g) + mset (m_pokercard_pool g) + joker_cards g + hands g"

definition card_view :: "room \<Rightarrow> poker_card list \<times> poker_card list \<times> poker_card \<times> poker_card multiset list \<times> card_dealer" where
  "card_view g = (m_bottom_cards g, m_pokercard_pool g, m_joker_card g,
     map (\<lambda>s. mset (m_handcards_total s)) (m_seats g), m_pCardDealer g)"

lemma map_upd_seat:
  assumes "i < length (m_seats g) \<Longrightarrow> h (f (m_seats g ! i)) = h (m_seats g ! i)"
  shows "map h (m_seats (upd_seat i f g)) = map h (m_seats g)"
proof (cases "i < length (m_seats g)")
  case True
  then show ?thesis using assms by (simp add: upd_seat_def map_update list_update_same_conv)
qed (simp add: upd_seat_def list_update_beyond)

interpretation cards: room_view_all card_view
  by unfold_locales (auto simp: card_view_def upd_player_def upd_seat_def intro: map_upd_seat [unfolded upd_seat_def, simplified])

lemma card_view_cards: "card_view g' = card_view g \<Longrightarrow> desk_cards g' = desk_cards g"
  by (simp add: card_view_def desk_cards_def hands_def joker_cards_def)

lemma hands_upd:
  assumes "i < length (m_seats g)"
  shows "hands (upd_seat i f g) + mset (m_handcards_total (m_seats g ! i)) = hands g + mset (m_handcards_total (f (m_seats g ! i)))"
proof -
  have split: "m_seats g = take i (m_seats g) @ m_seats g ! i # drop (Suc i) (m_seats g)"
    using assms by (rule id_take_nth_drop)
  have "m_seats (upd_seat i f g) = take i (m_seats g) @ f (m_seats g ! i) # drop (Suc i) (m_seats g)"
    using assms by (simp add: upd_seat_def upd_conv_take_nth_drop)
  moreover have "hands g = (\<Sum>s \<leftarrow> take i (m_seats g). mset (m_handcards_total s)) + mset (m_handcards_total (m_seats g ! i))
      + (\<Sum>s \<leftarrow> drop (Suc i) (m_seats g). mset (m_handcards_total s))"
    unfolding hands_def by (subst split) (simp add: ac_simps)
  ultimately show ?thesis unfolding hands_def [of "upd_seat i f g"] by (simp add: ac_simps)
qed

lemma desk_cards_upd:
  assumes "i < length (m_seats g)"
  shows "desk_cards (upd_seat i f g) + mset (m_handcards_total (m_seats g ! i)) = desk_cards g + mset (m_handcards_total (f (m_seats g ! i)))"
  using hands_upd [OF assms, of f]
  by (simp add: desk_cards_def joker_cards_def upd_seat_def ac_simps)

lemma desk_cards_shrink:
  assumes "mset (m_handcards_total (f (m_seats g ! i))) \<subseteq># mset (m_handcards_total (m_seats g ! i))"
  shows "desk_cards (upd_seat i f g) \<subseteq># desk_cards g"
proof (cases "i < length (m_seats g)")
  case True
  then show ?thesis
    using desk_cards_upd [OF True, of f] assms by (metis mset_subset_eq_mono_add_right_cancel subset_mset.add_left_mono)
next
  case False
  then show ?thesis by (simp add: upd_seat_def list_update_beyond)
qed

lemma hands_reset: "hands (g\<lparr>m_seats := map reset_seat (m_seats g)\<rparr>) = {#}"
proof -
  have "(\<Sum>s \<leftarrow> map reset_seat ss. mset (m_handcards_total s)) = {#}" for ss
    by (induction ss) (simp_all add: reset_seat_def)
  then show ?thesis by (simp add: hands_def)
qed

lemma desk_cards_clear: "desk_cards (clear_desk g) = {#}"
  using hands_reset [of g] by (simp add: clear_desk_def desk_cards_def joker_cards_def hands_def)

section \<open>Steps that keep or lose cards\<close>

definition cards_le :: "room \<Rightarrow> room \<Rightarrow> bool" where
  "cards_le g g' \<longleftrightarrow> desk_cards g' \<subseteq># desk_cards g \<and> m_pCardDealer g' = m_pCardDealer g"

lemma cards_le_refl [simp, intro]: "cards_le g g"
  by (simp add: cards_le_def)

lemma cards_le_trans: "cards_le g g' \<Longrightarrow> cards_le g' g'' \<Longrightarrow> cards_le g g''"
  by (auto simp: cards_le_def intro: subset_mset.order_trans)

lemma dealer_view: "card_view g' = card_view g \<Longrightarrow> m_pCardDealer g' = m_pCardDealer g"
  by (simp add: card_view_def)

lemma cards_le_view:
  assumes "card_view g' = card_view g"
  shows "cards_le g g'"
  unfolding cards_le_def card_view_cards [OF assms] dealer_view [OF assms] by simp

lemma cards_le_view_trans: "card_view g1 = card_view g \<Longrightarrow> cards_le g1 g' \<Longrightarrow> cards_le g g'"
  using cards_le_view cards_le_trans by blast

lemma cards_le_for_each:
  assumes "for_each f xs g = Some g'" and "\<And>x g g'. f x g = Some g' \<Longrightarrow> cards_le g g'"
  shows "cards_le g g'"
  using assms(1)
proof (induction xs arbitrary: g)
  case (Cons x xs)
  then show ?case by (auto split: option.splits dest: assms(2) intro: cards_le_trans)
qed simp

lemma gameover_cards:
  assumes "step_gameover_distrbute env g = Some g'"
  shows "desk_cards g' = {#}" "cards_le g g'"
proof -
  obtain g1 where g1: "card_view g1 = card_view g" "g' = clear_desk g1"
    using cards.view_gameover [OF assms] by blast
  show "desk_cards g' = {#}" by (simp add: g1 desk_cards_clear)
  then show "cards_le g g'"
    using dealer_view [OF g1(1)] by (simp add: cards_le_def g1(2) clear_desk_def)
qed

text \<open>A step that keeps all cards of the game, unless it ends the game.\<close>

definition keeps_cards :: "room \<Rightarrow> room \<Rightarrow> bool" where
  "keeps_cards g g' \<longleftrightarrow> desk_cards g' = desk_cards g \<or> desk_cards g' = {#}"

lemma keeps_cards_view: "card_view g' = card_view g \<Longrightarrow> keeps_cards g g'"
  unfolding keeps_cards_def by (rule disjI1) (rule card_view_cards)

lemma next_active_view: "next_active g = Some g' \<Longrightarrow> card_view g' = card_view g"
  by (auto simp: next_active_def bind_Some cards.view_simps split: if_splits)

lemma announce_active_view: "announce_active env n g = Some g' \<Longrightarrow> card_view g' = card_view g"
  by (auto simp: announce_active_def bind_Some Let_def cards.view_simps cards.view_wait_for_round simp del: if_split split: if_split_asm)

lemma draw_game_cards:
  assumes "draw_game env g = Some g'"
  shows "desk_cards g' = {#}" "cards_le g g'"
proof -
  obtain g2 where g2: "deduct_draw_tips env (notify_room_status ROOM_IDLE (g\<lparr>m_gameover_type := BORNING_OVER\<rparr>)) = Some g2"
    "step_gameover_distrbute env g2 = Some g'" using assms by (auto simp: draw_game_def bind_Some)
  have "card_view g2 = card_view g"
    using cards.view_draw_tips [OF g2(1)] by (simp add: cards.view_simps)
  then show "desk_cards g' = {#}" "cards_le g g'"
    using gameover_cards [OF g2(2)] cards_le_view_trans by blast+
qed

lemma active_player_cases:
  assumes "active_player env n g = Some g'"
  obtains "card_view g' = card_view g" | "desk_cards g' = {#}" "cards_le g g'"
proof -
  obtain g1 where g1: "next_active g = Some g1"
    and rest: "(if m_time_game_begin g1 + m_draw_sec g1 < now env then draw_game env g1 else announce_active env n g1) = Some g'"
    using assms by (auto simp: active_player_def bind_Some)
  show thesis
  proof (cases "m_time_game_begin g1 + m_draw_sec g1 < now env")
    case True
    with rest have "draw_game env g1 = Some g'" by simp
    from draw_game_cards [OF this] cards_le_view_trans [OF next_active_view [OF g1]] that(2) show thesis by blast
  next
    case False
    with rest have "announce_active env n g1 = Some g'" by simp
    from announce_active_view [OF this] next_active_view [OF g1] that(1) show thesis by simp
  qed
qed

lemma keeps_cards_over: "desk_cards g' = {#} \<Longrightarrow> keeps_cards g g'"
  unfolding keeps_cards_def by (rule disjI2)

lemma active_player_cards:
  assumes "active_player env n g = Some g'"
  shows "cards_le g g'" and "keeps_cards g g'"
  by (rule active_player_cases [OF assms], erule cards_le_view, assumption)
    (rule active_player_cases [OF assms], erule keeps_cards_view, erule keeps_cards_over)

lemma mset_shuffle_loop: "mset (shuffle_loop rs k cards bottom) = mset cards + mset bottom"
proof (induction rs k cards bottom rule: shuffle_loop.induct)
  case (1 rs k cards bottom)
  show ?case
  proof (cases "cards = []")
    case True
    then show ?thesis by (subst shuffle_loop.simps) simp
  next
    case False
    let ?i = "rs k mod length cards"
    let ?rest = "butlast (if length cards > 1 then cards[?i := last cards] else cards)"
    have "add_mset (cards ! ?i) (mset ?rest) = mset cards"
    proof (cases "length cards > 1")
      case True
      then have "?i < length cards" by (intro mod_less_divisor) auto
      with True show ?thesis using mset_take_out [of ?i cards] by (simp add: take_out_def)
    next
      case len: False
      then obtain c where "cards = [c]" using False by (cases cards) auto
      then show ?thesis by simp
    qed
    with 1 [OF False refl] False show ?thesis
      by (subst shuffle_loop.simps) (simp add: Let_def union_mset_add_mset_left [symmetric] del: union_mset_add_mset_left)
  qed
qed

lemma shuffle_cards:
  assumes "step_shuffle_card env g = Some g'"
  shows "desk_cards g' = desk_cards g" "m_pCardDealer g' = m_pCardDealer g"
proof -
  let ?n = "length (m_pokercard_pool g) - 2"
  let ?g1 = "g\<lparr>m_pokercard_pool := drop ?n (m_pokercard_pool g),
       m_bottom_cards := shuffle_loop (rand_shuffle env) 0 (take ?n (m_pokercard_pool g)) (m_bottom_cards g)\<rparr>"
  have view: "card_view g' = card_view ?g1"
    using assms by (auto simp: step_shuffle_card_def Let_def cards.view_simps split: if_splits)
  have "mset (take ?n (m_pokercard_pool g)) + mset (drop ?n (m_pokercard_pool g)) = mset (m_pokercard_pool g)"
    by (metis append_take_drop_id mset_append)
  then have "desk_cards ?g1 = desk_cards g"
    by (simp add: desk_cards_def joker_cards_def hands_def mset_shuffle_loop ac_simps)
  with card_view_cards [OF view] dealer_view [OF view]
  show "desk_cards g' = desk_cards g" "m_pCardDealer g' = m_pCardDealer g" by simp_all
qed

section \<open>Digging and posting\<close>

lemma desk_cards_pool: "desk_cards (g\<lparr>m_pokercard_pool := m_pokercard_pool g @ [c]\<rparr>) = add_mset c (desk_cards g)"
  by (simp add: desk_cards_def joker_cards_def hands_def)

lemma take_dug_card_cards:
  assumes "take_dug_card t g = (c, g')" "m_bottom_cards g \<noteq> []" "m_pokercard_pool g \<noteq> []"
  shows "add_mset c (desk_cards g') = desk_cards g" "m_pCardDealer g' = m_pCardDealer g" "m_seats g' = m_seats g"
proof -
  have pool: "add_mset (last (m_pokercard_pool g)) (mset (butlast (m_pokercard_pool g))) = mset (m_pokercard_pool g)"
    using assms(3) by (metis append_butlast_last_id mset.simps(2) mset_append mset.simps(1) add_mset_add_single)
  have bottom: "add_mset (hd (m_bottom_cards g)) (mset (tl (m_bottom_cards g))) = mset (m_bottom_cards g)"
    using assms(2) by (cases "m_bottom_cards g") simp_all
  show "add_mset c (desk_cards g') = desk_cards g"
    using assms(1) by (auto simp: take_dug_card_def desk_cards_def joker_cards_def hands_def pool [symmetric]
        bottom [symmetric] simp del: last_in_set split: if_splits)
  show "m_pCardDealer g' = m_pCardDealer g" "m_seats g' = m_seats g"
    using assms(1) by (auto simp: take_dug_card_def split: if_splits)
qed

lemma dig_card_cards:
  assumes "a < length (m_seats g)"
  shows "desk_cards (dig_card a c g) = add_mset c (desk_cards g)"
  using desk_cards_upd [OF assms, of "\<lambda>s. s\<lparr>seat_score := 40, m_dig_card := c, m_handcards_total := sort (m_handcards_total s @ [c])\<rparr>"]
  by (simp add: dig_card_def)

lemma seat_index_Some: "seat_index i g = Some a \<longleftrightarrow> 0 \<le> i \<and> i < int (length (m_seats g)) \<and> a = nat i"
  by (auto simp: seat_index_def)

lemma seat_index_less: "seat_index i g = Some a \<Longrightarrow> a < length (m_seats g)"
  by (auto simp: seat_index_def split: if_splits)

lemma give_dug_card_cards:
  assumes "give_dug_card env u b t c g = Some g'"
  shows "desk_cards g' = add_mset c (desk_cards g)" "m_pCardDealer g' = m_pCardDealer g"
proof -
  let ?g2 = "(reply GG_ERROR_SUCCESS g)\<lparr>m_is_first_pool_card := False\<rparr>"
  obtain a where a: "seat_index (m_active_seatnum ?g2) ?g2 = Some a"
    and v: "card_view g' = card_view (dig_card a c ?g2)"
    using assms by (auto simp: give_dug_card_def bind_Some Let_def cards.view_wait_for_round cards.view_simps simp del: if_split)
  have "card_view ?g2 = card_view g" by (simp add: cards.view_simps)
  from card_view_cards [OF this] card_view_cards [OF v] dig_card_cards [of a ?g2 c] a
  show "desk_cards g' = add_mset c (desk_cards g)" using seat_index_less [OF a] by simp
  show "m_pCardDealer g' = m_pCardDealer g"
    using dealer_view [OF v] by (simp add: dig_card_def upd_seat_def reply_def)
qed

lemma player_dig_card_cards:
  assumes "player_dig_card env u t g = Some g'"
  shows "desk_cards g' = desk_cards g \<and> m_pCardDealer g' = m_pCardDealer g"
proof (cases "card_view g' = card_view g")
  case True
  then show ?thesis using card_view_cards dealer_view by blast
next
  case False
  obtain c g1 where dug: "take_dug_card t g = (c, g1)" by fastforce
  obtain p where full: "m_bottom_cards g \<noteq> []" "m_pokercard_pool g \<noteq> []"
    and give: "give_dug_card env u (is_player_trusteed_on p) t c g1 = Some g'"
    using assms False dug
    by (auto simp: player_dig_card_def bind_Some cards.view_simps simp del: if_split split: if_split_asm)
  show ?thesis using take_dug_card_cards [OF dug full] give_dug_card_cards [OF give] by simp
qed

lemma cards_le_keeps: "desk_cards g' = desk_cards g \<Longrightarrow> m_pCardDealer g' = m_pCardDealer g \<Longrightarrow> cards_le g g'"
  by (simp add: cards_le_def)

lemma keeps_cards_eq_trans: "desk_cards g1 = desk_cards g \<Longrightarrow> keeps_cards g1 g' \<Longrightarrow> keeps_cards g g'"
  by (simp add: keeps_cards_def)

lemma after_post_cards:
  assumes "after_post env g = Some g'"
  shows "cards_le g g' \<and> keeps_cards g g'"
proof (cases "length (m_bottom_cards g) = 1")
  case True
  then obtain g1 where g1: "step_shuffle_card env g = Some g1" and v: "card_view g' = card_view g1"
    using assms by (auto simp: after_post_def bind_Some cards.view_wait_for_round)
  have "desk_cards g' = desk_cards g" "m_pCardDealer g' = m_pCardDealer g"
    using card_view_cards [OF v] dealer_view [OF v] shuffle_cards [OF g1] by simp_all
  then show ?thesis by (simp add: cards_le_def keeps_cards_def)
next
  case False
  with assms have "active_player env (wait_ms m_time_post_card g) g = Some g'" by (simp add: after_post_def)
  from active_player_cards [OF this] show ?thesis by blast
qed

text \<open>A card that leaves a hand, and then goes to the pool.\<close>

lemma card_leaves_hand:
  assumes "a < length (m_seats g)" "c \<in> set (m_handcards_total (m_seats g ! a))"
    and f: "m_handcards_total (f (m_seats g ! a)) = remove1 c (m_handcards_total (m_seats g ! a))"
  shows "add_mset c (desk_cards (upd_seat a f g)) = desk_cards g"
proof -
  have "desk_cards (upd_seat a f g) + mset (m_handcards_total (m_seats g ! a)) =
      desk_cards g + mset (remove1 c (m_handcards_total (m_seats g ! a)))"
    using desk_cards_upd [OF assms(1), of f] by (simp only: f)
  moreover have "mset (m_handcards_total (m_seats g ! a)) = add_mset c (mset (remove1 c (m_handcards_total (m_seats g ! a))))"
    using assms(2) by simp
  ultimately show ?thesis by (metis add_right_cancel union_mset_add_mset_left union_mset_add_mset_right)
qed

lemma seat_post_default_card_cards:
  assumes "seat_post_default_card a g = Some (g1, c)" "a < length (m_seats g)"
  shows "add_mset c (desk_cards g1) = desk_cards g" "m_pCardDealer g1 = m_pCardDealer g"
proof -
  have "c = m_dig_card (m_seats g ! a)" "c \<in> set (m_handcards_total (m_seats g ! a))"
    "g1 = upd_seat a (\<lambda>s. s\<lparr>m_handcards_total := remove1 (m_dig_card s) (m_handcards_total s)\<rparr>) g"
    using assms(1) by (auto simp: seat_post_default_card_def Let_def split: if_splits)
  then show "add_mset c (desk_cards g1) = desk_cards g" "m_pCardDealer g1 = m_pCardDealer g"
    using card_leaves_hand [OF assms(2), of c "\<lambda>s. s\<lparr>m_handcards_total := remove1 (m_dig_card s) (m_handcards_total s)\<rparr>"]
    by (simp_all add: upd_seat_def)
qed

lemma discard_card_cards:
  assumes "discard_card a c g = (g1, True)" "a < length (m_seats g)"
  shows "add_mset c (desk_cards g1) = desk_cards g" "m_pCardDealer g1 = m_pCardDealer g"
proof -
  have "c \<in> set (m_handcards_total (m_seats g ! a))"
    "g1 = upd_seat a (\<lambda>s. s\<lparr>m_handcards_total := remove1 c (m_handcards_total s)\<rparr>) g"
    using assms(1) by (auto simp: discard_card_def split: if_splits)
  then show "add_mset c (desk_cards g1) = desk_cards g" "m_pCardDealer g1 = m_pCardDealer g"
    using card_leaves_hand [OF assms(2), of c "\<lambda>s. s\<lparr>m_handcards_total := remove1 c (m_handcards_total s)\<rparr>"]
    by (simp_all add: upd_seat_def)
qed

lemma post_to_pool:
  assumes "add_mset c (desk_cards g1) = desk_cards g" "m_pCardDealer g1 = m_pCardDealer g"
    and v: "card_view g2 = card_view (g1\<lparr>m_pokercard_pool := m_pokercard_pool g1 @ [c]\<rparr>)"
    and post: "after_post env g2 = Some g'"
  shows "cards_le g g' \<and> keeps_cards g g'"
proof -
  have "desk_cards g2 = desk_cards g" "m_pCardDealer g2 = m_pCardDealer g"
    using card_view_cards [OF v] dealer_view [OF v] assms(1,2) by (simp_all add: desk_cards_pool)
  with after_post_cards [OF post] show ?thesis
    using cards_le_trans cards_le_keeps keeps_cards_eq_trans by blast
qed

lemma post_default_card_cards:
  assumes "post_default_card env g = Some g'"
  shows "cards_le g g' \<and> keeps_cards g g'"
proof -
  obtain a g1 c and p :: player where a: "seat_index (m_active_seatnum g) g = Some a"
    and c: "seat_post_default_card a g = Some (g1, c)"
    and post: "after_post env (broadcast_post_card (m_player_id p) c (g1\<lparr>m_pokercard_pool := m_pokercard_pool g1 @ [c]\<rparr>)) = Some g'"
    using assms by (auto simp: post_default_card_def bind_Some)
  show ?thesis
    by (rule post_to_pool [OF seat_post_default_card_cards [OF c seat_index_less [OF a]] _ post])
      (simp add: broadcast_post_card_def cards.view_simps)
qed

lemma player_post_card_cases:
  assumes "player_post_card env u mc n g = Some g'"
  obtains e m where "g' = send_to u m (reply e g)"
  | a g1 g2 where "seat_index (m_active_seatnum g) g = Some a" "discard_card a (parse_msg_card mc) g = (g1, True)"
      "after_post env (broadcast_post_card u (parse_msg_card mc) ((reply GG_ERROR_SUCCESS g1)
         \<lparr>m_pokercard_pool := m_pokercard_pool (reply GG_ERROR_SUCCESS g1) @ [parse_msg_card mc]\<rparr>)) = Some g2"
      "g' = notify_room_will_over n g2"
  using assms
  by (auto simp: player_post_card_def bind_Some Let_def discard_card_def simp del: if_split
      split: if_split_asm prod.splits)

lemma player_post_card_cards:
  assumes "player_post_card env u mc n g = Some g'"
  shows "cards_le g g' \<and> keeps_cards g g'"
  using assms
proof (cases rule: player_post_card_cases)
  case (1 e m)
  then have "card_view g' = card_view g" by (simp add: cards.view_simps)
  then show ?thesis using cards_le_view keeps_cards_view by blast
next
  case (2 a g1 g2)
  let ?c = "parse_msg_card mc"
  have v: "card_view (broadcast_post_card u ?c ((reply GG_ERROR_SUCCESS g1)\<lparr>m_pokercard_pool :=
      m_pokercard_pool (reply GG_ERROR_SUCCESS g1) @ [?c]\<rparr>)) = card_view (g1\<lparr>m_pokercard_pool := m_pokercard_pool g1 @ [?c]\<rparr>)"
    by (simp add: broadcast_post_card_def cards.view_simps) (simp add: card_view_def reply_def)
  have le: "cards_le g g2 \<and> keeps_cards g g2"
    by (rule post_to_pool [OF discard_card_cards [OF 2(2) seat_index_less [OF 2(1)]] v 2(3)])
  have "card_view g' = card_view g2" by (simp add: 2(4) cards.view_simps)
  with le show ?thesis
    using cards_le_trans cards_le_view card_view_cards unfolding keeps_cards_def by metis
qed

section \<open>Declaring, dropping, leaving\<close>

lemma over_or_view:
  assumes "card_view g1 = card_view g"
    and "(if b then step_gameover_distrbute env g1 else Some g1) = Some g'"
  shows "cards_le g g'"
  using assms gameover_cards(2) cards_le_view cards_le_trans by (metis option.inject)

lemma loser_pays_cards:
  assumes "loser_pays env i u gs n g = Some g'"
  shows "cards_le g g'"
proof -
  obtain g1 r where pay: "match_over_account env i (- (m_small_blind (m_area_info g) * seat_score (m_seats g ! i))) g = Some (g1, r)"
    and rest: "(let g2 = (broadcast_message (PlayerLoseDeclare u gs n r) g1)\<lparr>m_chips_pool := m_chips_pool (broadcast_message (PlayerLoseDeclare u gs n r) g1) + r\<rparr>
      in if get_ingame_count g2 = 1 then step_gameover_distrbute env g2 else Some g2) = Some g'"
    using assms by (auto simp: loser_pays_def bind_Some Let_def)
  show ?thesis
    by (rule over_or_view [OF _ rest [unfolded Let_def]]) (simp add: cards.view_simps cards.view_match_over [OF pay])
qed

lemma player_declare_view: "player_declare env u c gs g = Some g' \<Longrightarrow> card_view g' = card_view g"
  by (erule player_declare_cases)
    (auto simp: start_declare_def Let_def cards.view_simps cards.view_wait_for_round dest!: cards.view_check_declare)

lemma player_lose_declare_cards:
  assumes "player_lose_declare env u gs g = Some g'"
  shows "cards_le g g'"
  using assms
proof (cases rule: player_lose_declare_cases)
  case 1
  then show ?thesis using cards_le_view [OF cards.view_reply] by simp
next
  case (2 p i g1 n)
  have "card_view g' = card_view g"
    using cards.view_check_lose_declare [OF 2(5)] by (simp add: 2(6) cards.view_simps)
  then show ?thesis by (rule cards_le_view)
next
  case (3 p i g1 n)
  have "card_view (reply GG_ERROR_SUCCESS g1) = card_view g"
    using cards.view_check_lose_declare [OF 3(5)] by (simp add: cards.view_simps)
  then show ?thesis using loser_pays_cards [OF 3(6)] by (rule cards_le_view_trans)
qed

lemma default_decalre_cards:
  assumes "default_decalre env u g = Some g'"
  shows "cards_le g g'"
proof -
  obtain i g1 n gs where d: "seat_default_declare i g = Some (g1, n, gs)"
    and pay: "loser_pays env i u (copy_group_to_msg gs []) n g1 = Some g'"
    using assms by (auto simp: default_decalre_def bind_Some)
  show ?thesis
    by (rule cards_le_view_trans [OF cards.view_default_declare [OF d] loser_pays_cards [OF pay]])
qed

lemma seat_drop_cards:
  assumes "seat_drop i b g = Some g'"
  shows "cards_le g g'"
proof -
  obtain u where u: "m_player (m_seats g ! i) = Some u"
    using assms by (auto simp: seat_drop_def bind_Some)
  let ?g1 = "upd_player u (set_phase PLAYER_DROP)
      (upd_seat i (\<lambda>s. seat_status ((m_seat_stauts s AND NOT st_ingame) OR st_drop) s) g)"
  obtain g2 where g2: "g2 = ?g1 \<or> g2 = upd_seat i (\<lambda>s. s\<lparr>m_handcards_total := remove1 (m_dig_card s) (m_handcards_total s)\<rparr>) ?g1"
    and d: "declare_hand i g2 = Some g'"
    using assms u by (auto simp: seat_drop_def bind_Some Let_def split: if_splits)
  have "has ((m_seat_stauts s AND NOT st_ingame) OR st_drop) st_seated = is_seated s" for s
    by (simp add: has_def is_seated_def bit.conj_disj_distrib2 and.assoc)
  then have v: "card_view ?g1 = card_view g"
    by (simp only: cards.view_seat_status cards.view_set_phase)
  have "cards_le ?g1 g2"
    using g2
  proof
    assume g2: "g2 = upd_seat i (\<lambda>s. s\<lparr>m_handcards_total := remove1 (m_dig_card s) (m_handcards_total s)\<rparr>) ?g1"
    show ?thesis
      unfolding cards_le_def g2 by (intro conjI desk_cards_shrink) (simp_all add: upd_seat_def upd_player_def)
  qed simp
  then show ?thesis
    using cards_le_view [OF cards.view_declare_hand [OF d]] cards_le_view [OF v] cards_le_trans by blast
qed

text \<open>A player who stands up takes his cards out of the game.\<close>

lemma stand_up_view: "stand_up u g = Some g' \<Longrightarrow> card_view g' = card_view g"
  by (auto simp: stand_up_def Let_def card_view_def upd_player_def send_mq_def split: option.splits if_splits)

lemma seat_stand_up_cards:
  assumes "seat_stand_up i g = Some g'"
  shows "cards_le g g'"
proof -
  obtain u f g1 where up: "stand_up u (upd_seat i (\<lambda>s. seat_status (f s) s) g) = Some g1"
    and g': "g' = upd_seat i (\<lambda>s. s\<lparr>m_player := None, m_handcards_total := []\<rparr>) g1"
    using assms by (auto simp: seat_stand_up_def bind_Some Let_def split: if_splits)
  have "cards_le g (upd_seat i (\<lambda>s. seat_status (f s) s) g)"
    unfolding cards_le_def by (intro conjI desk_cards_shrink) (simp_all add: seat_status_def upd_seat_def)
  moreover have "cards_le g1 g'"
    unfolding cards_le_def g' by (intro conjI desk_cards_shrink) (simp_all add: upd_seat_def)
  ultimately show ?thesis using cards_le_view [OF stand_up_view [OF up]] cards_le_trans by blast
qed

lemma step_player_drop_cases:
  assumes "step_player_drop env u g = Some g'"
  obtains p i g1 g2 r m where "players g u = Some p" "m_pGameSeat p = Some i"
    "seat_drop i (is_wait_active2 g \<and> is_active_player p g) g = Some g1"
    "match_over_account env i (- m_small_blind (m_area_info g1) * seat_score (m_seats g1 ! i)) g1 = Some (g2, r)"
    "after_drop env p (broadcast_message m (g2\<lparr>m_chips_pool := m_chips_pool g2 + r\<rparr>)) = Some g'"
  using assms unfolding step_player_drop_def bind_Some Let_def by (auto simp del: if_split)

lemma drop_ends_game_cards:
  assumes "drop_ends_game env g = Some g'"
  shows "cards_le g g'"
proof -
  obtain w g1 where g1: "drop_win w (g\<lparr>m_gameover_type := DROP_OVER, m_apply_declare_seatnum := get_last_ingame_seatnum g\<rparr>) = Some g1"
    and over: "step_gameover_distrbute env (notify_room_status ROOM_IDLE g1) = Some g'"
    using assms by (auto simp: drop_ends_game_def bind_Some Let_def)
  have "card_view (notify_room_status ROOM_IDLE g1) = card_view g"
    using cards.view_game_ends(2) [OF g1] by (simp add: cards.view_simps)
  then show ?thesis using gameover_cards(2) [OF over] by (rule cards_le_view_trans)
qed

lemma after_drop_cards: "after_drop env p g = Some g' \<Longrightarrow> cards_le g g'"
  by (auto simp: after_drop_def dest: drop_ends_game_cards active_player_cards(1) split: if_splits)

lemma step_player_drop_cards:
  assumes "step_player_drop env u g = Some g'"
  shows "cards_le g g'"
  using assms
proof (cases rule: step_player_drop_cases)
  case (1 p i g1 g2 r m)
  have "card_view (broadcast_message m (g2\<lparr>m_chips_pool := m_chips_pool g2 + r\<rparr>)) = card_view g1"
    by (simp add: cards.view_simps cards.view_match_over [OF 1(4)])
  then show ?thesis
    using seat_drop_cards [OF 1(3)] after_drop_cards [OF 1(5)] cards_le_view_trans cards_le_trans by blast
qed

lemma player_drop_cards:
  assumes "player_drop env u g = Some g'"
  shows "cards_le g g'"
proof -
  have "card_view g' = card_view g \<or> step_player_drop env u (reply GG_ERROR_SUCCESS g) = Some g'"
    using assms by (auto simp: player_drop_def bind_Some cards.view_simps split: if_splits option.splits)
  moreover have "card_view (reply GG_ERROR_SUCCESS g) = card_view g" by (simp add: cards.view_simps)
  ultimately show ?thesis using step_player_drop_cards cards_le_view cards_le_view_trans by blast
qed

lemma leave_game_cards: "leave_game env u i g = Some (g', b) \<Longrightarrow> cards_le g g'"
  by (auto simp: leave_game_def bind_Some dest: default_decalre_cards split: if_splits)

lemma player_stand_up_cases:
  assumes "player_stand_up env u reason g = Some (g', r)"
  obtains p i where "players g u = Some p" "m_pGameSeat p = Some i" "m_player (m_seats g ! i) = Some u" "i < length (m_seats g)"
    "leave_game env u i g = Some (g', False)" "r = -1"
  | p i g1 g2 g3 b where "players g u = Some p" "m_pGameSeat p = Some i" "m_player (m_seats g ! i) = Some u" "i < length (m_seats g)"
      "leave_game env u i g = Some (g1, True)"
      "g2 = (if int i = m_last_winner_seatnum g1 then g1\<lparr>m_last_winner_seatnum := -1\<rparr> else g1)"
      "seat_stand_up i (broadcast_player_standup u reason g2) = Some g3"
      "after_stand_up b g3 = Some g'" "r = 0"
proof -
  obtain p i where i: "players g u = Some p" "m_pGameSeat p = Some i" "i < length (m_seats g)" "m_player (m_seats g ! i) = Some u"
    using assms by (auto simp: player_stand_up_def bind_Some split: if_splits)
  obtain g1 b where leave: "leave_game env u i g = Some (g1, b)"
    using assms i by (auto simp: player_stand_up_def bind_Some)
  show thesis
  proof (cases b)
    case False
    with assms i leave that(1) show thesis by (auto simp: player_stand_up_def bind_Some)
  next
    case True
    with assms i leave that(2) show thesis
      by (auto simp: player_stand_up_def bind_Some Let_def simp del: if_split)
  qed
qed

lemma after_stand_up_view: "after_stand_up b g = Some g' \<Longrightarrow> card_view g' = card_view g"
  by (auto simp: after_stand_up_def bind_Some cards.view_simps cards.view_wait_for_round
      dest: cards.view_over_status(2) split: if_splits)

lemma player_stand_up_cards:
  assumes "player_stand_up env u reason g = Some (g', r)"
  shows "cards_le g g'"
  using assms
proof (cases rule: player_stand_up_cases)
  case (1 p i)
  then show ?thesis using leave_game_cards by blast
next
  case (2 p i g1 g2 g3 b)
  have "card_view (broadcast_player_standup u reason g2) = card_view g1"
    unfolding 2(6) by (simp add: cards.view_simps)
  then have "cards_le g g3"
    using leave_game_cards [OF 2(5)] seat_stand_up_cards [OF 2(7)] cards_le_view_trans cards_le_trans by blast
  then show ?thesis using cards_le_view [OF after_stand_up_view [OF 2(8)]] cards_le_trans by blast
qed

lemma destroy_player_view: "card_view (destroy_player u g) = card_view g" "card_view (destroy_player_i u g) = card_view g"
  by (simp_all add: destroy_player_def destroy_player_i_def card_view_def send_mq_def)

lemma stand_up_destroy_cards:
  assumes "player_stand_up env u reason g = Some (g1, r)"
  shows "cards_le g (destroy_player u g1)" "cards_le g (destroy_player_i u g1)"
  using player_stand_up_cards [OF assms] cards_le_view [OF destroy_player_view(1)] cards_le_view [OF destroy_player_view(2)]
    cards_le_trans by blast+

lemma seat_sit_down_view: "seat_sit_down i u g = Some g' \<Longrightarrow> card_view g' = card_view g"
proof -
  have "card_view (send_mq m (upd_seat i (\<lambda>s. seat_status (h s) (s\<lparr>m_player := Some u\<rparr>)) g)) = card_view g" for h m g
    using map_upd_seat [of i g "\<lambda>s. mset (m_handcards_total s)" "\<lambda>s. seat_status (h s) (s\<lparr>m_player := Some u\<rparr>)"]
    by (simp add: card_view_def upd_seat_def send_mq_def seat_status_def)
  moreover assume "seat_sit_down i u g = Some g'"
  ultimately show ?thesis
    by (auto simp: seat_sit_down_def sit_down_def Let_def cards.view_simps split: option.splits) (simp add: card_view_def upd_player_def)
qed

lemma player_sit_down_view: "player_sit_down u i g = Some (g', r) \<Longrightarrow> card_view g' = card_view g"
  by (auto simp: player_sit_down_def seated_status_def bind_Some Let_def cards.view_simps cards.view_player_simps cards.view_wait_for_round
      dest!: seat_sit_down_view cards.view_trustee(2) split: if_splits)

lemma check_player_status_cards: "check_player_status env g = Some g' \<Longrightarrow> cards_le g g'"
  unfolding check_player_status_def
  by (erule cards_le_for_each) (auto simp: bind_Some dest: stand_up_destroy_cards split: if_splits)

lemma check_player_chips_cards: "check_player_chips env g = Some g' \<Longrightarrow> cards_le g g'"
  unfolding check_player_chips_def
  by (erule cards_le_for_each)
    (auto simp: bind_Some dest!: cards.view_check_chips dest: stand_up_destroy_cards(1) intro: cards_le_view cards_le_view_trans split: if_splits option.splits)

lemma check_one_online_cases:
  assumes "check_one_online env u g = Some g'"
  obtains "g' = upd_player u set_online g" | "g' = upd_player u set_offline g"
  | g0 where "g0 = g\<lparr>m_all_player := remove1 u (m_all_player g)\<rparr>" "g' = destroy_player_i u g0"
      "\<exists>p. players g u = Some p \<and> m_pGameSeat p = None"
  | g0 g1 r where "g0 = g\<lparr>m_all_player := remove1 u (m_all_player g)\<rparr>"
      "player_stand_up env u QUIT_ROOM g0 = Some (g1, r)" "g' = destroy_player_i u g1" "is_game_over g"
  using assms
  by (auto simp: check_one_online_def bind_Some Let_def get_seat_number_def need_kickout_room_def is_seated_player_def
      split: if_splits option.splits)

lemma check_one_online_cards:
  assumes "check_one_online env u g = Some g'"
  shows "cards_le g g'"
proof -
  have le: "cards_le g (g\<lparr>m_all_player := xs\<rparr>)" for xs by (rule cards_le_view) (simp add: card_view_def)
  from assms show ?thesis
  proof (cases rule: check_one_online_cases)
    case (3 g0)
    then show ?thesis using le cards_le_view [OF destroy_player_view(2)] cards_le_trans by blast
  next
    case (4 g0 g1 r)
    then show ?thesis using le stand_up_destroy_cards(2) cards_le_trans by blast
  qed (use cards_le_view cards.view_online in blast)+
qed

section \<open>The timer\<close>

lemma set_trustee_cards:
  assumes "set_trustee_on u g = Some g1" "cards_le g1 g'"
  shows "cards_le g g'"
  using cards_le_view_trans [OF cards.view_trustee(1) [OF assms(1)] assms(2)] .

lemma step_active1_timeout_cards: "step_active1_timeout env g = Some g' \<Longrightarrow> cards_le g g'"
  by (auto simp: step_active1_timeout_def bind_Some intro: set_trustee_cards active_player_cards(1))

lemma step_rand2_timeout_cards: "step_rand2_timeout env g = Some g' \<Longrightarrow> cards_le g g'"
  by (auto simp: step_rand2_timeout_def bind_Some intro: set_trustee_cards dest: post_default_card_cards)

lemma step_declare_timeout_cards: "step_declare_timeout env g = Some g' \<Longrightarrow> cards_le g g'"
  unfolding step_declare_timeout_def
  by (erule cards_le_for_each) (auto simp: bind_Some dest: default_decalre_cards split: if_splits)

lemma ready_for_next_game_cards:
  assumes "ready_for_next_game env g = Some g'"
  shows "cards_le g g'"
proof -
  obtain g1 where g1: "check_player_status env (wait_for_round GAME_UNREADY 0 g) = Some g1"
    "set_player_matchover_status g1 = Some g'"
    using assms by (auto simp: ready_for_next_game_def bind_Some)
  show ?thesis
    using check_player_status_cards [OF g1(1)] cards_le_view [OF cards.view_over_status(2) [OF g1(2)]]
      cards_le_view [OF cards.view_wait_for_round] cards_le_trans by blast
qed

lemma step_unready_cards:
  assumes "step_unready env g = Some g'"
  shows "cards_le g g'"
proof -
  obtain g1 where g1: "check_player_chips env g = Some g1" "card_view g' = card_view g1"
    using assms by (auto simp: step_unready_def bind_Some Let_def cards.view_simps cards.view_wait_for_round split: if_splits)
  then show ?thesis using check_player_chips_cards cards_le_view cards_le_trans by blast
qed

section \<open>Dealing\<close>

lemma find_card_iff: "find_card cards pc \<longleftrightarrow> pc \<in> set cards"
  by (auto simp: find_card_def) (metis poker_card.expand)

lemma take_named_cards:
  "take_named ss cards out = (cards', out', ok) \<Longrightarrow> mset cards' + mset out' = mset cards + mset out"
proof (induction ss cards out rule: take_named.induct)
  case (2 s ss cards out)
  show ?case
  proof (cases "find_card cards (parse_string s no_card)")
    case True
    then have "mset (remove1 (parse_string s no_card) cards) + {#parse_string s no_card#} = mset cards"
      by (simp add: find_card_iff)
    with 2 True show ?thesis by (simp add: Let_def ac_simps)
  qed (use 2 in \<open>simp add: Let_def\<close>)
qed simp

lemma take_hands_cards:
  "take_hands hs cards hds = (cards', hds', ok) \<Longrightarrow> mset cards' + mset (concat hds') = mset cards + mset (concat hds)"
proof (induction hs cards hds rule: take_hands.induct)
  case (2 h hs cards hds)
  obtain cards1 hand b where t: "take_named (take HAND_CARD_COUNT h) cards [] = (cards1, hand, b)" by (cases "take_named (take HAND_CARD_COUNT h) cards []") auto
  with 2 take_named_cards [OF t] show ?case by (cases b) (auto simp: ac_simps)
qed simp

lemma fill_hands_cards:
  "fill_hands hs cards vec = Some (cards', vec') \<Longrightarrow> mset cards' + mset vec' = mset (concat hs) + mset cards + mset vec"
proof (induction hs cards vec rule: fill_hands.induct)
  case (2 h hs cards vec)
  have "mset (take n cards) + mset (drop n cards) = mset cards" for n
    by (metis append_take_drop_id mset_append)
  from this [of "HAND_CARD_COUNT - length h"] 2 show ?case by (auto simp: Let_def ac_simps split: if_splits)
qed simp

lemma get_card_from_file_cards:
  assumes "get_card_from_file file cards n k m = Some (cards', n', k')"
  shows "mset cards' \<subseteq># mset cards"
proof (cases "cards' = cards")
  case False
  then obtain f where f: "file = Some f" using assms by (auto simp: get_card_from_file_def split: option.splits)
  obtain c1 hs b1 where h: "take_hands (take 5 (df_cards f)) cards [] = (c1, hs, b1)" by (cases "take_hands (take 5 (df_cards f)) cards []") auto
  obtain c2 bc b2 where n: "take_named (df_bottom_cards f) c1 [] = (c2, bc, b2)" by (cases "take_named (df_bottom_cards f) c1 []") auto
  have c1: "mset c1 + mset (concat hs) = mset cards" using take_hands_cards [OF h] by simp
  have c2: "mset c2 + mset bc = mset c1" using take_named_cards [OF n] by simp
  consider "cards' = c1" | "cards' = c2" | c3 vec where "fill_hands hs c2 [] = Some (c3, vec)" "cards' = vec @ bc @ c3"
    using assms False by (auto simp: get_card_from_file_def f h n Let_def split: if_splits bool.splits option.splits)
  then show ?thesis
  proof cases
    case 3
    then have "mset cards' = mset cards"
      using fill_hands_cards [OF 3(1)] c1 c2 by (simp add: ac_simps) (metis add.assoc add.commute)
    then show ?thesis by simp
  qed (use c1 c2 in \<open>metis mset_subset_eq_add_left subset_mset.order_trans\<close>)+
qed simp

text \<open>The cards that are dealt: the bottom and the hands, while the hands are taken from the bottom.\<close>

definition dealt_cards :: "room \<Rightarrow> poker_card multiset" where
  "dealt_cards g = mset (m_bottom_cards g) + hands g"

lemma deal_seat_cards:
  assumes "deal_seat i g = Some g'"
  shows "dealt_cards g' \<subseteq># dealt_cards g \<and> m_pokercard_pool g' = m_pokercard_pool g \<and> m_pCardDealer g' = m_pCardDealer g"
proof (cases "is_seated (m_seats g ! i)")
  case True
  let ?h = "take HAND_CARD_COUNT (m_bottom_cards g)" and ?r = "drop HAND_CARD_COUNT (m_bottom_cards g)"
  have g': "g' = (upd_seat i (\<lambda>s. s\<lparr>m_handcards_total := sort ?h\<rparr>) g)\<lparr>m_bottom_cards := ?r\<rparr>"
    using assms True by (auto simp: deal_seat_def deal_cards_def upd_seat_def split: if_splits)
  have split: "mset ?h + mset ?r = mset (m_bottom_cards g)" by (metis append_take_drop_id mset_append)
  have "hands g' \<subseteq># hands g + mset ?h"
  proof (cases "i < length (m_seats g)")
    case True
    from hands_upd [OF this, of "\<lambda>s. s\<lparr>m_handcards_total := sort ?h\<rparr>"] show ?thesis
      by (simp add: g' hands_def) (metis mset_subset_eq_add_left)
  qed (simp add: g' hands_def upd_seat_def list_update_beyond)
  then have "dealt_cards g' \<subseteq># mset ?r + (hands g + mset ?h)"
    by (simp add: dealt_cards_def g')
  also have "\<dots> = dealt_cards g" by (simp only: dealt_cards_def split [symmetric] ac_simps)
  finally show ?thesis by (simp add: g' upd_seat_def)
qed (use assms in \<open>simp add: deal_seat_def\<close>)

lemma deal_seats_cards:
  assumes "for_each deal_seat xs g = Some g'"
  shows "dealt_cards g' \<subseteq># dealt_cards g \<and> m_pokercard_pool g' = m_pokercard_pool g \<and> m_pCardDealer g' = m_pCardDealer g"
  using assms
proof (induction xs arbitrary: g)
  case (Cons x xs)
  then show ?case
    by (auto split: option.splits dest!: deal_seat_cards) (meson subset_mset.order_trans)+
qed simp

section \<open>No card twice\<close>

text \<open>All cards of a room are part of the double deck of 108 cards, which the dealer keeps complete.\<close>

definition dealer_full :: "room \<Rightarrow> bool" where
  "dealer_full g \<longleftrightarrow> dealer_ok (m_pCardDealer g) \<and> dl_all_card (m_pCardDealer g) = double_deck"

definition cards_ok :: "room \<Rightarrow> bool" where
  "cards_ok g \<longleftrightarrow> desk_cards g \<subseteq># mset double_deck \<and> dealer_full g"

lemma cards_ok_le: "cards_ok g \<Longrightarrow> cards_le g g' \<Longrightarrow> cards_ok g'"
  unfolding cards_ok_def cards_le_def dealer_full_def by (auto intro: subset_mset.order_trans)

lemma deal_bottom_cards:
  assumes "deal_bottom env g = Some (g', n)" "dealer_full g"
  shows "mset (m_bottom_cards g') \<subseteq># mset double_deck \<and> dealer_full g' \<and> m_seats g' = m_seats g
    \<and> m_pokercard_pool g' = m_pokercard_pool g"
proof -
  obtain d bottom where d: "deal_card (rand_deal env) (m_pCardDealer g) [] CARD_COUNT = Some (d, bottom)"
    "dealer_ok d" "dl_all_card d = double_deck" "mset bottom \<subseteq># mset double_deck"
    using rand_deal_card_ok [of "m_pCardDealer g" CARD_COUNT "rand_deal env" "[]"] assms(2)
    by (auto simp: dealer_full_def deal_card_def)
  then show ?thesis
    using assms(1) by (auto simp: deal_bottom_def bind_Some Let_def dealer_full_def split: option.splits
        dest!: get_card_from_file_cards intro: subset_mset.order_trans)
qed

lemma turn_joker_cards:
  assumes "turn_joker g = Some g'"
  shows "desk_cards g' \<subseteq># mset (m_pokercard_pool g) + dealt_cards g \<and> m_pCardDealer g' = m_pCardDealer g"
proof -
  let ?P = "\<lambda>c. m_point c \<ge> JOKER1"
  obtain c cs where bottom: "m_bottom_cards g = c # cs" using assms by (cases "m_bottom_cards g") (auto simp: turn_joker_def)
  then obtain r rs where rest: "dropWhile ?P cs = r # rs"
    and g': "g' = g\<lparr>m_pokercard_pool := m_pokercard_pool g @ [c], m_joker_card := r, m_bottom_cards := takeWhile ?P cs @ rs\<rparr>"
    using assms by (cases "dropWhile ?P cs") (auto simp: turn_joker_def Let_def simp del: dropWhile_eq_Nil_conv)
  have cs: "mset cs = mset (takeWhile ?P cs) + add_mset r (mset rs)"
    by (metis takeWhile_dropWhile_id rest mset_append mset.simps(2))
  have "joker_cards g' \<subseteq># {#r#}" by (simp add: joker_cards_def g')
  then have "desk_cards g' \<subseteq># mset (takeWhile ?P cs) + mset rs + add_mset c (mset (m_pokercard_pool g)) + {#r#} + hands g"
    by (simp add: desk_cards_def g' hands_def)
  also have "\<dots> = mset (m_pokercard_pool g) + dealt_cards g"
    by (simp add: dealt_cards_def bottom cs)
  finally show ?thesis by (simp add: g')
qed

lemma cut_bottom_cards:
  assumes "cut_bottom n g = Some g'"
  shows "cards_le g g'"
proof -
  have "mset (take k xs) \<subseteq># mset xs" for k and xs :: "poker_card list"
    by (metis append_take_drop_id mset_append mset_subset_eq_add_left)
  then show ?thesis
    using assms by (auto simp: cut_bottom_def cards_le_def desk_cards_def joker_cards_def hands_def split: if_splits)
qed

lemma step_deal_cards_ok:
  assumes "step_deal_cards env g = Some g'" "dealer_full g" "hands g = {#}" "m_pokercard_pool g = []"
  shows "cards_ok g'"
proof -
  obtain g1 n g2 g3 g4 where deal: "deal_bottom env g = Some (g1, n)"
    "for_each deal_seat [0..<length (m_seats g1)] g1 = Some g2" "turn_joker g2 = Some g3" "cut_bottom n g3 = Some g4"
    "broadcast_deal_cards g4 = Some g'"
    using assms(1) by (auto simp: step_deal_cards_def bind_Some)
  have g1: "mset (m_bottom_cards g1) \<subseteq># mset double_deck" "dealer_full g1" "m_seats g1 = m_seats g" "m_pokercard_pool g1 = []"
    using deal_bottom_cards [OF deal(1) assms(2)] assms(4) by auto
  then have "dealt_cards g1 \<subseteq># mset double_deck" using assms(3) by (simp add: dealt_cards_def hands_def)
  then have "desk_cards g3 \<subseteq># mset double_deck" "m_pCardDealer g3 = m_pCardDealer g1"
    using deal_seats_cards [OF deal(2)] turn_joker_cards [OF deal(3)] g1(4) by (auto intro: subset_mset.order_trans)
  with g1(2) have "cards_ok g3" by (simp add: cards_ok_def dealer_full_def)
  then show ?thesis
    using cut_bottom_cards [OF deal(4)] cards_le_view [OF cards.view_broadcast_deal [OF deal(5)]] cards_ok_le by blast
qed

text \<open>\<open>step_desk_ready\<close> empties every hand and the pool.\<close>

lemma ready_for_game_fields:
  assumes "ready_for_game i g = Some g'"
  shows "length (m_seats g') = length (m_seats g)" "m_pokercard_pool g' = m_pokercard_pool g" "m_pCardDealer g' = m_pCardDealer g"
    "i < length (m_seats g) \<Longrightarrow> m_handcards_total (m_seats g' ! i) = []"
    "j \<noteq> i \<Longrightarrow> m_seats g' ! j = m_seats g ! j"
  using assms by (auto simp: ready_for_game_def bind_Some Let_def upd_seat_def upd_player_def split: if_splits)

lemma ready_loop:
  assumes "for_each ready_for_game [k..<n] g = Some g'" "k \<le> n" "n = length (m_seats g)"
    "\<forall>j < k. m_handcards_total (m_seats g ! j) = []"
  shows "length (m_seats g') = n \<and> (\<forall>j < n. m_handcards_total (m_seats g' ! j) = []) \<and>
    m_pokercard_pool g' = m_pokercard_pool g \<and> m_pCardDealer g' = m_pCardDealer g"
  using assms
proof (induction "n - k" arbitrary: k g)
  case (Suc m)
  then have k: "k < n" by simp
  then obtain g1 where g1: "ready_for_game k g = Some g1" "for_each ready_for_game [Suc k..<n] g1 = Some g'"
    using Suc.prems(1) by (auto simp: upt_conv_Cons split: option.splits)
  note f = ready_for_game_fields [OF g1(1)]
  have "\<forall>j < Suc k. m_handcards_total (m_seats g1 ! j) = []"
    using f(4,5) Suc.prems(3,4) k by (metis less_Suc_eq)
  from Suc.hyps(1) [OF _ g1(2) _ _ this] Suc.hyps(2) k f(1-3) Suc.prems(3) show ?case by auto
qed auto

lemma hands_empty:
  assumes "\<forall>j < length (m_seats g). m_handcards_total (m_seats g ! j) = []"
  shows "hands g = {#}"
proof -
  have "\<forall>s \<in> set ss. m_handcards_total s = [] \<Longrightarrow> (\<Sum>s \<leftarrow> ss. mset (m_handcards_total s)) = {#}" for ss
    by (induction ss) auto
  moreover have "\<forall>s \<in> set (m_seats g). m_handcards_total s = []" using assms by (auto simp: in_set_conv_nth)
  ultimately show ?thesis by (simp add: hands_def)
qed

lemma step_desk_ready_cards:
  assumes "step_desk_ready g = Some g'"
  shows "hands g' = {#} \<and> m_pokercard_pool g' = [] \<and> m_pCardDealer g' = m_pCardDealer g"
proof -
  let ?g = "g\<lparr>m_wait_round_timer := None, m_pokercard_pool := [], m_is_first_pool_card := True\<rparr>"
  have "for_each ready_for_game [0..<length (m_seats ?g)] ?g = Some g'"
    using assms by (simp add: step_desk_ready_def)
  from ready_loop [OF this] have "length (m_seats g') = length (m_seats g)"
    "\<forall>j < length (m_seats g). m_handcards_total (m_seats g' ! j) = []"
    "m_pokercard_pool g' = []" "m_pCardDealer g' = m_pCardDealer g" by simp_all
  with hands_empty [of g'] show ?thesis by simp
qed

lemma start_new_game_cards:
  assumes "start_new_game env g = Some g'" "cards_ok g"
  shows "cards_ok g'"
proof -
  obtain g1 g2 g3 where s: "step_desk_ready g = Some g1" "step_dealer_seat env g1 = Some g2" "step_deal_cards env g2 = Some g3"
    and "g' = (wait_for_round GAME_DEALER_CARD (wait_ms m_time_deal_card g3) g3)\<lparr>m_time_game_begin := now env\<rparr>"
    using assms(1) by (auto simp: start_new_game_def bind_Some split: if_splits)
  then have g': "card_view g' = card_view g3" by (simp add: cards.view_simps cards.view_wait_for_round)
  have v: "card_view g2 = card_view g1" using cards.view_dealer_seat [OF s(2)] .
  then have "hands g2 = hands g1 \<and> m_pokercard_pool g2 = m_pokercard_pool g1 \<and> m_pCardDealer g2 = m_pCardDealer g1"
    by (simp add: card_view_def hands_def)
  then have "cards_ok g3"
    using step_deal_cards_ok [OF s(3)] step_desk_ready_cards [OF s(1)] assms(2) by (simp add: cards_ok_def dealer_full_def)
  then show ?thesis using cards_le_view [OF g'] cards_ok_le by blast
qed

lemma step_playing_begin_cards:
  assumes "step_playing_begin env g = Some g'" "cards_ok g"
  shows "cards_ok g'"
proof (cases "is_game_can_start g")
  case True
  have "cards_ok (notify_room_status ROOM_PLAYING g)"
    using cards_ok_le [OF assms(2) cards_le_view] by (simp add: cards.view_simps)
  with True start_new_game_cards assms(1) show ?thesis by (auto simp: step_playing_begin_def)
next
  case False
  then have "card_view g' = card_view g"
    using assms(1) by (auto simp: step_playing_begin_def cards.view_simps cards.view_wait_for_round)
  then show ?thesis using cards_ok_le [OF assms(2) cards_le_view] by blast
qed

lemmas timer_cards = step_unready_cards step_active1_timeout_cards step_rand2_timeout_cards step_declare_timeout_cards
  active_player_cards(1) ready_for_next_game_cards

lemma on_wait_round_timeout_cards:
  assumes "on_wait_round_timeout env g = Some g'" "cards_ok g"
  shows "cards_ok g'"
proof (cases "m_wait_round_timer g")
  case None
  then show ?thesis using assms by (simp add: on_wait_round_timeout_def)
next
  case (Some t)
  let ?g = "set_game_status (m_game_status g AND NOT GAME_WAIT_MASK) (g\<lparr>m_wait_round_timer := None\<rparr>)"
  have "card_view ?g = card_view g" by (simp add: card_view_def set_game_status_def)
  then have ok: "cards_ok ?g" using cards_ok_le [OF assms(2) cards_le_view] by blast
  have "cards_le ?g g' \<or> step_playing_begin env ?g = Some g'"
    using assms(1) Some
    by (auto simp: on_wait_round_timeout_def step_new_round_def Let_def dest: timer_cards split: if_split_asm)
  then show ?thesis using ok cards_ok_le step_playing_begin_cards by blast
qed

section \<open>Requests\<close>

lemma add_player_view: "add_player env u ses g = Some g' \<Longrightarrow> card_view g' = card_view g"
  by (auto simp: add_player_def card_view_def send_mq_def split: if_splits option.splits)

lemma on_new_player_enter_view:
  assumes "on_new_player_enter env u name ses g = Some g'"
  shows "card_view g' = card_view g"
proof (cases "add_player env u ses g")
  case None
  then show ?thesis using assms by (auto simp: on_new_player_enter_def cards.view_simps)
next
  case (Some g1)
  then show ?thesis
    using assms add_player_view [OF Some]
    by (auto simp: on_new_player_enter_def bind_Some Let_def cards.view_simps cards.view_set_name destroy_player_view
        dest!: cards.view_buy_in player_sit_down_view split: if_splits)
qed

lemma on_player_enter_view: "on_player_enter env u name ses g = Some g' \<Longrightarrow> card_view g' = card_view g"
  by (auto simp: on_player_enter_def bind_Some cards.view_simps cards.view_set_name
      dest!: on_new_player_enter_view cards.view_come_back split: option.splits)

lemma on_player_exit_cards: "on_player_exit env u g = Some g' \<Longrightarrow> cards_le g g'"
proof -
  assume "on_player_exit env u g = Some g'"
  then consider "card_view g' = card_view g" | g1 r where "player_stand_up env u APPLY_STAND_UP g = Some (g1, r)" "card_view g' = card_view g1"
    by (auto simp: on_player_exit_def find_player_def bind_Some cards.view_simps destroy_player_view split: if_splits)
  then show ?thesis using player_stand_up_cards cards_le_view cards_le_trans by (cases; blast)
qed

lemma on_apply_standup_cards: "on_apply_standup env u g = Some g' \<Longrightarrow> cards_le g g'"
proof -
  let ?g = "upd_player u (flush_online_time env) (reply GG_ERROR_SUCCESS g)"
  assume "on_apply_standup env u g = Some g'"
  then consider "card_view g' = card_view g" | g1 r where "player_stand_up env u APPLY_STAND_UP ?g = Some (g1, r)" "card_view g' = card_view g1"
    by (auto simp: on_apply_standup_def find_player_def bind_Some Let_def cards.view_simps cards.view_player_simps destroy_player_view
        split: if_split_asm)
  moreover have "card_view ?g = card_view g" by (simp add: cards.view_simps cards.view_player_simps)
  ultimately show ?thesis using player_stand_up_cards cards_le_view cards_le_view_trans cards_le_trans by (cases; blast)
qed

lemma on_apply_seat_view: "on_apply_seat env u i g = Some g' \<Longrightarrow> card_view g' = card_view g"
  by (auto simp: on_apply_seat_def find_player_def bind_Some Let_def cards.view_simps cards.view_player_simps
      dest!: cards.view_buy_in player_sit_down_view split: if_splits)

lemma desk_request_cards:
  assumes "desk_request env u action g = Some g'" and "\<And>g g'. action g = Some g' \<Longrightarrow> cards_le g g'"
  shows "cards_le g g'"
proof -
  let ?g = "upd_player u (flush_online_time env) g"
  have "card_view g' = card_view g \<or> action ?g = Some g'"
    using assms(1) by (auto simp: desk_request_def find_player_def cards.view_simps split: if_splits)
  moreover have "card_view ?g = card_view g" by (rule cards.view_flush_online)
  ultimately show ?thesis using assms(2) cards_le_view cards_le_view_trans by blast
qed

lemma player_trusteeoff_view: "player_trusteeoff env u g = Some g' \<Longrightarrow> card_view g' = card_view g"
  by (auto simp: player_trusteeoff_def bind_Some Let_def cards.view_wait_for_round dest!: cards.view_trustee(2)
      simp del: if_split split: if_split_asm)

lemma player_close_account_box_cards: "player_close_account_box env u g = Some g' \<Longrightarrow> cards_le g g'"
proof -
  let ?g = "broadcast_message (PlayerCloseAccountBox u) (upd_player u (set_phase PLAYER_UNREADY) g)"
  assume "player_close_account_box env u g = Some g'"
  then have "g' = g \<or> g' = ?g \<or> ready_for_next_game env ?g = Some g'"
    by (auto simp: player_close_account_box_def bind_Some Let_def split: if_splits)
  moreover have "card_view ?g = card_view g" by (simp add: cards.view_simps cards.view_player_simps)
  ultimately show ?thesis using ready_for_next_game_cards cards_le_view cards_le_view_trans by blast
qed

lemma request_cards:
  assumes "on_recv_msg env r g = Some g'"
  shows "cards_le g g'"
proof (cases r)
  case (ApplyEnterRoom u name ses)
  then show ?thesis using assms on_player_enter_view cards_le_view by auto
next
  case (ApplySeat u i)
  then show ?thesis using assms on_apply_seat_view cards_le_view by auto
next
  case (ApplyTrusteeOff u)
  then show ?thesis
    using assms by (auto simp: desk_request_defs elim!: desk_request_cards dest!: player_trusteeoff_view intro: cards_le_view simp: cards.view_simps)
next
  case (ApplyCloseAccountBox u)
  then show ?thesis
    using assms by (auto simp: desk_request_defs elim!: desk_request_cards dest!: player_close_account_box_cards intro: cards_le_view_trans [OF cards.view_reply])
next
  case (ApplyDigCard u t)
  then show ?thesis
    using assms by (auto simp: desk_request_defs elim!: desk_request_cards dest!: player_dig_card_cards intro: cards_le_keeps)
next
  case (ApplyPostCard u c n)
  then show ?thesis using assms by (auto simp: desk_request_defs elim!: desk_request_cards dest!: player_post_card_cards)
next
  case (ApplyDeclare u c gs)
  then show ?thesis using assms by (auto simp: desk_request_defs elim!: desk_request_cards dest!: player_declare_view intro: cards_le_view)
next
  case (ApplyFlushRoom u)
  then show ?thesis
    using assms by (auto simp: desk_request_defs elim!: desk_request_cards dest!: cards.view_flush_room intro: cards_le_view)
next
  case (ApplyRoomStatus u)
  then show ?thesis using assms by (auto simp: desk_request_defs elim!: desk_request_cards intro: cards_le_view simp: cards.view_simps)
next
  case (Relay q)
  then show ?thesis using assms cards.view_relay [of env q g g'] cards_le_view by simp
next
  case (ApplyLoseDeclare u gs)
  then show ?thesis using assms by (auto simp: desk_request_defs elim!: desk_request_cards dest!: player_lose_declare_cards)
next
  case (ApplyDrop u)
  then show ?thesis using assms by (auto simp: desk_request_defs elim!: desk_request_cards dest!: player_drop_cards)
qed (use assms on_player_exit_cards on_apply_standup_cards in auto)

lemma check_player_online_cards: "check_player_online env g = Some g' \<Longrightarrow> cards_le g g'"
  unfolding check_player_online_def by (erule cards_le_for_each) (rule check_one_online_cards)

lemma handle_cards:
  assumes "handle env ev g = Some g'" "cards_ok g"
  shows "cards_ok g'"
  using assms by (cases ev) (auto dest: request_cards check_player_online_cards intro: cards_ok_le on_wait_round_timeout_cards)

lemma open_area_cards:
  assumes "open_area rs info = Some g"
  shows "cards_ok g"
proof -
  have "hands (g\<lparr>m_seats := replicate n GameSeat\<rparr>) = {#}" for n
    by (induction n) (simp_all add: hands_def GameSeat_def)
  then show ?thesis
    using assms init_cards_ok [of rs]
    by (auto simp: open_area_def bind_Some cards_ok_def dealer_full_def desk_cards_def joker_cards_def hands_def)
qed

interpretation cards_inv: room_invariant cards_ok
proof unfold_locales
  have "desk_cards (g\<lparr>m_combination := cb\<rparr>) = desk_cards g" for g cb
    by (simp add: desk_cards_def joker_cards_def hands_def)
  then show "cards_ok (g\<lparr>m_combination := cb\<rparr>)" if "cards_ok g" for g cb
    using that by (simp add: cards_ok_def dealer_full_def)
qed (blast intro: open_area_cards handle_cards)+

end
