(* ===== verification/Game_Links.thy ===== *)
theory Game_Links
  imports Game_Cards
begin

text \<open>
  Who sits where. A seat points to its player and the player points back to the seat; a seat has
  the bit \<open>st_seated\<close> exactly when it has a player; the map \<open>m_all_player\<close> has exactly the players
  of the room. The pointers change only when a player enters, sits down, stands up or is
  destroyed, and no player is destroyed while a seat points to him.
\<close>

section \<open>The links of a room\<close>

definition link_view :: "room \<Rightarrow> (int option \<times> bool) list \<times> (int \<Rightarrow> (int \<times> nat option) option) \<times> int list" where
  "link_view g = (map (\<lambda>s. (m_player s, is_seated s)) (m_seats g),
     (\<lambda>u. map_option (\<lambda>p. (m_player_id p, m_pGameSeat p)) (players g u)), m_all_player g)"

lemma link_view_upd_player:
  assumes "\<And>p. m_player_id (f p) = m_player_id p \<and> m_pGameSeat (f p) = m_pGameSeat p"
  shows "link_view (upd_player u f g) = link_view g"
proof -
  have "map_option (\<lambda>p. (m_player_id p, m_pGameSeat p)) (map_option f q) = map_option (\<lambda>p. (m_player_id p, m_pGameSeat p)) q" for q
    using assms by (cases q) simp_all
  then show ?thesis by (simp add: link_view_def upd_player_def fun_eq_iff)
qed

lemma link_view_upd_seat:
  assumes "\<And>s. m_player (f s) = m_player s \<and> is_seated (f s) = is_seated s"
  shows "link_view (upd_seat i f g) = link_view g"
  using map_upd_seat [of i g "\<lambda>s. (m_player s, is_seated s)" f] assms
  by (simp add: link_view_def upd_seat_def)

interpretation links: room_view_all link_view
proof unfold_locales
  show "link_view (upd_player u f g) = link_view g"
    if "\<And>p. m_player_id (f p) = m_player_id p \<and> m_pGameSeat (f p) = m_pGameSeat p" for f u g
    using that by (rule link_view_upd_player)
qed (blast intro: link_view_upd_seat | simp add: link_view_def)+

interpretation links: room_view_cards link_view
proof unfold_locales
  show "link_view (clear_desk g) = link_view g" for g
    by (simp add: link_view_def clear_desk_def reset_seat_def is_seated_def)
qed (blast intro: link_view_upd_seat | simp add: link_view_def)+

lemmas link_simps = links.view_card_simps

section \<open>Steps that keep the links\<close>

lemmas gameover_links = links.view_game_over
lemmas active_player_links = links.view_active_player

lemma loser_pays_links: "loser_pays env i u gs n g = Some g' \<Longrightarrow> link_view g' = link_view g"
  by (auto simp: loser_pays_def bind_Some Let_def link_simps dest!: gameover_links links.view_match_over split: if_split_asm)

lemma player_declare_links: "player_declare env u c gs g = Some g' \<Longrightarrow> link_view g' = link_view g"
  by (erule player_declare_cases)
    (auto simp: start_declare_def Let_def links.view_simps links.view_wait_for_round dest!: links.view_check_declare)

lemma default_decalre_links: "default_decalre env u g = Some g' \<Longrightarrow> link_view g' = link_view g"
  by (auto simp: default_decalre_def bind_Some dest!: loser_pays_links links.view_default_declare)

lemma seat_drop_links: "seat_drop i b g = Some g' \<Longrightarrow> link_view g' = link_view g"
proof -
  have "has ((m_seat_stauts s AND NOT st_ingame) OR st_drop) st_seated = is_seated s" for s
    by (simp add: has_def is_seated_def bit.conj_disj_distrib2 and.assoc)
  then have "link_view (upd_seat i (\<lambda>s. seat_status ((m_seat_stauts s AND NOT st_ingame) OR st_drop) s) g) = link_view g" for g
    by (rule links.view_seat_status)
  moreover assume "seat_drop i b g = Some g'"
  ultimately show ?thesis
    by (auto simp: seat_drop_def bind_Some Let_def link_simps dest!: links.view_declare_hand split: if_split_asm)
qed

lemma step_player_drop_links: "step_player_drop env u g = Some g' \<Longrightarrow> link_view g' = link_view g"
  by (erule step_player_drop_cases)
    (auto simp: after_drop_def drop_ends_game_def bind_Some Let_def link_simps
      dest!: seat_drop_links links.view_match_over active_player_links gameover_links links.view_game_ends split: if_split_asm)

lemma ready_for_game_links:
  assumes "ready_for_game i g = Some g'"
  shows "link_view g' = link_view g"
proof -
  have seated: "link_view (upd_seat i (\<lambda>s. (seat_status 0x13 s)\<lparr>m_ingame_player_id := n\<rparr>) g) = link_view g"
    if "is_seated (m_seats g ! i)" for g n
    using that map_upd_seat [of i g "\<lambda>s. (m_player s, is_seated s)" "\<lambda>s. (seat_status 0x13 s)\<lparr>m_ingame_player_id := n\<rparr>"]
    by (simp add: link_view_def upd_seat_def seat_status_def is_seated_def has_def)
  have ready: "link_view (upd_player u player_ready_for_game g) = link_view g" for u g
    by (rule link_view_upd_player) (simp add: player_ready_for_game_def set_phase_def set_status_def)
  have empty: "link_view (upd_seat i (seat_status 0) g) = link_view g" if "\<not> is_seated (m_seats g ! i)" for g
    using that map_upd_seat [of i g "\<lambda>s. (m_player s, is_seated s)" "seat_status 0"]
    by (simp add: link_view_def upd_seat_def seat_status_def is_seated_def has_def)
  have first: "link_view (upd_seat i (\<lambda>s. s\<lparr>m_ingame_player_id := 0, seat_score := 20, m_card_score := 0\<rparr>) g) = link_view g" for g
    by (rule link_view_upd_seat) (simp add: is_seated_def)
  have last: "link_view (upd_seat i (\<lambda>s. s\<lparr>m_match_over_account_chips := 0, m_handcards_total := []\<rparr>) g) = link_view g" for g
    by (rule link_view_upd_seat) (simp add: is_seated_def)
  show ?thesis
    using assms by (auto simp: ready_for_game_def bind_Some Let_def seated empty first last ready
        split: if_split_asm)
qed

lemma step_desk_ready_links: "step_desk_ready g = Some g' \<Longrightarrow> link_view g' = link_view g"
  unfolding step_desk_ready_def
  by (drule links.view_for_each, erule ready_for_game_links) (simp add: link_simps)

lemma start_new_game_links:
  assumes "start_new_game env g = Some g'"
  shows "link_view g' = link_view g"
proof -
  obtain g1 g2 g3 where s: "step_desk_ready g = Some g1" "step_dealer_seat env g1 = Some g2" "step_deal_cards env g2 = Some g3"
    and "g' = (wait_for_round GAME_DEALER_CARD (wait_ms m_time_deal_card g3) g3)\<lparr>m_time_game_begin := now env\<rparr>"
    using assms by (auto simp: start_new_game_def bind_Some split: if_splits)
  then show ?thesis
    using step_desk_ready_links [OF s(1)] links.view_dealer_seat [OF s(2)] links.view_deal_cards [OF s(3)]
    by (simp add: link_simps)
qed

lemma step_playing_begin_links: "step_playing_begin env g = Some g' \<Longrightarrow> link_view g' = link_view g"
  by (auto simp: step_playing_begin_def link_simps dest!: start_new_game_links split: if_split_asm)

lemma step_declare_timeout_links: "step_declare_timeout env g = Some g' \<Longrightarrow> link_view g' = link_view g"
  unfolding step_declare_timeout_def
  by (erule links.view_for_each) (auto simp: bind_Some dest: default_decalre_links split: if_splits)

lemma player_lose_declare_links: "player_lose_declare env u gs g = Some g' \<Longrightarrow> link_view g' = link_view g"
  by (erule player_lose_declare_cases)
    (auto simp: link_simps dest!: links.view_check_lose_declare loser_pays_links)

lemma player_drop_links: "player_drop env u g = Some g' \<Longrightarrow> link_view g' = link_view g"
  by (auto simp: player_drop_def bind_Some link_simps dest!: step_player_drop_links split: if_splits option.splits)

lemma leave_game_links: "leave_game env u i g = Some (g', b) \<Longrightarrow> link_view g' = link_view g"
  by (auto simp: leave_game_def bind_Some dest: default_decalre_links split: if_splits)

section \<open>The invariant\<close>

text \<open>The seats and the players point at each other.\<close>

definition seat_links :: "room \<Rightarrow> bool" where
  "seat_links g \<longleftrightarrow> length (m_seats g) = 5 \<and>
     (\<forall>i < 5. is_seated (m_seats g ! i) \<longleftrightarrow> m_player (m_seats g ! i) \<noteq> None) \<and>
     (\<forall>i < 5. \<forall>u. m_player (m_seats g ! i) = Some u \<longrightarrow> (\<exists>p. players g u = Some p \<and> m_pGameSeat p = Some i)) \<and>
     (\<forall>u p. players g u = Some p \<longrightarrow> m_player_id p = u \<and>
        (\<forall>i. m_pGameSeat p = Some i \<longrightarrow> i < 5 \<and> m_player (m_seats g ! i) = Some u))"

text \<open>The keys of \<open>m_all_player\<close> are the players of the room.\<close>

definition roster_ok :: "room \<Rightarrow> bool" where
  "roster_ok g \<longleftrightarrow> sorted_wrt (<) (m_all_player g) \<and> set (m_all_player g) = dom (players g)"

definition links_ok :: "room \<Rightarrow> bool" where
  "links_ok g \<longleftrightarrow> seat_links g \<and> roster_ok g"

definition unseated :: "int \<Rightarrow> room \<Rightarrow> bool" where
  "unseated u g \<longleftrightarrow> (\<forall>p. players g u = Some p \<longrightarrow> m_pGameSeat p = None)"

lemma link_viewD:
  assumes "link_view g' = link_view g"
  shows "length (m_seats g') = length (m_seats g)"
    "i < length (m_seats g) \<Longrightarrow> m_player (m_seats g' ! i) = m_player (m_seats g ! i) \<and> is_seated (m_seats g' ! i) = is_seated (m_seats g ! i)"
    "map_option (\<lambda>p. (m_player_id p, m_pGameSeat p)) (players g' u) = map_option (\<lambda>p. (m_player_id p, m_pGameSeat p)) (players g u)"
    "m_all_player g' = m_all_player g" "dom (players g') = dom (players g)"
proof -
  have seats: "map (\<lambda>s. (m_player s, is_seated s)) (m_seats g') = map (\<lambda>s. (m_player s, is_seated s)) (m_seats g)"
    using assms by (simp add: link_view_def)
  then show len: "length (m_seats g') = length (m_seats g)" by (metis length_map)
  show "m_player (m_seats g' ! i) = m_player (m_seats g ! i) \<and> is_seated (m_seats g' ! i) = is_seated (m_seats g ! i)"
    if "i < length (m_seats g)"
    using arg_cong [OF seats, of "\<lambda>xs. xs ! i"] that len by simp
  show pl: "map_option (\<lambda>p. (m_player_id p, m_pGameSeat p)) (players g' u) = map_option (\<lambda>p. (m_player_id p, m_pGameSeat p)) (players g u)" for u
    using assms by (simp add: link_view_def fun_eq_iff)
  show "m_all_player g' = m_all_player g" using assms by (simp add: link_view_def)
  have "players g' u = None \<longleftrightarrow> players g u = None" for u
    using pl [of u] by (cases "players g u"; cases "players g' u") simp_all
  then show "dom (players g') = dom (players g)" by (auto simp: dom_def)
qed

lemma seat_linksI:
  assumes "length (m_seats g) = 5"
    and "\<And>i. i < 5 \<Longrightarrow> is_seated (m_seats g ! i) \<longleftrightarrow> m_player (m_seats g ! i) \<noteq> None"
    and "\<And>i u. i < 5 \<Longrightarrow> m_player (m_seats g ! i) = Some u \<Longrightarrow> \<exists>p. players g u = Some p \<and> m_pGameSeat p = Some i"
    and "\<And>u p. players g u = Some p \<Longrightarrow> m_player_id p = u"
    and "\<And>u p i. players g u = Some p \<Longrightarrow> m_pGameSeat p = Some i \<Longrightarrow> i < 5 \<and> m_player (m_seats g ! i) = Some u"
  shows "seat_links g"
  using assms unfolding seat_links_def by blast

lemma seat_linksD:
  assumes "seat_links g"
  shows "length (m_seats g) = 5"
    and "i < 5 \<Longrightarrow> is_seated (m_seats g ! i) \<longleftrightarrow> m_player (m_seats g ! i) \<noteq> None"
    and "i < 5 \<Longrightarrow> m_player (m_seats g ! i) = Some u \<Longrightarrow> \<exists>p. players g u = Some p \<and> m_pGameSeat p = Some i"
    and "players g u = Some p \<Longrightarrow> m_player_id p = u"
    and "players g u = Some p \<Longrightarrow> m_pGameSeat p = Some i \<Longrightarrow> i < 5 \<and> m_player (m_seats g ! i) = Some u"
  using assms unfolding seat_links_def by blast+

lemma seat_links_view:
  assumes "link_view g' = link_view g" "seat_links g"
  shows "seat_links g'"
proof (rule seat_linksI)
  note d = seat_linksD [OF assms(2)]
  have bwd: "\<exists>p'. players g u = Some p' \<and> m_player_id p' = m_player_id p \<and> m_pGameSeat p' = m_pGameSeat p" if "players g' u = Some p" for u p
    using link_viewD(3) [OF assms(1), of u] that by (cases "players g u") auto
  have there: "\<exists>p. players g' u = Some p \<and> m_pGameSeat p = m_pGameSeat p'" if "players g u = Some p'" for u p'
    using link_viewD(3) [OF assms(1), of u] that by (cases "players g' u") auto
  have seat: "m_player (m_seats g' ! i) = m_player (m_seats g ! i)" "is_seated (m_seats g' ! i) = is_seated (m_seats g ! i)" if "i < 5" for i
    using link_viewD(2) [OF assms(1), of i] d(1) that by simp_all
  show "length (m_seats g') = 5" using link_viewD(1) [OF assms(1)] d(1) by simp
  show "is_seated (m_seats g' ! i) \<longleftrightarrow> m_player (m_seats g' ! i) \<noteq> None" if "i < 5" for i
    using seat [OF that] d(2) [OF that] by simp
  show "\<exists>p. players g' u = Some p \<and> m_pGameSeat p = Some i" if "i < 5" "m_player (m_seats g' ! i) = Some u" for i u
    using seat(1) [OF that(1)] d(3) [OF that(1)] that(2) there by metis
  show "m_player_id p = u" if "players g' u = Some p" for u p
    using bwd [OF that] d(4) by metis
  show "i < 5 \<and> m_player (m_seats g' ! i) = Some u" if "players g' u = Some p" "m_pGameSeat p = Some i" for u p i
    using bwd [OF that(1)] d(5) that(2) seat(1) by metis
qed

lemma roster_ok_view: "link_view g' = link_view g \<Longrightarrow> roster_ok g \<Longrightarrow> roster_ok g'"
  using link_viewD(4,5) unfolding roster_ok_def by metis

lemma links_ok_view: "link_view g' = link_view g \<Longrightarrow> links_ok g \<Longrightarrow> links_ok g'"
  using seat_links_view roster_ok_view unfolding links_ok_def by blast

lemma unseated_view: "link_view g' = link_view g \<Longrightarrow> unseated u g \<Longrightarrow> unseated u g'"
  using link_viewD(3) [of g' g u] by (cases "players g u") (auto simp: unseated_def)

section \<open>Steps that change the links\<close>

lemma upd_seat_nth: "j < length (m_seats g) \<Longrightarrow> m_seats (upd_seat i f g) ! j = (if j = i then f (m_seats g ! i) else m_seats g ! j)"
  by (auto simp: upd_seat_def)

text \<open>The pointers of one seat and one player are set to null together.\<close>

lemma seat_links_unlink:
  assumes "seat_links g" "i < 5" "m_player (m_seats g ! i) = Some u"
    and seats: "length (m_seats g') = 5" "m_player (m_seats g' ! i) = None" "\<not> is_seated (m_seats g' ! i)"
      "\<And>j. j < 5 \<Longrightarrow> j \<noteq> i \<Longrightarrow> m_seats g' ! j = m_seats g ! j"
    and player: "players g u = Some p" "players g' = (players g)(u := Some p')" "m_player_id p' = u" "m_pGameSeat p' = None"
  shows "seat_links g'"
proof (rule seat_linksI)
  note d = seat_linksD [OF assms(1)]
  show "length (m_seats g') = 5" by (rule seats)
  show "is_seated (m_seats g' ! j) \<longleftrightarrow> m_player (m_seats g' ! j) \<noteq> None" if "j < 5" for j
    using seats(2-4) d(2) that by (cases "j = i") simp_all
  show "m_player_id q = v" if "players g' v = Some q" for v q
    using that player d(4) by (auto split: if_splits)
  show "\<exists>q. players g' v = Some q \<and> m_pGameSeat q = Some j" if j: "j < 5" "m_player (m_seats g' ! j) = Some v" for j v
  proof -
    have ne: "j \<noteq> i" using seats(2) j(2) by auto
    then have "m_player (m_seats g ! j) = Some v" using seats(4) j by simp
    moreover from this have "v \<noteq> u" using d(3) [OF j(1)] d(3) [OF assms(2,3)] player(1) ne by force
    ultimately show ?thesis using d(3) [OF j(1)] player(2) by simp
  qed
  show "j < 5 \<and> m_player (m_seats g' ! j) = Some v" if q: "players g' v = Some q" "m_pGameSeat q = Some j" for v q j
  proof -
    have "v \<noteq> u" using q player(2,4) by auto
    then have v: "j < 5" "m_player (m_seats g ! j) = Some v" using d(5) q player(2) by auto
    with \<open>v \<noteq> u\<close> assms(3) have "j \<noteq> i" by auto
    then show ?thesis using v seats(4) by simp
  qed
qed

text \<open>A seat and a player without pointers are set to point at each other.\<close>

lemma seat_links_link:
  assumes "seat_links g" "i < 5" "m_player (m_seats g ! i) = None"
    and seats: "length (m_seats g') = 5" "m_player (m_seats g' ! i) = Some u" "is_seated (m_seats g' ! i)"
      "\<And>j. j < 5 \<Longrightarrow> j \<noteq> i \<Longrightarrow> m_seats g' ! j = m_seats g ! j"
    and player: "players g u = Some p" "m_pGameSeat p = None" "players g' = (players g)(u := Some p')"
      "m_player_id p' = u" "m_pGameSeat p' = Some i"
  shows "seat_links g'"
proof (rule seat_linksI)
  note d = seat_linksD [OF assms(1)]
  show "length (m_seats g') = 5" by (rule seats)
  show "is_seated (m_seats g' ! j) \<longleftrightarrow> m_player (m_seats g' ! j) \<noteq> None" if "j < 5" for j
    using seats(2-4) d(2) that by (cases "j = i") simp_all
  show "m_player_id q = v" if "players g' v = Some q" for v q
    using that player d(4) by (auto split: if_splits)
  show "\<exists>q. players g' v = Some q \<and> m_pGameSeat q = Some j" if j: "j < 5" "m_player (m_seats g' ! j) = Some v" for j v
  proof (cases "j = i")
    case True
    then show ?thesis using j seats(2) player by simp
  next
    case False
    then have "m_player (m_seats g ! j) = Some v" using seats(4) j by simp
    moreover from this have "v \<noteq> u" using d(3) [OF j(1)] player(1,2) by force
    ultimately show ?thesis using d(3) [OF j(1)] player(3) by simp
  qed
  show "j < 5 \<and> m_player (m_seats g' ! j) = Some v" if q: "players g' v = Some q" "m_pGameSeat q = Some j" for v q j
  proof (cases "v = u")
    case True
    then show ?thesis using q player(3,5) seats(2) assms(2) by auto
  next
    case False
    then have "j < 5" "m_player (m_seats g ! j) = Some v" using d(5) q player(3) by auto
    with assms(3) seats(4) show ?thesis by (cases "j = i") simp_all
  qed
qed

text \<open>A player without a seat can be dropped, and a new one can be added.\<close>

lemma seat_links_drop:
  assumes "seat_links g" "unseated u g" "m_seats g' = m_seats g" "players g' = (players g)(u := None)"
  shows "seat_links g'"
proof (rule seat_linksI)
  note d = seat_linksD [OF assms(1)]
  show "\<exists>q. players g' v = Some q \<and> m_pGameSeat q = Some j" if j: "j < 5" "m_player (m_seats g' ! j) = Some v" for j v
    using d(3) [OF j(1)] j(2) assms(2-4) by (force simp: unseated_def)
qed (use assms seat_linksD [OF assms(1)] in \<open>auto split: if_splits\<close>)

lemma seat_links_new:
  assumes "seat_links g" "players g u = None" "m_seats g' = m_seats g" "players g' = (players g)(u := Some p)"
    "m_player_id p = u" "m_pGameSeat p = None"
  shows "seat_links g'"
proof (rule seat_linksI)
  note d = seat_linksD [OF assms(1)]
  show "\<exists>q. players g' v = Some q \<and> m_pGameSeat q = Some j" if j: "j < 5" "m_player (m_seats g' ! j) = Some v" for j v
    using d(3) [OF j(1)] j(2) assms(2-4) by force
qed (use assms seat_linksD [OF assms(1)] in \<open>auto split: if_splits\<close>)

lemma seat_stand_up_links:
  assumes "seat_stand_up i g = Some g'" "seat_links g" "i < 5" "m_player (m_seats g ! i) = Some u"
  shows "seat_links g'" "unseated u g'" "dom (players g') = dom (players g)" "m_all_player g' = m_all_player g"
    "m_game_status g' = m_game_status g"
proof -
  obtain p where p: "players g u = Some p" "m_pGameSeat p = Some i"
    using seat_linksD(3) [OF assms(2-4)] by blast
  obtain st where st: "\<not> has st st_seated" and
    g': "g' = upd_seat i (\<lambda>s. s\<lparr>m_player := None, m_handcards_total := []\<rparr>) (the (stand_up u (upd_seat i (seat_status st) g)))"
    "stand_up u (upd_seat i (seat_status st) g) \<noteq> None"
  proof (cases "is_game_over g")
    case True
    have "\<not> has 0 st_seated" by (simp add: has_def)
    then show ?thesis using that [of 0] assms(1,4) True by (auto simp: seat_stand_up_def bind_Some)
  next
    case False
    let ?st = "(m_seat_stauts (m_seats g ! i) AND NOT st_ingame) AND NOT st_seated"
    have "\<not> has ?st st_seated" by (simp add: has_def and.assoc)
    moreover have "upd_seat i (\<lambda>s. seat_status ((m_seat_stauts s AND NOT st_ingame) AND NOT st_seated) s) g = upd_seat i (seat_status ?st) g"
      by (simp add: upd_seat_def)
    ultimately show ?thesis using that [of ?st] assms(1,4) False by (auto simp: seat_stand_up_def bind_Some)
  qed
  let ?g1 = "upd_seat i (seat_status st) g"
  have p1: "players ?g1 u = Some p" using p by (simp add: upd_seat_def)
  define p' where "p' = (if m_cur_carry p > 0 then carry_sub (m_cur_carry p) else id) (set_phase PLAYER_STAND_UP (p\<lparr>m_pGameSeat := None\<rparr>))"
  have p': "m_player_id p' = m_player_id p" "m_pGameSeat p' = None"
    by (simp_all add: p'_def carry_sub_def set_carry_def set_phase_def set_status_def)
  have up: "players (the (stand_up u ?g1)) = (players g)(u := Some p')" "m_seats (the (stand_up u ?g1)) = m_seats ?g1"
    "m_all_player (the (stand_up u ?g1)) = m_all_player g" "m_game_status (the (stand_up u ?g1)) = m_game_status g"
    using p p1 by (auto simp: stand_up_def Let_def p'_def upd_player_def send_mq_def upd_seat_def fun_eq_iff)
  have id: "m_player_id p = u" by (rule seat_linksD(4) [OF assms(2) p(1)])
  have pl: "players g' = (players g)(u := Some p')" using up by (simp add: g' upd_seat_def)
  show "seat_links g'"
  proof (rule seat_links_unlink [OF assms(2-4) _ _ _ _ p(1) pl])
    show "length (m_seats g') = 5" "m_player (m_seats g' ! i) = None" "\<not> is_seated (m_seats g' ! i)"
      using seat_linksD(1) [OF assms(2)] assms(3) st up by (simp_all add: g' upd_seat_def seat_status_def is_seated_def)
    show "m_seats g' ! j = m_seats g ! j" if "j < 5" "j \<noteq> i" for j
      using that up by (simp add: g' upd_seat_def)
  qed (use id p' in auto)
  show "unseated u g'" using pl p' by (simp add: unseated_def)
  show "dom (players g') = dom (players g)" using pl p(1) by auto
  show "m_all_player g' = m_all_player g" "m_game_status g' = m_game_status g" using up by (simp_all add: g' upd_seat_def)
qed

lemma roster_ok_same: "dom (players g') = dom (players g) \<Longrightarrow> m_all_player g' = m_all_player g \<Longrightarrow> roster_ok g' \<longleftrightarrow> roster_ok g"
  by (simp add: roster_ok_def)

lemma after_stand_up_over:
  assumes "after_stand_up b g = Some g'" "is_game_over g"
  shows "is_game_over g'"
proof -
  consider "set_player_matchover_status (wait_for_round GAME_DISTRIBUTE 0 g) = Some g'"
    | "g' = notify_room_status ROOM_IDLE (wait_for_round GAME_UNREADY 0 (notify_player_wait_nextgame 0 g))" | "g' = g"
    using assms(1) by (auto simp: after_stand_up_def bind_Some split: if_split_asm)
  then show ?thesis
  proof cases
    case 1
    from game_over_status [OF status.view_over_status(2) [OF 1]] show ?thesis by (simp only: wait_game_over)
  next
    case 2
    then show ?thesis by (simp only: game_over_status [OF status.view_notify(1)] wait_game_over)
  qed (use assms(2) in simp)
qed

text \<open>
  Standing up. The roster is as before, and a player who was let go has no seat any more; when no
  game runs he is always let go.
\<close>

lemma player_stand_up_links:
  assumes "player_stand_up env u reason g = Some (g', r)" "seat_links g"
  shows "seat_links g'" "r \<noteq> -1 \<Longrightarrow> unseated u g'" "dom (players g') = dom (players g)" "m_all_player g' = m_all_player g"
    "is_game_over g \<Longrightarrow> r = 0 \<and> is_game_over g'"
proof -
  have len: "length (m_seats g) = 5" by (rule seat_linksD(1) [OF assms(2)])
  consider (stay) i where "link_view g' = link_view g" "r = -1" "leave_game env u i g = Some (g', False)"
    | (go) i g1 g2 g3 b where "link_view g1 = link_view g" "is_game_over g \<Longrightarrow> g1 = g" "r = 0"
      "link_view g2 = link_view g1" "m_game_status g2 = m_game_status g1" "i < 5" "m_player (m_seats g2 ! i) = Some u"
      "seat_stand_up i g2 = Some g3" "after_stand_up b g3 = Some g'"
  proof -
    from assms(1) show thesis
    proof (cases rule: player_stand_up_cases)
      case (1 p i)
      then show thesis using that(1) leave_game_links by blast
    next
      case (2 p i g1 g2 g3 b)
      let ?g2 = "broadcast_player_standup u reason g2"
      have v1: "link_view g1 = link_view g" by (rule leave_game_links [OF 2(5)])
      have v2: "link_view ?g2 = link_view g1" "m_game_status ?g2 = m_game_status g1"
        unfolding 2(6) by (simp_all add: link_simps status.view_simps)
      have "m_player (m_seats ?g2 ! i) = Some u"
        using link_viewD(2) [of ?g2 g i] v1 v2(1) 2(3,4) by simp
      moreover have "is_game_over g \<Longrightarrow> g1 = g" using 2(5) by (simp add: leave_game_def)
      ultimately show thesis using that(2) [of g1 ?g2 i g3 b] v1 v2 2 len by simp
    qed
  qed
  note cases = this
  have "seat_links g' \<and> (r \<noteq> -1 \<longrightarrow> unseated u g') \<and> dom (players g') = dom (players g) \<and> m_all_player g' = m_all_player g \<and>
      (is_game_over g \<longrightarrow> r = 0 \<and> is_game_over g')"
  proof (cases rule: cases)
    case (stay i)
    then have "\<not> is_game_over g" by (auto simp: leave_game_def)
    then show ?thesis using stay seat_links_view [OF stay(1) assms(2)] link_viewD(4,5) [OF stay(1)] by simp
  next
    case (go i g1 g2 g3 b)
    have v: "link_view g2 = link_view g" using go(1,4) by simp
    note up = seat_stand_up_links [OF go(8) seat_links_view [OF v assms(2)] go(6,7)]
    have v': "link_view g' = link_view g3" by (rule links.view_after_stand_up [OF go(9)])
    have "is_game_over g'" if "is_game_over g"
    proof -
      have "is_game_over g3" using that go(2,5) up(5) unfolding is_game_over_def by simp
      then show ?thesis by (rule after_stand_up_over [OF go(9)])
    qed
    then show ?thesis
      using go(3) seat_links_view [OF v' up(1)] unseated_view [OF v' up(2)] link_viewD(4,5) [OF v'] link_viewD(4,5) [OF v] up(3,4) by simp
  qed
  then show "seat_links g'" "r \<noteq> -1 \<Longrightarrow> unseated u g'" "dom (players g') = dom (players g)" "m_all_player g' = m_all_player g"
    "is_game_over g \<Longrightarrow> r = 0 \<and> is_game_over g'" by blast+
qed

lemma destroy_player_links:
  assumes "seat_links g" "unseated u g"
  shows "seat_links (destroy_player_i u g)" "seat_links (destroy_player u g)"
    "roster_ok g \<Longrightarrow> roster_ok (destroy_player u g)"
proof -
  show "seat_links (destroy_player_i u g)" "seat_links (destroy_player u g)"
    by (rule seat_links_drop [OF assms]; simp add: destroy_player_def destroy_player_i_def send_mq_def)+
  have "sorted_wrt (<) xs \<Longrightarrow> sorted_wrt (<) (remove1 u xs)" for xs
    by (induction xs) (auto dest: notin_set_remove1)
  moreover have "sorted_wrt (<) xs \<Longrightarrow> distinct xs" for xs :: "int list"
    using strict_sorted_iff by blast
  ultimately show "roster_ok g \<Longrightarrow> roster_ok (destroy_player u g)"
    by (auto simp: roster_ok_def destroy_player_def destroy_player_i_def send_mq_def)
qed

lemma destroy_player_game_over: "is_game_over (destroy_player u g) = is_game_over g" "is_game_over (destroy_player_i u g) = is_game_over g"
  by (rule game_over_status, simp add: destroy_player_def destroy_player_i_def send_mq_def)+

lemma stand_up_destroy_links:
  assumes "player_stand_up env u reason g = Some (g1, r)" "links_ok g" "r \<noteq> -1"
  shows "links_ok (destroy_player u g1)"
proof -
  have l: "seat_links g" "roster_ok g" using assms(2) by (simp_all add: links_ok_def)
  note up = player_stand_up_links [OF assms(1) l(1)]
  have "roster_ok g1" using l(2) up(3,4) roster_ok_same by blast
  with destroy_player_links [OF up(1) up(2) [OF assms(3)]] show ?thesis by (simp add: links_ok_def)
qed

lemma player_stand_up_links_ok:
  assumes "player_stand_up env u reason g = Some (g1, r)" "links_ok g"
  shows "links_ok g1"
  using player_stand_up_links [OF assms(1)] assms(2) roster_ok_same [of g1 g] by (auto simp: links_ok_def)

text \<open>The loops that make players stand up and destroy them run only between games, where nobody is kept.\<close>

definition links_over :: "room \<Rightarrow> bool" where
  "links_over g \<longleftrightarrow> links_ok g \<and> is_game_over g"

lemma links_over_view:
  "link_view g' = link_view g \<Longrightarrow> m_game_status g' = m_game_status g \<Longrightarrow> links_over g \<Longrightarrow> links_over g'"
  using links_ok_view game_over_status unfolding links_over_def by blast

lemma stand_up_destroy_over:
  assumes "player_stand_up env u reason g = Some (g1, r)" "links_over g"
  shows "links_over (destroy_player u g1)"
proof -
  have l: "links_ok g" "is_game_over g" "seat_links g" using assms(2) by (simp_all add: links_over_def links_ok_def)
  note up = player_stand_up_links(5) [OF assms(1) l(3) l(2)]
  show ?thesis
    using stand_up_destroy_links [OF assms(1) l(1)] up destroy_player_game_over(1) by (simp add: links_over_def)
qed

lemma for_each_invariant:
  assumes "for_each f xs s = Some s'" "I s" "\<And>x s s'. f x s = Some s' \<Longrightarrow> I s \<Longrightarrow> I s'"
  shows "I s'"
  using assms(1,2) by (induction xs arbitrary: s) (auto dest: assms(3) split: option.splits)

lemma check_player_status_links: "check_player_status env g = Some g' \<Longrightarrow> links_over g \<Longrightarrow> links_over g'"
  unfolding check_player_status_def
  by (erule for_each_invariant, assumption) (auto simp: bind_Some dest: stand_up_destroy_over split: if_splits)

lemma check_player_chips_links: "check_player_chips env g = Some g' \<Longrightarrow> links_over g \<Longrightarrow> links_over g'"
  unfolding check_player_chips_def
proof (erule for_each_invariant, assumption)
  fix i g g'
  assume step: "(case m_player (m_seats g ! i) of None \<Rightarrow> Some g
       | Some u \<Rightarrow> do {
           (g, enough) \<leftarrow> check_chips_carry env u g;
           if \<not> enough
           then do { (g, _) \<leftarrow> player_stand_up env u NO_MORE_CHIPS g; Some (destroy_player u g) }
           else Some g
         }) = Some g'" and g: "links_over g"
  show "links_over g'"
  proof (cases "m_player (m_seats g ! i)")
    case (Some u)
    with step obtain g1 b where g1: "check_chips_carry env u g = Some (g1, b)" by (auto simp: bind_Some)
    have "links_over g1"
      using links_over_view [OF links.view_check_chips [OF g1] status.view_check_chips [OF g1] g] .
    then show ?thesis
      using step Some g1 by (auto simp: bind_Some dest: stand_up_destroy_over split: if_splits)
  qed (use step g in simp)
qed

lemma ready_for_next_game_links:
  assumes "ready_for_next_game env g = Some g'" "links_ok g"
  shows "links_ok g'"
proof -
  obtain g1 where g1: "check_player_status env (wait_for_round GAME_UNREADY 0 g) = Some g1"
    "set_player_matchover_status g1 = Some g'"
    using assms(1) by (auto simp: ready_for_next_game_def bind_Some)
  have "links_over (wait_for_round GAME_UNREADY 0 g)"
    using links_ok_view [OF links.view_wait_for_round assms(2)] wait_game_over(1) by (simp add: links_over_def)
  from check_player_status_links [OF g1(1) this] show ?thesis
    using links_ok_view [OF links.view_over_status(2) [OF g1(2)]] by (simp add: links_over_def)
qed

lemma step_unready_links:
  assumes "step_unready env g = Some g'" "links_over g"
  shows "links_ok g'"
proof -
  obtain g1 where g1: "check_player_chips env g = Some g1" "link_view g' = link_view g1"
    using assms(1) by (auto simp: step_unready_def bind_Some Let_def link_simps split: if_splits)
  show ?thesis using check_player_chips_links [OF g1(1) assms(2)] links_ok_view [OF g1(2)] by (simp add: links_over_def)
qed

lemma on_wait_round_timeout_links:
  assumes "on_wait_round_timeout env g = Some g'" "links_ok g"
  shows "links_ok g'"
proof (cases "m_wait_round_timer g")
  case None
  then show ?thesis using assms by (simp add: on_wait_round_timeout_def)
next
  case (Some t)
  let ?g = "set_game_status (m_game_status g AND NOT GAME_WAIT_MASK) (g\<lparr>m_wait_round_timer := None\<rparr>)"
  have v: "link_view ?g = link_view g" by (simp add: set_game_status_def link_simps)
  have ok: "links_ok ?g" by (rule links_ok_view [OF v assms(2)])
  have over: "is_game_over ?g" if "m_game_status g AND GAME_ROUND_MASK = GAME_UNREADY"
  proof -
    have "bit (m_game_status g AND GAME_ROUND_MASK) 0" unfolding that by simp
    then have "bit (m_game_status g) 0" by (simp add: bit_simps)
    then have "has (m_game_status g AND NOT GAME_WAIT_MASK) GAME_UNREADY"
      by (auto simp: has_def bit_eq_iff bit_simps intro!: exI [of _ 0])
    then show ?thesis by (simp add: is_game_over_def set_game_status_def)
  qed
  consider "link_view g' = link_view ?g" | "step_unready env ?g = Some g'" "m_game_status g AND GAME_ROUND_MASK = GAME_UNREADY"
    | "ready_for_next_game env ?g = Some g'"
    using assms(1) Some
    by (auto simp: on_wait_round_timeout_def step_new_round_def Let_def
        dest: step_playing_begin_links active_player_links links.view_active1_timeout links.view_rand2_timeout
          step_declare_timeout_links split: if_split_asm)
  then show ?thesis
  proof cases
    case 1
    then show ?thesis by (rule links_ok_view [OF _ ok])
  next
    case 2
    then show ?thesis using step_unready_links over ok by (simp add: links_over_def)
  next
    case 3
    then show ?thesis using ready_for_next_game_links ok by blast
  qed
qed

text \<open>Sitting down on a free seat.\<close>

lemma seat_sit_down_links:
  assumes "seat_sit_down i u g = Some g'" "seat_links g" "i < 5" "\<not> is_seated (m_seats g ! i)" "unseated u g"
  shows "seat_links g'" "dom (players g') = dom (players g)" "m_all_player g' = m_all_player g"
proof -
  let ?f = "\<lambda>s. seat_status (m_seat_stauts s OR st_seated) (s\<lparr>m_player := Some u\<rparr>)"
  obtain p where p: "players g u = Some p"
    and g': "players g' = (players g)(u := Some (p\<lparr>m_pGameSeat := Some i\<rparr>))" "m_seats g' = m_seats (upd_seat i ?f g)"
      "m_all_player g' = m_all_player g"
    using assms(1) by (auto simp: seat_sit_down_def sit_down_def Let_def upd_player_def upd_seat_def send_mq_def split: option.splits)
  have len: "length (m_seats g) = 5" by (rule seat_linksD(1) [OF assms(2)])
  show "seat_links g'"
  proof (rule seat_links_link [OF assms(2,3) _ _ _ _ _ p _ g'(1)])
    show "m_player (m_seats g ! i) = None" using seat_linksD(2) [OF assms(2,3)] assms(4) by auto
    show "length (m_seats g') = 5" "m_player (m_seats g' ! i) = Some u"
      using len assms(3) by (simp_all add: g' upd_seat_def seat_status_def)
    show "is_seated (m_seats g' ! i)"
      using len assms(3) by (simp add: g' upd_seat_def seat_status_def is_seated_def has_or) (simp add: has_def)
    show "m_seats g' ! j = m_seats g ! j" if "j < 5" "j \<noteq> i" for j using that by (simp add: g' upd_seat_def)
    show "m_pGameSeat p = None" using assms(5) p by (simp add: unseated_def)
  qed (use seat_linksD(4) [OF assms(2) p] in simp_all)
  show "dom (players g') = dom (players g)" using g'(1) p by auto
  show "m_all_player g' = m_all_player g" by (rule g'(3))
qed

lemma player_sit_down_links:
  assumes "player_sit_down u n g = Some (g', r)" "links_ok g" "unseated u g"
  shows "links_ok g'"
proof (cases "link_view g' = link_view g")
  case True
  then show ?thesis using links_ok_view assms(2) by blast
next
  case False
  have l: "seat_links g" "roster_ok g" using assms(2) by (simp_all add: links_ok_def)
  obtain g1 where n: "0 \<le> n" "n < int (length (m_seats g))" "\<not> is_seated (m_seats g ! nat n)"
    and g1: "seat_sit_down (nat n) u g = Some g1" and v: "link_view g' = link_view g1"
    using assms(1) False
    by (auto simp: player_sit_down_def seated_status_def bind_Some Let_def link_simps dest!: links.view_trustee(2) split: if_split_asm)
  have "nat n < 5" using n seat_linksD(1) [OF l(1)] by simp
  note sit = seat_sit_down_links [OF g1 l(1) this n(3) assms(3)]
  then have "links_ok g1" using l(2) roster_ok_same [of g1 g] by (simp add: links_ok_def)
  then show ?thesis by (rule links_ok_view [OF v])
qed

section \<open>Requests\<close>

lemma add_player_links:
  assumes "add_player env u ses g = Some g'" "links_ok g" "u \<notin> set (m_all_player g)" "makes_fresh env"
  shows "links_ok g' \<and> unseated u g'"
proof -
  have l: "seat_links g" "roster_ok g" using assms(2) by (simp_all add: links_ok_def)
  then have u: "players g u = None" using assms(3) by (auto simp: roster_ok_def)
  obtain p where p: "make_player env u ses = Some p"
    and g': "g' = (send_mq (UserEnterRoom u) g)\<lparr>players := (players g)(u := Some p), m_all_player := insort u (m_all_player g)\<rparr>"
    using assms(1,3) by (auto simp: add_player_def split: option.splits)
  have fresh: "m_player_id p = u" "m_pGameSeat p = None" using assms(4) p by (auto simp: makes_fresh_def)
  have "seat_links g'" by (rule seat_links_new [OF l(1) u _ _ fresh]) (simp_all add: g' send_mq_def)
  moreover have "roster_ok g'"
  proof -
    have "sorted (m_all_player g)" "distinct (m_all_player g)"
      using l(2) strict_sorted_iff [of "m_all_player g"] by (auto simp: roster_ok_def)
    then have "sorted (insort u (m_all_player g))" "distinct (insort u (m_all_player g))"
      using assms(3) by (simp_all add: sorted_insort distinct_insort)
    then have "sorted_wrt (<) (insort u (m_all_player g))" using strict_sorted_iff by blast
    then show ?thesis using l(2) by (auto simp: roster_ok_def g' set_insort_key)
  qed
  ultimately show ?thesis using fresh by (simp add: links_ok_def unseated_def g')
qed

lemma on_new_player_enter_links:
  assumes "on_new_player_enter env u name ses g = Some g'" "links_ok g" "u \<notin> set (m_all_player g)" "makes_fresh env"
  shows "links_ok g'"
proof (cases "add_player env u ses g")
  case None
  then have "link_view g' = link_view g" using assms(1) by (auto simp: on_new_player_enter_def link_simps)
  then show ?thesis using links_ok_view assms(2) by blast
next
  case (Some g1)
  let ?g = "upd_player u (\<lambda>p. p\<lparr>m_player_name := name\<rparr>) g1"
  have g: "links_ok ?g" "unseated u ?g"
    using add_player_links [OF Some assms(2-4)] links_ok_view [OF links.view_set_name(1)] unseated_view [OF links.view_set_name(1)] by blast+
  have "\<exists>h. link_view h = link_view ?g \<and> (g' = destroy_player u h \<or> (\<exists>n r. player_sit_down u n h = Some (g', r)))"
    using assms(1) Some
    by (auto simp: on_new_player_enter_def bind_Some Let_def link_simps dest!: links.view_buy_in split: if_split_asm) (metis links.view_reply)+
  then obtain h where h: "link_view h = link_view ?g" "g' = destroy_player u h \<or> (\<exists>n r. player_sit_down u n h = Some (g', r))" by blast
  have "links_ok h" "unseated u h" using links_ok_view [OF h(1)] unseated_view [OF h(1)] g by blast+
  then show ?thesis
    using h(2) player_sit_down_links destroy_player_links(2,3) unfolding links_ok_def by blast
qed

lemma on_player_enter_links:
  assumes "on_player_enter env u name ses g = Some g'" "links_ok g" "makes_fresh env"
  shows "links_ok g'"
proof (cases "u \<in> set (m_all_player g)")
  case True
  then have "link_view g' = link_view g"
    using assms(1) by (auto simp: on_player_enter_def find_player_def bind_Some link_simps links.view_set_name dest!: links.view_come_back)
  then show ?thesis using links_ok_view assms(2) by blast
next
  case False
  then show ?thesis using assms on_new_player_enter_links by (simp add: on_player_enter_def find_player_def)
qed

lemma on_player_exit_links:
  assumes "on_player_exit env u g = Some g'" "links_ok g"
  shows "links_ok g'"
proof (cases "u \<in> set (m_all_player g)")
  case False
  then have "link_view g' = link_view g" using assms(1) by (auto simp: on_player_exit_def find_player_def link_simps)
  then show ?thesis using links_ok_view assms(2) by blast
next
  case True
  have r: "links_ok (destroy_player u (reply e h))" if "links_ok (destroy_player u h)" for e h
    by (rule links_ok_view [OF _ that]) (simp add: link_view_def destroy_player_def destroy_player_i_def reply_def send_mq_def)
  obtain p where p: "players g u = Some p" using assms(1) True by (auto simp: on_player_exit_def find_player_def bind_Some)
  show ?thesis
  proof (cases "m_pGameSeat p")
    case None
    then have "g' = destroy_player u (reply GG_ERROR_SUCCESS g)"
      using assms(1) True p by (auto simp: on_player_exit_def find_player_def bind_Some get_seat_number_def)
    moreover have "unseated u g" using p None by (simp add: unseated_def)
    ultimately show ?thesis using destroy_player_links assms(2) r unfolding links_ok_def by blast
  next
    case (Some i)
    then obtain g1 x where up: "player_stand_up env u APPLY_STAND_UP g = Some (g1, x)"
      "x = -1 \<and> g' = reply GG_ERROR_GAME_NOT_OVER g1 \<or> x \<noteq> -1 \<and> g' = destroy_player u (reply GG_ERROR_SUCCESS g1)"
      using assms(1) True p by (auto simp: on_player_exit_def find_player_def bind_Some get_seat_number_def split: if_split_asm)
    then show ?thesis
      using stand_up_destroy_links [OF up(1) assms(2)] player_stand_up_links_ok [OF up(1) assms(2)] r
        links_ok_view [OF links.view_reply] by blast
  qed
qed

lemma on_apply_standup_links:
  assumes "on_apply_standup env u g = Some g'" "links_ok g"
  shows "links_ok g'"
proof -
  let ?g = "upd_player u (flush_online_time env) (reply GG_ERROR_SUCCESS g)"
  have g: "links_ok ?g" by (rule links_ok_view [OF _ assms(2)]) (simp add: link_simps)
  consider "link_view g' = link_view g"
    | g1 x where "player_stand_up env u APPLY_STAND_UP ?g = Some (g1, x)" "x = -1 \<and> g' = g1 \<or> x \<noteq> -1 \<and> g' = destroy_player u g1"
    using assms(1) by (auto simp: on_apply_standup_def find_player_def bind_Some Let_def link_simps split: if_split_asm)
  then show ?thesis
  proof cases
    case 1
    then show ?thesis using links_ok_view assms(2) by blast
  next
    case 2
    then show ?thesis using stand_up_destroy_links [OF 2(1) g] player_stand_up_links_ok [OF 2(1) g] by blast
  qed
qed

lemma on_apply_seat_links:
  assumes "on_apply_seat env u n g = Some g'" "links_ok g"
  shows "links_ok g'"
proof -
  let ?g = "upd_player u (flush_online_time env) g"
  have v: "link_view ?g = link_view g" by (simp add: link_simps)
  have "link_view g' = link_view ?g \<or>
      (\<exists>h r p. link_view h = link_view ?g \<and> players ?g u = Some p \<and> get_seat_number p = -1 \<and> player_sit_down u n h = Some (g', r))"
    using assms(1)
    by (auto simp: on_apply_seat_def find_player_def bind_Some Let_def link_simps v dest!: links.view_buy_in split: if_split_asm)
  then show ?thesis
  proof
    assume "link_view g' = link_view ?g"
    with v assms(2) links_ok_view show ?thesis by simp
  next
    assume "\<exists>h r p. link_view h = link_view ?g \<and> players ?g u = Some p \<and> get_seat_number p = -1 \<and> player_sit_down u n h = Some (g', r)"
    then obtain h r p where h: "link_view h = link_view ?g" "players ?g u = Some p" "get_seat_number p = -1" "player_sit_down u n h = Some (g', r)" by blast
    have "unseated u ?g" using h(2,3) by (auto simp: unseated_def get_seat_number_def split: option.splits)
    then show ?thesis
      using player_sit_down_links [OF h(4)] links_ok_view [OF h(1)] unseated_view [OF h(1)] links_ok_view [OF v assms(2)] by blast
  qed
qed

lemma check_one_online_links:
  assumes "check_one_online env u g = Some g'" "links_ok g"
  shows "links_ok g'"
  using assms(1)
proof (cases rule: check_one_online_cases)
  case (3 g0)
  have "unseated u g" using 3(3) by (auto simp: unseated_def)
  then have "links_ok (destroy_player u g)" using assms(2) destroy_player_links unfolding links_ok_def by blast
  then show ?thesis by (simp add: 3 destroy_player_def)
next
  case (4 g0 g1 r)
  have l: "seat_links g0" using assms(2) by (simp add: links_ok_def seat_links_def 4(1))
  have over: "is_game_over g0" using 4(1,4) by (simp add: is_game_over_def)
  note up = player_stand_up_links [OF 4(2) l]
  have "unseated u g1" using up(2,5) over by simp
  then have "seat_links g'" using destroy_player_links(1) [OF up(1)] 4(3) by simp
  moreover have "roster_ok g'"
  proof -
    have "roster_ok (destroy_player u g)" using assms(2) by (auto simp: links_ok_def roster_ok_def destroy_player_def destroy_player_i_def send_mq_def strict_sorted_iff sorted_remove1)
    moreover have "m_all_player g' = m_all_player (destroy_player u g)" "dom (players g') = dom (players (destroy_player u g))"
      using up(3,4) 4(1,3) by (auto simp: destroy_player_def destroy_player_i_def send_mq_def)
    ultimately show ?thesis by (simp add: roster_ok_def)
  qed
  ultimately show ?thesis by (simp add: links_ok_def)
qed (use links_ok_view [OF links.view_online(1) assms(2)] links_ok_view [OF links.view_online(2) assms(2)] in simp_all)

lemma desk_request_links:
  assumes "desk_request env u action g = Some g'" "links_ok g" and "\<And>g g'. action g = Some g' \<Longrightarrow> links_ok g \<Longrightarrow> links_ok g'"
  shows "links_ok g'"
proof -
  let ?g = "upd_player u (flush_online_time env) g"
  have "link_view g' = link_view g \<or> action ?g = Some g'"
    using assms(1) by (auto simp: desk_request_def find_player_def link_simps split: if_splits)
  then show ?thesis using assms(2,3) links_ok_view [OF links.view_flush_online assms(2)] links_ok_view by blast
qed

lemma player_close_account_box_links:
  assumes "player_close_account_box env u g = Some g'" "links_ok g"
  shows "links_ok g'"
proof -
  let ?g = "broadcast_message (PlayerCloseAccountBox u) (upd_player u (set_phase PLAYER_UNREADY) g)"
  have "g' = g \<or> g' = ?g \<or> ready_for_next_game env ?g = Some g'"
    using assms(1) by (auto simp: player_close_account_box_def bind_Some Let_def split: if_splits)
  moreover have "links_ok ?g" by (rule links_ok_view [OF _ assms(2)]) (simp add: link_simps)
  ultimately show ?thesis using ready_for_next_game_links assms(2) by blast
qed

lemma request_links:
  assumes "on_recv_msg env r g = Some g'" "links_ok g" "makes_fresh env"
  shows "links_ok g'"
proof -
  have same: "links_ok h'" if "links_ok h" "link_view h' = link_view h" for h h'
    using that links_ok_view by blast
  have "player_trusteeoff env u (reply e h) = Some h' \<Longrightarrow> link_view h' = link_view h" for u e h h'
    using links.view_trusteeoff links.view_reply by metis
  moreover have "player_close_account_box env u (reply e h) = Some h' \<Longrightarrow> links_ok h \<Longrightarrow> links_ok h'" for u e h h'
    using player_close_account_box_links same links.view_reply by metis
  ultimately show ?thesis
    using assms
    by (cases r)
      (auto elim!: desk_request_links dest!: links.view_flush_room dest: on_player_enter_links on_player_exit_links on_apply_seat_links on_apply_standup_links
        intro: same links.view_relay links.view_dig_card links.view_post_card player_declare_links player_lose_declare_links player_drop_links
        simp: desk_request_defs link_simps)
qed

lemma check_player_online_links: "check_player_online env g = Some g' \<Longrightarrow> links_ok g \<Longrightarrow> links_ok g'"
  unfolding check_player_online_def by (erule for_each_invariant, assumption) (rule check_one_online_links)

lemma open_area_links:
  assumes "open_area rs info = Some g"
  shows "links_ok g"
  using assms
  by (auto simp: open_area_def bind_Some links_ok_def seat_links_def roster_ok_def GameSeat_def is_seated_def has_def)

interpretation links_inv: room_invariant links_ok
proof unfold_locales
  show "links_ok g'" if "handle env ev g = Some g'" "makes_fresh env" "links_ok g" for env ev g g'
    using that by (cases ev) (auto intro: request_links on_wait_round_timeout_links check_player_online_links)
  show "links_ok (g\<lparr>m_combination := cb\<rparr>)" if "links_ok g" for g cb
    using that by (simp add: links_ok_def seat_links_def roster_ok_def)
qed (rule open_area_links)

end
