(* ===== verification/Game_Rounds.thy ===== *)
theory Game_Rounds
  imports Game_Links
begin

text \<open>
  The rounds of a game. The abstract machine \<open>round_step\<close> says how a game may go on; the status
  word of a room and its timer implement it: every event of a room takes a step of the machine or
  none, and a room with two players at the desk always has a timer that runs, so that a game never
  stops. This rests on the players who are still in the game: there are two at least while it runs.
\<close>

section \<open>The abstract machine\<close>

inductive round_step :: "app_status \<Rightarrow> app_status \<Rightarrow> bool" where
  start_wait: "round_step APP_UNREADY APP_WAIT_PLAYING"
| stop_wait: "round_step APP_WAIT_PLAYING APP_UNREADY"
| deal: "round_step APP_WAIT_PLAYING APP_DEALER_CARD"
| first_turn: "round_step APP_DEALER_CARD APP_ACTIVE1"
| dig: "round_step APP_ACTIVE1 APP_ACTIVE2"
| post: "round_step APP_ACTIVE2 APP_ACTIVE1"
| shuffle: "round_step APP_ACTIVE2 APP_SHUFFLE_CARD"
| shuffled: "round_step APP_SHUFFLE_CARD APP_ACTIVE1"
| declares: "round_step APP_ACTIVE2 APP_DECLARE"
| over: "r \<in> {APP_DEALER_CARD, APP_ACTIVE1, APP_ACTIVE2, APP_SHUFFLE_CARD, APP_DECLARE} \<Longrightarrow> round_step r APP_DISTRIBUTE"
| again: "round_step APP_DISTRIBUTE APP_UNREADY"

inductive_simps round_step_simps: "round_step r r'"

definition running :: "app_status \<Rightarrow> bool" where
  "running r \<longleftrightarrow> r \<in> {APP_DEALER_CARD, APP_ACTIVE1, APP_ACTIVE2, APP_SHUFFLE_CARD, APP_DECLARE}"

section \<open>The status word and the timer\<close>

fun round_word :: "app_status \<Rightarrow> u32" where
  "round_word APP_UNREADY = GAME_UNREADY"
| "round_word APP_WAIT_PLAYING = GAME_WAIT_PLAYING"
| "round_word APP_DEALER_CARD = GAME_DEALER_CARD"
| "round_word APP_ACTIVE1 = GAME_ACTIVE1"
| "round_word APP_ACTIVE2 = GAME_ACTIVE2"
| "round_word APP_DECLARE = GAME_DECLARE"
| "round_word APP_DISTRIBUTE = GAME_DISTRIBUTE"
| "round_word APP_SHUFFLE_CARD = GAME_SHUFFLE_CARD"

definition clock :: "room \<Rightarrow> u32 \<times> int option" where
  "clock g = (m_game_status g, m_wait_round_timer g)"

text \<open>The room waits for the round with its timer running, or it is in the round and no timer runs.\<close>

definition waits :: "app_status \<Rightarrow> room \<Rightarrow> bool" where
  "waits r g \<longleftrightarrow> m_game_status g = (GAME_WAIT_MASK OR round_word r) \<and> m_wait_round_timer g \<noteq> None"

definition idle :: "app_status \<Rightarrow> room \<Rightarrow> bool" where
  "idle r g \<longleftrightarrow> m_game_status g = round_word r \<and> m_wait_round_timer g = None"

definition in_round :: "app_status \<Rightarrow> room \<Rightarrow> bool" where
  "in_round r g \<longleftrightarrow> waits r g \<or> idle r g"

lemma waits_in_round [intro]: "waits r g \<Longrightarrow> in_round r g"
  by (simp add: in_round_def)

lemma in_round_queries:
  assumes "in_round r g"
  shows "is_game_over g \<longleftrightarrow> \<not> running r" "is_wait_active1 g \<longleftrightarrow> r = APP_ACTIVE1" "is_wait_active2 g \<longleftrightarrow> r = APP_ACTIVE2"
    "is_declareing g \<longleftrightarrow> r = APP_DECLARE" "is_dealer_card g \<longleftrightarrow> r = APP_DEALER_CARD" "is_distribut g \<longleftrightarrow> r = APP_DISTRIBUTE"
    "has (m_game_status g) GAME_UNREADY \<longleftrightarrow> r = APP_UNREADY" "has (m_game_status g) GAME_WAIT_PLAYING \<longleftrightarrow> r = APP_WAIT_PLAYING"
    "m_game_status g AND GAME_ROUND_MASK = round_word r" "m_game_status g AND NOT GAME_WAIT_MASK = round_word r"
  using assms by (cases r; auto simp: in_round_def waits_def idle_def is_game_over_def is_wait_active1_def is_wait_active2_def
      is_declareing_def is_dealer_card_def is_distribut_def has_def running_def)+

lemma in_round_unique: "in_round r g \<Longrightarrow> in_round r' g \<Longrightarrow> r' = r"
  using in_round_queries(9) [of r g] in_round_queries(9) [of r' g] by (cases r; cases r') simp_all

lemma waits_app_status: "waits r g \<Longrightarrow> get_game_status_for_app g = r"
  by (cases r) (simp_all add: waits_def get_game_status_for_app_def has_def)

lemma waits_wait_for_round:
  assumes "in_round r' g"
  shows "waits r (wait_for_round (round_word r) n g)"
  using assms by (cases r'; cases r; auto simp: in_round_def waits_def idle_def wait_for_round_def set_game_status_def)

lemmas waits_simps = waits_wait_for_round [where r = APP_UNREADY, simplified] waits_wait_for_round [where r = APP_WAIT_PLAYING, simplified]
  waits_wait_for_round [where r = APP_DEALER_CARD, simplified] waits_wait_for_round [where r = APP_ACTIVE1, simplified]
  waits_wait_for_round [where r = APP_ACTIVE2, simplified] waits_wait_for_round [where r = APP_DECLARE, simplified]
  waits_wait_for_round [where r = APP_DISTRIBUTE, simplified] waits_wait_for_round [where r = APP_SHUFFLE_CARD, simplified]

lemma in_round_clock: "clock g' = clock g \<Longrightarrow> in_round r g \<Longrightarrow> in_round r g'"
  by (simp add: clock_def in_round_def waits_def idle_def)

lemma waits_clock: "clock g' = clock g \<Longrightarrow> waits r g \<Longrightarrow> waits r g'"
  by (simp add: clock_def waits_def)

interpretation clock: room_view_seats clock
  by unfold_locales (simp_all add: clock_def upd_player_def upd_seat_def)

lemma clock_cards: "clock (g\<lparr>m_bottom_cards := cs\<rparr>) = clock g" "clock (g\<lparr>m_pokercard_pool := cs\<rparr>) = clock g"
    "clock (g\<lparr>m_joker_card := c\<rparr>) = clock g" "clock (g\<lparr>m_pCardDealer := d\<rparr>) = clock g" "clock (upd_seat i f g) = clock g"
    "clock (clear_desk g) = clock g"
  by (simp_all add: clock_def upd_seat_def clear_desk_def)

lemmas clock_simps = clock.view_simps clock.view_player_simps clock_cards

lemma gameover_clock:
  assumes "step_gameover_distrbute env g = Some g'" "in_round r g"
  shows "waits APP_DISTRIBUTE g'"
  using assms(1)
proof (cases rule: gameover_cases)
  case (1 g0 req n g1)
  let ?h = "(submit_game_result (broadcast_message (GameOver req) g0))\<lparr>m_wait_begin := now env\<rparr>"
  have "clock ?h = clock g" by (simp add: clock_simps clock.view_submit clock.view_over_account [OF 1(1)])
  then have "waits APP_DISTRIBUTE (wait_for_round GAME_DISTRIBUTE n ?h)"
    using in_round_clock [OF _ assms(2)] waits_simps(7) by blast
  then show ?thesis
    using waits_clock [OF clock.view_over_status(1) [OF 1(2)]] waits_clock [OF clock_cards(6)] 1(3) by blast
qed

lemma active_player_clock:
  assumes "active_player env n g = Some g'" "in_round r g"
  shows "waits APP_ACTIVE1 g' \<or> waits APP_DISTRIBUTE g'"
proof -
  obtain g1 where g1: "next_active g = Some g1"
    and rest: "(if m_time_game_begin g1 + m_draw_sec g1 < now env then draw_game env g1 else announce_active env n g1) = Some g'"
    using assms by (auto simp: active_player_def bind_Some)
  have c1: "clock g1 = clock g" using g1 by (auto simp: next_active_def bind_Some clock_simps split: if_splits)
  show ?thesis
  proof (cases "m_time_game_begin g1 + m_draw_sec g1 < now env")
    case True
    then obtain g2 where g2: "deduct_draw_tips env (notify_room_status ROOM_IDLE (g1\<lparr>m_gameover_type := BORNING_OVER\<rparr>)) = Some g2"
      "step_gameover_distrbute env g2 = Some g'" using rest by (auto simp: draw_game_def bind_Some)
    have "clock g2 = clock g" using clock.view_draw_tips [OF g2(1)] by (simp add: clock_simps c1)
    then show ?thesis using gameover_clock [OF g2(2)] in_round_clock assms(2) by blast
  next
    case False
    then obtain m k where "g' = (wait_for_round GAME_ACTIVE1 k (broadcast_message m g1))\<lparr>m_wait_begin := now env\<rparr>"
      using rest by (auto simp: announce_active_def bind_Some Let_def simp del: if_split split: if_split_asm)
    then have "clock g' = clock (wait_for_round GAME_ACTIVE1 k (broadcast_message m g1))" by (simp add: clock_simps)
    moreover have "clock (broadcast_message m g1) = clock g" by (simp add: clock_simps c1)
    ultimately show ?thesis using waits_clock waits_simps(4) in_round_clock assms(2) by blast
  qed
qed

lemma after_post_clock:
  assumes "after_post env g = Some g'" "in_round r g"
  shows "waits APP_ACTIVE1 g' \<or> waits APP_DISTRIBUTE g' \<or> waits APP_SHUFFLE_CARD g'"
proof (cases "length (m_bottom_cards g) = 1")
  case True
  then obtain g1 k where "step_shuffle_card env g = Some g1" "g' = wait_for_round GAME_SHUFFLE_CARD k g1"
    using assms by (auto simp: after_post_def bind_Some)
  moreover from this have "clock g1 = clock g" by (auto simp: step_shuffle_card_def Let_def clock_simps split: if_splits)
  ultimately show ?thesis using waits_simps(8) in_round_clock assms(2) by blast
next
  case False
  then have "active_player env (wait_ms m_time_post_card g) g = Some g'" using assms(1) by (simp add: after_post_def)
  from active_player_clock [OF this assms(2)] show ?thesis by blast
qed

section \<open>Who is in the game\<close>

type_synonym seat_bits = "bool \<times> bool \<times> bool"

definition bits_of :: "seat \<Rightarrow> seat_bits" where
  "bits_of s = (is_seated s, is_in_game s, is_declared s)"

definition bits :: "room \<Rightarrow> seat_bits list" where
  "bits g = map bits_of (m_seats g)"

definition tally :: "(seat_bits \<Rightarrow> bool) \<Rightarrow> seat_bits list \<Rightarrow> nat" where
  "tally P B = length (filter P B)"

abbreviation (input) sits :: "seat_bits \<Rightarrow> bool" where "sits \<equiv> \<lambda>(s, i, d). s"
abbreviation (input) plays :: "seat_bits \<Rightarrow> bool" where "plays \<equiv> \<lambda>(s, i, d). i"
abbreviation (input) wins :: "seat_bits \<Rightarrow> bool" where "wins \<equiv> \<lambda>(s, i, d). i \<and> d"
abbreviation (input) ghost :: "seat_bits \<Rightarrow> bool" where "ghost \<equiv> \<lambda>(s, i, d). i \<and> \<not> s"

lemma fold_count: "fold (\<lambda>x n. if P x then Suc n else n) xs n = n + length (filter P xs)"
  by (induction xs arbitrary: n) auto

lemma ingame_tally: "get_ingame_count g = tally plays (bits g)"
  by (simp add: get_ingame_count_def fold_count tally_def bits_def bits_of_def filter_map comp_def)

lemma seated_tally: "get_seated_count g = tally sits (bits g)"
  by (simp add: get_seated_count_def fold_count tally_def bits_def bits_of_def filter_map comp_def)

lemma tally_update:
  "i < length B \<Longrightarrow> tally P (B[i := b]) + (if P (B ! i) then 1 else 0) = tally P B + (if P b then 1 else 0)"
proof (induction B arbitrary: i)
  case (Cons x B)
  then show ?case by (cases i) (auto simp: tally_def)
qed (simp add: tally_def)

lemma tally_pos: "0 < tally P B \<longleftrightarrow> (\<exists>i < length B. P (B ! i))"
  unfolding tally_def length_greater_0_conv filter_empty_conv by (metis in_set_conv_nth)

lemma tally_zero: "tally P B = 0 \<longleftrightarrow> (\<forall>i < length B. \<not> P (B ! i))"
  using tally_pos [of P B] by auto

lemma bits_nth: "i < length (m_seats g) \<Longrightarrow> bits g ! i = bits_of (m_seats g ! i)"
  by (simp add: bits_def)

lemma bits_length: "length (bits g) = length (m_seats g)"
  by (simp add: bits_def)

lemma bits_upd: "bits (upd_seat i f g) = (bits g)[i := bits_of (f (m_seats g ! i))]"
  by (simp add: bits_def upd_seat_def map_update)

lemma bits_upd_same: "(\<And>s. bits_of (f s) = bits_of s) \<Longrightarrow> bits (upd_seat i f g) = bits g"
proof -
  assume f: "\<And>s. bits_of (f s) = bits_of s"
  show ?thesis
  proof (cases "i < length (m_seats g)")
    case True
    then show ?thesis by (simp add: bits_upd f list_update_same_conv bits_nth bits_length)
  qed (simp add: bits_upd list_update_beyond bits_length)
qed

interpretation bits: room_view_cards bits
proof unfold_locales
  show "bits (clear_desk g) = bits g" for g
    by (simp add: bits_def clear_desk_def reset_seat_def bits_of_def seat_bit_defs)
qed (simp add: bits_upd_same bits_of_def | simp add: bits_def upd_player_def)+

text \<open>
  While a game runs there are two players in it at least, each at the desk; one of them at most
  has declared, in the round of the declarations, and nobody before it.
\<close>

definition play :: "app_status \<Rightarrow> seat_bits list \<Rightarrow> bool" where
  "play r B \<longleftrightarrow> (running r \<longrightarrow> tally plays B \<ge> 2 \<and> tally ghost B = 0 \<and> tally wins B \<le> (if r = APP_DECLARE then 1 else 0))"

lemma play_over [simp]: "\<not> running r \<Longrightarrow> play r B"
  by (simp add: play_def)

lemma running_simps [simp]: "running APP_DEALER_CARD" "running APP_ACTIVE1" "running APP_ACTIVE2" "running APP_SHUFFLE_CARD"
  "running APP_DECLARE" "\<not> running APP_UNREADY" "\<not> running APP_WAIT_PLAYING" "\<not> running APP_DISTRIBUTE"
  by (simp_all add: running_def)

text \<open>The state of a room between two events, and an event that is one step of the machine or none.\<close>

definition live :: "app_status \<Rightarrow> room \<Rightarrow> bool" where
  "live r g \<longleftrightarrow> (waits r g \<or> idle r g \<and> r = APP_UNREADY \<and> get_seated_count g \<le> 1) \<and> play r (bits g)"

definition advances :: "app_status \<Rightarrow> room \<Rightarrow> bool" where
  "advances r g' \<longleftrightarrow> (\<exists>r'. (r' = r \<or> round_step r r') \<and> live r' g')"

lemma live_in_round: "live r g \<Longrightarrow> in_round r g"
  by (auto simp: live_def in_round_def)

lemma waits_live: "waits r g \<Longrightarrow> play r (bits g) \<Longrightarrow> live r g"
  by (simp add: live_def)

lemma advances_same: "live r g \<Longrightarrow> clock g' = clock g \<Longrightarrow> bits g' = bits g \<Longrightarrow> advances r g'"
  by (auto simp: advances_def live_def waits_def idle_def clock_def seated_tally)

lemma advances_waits: "waits r' g' \<Longrightarrow> round_step r r' \<or> r' = r \<Longrightarrow> play r' (bits g') \<Longrightarrow> advances r g'"
  using waits_live by (auto simp: advances_def)

lemma advances_over: "waits APP_DISTRIBUTE g' \<Longrightarrow> running r \<Longrightarrow> advances r g'"
  by (rule advances_waits) (auto simp: round_step_simps running_def)

section \<open>Turns\<close>

lemma player_dig_card_live:
  assumes "player_dig_card env u t g = Some g'" "live r g"
  shows "advances r g'"
proof -
  have b: "bits g' = bits g" by (rule bits.view_dig_card [OF assms(1)])
  consider "clock g' = clock g"
    | b' c g1 where "is_wait_active1 g" "take_dug_card t g = (c, g1)" "give_dug_card env u b' t c g1 = Some g'"
    using assms(1) by (auto simp: player_dig_card_def bind_Some clock_simps simp del: if_split split: if_split_asm prod.splits)
  then show ?thesis
  proof cases
    case 1
    then show ?thesis using advances_same [OF assms(2)] b by blast
  next
    case 2
    have r: "r = APP_ACTIVE1" using 2(1) in_round_queries(2) [OF live_in_round [OF assms(2)]] by simp
    have c1: "clock g1 = clock g" using 2(2) by (auto simp: take_dug_card_def clock_simps split: if_splits)
    obtain k h where h: "g' = wait_for_round GAME_ACTIVE2 k h" "clock h = clock g1"
      using 2(3) by (auto simp: give_dug_card_def bind_Some Let_def dig_card_def clock_simps simp del: if_split)
    have "clock h = clock g" using c1 h(2) by simp
    then have "waits APP_ACTIVE2 g'"
      unfolding h(1) using waits_simps(5) in_round_clock [OF _ live_in_round [OF assms(2)]] by blast
    moreover have "play APP_ACTIVE2 (bits g')" using assms(2) b r by (simp add: live_def play_def)
    ultimately show ?thesis using r by (auto intro: advances_waits round_step.intros)
  qed
qed

lemma play_running: "play r B \<Longrightarrow> running r \<Longrightarrow> r \<noteq> APP_DECLARE \<Longrightarrow> play r' B"
  by (auto simp: play_def)

lemma after_post_live:
  assumes "after_post env h = Some g'" "clock h = clock g" "bits h = bits g" "in_round APP_ACTIVE2 g" "play APP_ACTIVE2 (bits g)"
  shows "advances APP_ACTIVE2 g'"
proof -
  have b: "bits g' = bits g" using bits.view_after_post [OF assms(1)] assms(3) by simp
  have "waits APP_ACTIVE1 g' \<or> waits APP_DISTRIBUTE g' \<or> waits APP_SHUFFLE_CARD g'"
    using after_post_clock [OF assms(1)] in_round_clock [OF assms(2)] assms(4) by blast
  moreover have "play r (bits g')" for r using play_running [OF assms(5)] b by simp
  ultimately show ?thesis by (auto intro: advances_waits advances_over round_step.intros)
qed

lemma player_post_card_live:
  assumes "player_post_card env u mc n g = Some g'" "live r g"
  shows "advances r g'"
proof (cases "is_wait_active2 g")
  case True
  then have r: "r = APP_ACTIVE2" using in_round_queries(3) [OF live_in_round [OF assms(2)]] by simp
  from assms(1) show ?thesis
  proof (cases rule: player_post_card_cases)
    case (1 e m)
    then show ?thesis
      using advances_same [OF assms(2)] by (simp add: clock_simps bits.view_simps)
  next
    case (2 a g1 g2)
    let ?h = "broadcast_post_card u (parse_msg_card mc) ((reply GG_ERROR_SUCCESS g1)
         \<lparr>m_pokercard_pool := m_pokercard_pool (reply GG_ERROR_SUCCESS g1) @ [parse_msg_card mc]\<rparr>)"
    have g1: "clock g1 = clock g" "bits g1 = bits g"
      using 2(2) by (auto simp: discard_card_def clock_simps bits.view_hand split: if_splits)
    have h: "clock ?h = clock g" "bits ?h = bits g"
      by (simp_all add: broadcast_post_card_def clock_simps bits.view_card_simps g1)
    have "in_round APP_ACTIVE2 g" "play APP_ACTIVE2 (bits g)"
      using live_in_round [OF assms(2)] assms(2) r by (simp_all add: live_def)
    then have "advances APP_ACTIVE2 g2" by (rule after_post_live [OF 2(3) h])
    then obtain r' where "r' = r \<or> round_step r r'" "live r' g2" using r by (auto simp: advances_def)
    moreover have "live r' g'"
      using \<open>live r' g2\<close> by (simp add: 2(4) live_def waits_def idle_def seated_tally bits.view_simps status.view_simps) (simp add: notify_room_will_over_def notify_room_status_def)
    ultimately show ?thesis by (auto simp: advances_def)
  qed
next
  case False
  then have "clock g' = clock g \<and> bits g' = bits g"
    using assms(1) bits.view_post_card [OF assms(1)]
    by (auto simp: player_post_card_def bind_Some Let_def clock_simps split: if_split_asm)
  then show ?thesis using advances_same [OF assms(2)] by blast
qed

lemma active_player_live:
  assumes "active_player env n g = Some g'" "in_round r g" "play r (bits g)" "running r" "r \<noteq> APP_DECLARE"
  shows "advances r g'"
proof -
  have "waits APP_ACTIVE1 g' \<or> waits APP_DISTRIBUTE g'" by (rule active_player_clock [OF assms(1,2)])
  moreover have "play APP_ACTIVE1 (bits g')" using play_running [OF assms(3-5)] bits.view_active_player [OF assms(1)] by simp
  ultimately show ?thesis
    using assms(4,5) by (auto simp: running_def intro: advances_waits advances_over round_step.intros)
qed

section \<open>Declaring and dropping\<close>

text \<open>What one changed seat does to the players in the game.\<close>

lemma tally_le: "\<not> P b \<Longrightarrow> tally P (B[i := b]) \<le> tally P B"
  by (cases "i < length B") (use tally_update [of i B P b] in \<open>auto simp: list_update_beyond\<close>)

lemma tally_same: "P b \<longleftrightarrow> P (B ! i) \<Longrightarrow> tally P (B[i := b]) = tally P B"
  by (cases "i < length B") (use tally_update [of i B P b] in \<open>auto simp: list_update_beyond split: if_splits\<close>)

lemma play_declares:
  assumes "play APP_ACTIVE2 B" "b = (sits (B ! i), plays (B ! i), True)"
  shows "play APP_DECLARE (B[i := b])"
proof -
  obtain s j d where B: "B ! i = (s, j, d)" by (cases "B ! i")
  have "tally plays (B[i := b]) = tally plays B" "tally ghost (B[i := b]) = tally ghost B"
    by (rule tally_same, simp add: B assms(2))+
  moreover have "tally wins (B[i := b]) \<le> 1"
    using tally_update [of i B wins b] assms(1) by (cases "i < length B") (auto simp: play_def list_update_beyond split: if_splits)
  ultimately show ?thesis using assms(1) by (simp add: play_def)
qed

lemma play_leaves:
  assumes "play r B" "running r" "tally plays (B[i := (s, False, d)]) \<noteq> 1"
  shows "play r (B[i := (s, False, d)])"
proof -
  have "tally plays (B[i := (s, False, d)]) \<ge> 1"
    using tally_update [of i B plays "(s, False, d)"] assms(1,2)
    by (cases "i < length B") (auto simp: play_def list_update_beyond split: if_splits)
  moreover have "tally ghost (B[i := (s, False, d)]) \<le> tally ghost B" "tally wins (B[i := (s, False, d)]) \<le> tally wins B"
    by (rule tally_le, simp)+
  ultimately show ?thesis using assms by (auto simp: play_def)
qed

lemma play_not_in:
  assumes "play r B" "\<not> plays (B ! i)"
  shows "play r (B[i := (s, False, d)])"
proof (cases "running r")
  case True
  have "tally plays (B[i := (s, False, d)]) = tally plays B" by (rule tally_same) (use assms(2) in auto)
  moreover from this have "tally plays (B[i := (s, False, d)]) \<noteq> 1" using assms(1) True by (simp add: play_def)
  ultimately show ?thesis using play_leaves [OF assms(1) True] by blast
qed simp

lemma check_declare_bits:
  assumes "check_declare i c gs g = Some (g', ok)"
  shows "bits g' = (if ok then (bits g)[i := (is_seated (m_seats g ! i), is_in_game (m_seats g ! i), True)] else bits g)"
proof -
  let ?h = "upd_seat i (\<lambda>s. s\<lparr>m_handcards_total := sort (m_handcards_total s)\<rparr>) g"
  have sort: "bits ?h = bits g" by (rule bits.view_hand)
  have seat: "i < length (m_seats g) \<Longrightarrow> bits_of (m_seats ?h ! i) = bits_of (m_seats g ! i)"
    by (simp add: upd_seat_def bits_of_def seat_bit_defs)
  have dec: "bits (upd_player u f (upd_seat i (\<lambda>s. seat_status (m_seat_stauts s OR st_declared)
      (s\<lparr>seat_score := 0, m_card_score := 0, seat_card_group := xs\<rparr>)) ?h)) =
      (bits g)[i := (is_seated (m_seats g ! i), is_in_game (m_seats g ! i), True)]" for u f xs
  proof (cases "i < length (m_seats g)")
    case True
    then show ?thesis using seat
      by (simp add: upd_player_def bits_def upd_seat_def map_update bits_of_def seat_status_def seat_bit_defs has_or) (simp add: has_def)
  qed (simp add: upd_player_def bits_def upd_seat_def list_update_beyond)
  show ?thesis
    using assms dec sort by (auto simp: check_declare_def bind_Some Let_def split: if_split_asm)
qed

lemma player_declare_live:
  assumes "player_declare env u c gs g = Some g'" "live r g"
  shows "advances r g'"
  using assms(1)
proof (cases rule: player_declare_cases)
  case 1
  then show ?thesis using advances_same [OF assms(2)] by (simp add: clock_simps bits.view_simps)
next
  case (2 p i g1)
  then show ?thesis
    using advances_same [OF assms(2)] clock.view_check_declare [OF 2(6)] check_declare_bits [OF 2(6)]
    by (simp add: clock_simps bits.view_simps)
next
  case (3 p i g1)
  have r: "r = APP_ACTIVE2" using 3(4) in_round_queries(3) [OF live_in_round [OF assms(2)]] by simp
  let ?h = "(broadcast_message (PlayerDeclare u c gs) (reply GG_ERROR_SUCCESS g1))\<lparr>m_wait_begin := now env\<rparr>"
  have "clock ?h = clock g" by (simp add: clock_simps clock.view_check_declare [OF 3(6)])
  then have "waits APP_DECLARE (wait_for_round GAME_DECLARE k ?h)" for k
    using waits_simps(6) in_round_clock [OF _ live_in_round [OF assms(2)]] by blast
  moreover have "\<exists>k. clock g' = clock (wait_for_round GAME_DECLARE k ?h)"
    by (auto simp: 3(7) start_declare_def Let_def clock_simps)
  ultimately have w: "waits APP_DECLARE g'" using waits_clock by blast
  have b: "bits g' = (bits g)[i := (is_seated (m_seats g ! i), is_in_game (m_seats g ! i), True)]"
    using check_declare_bits [OF 3(6)] by (simp add: 3(7) start_declare_def Let_def bits.view_card_simps)
  have "play APP_DECLARE (bits g')"
  proof (cases "i < length (m_seats g)")
    case True
    show ?thesis
      unfolding b by (rule play_declares) (use assms(2) r True in \<open>simp_all add: live_def bits_nth bits_of_def\<close>)
  next
    case False
    then have "bits g' = bits g" by (simp add: b list_update_beyond bits_length)
    then show ?thesis using assms(2) r by (simp add: live_def play_def)
  qed
  then show ?thesis using w r by (auto intro: advances_waits round_step.intros)
qed

lemma bits_seat_status:
  "bits (upd_seat i (\<lambda>s. seat_status (h s) (k s)) g) = (bits g)[i := (let w = h (m_seats g ! i) in (has w st_seated, has w st_ingame, has w st_declared))]"
  by (simp add: bits_upd bits_of_def seat_status_def seat_bit_defs Let_def)

lemma seat_declared_bits:
  assumes "seat_declared i n gs g = Some (g', k)"
  shows "bits g' = (bits g)[i := (is_seated (m_seats g ! i), False, True)]"
proof -
  let ?w = "(m_seat_stauts (m_seats g ! i) AND NOT st_ingame) OR st_declared"
  have w: "has ?w st_seated = is_seated (m_seats g ! i)" "\<not> has ?w st_ingame" "has ?w st_declared"
    by (simp_all add: has_or is_seated_def) (simp_all add: has_def and.assoc)
  obtain a b u where g': "g' = upd_player u (set_phase PLAYER_DECLARE) (upd_seat i (\<lambda>s. seat_status ((m_seat_stauts s AND NOT st_ingame) OR st_declared)
      (s\<lparr>seat_score := a, m_card_score := b, seat_card_group := gs\<rparr>)) g)"
    using assms by (auto simp: seat_declared_def bind_Some Let_def split: prod.splits)
  show ?thesis unfolding g' bits.view_set_phase bits_seat_status Let_def using w by presburger
qed

lemma check_lose_declare_bits:
  assumes "seat_check_lose_declare i gs g = Some (g', ok, n)"
  shows "bits g' = (if ok then (bits g)[i := (is_seated (m_seats g ! i), False, True)] else bits g)"
proof -
  let ?h = "upd_seat i (\<lambda>s. s\<lparr>m_handcards_total := sort (m_handcards_total s)\<rparr>) g"
  have sort: "bits ?h = bits g" by (rule bits.view_hand)
  have "(bits g)[i := (is_seated (m_seats ?h ! i), False, True)] = (bits g)[i := (is_seated (m_seats g ! i), False, True)]"
    by (cases "i < length (m_seats g)") (simp_all add: upd_seat_def is_seated_def list_update_beyond bits_length)
  then show ?thesis
    using assms sort by (auto simp: seat_check_lose_declare_def bind_Some Let_def dest!: seat_declared_bits
        split: if_split_asm prod.splits bool.splits)
qed

lemma default_declare_bits:
  assumes "seat_default_declare i g = Some (g', n, gs)"
  shows "bits g' = (bits g)[i := (is_seated (m_seats g ! i), False, True)]"
proof -
  have "bits (g\<lparr>m_combination := cb\<rparr>) = bits g" for cb by (simp add: bits.view_simps)
  then show ?thesis using assms by (auto simp: seat_default_declare_def bind_Some dest!: seat_declared_bits)
qed

lemma loser_pays_clock:
  assumes "loser_pays env i u gs n g = Some g'" "in_round r g"
  shows "bits g' = bits g" "if tally plays (bits g) = 1 then waits APP_DISTRIBUTE g' else clock g' = clock g"
proof -
  obtain g1 k where pay: "match_over_account env i (- (m_small_blind (m_area_info g) * seat_score (m_seats g ! i))) g = Some (g1, k)"
    and rest: "(let g2 = (broadcast_message (PlayerLoseDeclare u gs n k) g1)\<lparr>m_chips_pool := m_chips_pool (broadcast_message (PlayerLoseDeclare u gs n k) g1) + k\<rparr>
      in if get_ingame_count g2 = 1 then step_gameover_distrbute env g2 else Some g2) = Some g'"
    using assms(1) by (auto simp: loser_pays_def bind_Some Let_def)
  let ?g2 = "(broadcast_message (PlayerLoseDeclare u gs n k) g1)\<lparr>m_chips_pool := m_chips_pool (broadcast_message (PlayerLoseDeclare u gs n k) g1) + k\<rparr>"
  have c: "clock ?g2 = clock g" by (simp add: clock_simps clock.view_match_over [OF pay])
  have b: "bits ?g2 = bits g" by (simp add: bits.view_simps bits.view_match_over [OF pay])
  show "bits g' = bits g"
    using rest b bits.view_game_over by (auto simp: Let_def split: if_split_asm)
  show "if tally plays (bits g) = 1 then waits APP_DISTRIBUTE g' else clock g' = clock g"
    using rest b c gameover_clock in_round_clock [OF c assms(2)] by (auto simp: Let_def ingame_tally split: if_split_asm)
qed

text \<open>A loser leaves a game that goes on, or ends it.\<close>

lemma loser_leaves:
  assumes pay: "loser_pays env i u gs n h = Some g'" and h: "clock h = clock g" "bits h = (bits g)[i := (s, False, d)]"
    and g: "in_round r g" "play r (bits g)" "running r"
  shows "waits APP_DISTRIBUTE g' \<or> clock g' = clock g \<and> play r (bits g') \<and> bits g' = (bits g)[i := (s, False, d)]"
  using loser_pays_clock [OF pay in_round_clock [OF h(1) g(1)]] h play_leaves [OF g(2,3), of i s d] by (auto split: if_splits)

lemma default_decalre_live:
  assumes "default_decalre env u g = Some g'" "in_round r g" "play r (bits g)" "running r" "players g u = Some p" "m_pGameSeat p = Some i"
  shows "waits APP_DISTRIBUTE g' \<or> clock g' = clock g \<and> play r (bits g') \<and> bits g' = (bits g)[i := (is_seated (m_seats g ! i), False, True)]"
proof -
  obtain g1 n gs where d: "seat_default_declare i g = Some (g1, n, gs)"
    and pay: "loser_pays env i u (copy_group_to_msg gs []) n g1 = Some g'"
    using assms(1,5,6) by (auto simp: default_decalre_def bind_Some)
  show ?thesis
    by (rule loser_leaves [OF pay clock.view_default_declare [OF d] default_declare_bits [OF d] assms(2-4)])
qed

lemma live_advances:
  assumes "live r g" "clock g' = clock g" "play r (bits g')" "running r"
  shows "advances r g'"
  using assms by (auto simp: advances_def live_def waits_def idle_def clock_def)

lemma player_lose_declare_live:
  assumes "player_lose_declare env u gs g = Some g'" "live r g"
  shows "advances r g'"
  using assms(1)
proof (cases rule: player_lose_declare_cases)
  case 1
  then show ?thesis using advances_same [OF assms(2)] by (simp add: clock_simps bits.view_simps)
next
  case (2 p i g1 n)
  then show ?thesis
    using advances_same [OF assms(2)] clock.view_check_lose_declare [OF 2(5)] check_lose_declare_bits [OF 2(5)]
    by (simp add: clock_simps bits.view_simps)
next
  case (3 p i g1 n)
  have r: "r = APP_DECLARE" using 3(4) in_round_queries(4) [OF live_in_round [OF assms(2)]] by simp
  have "clock (reply GG_ERROR_SUCCESS g1) = clock g" "bits (reply GG_ERROR_SUCCESS g1) = (bits g)[i := (is_seated (m_seats g ! i), False, True)]"
    using clock.view_check_lose_declare [OF 3(5)] check_lose_declare_bits [OF 3(5)] by (simp_all add: clock_simps bits.view_simps)
  from loser_leaves [OF 3(6) this live_in_round [OF assms(2)]] assms(2) r
  show ?thesis using live_advances [OF assms(2)] advances_over [of g' r] by (auto simp: live_def)
qed

lemma seat_drop_bits:
  assumes "seat_drop i b g = Some g'"
  shows "\<exists>s d. bits g' = (bits g)[i := (s, False, d)]" "clock g' = clock g"
proof -
  obtain u where u: "m_player (m_seats g ! i) = Some u" using assms by (auto simp: seat_drop_def bind_Some)
  let ?g1 = "upd_player u (set_phase PLAYER_DROP)
      (upd_seat i (\<lambda>s. seat_status ((m_seat_stauts s AND NOT st_ingame) OR st_drop) s) g)"
  obtain g2 where "g2 = ?g1 \<or> g2 = upd_seat i (\<lambda>s. s\<lparr>m_handcards_total := remove1 (m_dig_card s) (m_handcards_total s)\<rparr>) ?g1"
    and d: "declare_hand i g2 = Some g'"
    using assms u by (auto simp: seat_drop_def bind_Some Let_def split: if_splits)
  then have g2: "bits g2 = bits ?g1" "clock g2 = clock g"
    by (auto simp: bits.view_hand clock_simps)
  let ?w = "(m_seat_stauts (m_seats g ! i) AND NOT st_ingame) OR st_drop"
  have "\<not> has ?w st_ingame" by (simp add: has_or) (simp add: has_def and.assoc)
  then have "bits g2 = (bits g)[i := (has ?w st_seated, False, has ?w st_declared)]"
    unfolding g2(1) bits.view_set_phase bits_seat_status Let_def by presburger
  then show "\<exists>s d. bits g' = (bits g)[i := (s, False, d)]" using bits.view_declare_hand [OF d] by auto
  show "clock g' = clock g" using clock.view_declare_hand [OF d] g2(2) by simp
qed

lemma after_drop_live:
  assumes "after_drop env p g = Some g'" "in_round r g" "running r" "r \<noteq> APP_DECLARE" "r \<noteq> APP_DEALER_CARD"
    and "tally plays (bits g) \<noteq> 1 \<Longrightarrow> play r (bits g)"
  shows "advances r g' \<or> clock g' = clock g \<and> play r (bits g')"
proof (cases "get_ingame_count g = 1")
  case True
  then obtain w g1 where g1: "drop_win w (g\<lparr>m_gameover_type := DROP_OVER, m_apply_declare_seatnum := get_last_ingame_seatnum g\<rparr>) = Some g1"
    and over: "step_gameover_distrbute env (notify_room_status ROOM_IDLE g1) = Some g'"
    using assms(1) by (auto simp: after_drop_def drop_ends_game_def bind_Some Let_def)
  have "clock (notify_room_status ROOM_IDLE g1) = clock g"
    using clock.view_game_ends(2) [OF g1] by (simp add: clock_simps)
  then show ?thesis using gameover_clock [OF over in_round_clock [OF _ assms(2)]] advances_over assms(3) by blast
next
  case False
  then have play: "play r (bits g)" using assms(6) by (simp add: ingame_tally)
  have "g' = g \<or> active_player env (wait_ms m_time_drop g) g = Some g'"
    using assms(1) False by (auto simp: after_drop_def split: if_splits)
  then show ?thesis
    using play active_player_live [OF _ assms(2) play assms(3,4)] by blast
qed

lemma player_drop_live:
  assumes "player_drop env u g = Some g'" "live r g"
  shows "advances r g'"
proof -
  note q = in_round_queries [OF live_in_round [OF assms(2)]]
  consider e where "g' = reply e g" | "running r" "r \<noteq> APP_DECLARE" "r \<noteq> APP_DEALER_CARD" "step_player_drop env u (reply GG_ERROR_SUCCESS g) = Some g'"
    using assms(1) q by (auto simp: player_drop_def bind_Some split: if_split_asm option.splits)
  then show ?thesis
  proof cases
    case 1
    then show ?thesis using advances_same [OF assms(2)] by (simp add: clock_simps bits.view_simps)
  next
    case 2
    from 2(4) show ?thesis
    proof (cases rule: step_player_drop_cases)
      case (1 p i g1 g2 k m)
      let ?g3 = "broadcast_message m (g2\<lparr>m_chips_pool := m_chips_pool g2 + k\<rparr>)"
      obtain s d where b1: "bits g1 = (bits g)[i := (s, False, d)]"
        using seat_drop_bits(1) [OF 1(3)] by (auto simp: bits.view_simps)
      have b3: "bits ?g3 = (bits g)[i := (s, False, d)]"
        by (simp add: bits.view_simps bits.view_match_over [OF 1(4)] b1)
      have c3: "clock ?g3 = clock g"
        by (simp add: clock_simps clock.view_match_over [OF 1(4)] seat_drop_bits(2) [OF 1(3)])
      have "play r (bits g)" using assms(2) by (simp add: live_def)
      then have "advances r g' \<or> clock g' = clock ?g3 \<and> play r (bits g')"
        using after_drop_live [OF 1(5) in_round_clock [OF c3 live_in_round [OF assms(2)]] 2(1-3)] play_leaves [OF _ 2(1)] b3 by simp
      then show ?thesis using live_advances [OF assms(2) _ _ 2(1)] c3 by metis
    qed
  qed
qed

section \<open>Seats\<close>

lemma seat_stand_up_bits:
  assumes "seat_stand_up i g = Some g'"
  shows "\<exists>d. bits g' = (bits g)[i := (False, False, d)]" "clock g' = clock g"
proof -
  obtain u w g1 where w: "\<not> has w st_seated" "\<not> has w st_ingame"
    and up: "stand_up u (upd_seat i (\<lambda>s. seat_status w s) g) = Some g1"
    and g': "g' = upd_seat i (\<lambda>s. s\<lparr>m_player := None, m_handcards_total := []\<rparr>) g1"
  proof (cases "is_game_over g")
    case True
    have "\<not> has 0 st_seated" "\<not> has 0 st_ingame" by (simp_all add: has_def)
    with that [of 0] assms True show thesis by (auto simp: seat_stand_up_def bind_Some)
  next
    case False
    let ?w = "(m_seat_stauts (m_seats g ! i) AND NOT st_ingame) AND NOT st_seated"
    have "\<not> has ?w st_seated" "\<not> has ?w st_ingame" by (auto simp: has_def bit_eq_iff bit_simps)
    moreover have "upd_seat i (\<lambda>s. seat_status ((m_seat_stauts s AND NOT st_ingame) AND NOT st_seated) s) g = upd_seat i (seat_status ?w) g"
      by (simp add: upd_seat_def)
    ultimately show thesis using that [of ?w] assms False by (auto simp: seat_stand_up_def bind_Some)
  qed
  have same: "clock g1 = clock g" "bits g1 = bits (upd_seat i (\<lambda>s. seat_status w s) g)"
    using up by (auto simp: stand_up_def Let_def clock_def bits_def upd_player_def upd_seat_def send_mq_def split: option.splits if_splits)
  have "bits g' = bits g1" unfolding g' by (rule bits_upd_same) (simp add: bits_of_def seat_bit_defs)
  then show "\<exists>d. bits g' = (bits g)[i := (False, False, d)]"
    using same(2) w bits_seat_status [of i "\<lambda>s. w" "\<lambda>s. s" g] by (auto simp: Let_def)
  show "clock g' = clock g" using same(1) by (simp add: g' clock_cards)
qed

lemma after_stand_up_clock:
  assumes "after_stand_up b g = Some g'" "in_round r g"
  shows "clock g' = clock g \<or> r = APP_DISTRIBUTE \<and> waits APP_DISTRIBUTE g' \<or> r = APP_WAIT_PLAYING \<and> waits APP_UNREADY g'"
proof -
  note q = in_round_queries [OF assms(2)]
  consider "g' = g" | "r = APP_DISTRIBUTE" "set_player_matchover_status (wait_for_round GAME_DISTRIBUTE 0 g) = Some g'"
    | "r = APP_WAIT_PLAYING" "g' = notify_room_status ROOM_IDLE (wait_for_round GAME_UNREADY 0 (notify_player_wait_nextgame 0 g))"
    using assms(1) q by (auto simp: after_stand_up_def bind_Some is_game_wait_playing_def split: if_split_asm)
  then show ?thesis
  proof cases
    case 2
    then show ?thesis using waits_clock [OF clock.view_over_status(2) [OF 2(2)] waits_simps(7) [OF assms(2)]] by simp
  next
    case 3
    have "clock (notify_player_wait_nextgame 0 g) = clock g" by (simp add: clock_simps)
    then have "waits APP_UNREADY (wait_for_round GAME_UNREADY 0 (notify_player_wait_nextgame 0 g))"
      using waits_simps(1) in_round_clock [OF _ assms(2)] by blast
    then show ?thesis using waits_clock [of g' "wait_for_round GAME_UNREADY 0 (notify_player_wait_nextgame 0 g)"] 3 by (simp add: clock_simps)
  qed simp
qed

text \<open>The result of standing up: the clock goes on as before, a game ends, or the wait for one.\<close>

definition settles :: "app_status \<Rightarrow> room \<Rightarrow> app_status \<Rightarrow> room \<Rightarrow> bool" where
  "settles r g r' g' \<longleftrightarrow> (r' = r \<or> r = APP_DECLARE \<and> r' = APP_DISTRIBUTE \<or> r = APP_WAIT_PLAYING \<and> r' = APP_UNREADY)
     \<and> (waits r' g' \<or> r' = r \<and> clock g' = clock g) \<and> play r' (bits g')"

lemma leave_game_live:
  assumes "leave_game env u i g = Some (g1, True)" "in_round r g" "play r (bits g)"
    and p: "players g u = Some p" "m_pGameSeat p = Some i" "i < length (m_seats g)"
  obtains "g1 = g" "running r \<Longrightarrow> \<not> plays (bits g ! i)" | "r = APP_DECLARE" "waits APP_DISTRIBUTE g1"
    | "r = APP_DECLARE" "clock g1 = clock g" "play r (bits g1)" "\<not> plays (bits g1 ! i)"
proof -
  note q = in_round_queries [OF assms(2)]
  have plays: "plays (bits g ! i) \<longleftrightarrow> is_in_game (m_seats g ! i)" using p(3) by (simp add: bits_nth bits_of_def)
  consider "g1 = g" "running r \<Longrightarrow> \<not> plays (bits g ! i)" | "r = APP_DECLARE" "default_decalre env u g = Some g1"
    using assms(1) q plays by (auto simp: leave_game_def bind_Some split: if_split_asm)
  then show thesis
  proof cases
    case 1
    then show thesis by (rule that(1))
  next
    case 2
    then have "waits APP_DISTRIBUTE g1 \<or> clock g1 = clock g \<and> play r (bits g1) \<and> bits g1 = (bits g)[i := (is_seated (m_seats g ! i), False, True)]"
      using default_decalre_live [OF 2(2) assms(2,3) _ p(1,2)] by simp
    then show thesis using that(2,3) 2(1) p(3) by (auto simp: bits_length)
  qed
qed

lemma player_stand_up_live:
  assumes "player_stand_up env u reason g = Some (g', x)" "in_round r g" "play r (bits g)"
  shows "\<exists>r'. settles r g r' g'" "\<not> running r \<Longrightarrow> get_seated_count g' \<le> get_seated_count g"
proof -
  have "(\<exists>r'. settles r g r' g') \<and> (\<not> running r \<longrightarrow> get_seated_count g' \<le> get_seated_count g)"
    using assms(1)
  proof (cases rule: player_stand_up_cases)
    case (1 p i)
    then have "g' = g" by (auto simp: leave_game_def bind_Some split: if_split_asm)
    then show ?thesis using assms(3) by (auto simp: settles_def)
  next
    case (2 p i g1 g2 g3 b)
    have g2: "clock (broadcast_player_standup u reason g2) = clock g1" "bits (broadcast_player_standup u reason g2) = bits g1"
      unfolding 2(6) by (simp_all add: clock_simps bits.view_simps)
    obtain d where b3: "bits g3 = (bits g1)[i := (False, False, d)]" and c3: "clock g3 = clock g1"
      using seat_stand_up_bits [OF 2(7)] g2 by auto
    have b': "bits g' = bits g3" by (rule bits.view_after_stand_up [OF 2(8)])
    have settle: "\<exists>r'. settles r1 g1 r' g'" if "in_round r1 g1" "play r1 (bits g1)" "running r1 \<Longrightarrow> \<not> plays (bits g1 ! i)" for r1
    proof -
      have "play r1 (bits g')" using play_not_in [OF that(2)] that(3) b' b3 by (cases "running r1") simp_all
      then show ?thesis
        using after_stand_up_clock [OF 2(8) in_round_clock [OF c3 that(1)]] c3 by (auto simp: settles_def)
    qed
    from 2(5) assms(2,3) 2(1,2,4) show ?thesis
    proof (cases rule: leave_game_live)
      case 1
      then show ?thesis
        using settle [of r] assms(2,3) tally_le [of sits "(False, False, d)" "bits g" i] b' b3 by (simp add: seated_tally)
    next
      case over: 2
      from settle [of APP_DISTRIBUTE] over obtain r' where "settles APP_DISTRIBUTE g1 r' g'" by auto
      then have "settles r g APP_DISTRIBUTE g'"
        using over waits_clock [of g' g1 APP_DISTRIBUTE] by (auto simp: settles_def)
      then show ?thesis using over(1) by auto
    next
      case same: 3
      from settle [of r] same assms(2) in_round_clock obtain r' where "settles r g1 r' g'" by blast
      then have "settles r g r' g'" using same(2) by (simp add: settles_def)
      then show ?thesis using same(1) by auto
    qed
  qed
  then show "\<exists>r'. settles r g r' g'" "\<not> running r \<Longrightarrow> get_seated_count g' \<le> get_seated_count g" by blast+
qed

lemma settles_live:
  assumes "settles r g r' g'" "live r g" "\<not> running r \<Longrightarrow> get_seated_count g' \<le> get_seated_count g"
  shows "live r' g'" "r' = r \<or> round_step r r'"
proof -
  show "live r' g'"
    using assms by (auto simp: settles_def live_def waits_def idle_def clock_def)
  show "r' = r \<or> round_step r r'"
    using assms(1) by (auto simp: settles_def intro: round_step.intros)
qed

lemma live_same: "live r g \<Longrightarrow> clock g' = clock g \<Longrightarrow> bits g' = bits g \<Longrightarrow> live r g'"
  by (simp add: live_def waits_def idle_def clock_def seated_tally)

lemma destroy_player_clock: "clock (destroy_player u g) = clock g" "clock (destroy_player_i u g) = clock g"
    "bits (destroy_player u g) = bits g" "bits (destroy_player_i u g) = bits g"
  by (simp_all add: destroy_player_def destroy_player_i_def clock_def bits_def send_mq_def)

text \<open>Sitting down starts the timer of a room that had none.\<close>

lemma seat_sit_down_bits:
  assumes "seat_sit_down i u g = Some g'"
  shows "\<exists>d. bits g' = (bits g)[i := (True, is_in_game (m_seats g ! i), d)]" "clock g' = clock g"
proof -
  let ?h = "upd_seat i (\<lambda>s. seat_status (m_seat_stauts s OR st_seated) (s\<lparr>m_player := Some u\<rparr>)) g"
  have "bits g' = bits ?h" "clock g' = clock ?h"
    using assms by (auto simp: seat_sit_down_def sit_down_def Let_def clock_def bits_def upd_player_def send_mq_def split: option.splits)
  moreover have "has (m_seat_stauts (m_seats g ! i) OR st_seated) st_ingame = is_in_game (m_seats g ! i)"
    "has (m_seat_stauts (m_seats g ! i) OR st_seated) st_seated"
    by (simp_all add: has_or is_in_game_def) (simp_all add: has_def)
  ultimately show "\<exists>d. bits g' = (bits g)[i := (True, is_in_game (m_seats g ! i), d)]" "clock g' = clock g"
    using bits_seat_status [of i "\<lambda>s. m_seat_stauts s OR st_seated" "\<lambda>s. s\<lparr>m_player := Some u\<rparr>" g]
    by (auto simp: Let_def clock_cards)
qed

lemma player_sit_down_live:
  assumes "player_sit_down u n g = Some (g', x)" "live r g"
  shows "live r g'"
proof (cases "clock g' = clock g \<and> bits g' = bits g")
  case True
  then show ?thesis using live_same [OF assms(2)] by blast
next
  case False
  then have n: "0 \<le> n" "n < int (length (m_seats g))" "\<not> is_seated (m_seats g ! nat n)"
    using assms(1) by (auto simp: player_sit_down_def split: if_split_asm)
  then obtain g1 g2 and p :: player where g1: "seat_sit_down (nat n) u g = Some g1" and g2: "set_trustee_off u g1 = Some g2"
    and g': "g' = broadcast_message (PlayerSitDown (m_player_id p) (m_player_name p) (nat n)) (seated_status u g2)"
    using assms(1) by (auto simp: player_sit_down_def bind_Some Let_def)
  have c': "clock g' = clock (if is_game_over g2 \<and> has (m_game_status g2) GAME_UNREADY
        then wait_for_round GAME_UNREADY 0 (upd_player u (set_phase PLAYER_UNREADY) g2) else g2)"
    unfolding g' by (simp add: clock_simps seated_status_def Let_def status.view_player_simps)
  have b': "bits g' = bits g2"
    unfolding g' by (simp add: seated_status_def Let_def bits.view_simps bits.view_player_simps bits.view_wait_for_round)
  have c2: "clock g2 = clock g" using clock.view_trustee(2) [OF g2] seat_sit_down_bits(2) [OF g1] by simp
  have r2: "in_round r g2" by (rule in_round_clock [OF c2 live_in_round [OF assms(2)]])
  obtain d where b2: "bits g2 = (bits g)[nat n := (True, is_in_game (m_seats g ! nat n), d)]"
    using bits.view_trustee(2) [OF g2] seat_sit_down_bits(1) [OF g1] by auto
  have play: "play r (bits g')"
  proof (cases "running r")
    case True
    then have "tally ghost (bits g) = 0" using assms(2) by (simp add: live_def play_def)
    then have "\<not> ghost (bits g ! nat n)" using n tally_zero [of ghost "bits g"] by (simp add: bits_length)
    then have "\<not> is_in_game (m_seats g ! nat n)" using n by (simp add: bits_nth bits_of_def)
    moreover from this have "\<not> plays (bits g ! nat n)" using n by (simp add: bits_nth bits_of_def)
    ultimately show ?thesis using play_not_in [of r "bits g" "nat n" True d] assms(2) b2 b' by (simp add: live_def)
  qed simp
  show ?thesis
  proof (cases "r = APP_UNREADY")
    case True
    then have "is_game_over g2" "has (m_game_status g2) GAME_UNREADY" using in_round_queries(1,7) [OF r2] by simp_all
    then have "clock g' = clock (wait_for_round GAME_UNREADY 0 (upd_player u (set_phase PLAYER_UNREADY) g2))" using c' by simp
    moreover have "waits APP_UNREADY (wait_for_round GAME_UNREADY 0 (upd_player u (set_phase PLAYER_UNREADY) g2))"
      by (rule waits_simps(1) [OF in_round_clock [OF _ r2]]) (simp add: clock_simps)
    ultimately have "waits APP_UNREADY g'" using waits_clock by blast
    then show ?thesis using waits_live True by simp
  next
    case False
    then have "waits r g" using assms(2) by (simp add: live_def)
    moreover have "clock g' = clock g" using c' c2 False in_round_queries(7) [OF r2] by simp
    ultimately show ?thesis using waits_clock waits_live [OF _ play] by blast
  qed
qed

end
