(* ===== verification/Game_Timer.thy ===== *)
theory Game_Timer
  imports Game_Rounds
begin

text \<open>
  Every event of a room is a step of the round machine or none: the expiry of the timer, the
  requests of players, the online check. With the links between seats and players this makes
  \<open>live\<close> an invariant of a room.
\<close>

section \<open>Loops over the players\<close>

lemma destroy_player_live: "live r (destroy_player u g) \<longleftrightarrow> live r g" "live r (destroy_player_i u g) \<longleftrightarrow> live r g"
  using live_same destroy_player_clock by metis+

lemma stand_up_live:
  assumes "player_stand_up env u reason g = Some (g', x)" "live r g"
  shows "advances r g'" "r \<in> {APP_UNREADY, APP_WAIT_PLAYING} \<Longrightarrow> live r g' \<or> live APP_UNREADY g'"
    "r \<in> {APP_UNREADY, APP_DISTRIBUTE} \<Longrightarrow> live r g'"
proof -
  obtain r' where r': "settles r g r' g'" using player_stand_up_live(1) [OF assms(1) live_in_round [OF assms(2)]] assms(2) by (auto simp: live_def)
  note s = settles_live [OF r' assms(2) player_stand_up_live(2) [OF assms(1) live_in_round [OF assms(2)]]]
  have play: "play r (bits g)" using assms(2) by (simp add: live_def)
  show "advances r g'" using s play by (auto simp: advances_def)
  show "r \<in> {APP_UNREADY, APP_WAIT_PLAYING} \<Longrightarrow> live r g' \<or> live APP_UNREADY g'"
    using s play by (auto simp: round_step_simps) (use r' in \<open>auto simp: settles_def\<close>)
  show "r \<in> {APP_UNREADY, APP_DISTRIBUTE} \<Longrightarrow> live r g'"
    using s play r' by (auto simp: settles_def)
qed

lemma stand_up_unready:
  assumes "player_stand_up env u reason g = Some (g', x)"
  shows "in_round APP_UNREADY g \<Longrightarrow> in_round APP_UNREADY g'" "waits APP_UNREADY g \<Longrightarrow> waits APP_UNREADY g'"
proof -
  have settle: "\<exists>r'. settles APP_UNREADY g r' g'" if "in_round APP_UNREADY g"
    by (rule player_stand_up_live(1) [OF assms that]) simp
  show "in_round APP_UNREADY g \<Longrightarrow> in_round APP_UNREADY g'"
    using settle in_round_clock [of g' g APP_UNREADY] by (auto simp: settles_def)
  show "waits APP_UNREADY g \<Longrightarrow> waits APP_UNREADY g'"
    using settle waits_clock [of g' g APP_UNREADY] by (auto simp: settles_def)
qed

text \<open>The loops that remove players run between games, in a round where nobody plays.\<close>

lemma check_player_status_waits:
  assumes "check_player_status env g = Some g'" "waits APP_UNREADY g"
  shows "waits APP_UNREADY g'"
  using assms(1) unfolding check_player_status_def
proof (rule for_each_invariant)
  show "waits APP_UNREADY g" by (rule assms(2))
next
  fix i g g'
  assume step: "(if \<not> is_seated (m_seats g ! i) then Some g
       else do {
         u \<leftarrow> m_player (m_seats g ! i);
         p \<leftarrow> players g u;
         if is_player_need_standup p
         then do { (g, _) \<leftarrow> player_stand_up env u OTHER_REASON g; Some (destroy_player u g) }
         else Some g
       }) = Some g'" and w: "waits APP_UNREADY g"
  then consider "g' = g" | u g1 x where "player_stand_up env u OTHER_REASON g = Some (g1, x)" "g' = destroy_player u g1"
    by (auto simp: bind_Some split: if_split_asm)
  then show "waits APP_UNREADY g'"
  proof cases
    case 2
    have "waits APP_UNREADY g1" using stand_up_unready(2) [OF 2(1)] w by blast
    then show ?thesis using waits_clock [OF destroy_player_clock(1)] 2(2) by blast
  qed (use w in simp)
qed

lemma ready_for_next_game_waits:
  assumes "ready_for_next_game env g = Some g'" "in_round r g"
  shows "waits APP_UNREADY g'"
proof -
  obtain g1 where g1: "check_player_status env (wait_for_round GAME_UNREADY 0 g) = Some g1" "set_player_matchover_status g1 = Some g'"
    using assms(1) by (auto simp: ready_for_next_game_def bind_Some)
  show ?thesis
    using waits_clock [OF clock.view_over_status(2) [OF g1(2)] check_player_status_waits [OF g1(1) waits_simps(1) [OF assms(2)]]] .
qed

lemma check_player_chips_round:
  assumes "check_player_chips env g = Some g'" "in_round APP_UNREADY g"
  shows "in_round APP_UNREADY g'"
  using assms(1) unfolding check_player_chips_def
proof (rule for_each_invariant)
  show "in_round APP_UNREADY g" by (rule assms(2))
next
  fix i g g'
  assume "(case m_player (m_seats g ! i) of
         None \<Rightarrow> Some g
       | Some u \<Rightarrow> do {
           (g, enough) \<leftarrow> check_chips_carry env u g;
           if \<not> enough
           then do { (g, _) \<leftarrow> player_stand_up env u NO_MORE_CHIPS g; Some (destroy_player u g) }
           else Some g
         }) = Some g'" and w: "in_round APP_UNREADY g"
  then obtain h where h: "clock h = clock g" "g' = h \<or> (\<exists>u g1 x. player_stand_up env u NO_MORE_CHIPS h = Some (g1, x) \<and> g' = destroy_player u g1)"
    by (auto simp: bind_Some dest: clock.view_check_chips split: if_split_asm option.splits)
  have "in_round APP_UNREADY h" by (rule in_round_clock [OF h(1) w])
  then show "in_round APP_UNREADY g'"
    using h(2) stand_up_unready in_round_clock [OF destroy_player_clock(1)] by blast
qed

text \<open>The two timeouts before a game.\<close>

lemma step_unready_live:
  assumes "step_unready env g = Some g'" "in_round APP_UNREADY g"
  shows "live APP_UNREADY g' \<or> live APP_WAIT_PLAYING g'"
proof -
  obtain g1 where g1: "check_player_chips env g = Some g1" using assms(1) by (auto simp: step_unready_def bind_Some)
  have r1: "in_round APP_UNREADY g1" by (rule check_player_chips_round [OF g1 assms(2)])
  show ?thesis
  proof (cases "is_game_can_start g1")
    case True
    let ?h = "(notify_player_wait_nextgame 1 g1)\<lparr>m_wait_begin := now env\<rparr>"
    have "in_round APP_UNREADY ?h" by (rule in_round_clock [OF _ r1]) (simp add: clock_simps)
    moreover have "g' = wait_for_round GAME_WAIT_PLAYING (m_wait_game_sec ?h * 1000) ?h"
      using assms(1) g1 True by (simp add: step_unready_def Let_def)
    ultimately have "waits APP_WAIT_PLAYING g'" using waits_simps(2) by blast
    then show ?thesis by (simp add: live_def)
  next
    case False
    then have "g' = g1" "get_seated_count g1 \<le> 1" using assms(1) g1 by (auto simp: step_unready_def is_game_can_start_def)
    then show ?thesis using r1 by (auto simp: live_def in_round_def)
  qed
qed

section \<open>A new game\<close>

lemma for_each_upt:
  assumes "for_each f [0..<n] s = Some s'" "I 0 s"
    and step: "\<And>k s s'. k < n \<Longrightarrow> f k s = Some s' \<Longrightarrow> I k s \<Longrightarrow> I (Suc k) s'"
  shows "I n s'"
proof -
  have "for_each f [k..<n] s = Some s' \<Longrightarrow> k \<le> n \<Longrightarrow> I k s \<Longrightarrow> I n s'" for k s
  proof (induction "n - k" arbitrary: k s)
    case (Suc m)
    then have k: "k < n" by simp
    then obtain s1 where "f k s = Some s1" "for_each f [Suc k..<n] s1 = Some s'"
      using Suc.prems(1) by (auto simp: upt_conv_Cons split: option.splits)
    then show ?case using Suc.hyps(1) [of "Suc k" s1] Suc.hyps(2) step [OF k] Suc.prems(3) k by simp
  qed simp
  then show ?thesis using assms(1,2) by blast
qed

lemma ready_for_game_bits:
  assumes "ready_for_game i g = Some g'"
  shows "bits g' = (bits g)[i := (is_seated (m_seats g ! i), is_seated (m_seats g ! i), False)]" "clock g' = clock g"
proof -
  let ?h = "upd_seat i (\<lambda>s. s\<lparr>m_ingame_player_id := 0, seat_score := 20, m_card_score := 0\<rparr>) g"
  have h: "bits ?h = bits g" "clock ?h = clock g" "is_seated (m_seats ?h ! i) = is_seated (m_seats g ! i)"
    by (simp_all add: bits_upd_same bits_of_def seat_bit_defs clock_cards)
      (cases "i < length (m_seats g)"; simp add: upd_seat_def is_seated_def list_update_beyond)
  have last: "bits (upd_seat i (\<lambda>s. s\<lparr>m_match_over_account_chips := 0, m_handcards_total := []\<rparr>) g) = bits g" for g
    by (rule bits_upd_same) (simp add: bits_of_def seat_bit_defs)
  have ready: "bits (upd_player u player_ready_for_game g) = bits g" "clock (upd_player u player_ready_for_game g) = clock g" for u g
    by (simp_all add: bits_def clock_def upd_player_def)
  have in_game: "bits (upd_seat i (\<lambda>s. (seat_status (st_seated OR st_ingame OR st_cur_join) s)\<lparr>m_ingame_player_id := k\<rparr>) g) =
      (bits g)[i := (True, True, False)]" for k g
    by (simp add: bits_upd bits_of_def seat_bit_defs seat_status_def has_def)
  have out: "bits (upd_seat i (seat_status 0) g) = (bits g)[i := (False, False, False)]" for g
    by (simp add: bits_upd bits_of_def seat_bit_defs seat_status_def has_def)
  show "bits g' = (bits g)[i := (is_seated (m_seats g ! i), is_seated (m_seats g ! i), False)]" "clock g' = clock g"
    using assms h by (auto simp: ready_for_game_def bind_Some Let_def last ready in_game [simplified] out clock_cards split: if_split_asm)
qed

lemma step_desk_ready_bits:
  assumes "step_desk_ready g = Some g'"
  shows "bits g' = map (\<lambda>(s, i, d). (s, s, False)) (bits g)" "clock g' = (m_game_status g, None)"
proof -
  let ?g = "g\<lparr>m_wait_round_timer := None, m_pokercard_pool := [], m_is_first_pool_card := True\<rparr>" and ?n = "length (m_seats g)"
  let ?B = "map (\<lambda>(s, i, d). (s, s, False)) (bits g)"
  let ?I = "\<lambda>k h. length (m_seats h) = ?n \<and> clock h = clock ?g \<and> bits h = take k ?B @ drop k (bits g)"
  have "for_each ready_for_game [0..<?n] ?g = Some g'" using assms by (simp add: step_desk_ready_def)
  then have "?I ?n g'"
  proof (rule for_each_upt [where I = ?I])
    show "?I 0 ?g" by (simp add: bits_def)
  next
    fix k h h'
    assume k: "k < ?n" and step: "ready_for_game k h = Some h'" and I: "?I k h"
    have "is_seated (m_seats h ! k) = fst (bits g ! k)"
      using I k bits_nth [of k h] by (simp add: bits_of_def nth_append bits_length)
    then have "bits h' = take (Suc k) ?B @ drop (Suc k) (bits g)"
      using ready_for_game_bits(1) [OF step] I k
      by (simp add: list_update_append bits_length take_Suc_conv_app_nth Cons_nth_drop_Suc [symmetric] split: prod.splits)
    then show "?I (Suc k) h'"
      using ready_for_game_bits(2) [OF step] ready_for_game_fields(1) [OF step] I by simp
  qed
  then show "bits g' = ?B" "clock g' = (m_game_status g, None)" by (simp_all add: bits_length clock_def)
qed

lemma sits_fst: "(\<lambda>(s, i, d). s) = fst"
  by auto

lemma clock_deal_cards:
  assumes "step_deal_cards env g = Some g'"
  shows "clock g' = clock g"
proof -
  have seat: "clock g' = clock g" if "deal_seat i g = Some g'" for i g g'
    using that by (auto simp: deal_seat_def deal_cards_def clock_simps split: if_split_asm)
  have bottom: "clock g' = clock g" if "deal_bottom env g = Some (g', n)" for g g' n
    using that by (auto simp: deal_bottom_def bind_Some Let_def clock_simps split: option.splits)
  have rest: "clock g' = clock g" if "turn_joker g = Some g' \<or> cut_bottom n g = Some g'" for g g' n
    using that by (auto simp: turn_joker_def cut_bottom_def Let_def clock_simps split: if_split_asm)
  show ?thesis
    using assms by (auto simp: step_deal_cards_def bind_Some dest!: bottom clock.view_for_each [OF _ seat] clock.view_broadcast_deal
        rest [OF disjI1] rest [OF disjI2])
qed

lemma start_new_game_live:
  assumes "start_new_game env g = Some g'" "idle r g" "1 < get_seated_count g"
  shows "live APP_DEALER_CARD g'"
proof -
  obtain g1 g2 g3 where g1: "step_desk_ready g = Some g1" and g2: "step_dealer_seat env g1 = Some g2"
    and g3: "step_deal_cards env g2 = Some g3"
    and g': "g' = (wait_for_round GAME_DEALER_CARD (wait_ms m_time_deal_card g3) g3)\<lparr>m_time_game_begin := now env\<rparr>"
    using assms(1) by (auto simp: start_new_game_def bind_Some split: if_split_asm)
  have "bits g' = bits g1"
    using bits.view_deal_cards [OF g3] bits.view_dealer_seat [OF g2] by (simp add: g' bits.view_card_simps)
  then have b: "bits g' = map (\<lambda>(s, i, d). (s, s, False)) (bits g)" using step_desk_ready_bits(1) [OF g1] by simp
  have "play APP_DEALER_CARD (bits g')"
    using assms(3) unfolding b by (simp add: play_def seated_tally tally_def filter_map comp_def case_prod_beta sits_fst)
  moreover have "waits APP_DEALER_CARD g'"
  proof -
    have "clock g3 = (m_game_status g, None)"
      using clock_deal_cards [OF g3] clock.view_dealer_seat [OF g2] step_desk_ready_bits(2) [OF g1] by simp
    then have "in_round r g3" using assms(2) by (simp add: in_round_def idle_def clock_def)
    from waits_clock [OF _ waits_simps(3) [OF this]] show ?thesis unfolding g' by (simp add: clock_simps)
  qed
  ultimately show ?thesis by (simp add: live_def)
qed

lemma step_playing_begin_live:
  assumes "step_playing_begin env g = Some g'" "idle r g"
  shows "live APP_UNREADY g' \<or> live APP_DEALER_CARD g'"
proof (cases "is_game_can_start g")
  case True
  let ?h = "notify_room_status ROOM_PLAYING g"
  have "clock ?h = clock g" "bits ?h = bits g" by (simp_all add: clock_simps bits.view_simps)
  then have "idle r ?h" "1 < get_seated_count ?h"
    using assms(2) True by (simp_all add: idle_def clock_def is_game_can_start_def seated_tally)
  then show ?thesis using start_new_game_live [of env ?h g' r] assms(1) True by (simp add: step_playing_begin_def)
next
  case False
  then have g': "g' = wait_for_round GAME_UNREADY 0 (notify_room_status ROOM_IDLE g)"
    using assms(1) by (simp add: step_playing_begin_def)
  have "in_round r (notify_room_status ROOM_IDLE g)"
    by (rule in_round_clock [of _ g]) (use assms(2) in \<open>simp_all add: clock_simps in_round_def\<close>)
  then show ?thesis unfolding g' by (simp add: live_def waits_simps(1))
qed

section \<open>The end of the declarations\<close>

text \<open>
  When the time for the declarations is over the players who have not declared are charged one by
  one; the game ends in the loop, because more than one of those in the game had not declared.
\<close>

definition declaring :: "nat \<Rightarrow> room \<Rightarrow> bool" where
  "declaring k g \<longleftrightarrow> seat_links g \<and> (waits APP_DISTRIBUTE g \<or>
     idle APP_DECLARE g \<and> play APP_DECLARE (bits g) \<and> (\<forall>j < k. plays (bits g ! j) \<longrightarrow> wins (bits g ! j)))"

lemma default_decalre_distribute:
  assumes "default_decalre env u g = Some g'" "waits APP_DISTRIBUTE g"
  shows "waits APP_DISTRIBUTE g'"
proof -
  obtain i g1 n gs where d: "seat_default_declare i g = Some (g1, n, gs)"
    and pay: "loser_pays env i u (copy_group_to_msg gs []) n g1 = Some g'"
    using assms(1) by (auto simp: default_decalre_def bind_Some)
  have w: "waits APP_DISTRIBUTE g1" by (rule waits_clock [OF clock.view_default_declare [OF d] assms(2)])
  show ?thesis using loser_pays_clock(2) [OF pay waits_in_round [OF w]] waits_clock [OF _ w] by (auto split: if_splits)
qed

lemma declaring_step:
  assumes "default_decalre env u g = Some g'" "m_player (m_seats g ! k) = Some u" "k < 5" "declaring k g"
  shows "declaring (Suc k) g'"
proof -
  have l: "seat_links g" using assms(4) by (simp add: declaring_def)
  have l': "seat_links g'" by (rule seat_links_view [OF default_decalre_links [OF assms(1)] l])
  show ?thesis
  proof (cases "waits APP_DISTRIBUTE g")
    case True
    then show ?thesis using default_decalre_distribute [OF assms(1)] l' by (simp add: declaring_def)
  next
    case False
    then have d: "idle APP_DECLARE g" "play APP_DECLARE (bits g)" "\<forall>j < k. plays (bits g ! j) \<longrightarrow> wins (bits g ! j)"
      using assms(4) by (simp_all add: declaring_def)
    obtain p where p: "players g u = Some p" "m_pGameSeat p = Some k" using seat_linksD(3) [OF l assms(3,2)] by auto
    have "in_round APP_DECLARE g" using d(1) by (simp add: in_round_def)
    from default_decalre_live [OF assms(1) this d(2) _ p]
    consider "waits APP_DISTRIBUTE g'"
      | "clock g' = clock g" "play APP_DECLARE (bits g')" "bits g' = (bits g)[k := (is_seated (m_seats g ! k), False, True)]"
      by auto
    then show ?thesis
    proof cases
      case 2
      have "\<forall>j < Suc k. plays (bits g' ! j) \<longrightarrow> wins (bits g' ! j)"
        using d(3) 2(3) assms(3) seat_linksD(1) [OF l] by (auto simp: less_Suc_eq bits_length nth_list_update)
      moreover have "idle APP_DECLARE g'" using 2(1) d(1) by (simp add: idle_def clock_def)
      ultimately show ?thesis unfolding declaring_def using l' 2(2) by blast
    qed (simp add: declaring_def l')
  qed
qed

lemma step_declare_timeout_waits:
  assumes "step_declare_timeout env g = Some g'" "seat_links g" "idle APP_DECLARE g" "play APP_DECLARE (bits g)"
  shows "waits APP_DISTRIBUTE g'"
proof -
  have n: "length (m_seats g) = 5" by (rule seat_linksD(1) [OF assms(2)])
  have "declaring 5 g'"
    using assms(1) unfolding step_declare_timeout_def n
  proof (rule for_each_upt)
    show "declaring 0 g" using assms(2-4) by (simp add: declaring_def)
  next
    fix k h h'
    assume k: "k < 5" and I: "declaring k h"
      and step: "(if is_seated (m_seats h ! k) \<and> is_in_game (m_seats h ! k) \<and> \<not> is_declared (m_seats h ! k)
       then do { u \<leftarrow> m_player (m_seats h ! k); default_decalre env u h } else Some h) = Some h'"
    have n: "length (m_seats h) = 5" using I seat_linksD(1) by (simp add: declaring_def)
    show "declaring (Suc k) h'"
    proof (cases "is_seated (m_seats h ! k) \<and> is_in_game (m_seats h ! k) \<and> \<not> is_declared (m_seats h ! k)")
      case True
      then show ?thesis using step declaring_step [OF _ _ k I] by (auto simp: bind_Some)
    next
      case False
      moreover have "\<not> ghost (bits h ! k)" if "play APP_DECLARE (bits h)"
        using that k n tally_zero [of ghost "bits h"] by (simp add: play_def bits_length)
      ultimately have "plays (bits h ! k) \<longrightarrow> wins (bits h ! k)" if "play APP_DECLARE (bits h)"
        using that k n by (auto simp: bits_nth bits_of_def)
      moreover have "h' = h" using step False by (simp split: if_split_asm)
      ultimately show ?thesis using I by (auto simp: declaring_def less_Suc_eq)
    qed
  qed
  moreover have "\<not> (play APP_DECLARE (bits g') \<and> (\<forall>j < 5. plays (bits g' ! j) \<longrightarrow> wins (bits g' ! j)))" if "seat_links g'"
  proof
    assume *: "play APP_DECLARE (bits g') \<and> (\<forall>j < 5. plays (bits g' ! j) \<longrightarrow> wins (bits g' ! j))"
    have "filter plays (bits g') = filter wins (bits g')"
      by (rule filter_cong) (use * seat_linksD(1) [OF that] in \<open>auto simp: in_set_conv_nth bits_length\<close>)
    then show False using * by (auto simp: play_def tally_def)
  qed
  ultimately show ?thesis by (auto simp: declaring_def)
qed

section \<open>The timer\<close>

lemma step_active1_timeout_live:
  assumes "step_active1_timeout env g = Some g'" "idle APP_ACTIVE1 g" "play APP_ACTIVE1 (bits g)"
  shows "advances APP_ACTIVE1 g'"
proof -
  obtain u h where h: "set_trustee_on u g = Some h" "active_player env 0 h = Some g'"
    using assms(1) by (auto simp: step_active1_timeout_def bind_Some)
  have "in_round APP_ACTIVE1 h" by (rule in_round_clock [OF clock.view_trustee(1) [OF h(1)]]) (simp add: in_round_def assms(2))
  then show ?thesis using active_player_live [OF h(2)] assms(3) bits.view_trustee(1) [OF h(1)] by simp
qed

lemma step_rand2_timeout_live:
  assumes "step_rand2_timeout env g = Some g'" "idle APP_ACTIVE2 g" "play APP_ACTIVE2 (bits g)"
  shows "advances APP_ACTIVE2 g'"
proof -
  obtain u h where h: "set_trustee_on u g = Some h" "post_default_card env h = Some g'"
    using assms(1) by (auto simp: step_rand2_timeout_def bind_Some)
  then obtain a p h1 c where h1: "seat_post_default_card a h = Some (h1, c)"
    and post: "after_post env (broadcast_post_card p c (h1\<lparr>m_pokercard_pool := m_pokercard_pool h1 @ [c]\<rparr>)) = Some g'"
    by (auto simp: post_default_card_def bind_Some Let_def)
  let ?h = "broadcast_post_card p c (h1\<lparr>m_pokercard_pool := m_pokercard_pool h1 @ [c]\<rparr>)"
  have 1: "clock h1 = clock h" "bits h1 = bits h"
    using h1 by (auto simp: seat_post_default_card_def Let_def clock_simps bits.view_hand split: if_splits)
  have "clock ?h = clock g" "bits ?h = bits g"
    by (simp_all add: broadcast_post_card_def clock_simps bits.view_card_simps 1 clock.view_trustee(1) [OF h(1)] bits.view_trustee(1) [OF h(1)])
  then show ?thesis by (rule after_post_live [OF post]) (use assms(2,3) in \<open>simp_all add: in_round_def\<close>)
qed

lemma advances_live: "live r' g' \<Longrightarrow> r' = r \<or> round_step r r' \<Longrightarrow> advances r g'"
  by (auto simp: advances_def)

lemma step_new_round_live:
  assumes step: "step_new_round env g = Some g'" and g: "m_game_status g = (GAME_WAIT_MASK OR round_word r)" "m_wait_round_timer g = None"
    and play: "play r (bits g)" and links: "seat_links g"
  shows "advances r g'"
proof -
  define h where "h = set_game_status (m_game_status g AND NOT GAME_WAIT_MASK) g"
  have h: "idle r h" "bits h = bits g" "m_game_status g AND GAME_ROUND_MASK = round_word r"
    using g by (cases r; simp add: h_def idle_def set_game_status_def bits_def)+
  have r: "in_round r h" using h(1) by (simp add: in_round_def)
  have l: "seat_links h" by (rule seat_links_view [OF _ links]) (simp add: h_def set_game_status_def link_simps)
  have b: "play r (bits h)" using play h(2) by simp
  note step' = step [unfolded step_new_round_def Let_def, folded h_def, unfolded h(3)]
  show ?thesis
  proof (cases r)
    case APP_UNREADY
    then show ?thesis using step_unready_live [of env h g'] step' r by (auto intro: advances_live round_step.intros)
  next
    case APP_WAIT_PLAYING
    then show ?thesis using step_playing_begin_live [of env h g' r] step' h(1) by (auto intro: advances_live round_step.intros)
  next
    case APP_DEALER_CARD
    then show ?thesis using active_player_live [of env 0 h g' r] step' r b by simp
  next
    case APP_ACTIVE1
    then show ?thesis using step_active1_timeout_live [of env h g'] step' h(1) b by simp
  next
    case APP_ACTIVE2
    then show ?thesis using step_rand2_timeout_live [of env h g'] step' h(1) b by simp
  next
    case APP_DECLARE
    then show ?thesis using step_declare_timeout_waits [of env h g'] step' h(1) b l by (simp add: advances_over)
  next
    case APP_SHUFFLE_CARD
    then show ?thesis using active_player_live [of env 0 h g' r] step' r b by simp
  next
    case APP_DISTRIBUTE
    then show ?thesis using ready_for_next_game_waits [of env h g' r] step' r by (auto intro: advances_waits round_step.intros)
  qed
qed

lemma on_wait_round_timeout_live:
  assumes "on_wait_round_timeout env g = Some g'" "live r g" "seat_links g"
  shows "advances r g'"
proof (cases "m_wait_round_timer g")
  case None
  then show ?thesis using assms(1) advances_same [OF assms(2)] by (simp add: on_wait_round_timeout_def)
next
  case (Some t)
  let ?h = "g\<lparr>m_wait_round_timer := None\<rparr>"
  have "m_game_status g = (GAME_WAIT_MASK OR round_word r)" using assms(2) Some by (auto simp: live_def waits_def idle_def)
  moreover have "play r (bits ?h)" using assms(2) by (simp add: live_def bits_def)
  moreover have "seat_links ?h" by (rule seat_links_view [OF _ assms(3)]) (simp add: link_simps)
  ultimately show ?thesis using step_new_round_live [of env ?h g' r] assms(1) Some by (simp add: on_wait_round_timeout_def)
qed

section \<open>Requests\<close>

lemma live_reply: "live r (reply e g) \<longleftrightarrow> live r g" "live r (upd_player u (flush_online_time env) g) \<longleftrightarrow> live r g"
  using live_same by (metis clock.view_reply bits.view_reply clock.view_flush_online bits.view_flush_online)+

lemma player_trusteeoff_live:
  assumes "player_trusteeoff env u g = Some g'" "live r g"
  shows "advances r g'"
proof -
  note q = in_round_queries [OF live_in_round [OF assms(2)]]
  have b: "bits g' = bits g" by (rule bits.view_trusteeoff [OF assms(1)])
  consider "clock g' = clock g" | k where "r = APP_ACTIVE1" "clock g' = clock (wait_for_round GAME_ACTIVE1 k g)"
    | k where "r = APP_ACTIVE2" "clock g' = clock (wait_for_round GAME_ACTIVE2 k g)"
    using assms(1) q(2,3)
    by (auto simp: player_trusteeoff_def bind_Some Let_def is_wait_active_def dest!: clock.view_trustee(2) simp del: if_split split: if_split_asm)
  then have "clock g' = clock g \<or> waits r g'"
    using waits_clock waits_simps(4,5) live_in_round [OF assms(2)] by cases blast+
  then show ?thesis
    using advances_same [OF assms(2)] b advances_waits [of r g' r] assms(2) by (auto simp: live_def)
qed

lemma player_close_account_box_live:
  assumes "player_close_account_box env u g = Some g'" "live r g"
  shows "advances r g'"
proof -
  let ?g = "broadcast_message (PlayerCloseAccountBox u) (upd_player u (set_phase PLAYER_UNREADY) g)"
  have same: "clock ?g = clock g" "bits ?g = bits g" by (simp_all add: clock_simps bits.view_card_simps)
  have "g' = g \<or> g' = ?g \<or> is_distribut g \<and> ready_for_next_game env ?g = Some g'"
    using assms(1) by (auto simp: player_close_account_box_def bind_Some Let_def split: if_splits)
  moreover have "advances r g'" if "is_distribut g" "ready_for_next_game env ?g = Some g'"
  proof -
    have "r = APP_DISTRIBUTE" using that(1) in_round_queries(6) [OF live_in_round [OF assms(2)]] by simp
    moreover have "waits APP_UNREADY g'"
      by (rule ready_for_next_game_waits [OF that(2) in_round_clock [OF same(1) live_in_round [OF assms(2)]]])
    ultimately show ?thesis by (auto intro: advances_waits round_step.intros)
  qed
  ultimately show ?thesis using advances_same [OF assms(2)] same by blast
qed

lemma add_player_same:
  assumes "add_player env u ses g = Some g'"
  shows "clock g' = clock g" "bits g' = bits g"
  using assms by (auto simp: add_player_def clock_def bits_def send_mq_def split: if_splits option.splits)

lemma on_new_player_enter_live:
  assumes "on_new_player_enter env u name ses g = Some g'" "live r g"
  shows "live r g'"
proof (cases "add_player env u ses g")
  case None
  then show ?thesis using assms by (auto simp: on_new_player_enter_def live_reply)
next
  case (Some g1)
  let ?g = "upd_player u (\<lambda>p. p\<lparr>m_player_name := name\<rparr>) g1"
  have g: "live r ?g"
    by (rule live_same [OF assms(2)]) (simp_all add: add_player_same [OF Some] clock.view_set_name bits.view_set_name)
  have buy: "live r h" if "buy_in env u n k ?g = Some (h, x)" for h n k x
    by (rule live_same [OF g clock.view_buy_in [OF that] bits.view_buy_in [OF that]])
  show ?thesis
    using assms(1) Some g
    by (auto simp: on_new_player_enter_def bind_Some Let_def destroy_player_live live_reply dest!: buy
        dest: player_sit_down_live split: if_split_asm)
qed

lemma on_player_enter_live:
  assumes "on_player_enter env u name ses g = Some g'" "live r g"
  shows "live r g'"
proof (cases "u \<in> set (m_all_player g)")
  case True
  then obtain h where h: "come_back_game u (upd_player u (\<lambda>p. p\<lparr>m_player_name := name\<rparr>) g) = Some h" "g' = reply GG_ERROR_SUCCESS h"
    using assms(1) by (auto simp: on_player_enter_def find_player_def bind_Some)
  have "clock g' = clock g" "bits g' = bits g"
    using clock.view_come_back [OF h(1)] bits.view_come_back [OF h(1)]
    by (simp_all add: h(2) clock_simps bits.view_simps clock.view_set_name bits.view_set_name)
  then show ?thesis by (rule live_same [OF assms(2)])
next
  case False
  then show ?thesis using assms on_new_player_enter_live by (simp add: on_player_enter_def find_player_def)
qed

lemma advances_same_live:
  assumes "advances r g" "clock g' = clock g" "bits g' = bits g"
  shows "advances r g'"
  using assms live_same by (auto simp: advances_def)

lemma on_player_exit_live:
  assumes "on_player_exit env u g = Some g'" "live r g"
  shows "advances r g'"
proof -
  have "g' = reply GG_ERROR_USER_NOT_IN_ROOM g \<or> g' = destroy_player u (reply GG_ERROR_SUCCESS g) \<or>
      (\<exists>g1 x. player_stand_up env u APPLY_STAND_UP g = Some (g1, x) \<and>
        (g' = reply GG_ERROR_GAME_NOT_OVER g1 \<or> g' = destroy_player u (reply GG_ERROR_SUCCESS g1)))"
    using assms(1) by (auto simp: on_player_exit_def find_player_def bind_Some split: if_split_asm)
  then obtain h where h: "clock g' = clock h" "bits g' = bits h"
      and up: "h = g \<or> (\<exists>x. player_stand_up env u APPLY_STAND_UP g = Some (h, x))"
    using destroy_player_clock by (auto simp: clock_simps bits.view_simps destroy_player_clock)
  have "advances r h" using up stand_up_live(1) [OF _ assms(2)] advances_live [OF assms(2)] by blast
  then show ?thesis by (rule advances_same_live [OF _ h])
qed

lemma on_apply_standup_live:
  assumes "on_apply_standup env u g = Some g'" "live r g"
  shows "advances r g'"
proof -
  let ?g = "upd_player u (flush_online_time env) (reply GG_ERROR_SUCCESS g)"
  have g: "live r ?g" using assms(2) by (simp add: live_reply)
  have "g' = reply GG_ERROR_USER_NOT_IN_ROOM g \<or> g' = ?g \<or>
      (\<exists>g1 x. player_stand_up env u APPLY_STAND_UP ?g = Some (g1, x) \<and> (g' = g1 \<or> g' = destroy_player u g1))"
    using assms(1) by (auto simp: on_apply_standup_def find_player_def bind_Some Let_def split: if_split_asm)
  then consider "live r g'"
    | g1 x where "player_stand_up env u APPLY_STAND_UP ?g = Some (g1, x)" "g' = g1 \<or> g' = destroy_player u g1"
    using g assms(2) live_reply(1) by blast
  then show ?thesis
  proof cases
    case 2
    have "clock g' = clock g1" "bits g' = bits g1" using 2(2) destroy_player_clock(1,3) by metis+
    then show ?thesis by (rule advances_same_live [OF stand_up_live(1) [OF 2(1) g]])
  qed (simp add: advances_live)
qed

lemma on_apply_seat_live:
  assumes "on_apply_seat env u n g = Some g'" "live r g"
  shows "live r g'"
proof -
  let ?g = "upd_player u (flush_online_time env) g"
  have g: "live r ?g" using assms(2) by (simp add: live_reply)
  have buy: "live r h" if "buy_in env u n k ?g = Some (h, x)" for h n k x
    by (rule live_same [OF g clock.view_buy_in [OF that] bits.view_buy_in [OF that]])
  show ?thesis
    using assms g
    by (auto simp: on_apply_seat_def find_player_def bind_Some Let_def live_reply dest!: buy dest: player_sit_down_live split: if_split_asm)
qed

section \<open>The invariant\<close>

text \<open>The online check removes players between games only; from the wait for a game it may fall back.\<close>

lemma check_one_online_live:
  assumes "check_one_online env u g = Some g'" "live r g \<or> r = APP_WAIT_PLAYING \<and> live APP_UNREADY g"
  shows "live r g' \<or> r = APP_WAIT_PLAYING \<and> live APP_UNREADY g'"
proof -
  have kick: "live q (g\<lparr>m_all_player := xs\<rparr>) \<longleftrightarrow> live q g" for q xs
    by (simp add: live_def waits_def idle_def seated_tally bits_def)
  have one: "live q g' \<or> q = APP_WAIT_PLAYING \<and> live APP_UNREADY g'" if q: "live q g" for q
    using assms(1)
  proof (cases rule: check_one_online_cases)
    case 1
    then show ?thesis using live_same [OF q] clock.view_online bits.view_online by simp
  next
    case 2
    then show ?thesis using live_same [OF q] clock.view_online bits.view_online by simp
  next
    case (3 g0)
    then show ?thesis using q by (simp add: kick destroy_player_live)
  next
    case (4 g0 g1 x)
    have g0: "live q g0" using q by (simp add: 4(1) kick)
    have "q \<in> {APP_UNREADY, APP_WAIT_PLAYING, APP_DISTRIBUTE}"
      using 4(4) in_round_queries(1) [OF live_in_round [OF q]] by (cases q) simp_all
    then show ?thesis using stand_up_live(2,3) [OF 4(2) g0] by (auto simp: 4(3) destroy_player_live)
  qed
  show ?thesis using assms(2) one by blast
qed

lemma check_player_online_live:
  assumes "check_player_online env g = Some g'" "live r g"
  shows "advances r g'"
proof -
  have "live r g' \<or> r = APP_WAIT_PLAYING \<and> live APP_UNREADY g'"
    using assms(1) unfolding check_player_online_def
    by (rule for_each_invariant) (use assms(2) check_one_online_live in blast)+
  then show ?thesis by (auto intro: advances_live round_step.intros)
qed

lemma desk_request_live:
  assumes "desk_request env u action g = Some g'" "live r g" and "\<And>g g'. action g = Some g' \<Longrightarrow> live r g \<Longrightarrow> advances r g'"
  shows "advances r g'"
proof -
  have "g' = reply GG_ERROR_USER_NOT_IN_ROOM g \<or> action (upd_player u (flush_online_time env) g) = Some g'"
    using assms(1) by (auto simp: desk_request_def find_player_def split: if_splits)
  then show ?thesis using assms(2,3) live_reply advances_live by blast
qed

lemma request_live:
  assumes "on_recv_msg env q g = Some g'" "live r g"
  shows "advances r g'"
proof -
  have flush: "advances r h'" if "do { h \<leftarrow> player_flush_room env u (reply e h); Some (upd_player u (\<lambda>p. p\<lparr>m_is_recv_broadcast := b\<rparr>) h) } = Some h'"
    "live r h" for u e h h' b
    using advances_same [OF that(2) clock.view_flush_room [OF that(1)] bits.view_flush_room [OF that(1)]] .
  have status: "advances r (send_to u m (reply e h))" if "live r h" for u m e h
    by (rule advances_same [OF that]) (simp_all add: clock_simps bits.view_simps)
  show ?thesis
  proof (cases q)
    case (ApplyEnterRoom u n s)
    then show ?thesis using assms on_player_enter_live advances_live by fastforce
  next
    case (ApplyQuitRoom u)
    then show ?thesis using assms on_player_exit_live by simp
  next
    case (ApplySeat u n)
    then show ?thesis using assms on_apply_seat_live advances_live by fastforce
  next
    case (ApplyStandup u)
    then show ?thesis using assms on_apply_standup_live by simp
  next
    case (Relay rq)
    then have "on_relay env rq g = Some g'" using assms(1) by simp
    then show ?thesis using advances_same [OF assms(2) clock.view_relay bits.view_relay] by blast
  qed (use assms in \<open>auto simp: desk_request_defs elim!: desk_request_live intro: flush status player_dig_card_live player_post_card_live
      player_drop_live player_declare_live player_lose_declare_live player_trusteeoff_live player_close_account_box_live
      simp: live_reply\<close>)
qed

lemma handle_live:
  assumes "handle env ev g = Some g'" "live r g" "links_ok g"
  shows "advances r g'"
  using assms request_live on_wait_round_timeout_live check_player_online_live by (cases ev) (auto simp: links_ok_def)

lemma open_area_live: "open_area rs info = Some g \<Longrightarrow> live APP_UNREADY g"
  by (auto simp: open_area_def bind_Some live_def idle_def seated_tally tally_def bits_def bits_of_def GameSeat_def seat_bit_defs has_def)

lemma live_combination: "live r g \<Longrightarrow> live r (g\<lparr>m_combination := cb\<rparr>)"
  by (erule live_same) (simp_all add: clock.view_simps bits.view_simps)

text \<open>The two invariants together.\<close>

definition room_ok :: "room \<Rightarrow> bool" where
  "room_ok g \<longleftrightarrow> links_ok g \<and> (\<exists>r. live r g)"

interpretation live_inv: room_invariant room_ok
proof unfold_locales
  show "room_ok g" if "open_area rs info = Some g" for rs info g
    unfolding room_ok_def using open_area_links [OF that] open_area_live [OF that] by blast
next
  fix env ev g g'
  assume step: "handle env ev g = Some g'" "makes_fresh env" and "room_ok g"
  then obtain r where "links_ok g" "live r g" by (auto simp: room_ok_def)
  with handle_live [OF step(1)] links_inv.handle_ok [OF step] show "room_ok g'"
    by (auto simp: room_ok_def advances_def)
next
  show "room_ok (g\<lparr>m_combination := cb\<rparr>)" if "room_ok g" for g cb
    using that links_inv.combination_ok [of g cb] by (auto simp: room_ok_def intro: live_combination)
qed

text \<open>The status shown to the players is the round of the invariant.\<close>

lemma live_app_status: "live r g \<Longrightarrow> get_game_status_for_app g = r"
  using waits_app_status [of r g] by (auto simp: live_def idle_def get_game_status_for_app_def has_def)

lemma handle_round_step:
  assumes "reachable g" "handle env ev g = Some g'"
  shows "round_step\<^sup>=\<^sup>= (get_game_status_for_app g) (get_game_status_for_app g')"
proof -
  obtain r where "links_ok g" "live r g" using live_inv.always [OF assms(1)] by (auto simp: room_ok_def)
  moreover from this obtain r' where "r' = r \<or> round_step r r'" "live r' g'"
    using handle_live [OF assms(2)] by (auto simp: advances_def)
  ultimately show ?thesis using live_app_status by auto
qed

lemma timer_runs:
  assumes "reachable g" "1 < get_seated_count g"
  shows "m_wait_round_timer g \<noteq> None"
  using live_inv.always [OF assms(1)] assms(2) by (auto simp: room_ok_def live_def waits_def)

lemma two_in_game:
  assumes "reachable g" "running (get_game_status_for_app g)"
  shows "2 \<le> get_ingame_count g"
proof -
  obtain r where r: "live r g" using live_inv.always [OF assms(1)] by (auto simp: room_ok_def)
  then have "running r" using assms(2) live_app_status by simp
  then show ?thesis using r by (simp add: live_def play_def ingame_tally)
qed

end
