(* ===== verification/Game_Sample.thy ===== *)
theory Game_Sample
  imports Game_Timer
begin

text \<open>
  A sample room: a configuration, an environment in which the money service grants what is asked
  and every value of \<open>rand()\<close> is 0, and two users who enter the room and play.
\<close>

definition sample_info :: area_info where
  "sample_info = \<lparr>m_area_id = 1, m_small_blind = 10, m_min_carry = 800, m_max_carry = 8000, m_max_playing = 5,
     m_room_type = 1, m_base_exp_win = 1, m_base_exp_lose = 1, m_tips_persent = 5, m_desk_type = 5, m_draw_tips = 0,
     m_game_wait_interval = \<lparr>m_time_deal_card = 3000, m_time_active1 = 10000, m_time_active2 = 20000,
       m_time_post_card = 1000, m_time_shuffle_card = 2000, m_time_drop = 1000, m_time_distribute = 10000,
       m_time_declare = 30000, m_time_account_animat = 2000, m_time_wait_next_game = 5000, m_time_declare_animat = 1000\<rparr>\<rparr>"

definition sample_player :: "int \<Rightarrow> int \<Rightarrow> player" where
  "sample_player u s = \<lparr>m_player_id = u, m_player_name = '''', m_cur_status = PLAYER_STAND_UP, m_online_check_time = 0,
     m_is_recv_broadcast = True, m_cur_carry = 0, m_active_chips = 0, m_pGameSeat = None, m_session_id = s\<rparr>"

definition sample_env :: game_env where
  "sample_env = \<lparr>now = 1000, rand_deal = (\<lambda>_. 0), rand_seat = 0, rand_shuffle = (\<lambda>_. 0), card_from_file = None,
     money_lose = (\<lambda>u carry buy n. Some (carry - n, 100000, n)), money_bet = (\<lambda>u n. Some (100000, 5000, n)),
     money_buy_in = (\<lambda>u n least. Some (100000, n)), money_add_carry = (\<lambda>u carry n. True),
     money_user = (\<lambda>u. Some (Some 100000, Some 5000)), player_online = (\<lambda>u. True), make_player = (\<lambda>u s. Some (sample_player u s))\<rparr>"

lemma sample_env_fresh: "makes_fresh sample_env"
  by (simp add: makes_fresh_def sample_env_def sample_player_def)

definition run :: "game_env \<Rightarrow> area_event list \<Rightarrow> room \<Rightarrow> room option" where
  "run env evs g = for_each (handle env) evs g"

lemma run_reachable: "run env evs g = Some g' \<Longrightarrow> reachable g \<Longrightarrow> makes_fresh env \<Longrightarrow> reachable g'"
  unfolding run_def by (induction evs arbitrary: g) (auto intro: reachable.step split: option.splits)

text \<open>With \<open>rand()\<close> always 0 two shuffles leave the deck as it was.\<close>

lemma draw_zero: "draw_loop (\<lambda>_. 0) k (Suc (length ys)) (y # ys) out = Some (out @ y # rev ys)"
proof (induction ys arbitrary: k y out rule: rev_induct)
  case (snoc z zs)
  have "take_out 0 (y # zs @ [z]) = z # zs" by (simp add: take_out_def)
  then show ?case using snoc [of "Suc k" z "out @ [y]"] by (simp add: Let_def)
qed simp

lemma draw_zero_deck: "length (y # ys) = CARD_COUNT \<Longrightarrow> draw_loop (\<lambda>_. 0) k CARD_COUNT (y # ys) out = Some (out @ y # rev ys)"
  using draw_zero [of k ys y out] by (metis length_Cons)

lemma rank_times_zero:
  "length (y # ys) = CARD_COUNT \<Longrightarrow> dl_cards d = y # ys \<Longrightarrow> rank_times (\<lambda>_. 0) (2 * n) d = Some d"
proof (induction n)
  case (Suc n)
  have "rand_rank_cards (\<lambda>_. 0) d = Some (d\<lparr>dl_cards := y # rev ys\<rparr>)"
    using Suc.prems by (simp add: rand_rank_cards_def draw_zero_deck)
  moreover have "rand_rank_cards (\<lambda>_. 0) (d\<lparr>dl_cards := y # rev ys\<rparr>) = Some d"
    using Suc.prems by (simp add: rand_rank_cards_def draw_zero_deck)
  ultimately show ?case using Suc by simp
qed simp

definition sample_open :: room where
  "sample_open = \<lparr>m_area_info = sample_info, players = (\<lambda>_. None), m_all_player = [],
     m_pCardDealer = \<lparr>dl_cards = double_deck, dl_all_card = double_deck\<rparr>,
     m_combination = \<lparr>cb_joker_cards = [], cb_joker_combines = [], cb_joker_point = 0\<rparr>,
     m_seats = replicate 5 GameSeat, m_dealer_index = 0, m_game_status = GAME_UNREADY, m_wait_round_timer = None,
     m_active_seatnum = -1, m_joker_card = no_card, m_pokercard_pool = [], m_bottom_cards = [],
     m_last_winner_seatnum = -1, m_wait_begin = 0, m_chips_pool = 0, m_apply_declare_seatnum = -1,
     m_time_game_begin = -1, m_is_first_pool_card = False, m_gameover_type = -1, m_notify_room_type = ROOM_NONE,
     m_wait_game_sec = 0, m_draw_sec = 0, sent = [], replies = [], mq_sent = []\<rparr>"

lemma sample_open_area: "open_area (\<lambda>_. 0) sample_info = Some sample_open"
proof -
  obtain y ys where ys: "double_deck = y # ys" "length (y # ys) = CARD_COUNT"
    using length_double_deck by (cases double_deck) (auto simp: CARD_COUNT_def)
  have "init_cards (\<lambda>_. 0) = Some \<lparr>dl_cards = double_deck, dl_all_card = double_deck\<rparr>"
    using rank_times_zero [OF ys(2), of _ 500] ys(1) by (simp add: init_cards_def write_deck_cards)
  then show ?thesis by (simp add: open_area_def sample_open_def)
qed

lemma sample_reachable: "run sample_env evs sample_open = Some g \<Longrightarrow> reachable g"
  by (erule run_reachable) (rule reachable.opened [OF sample_open_area], rule sample_env_fresh)

definition two_enter :: "area_event list" where
  "two_enter = [Request (ApplyEnterRoom 1 ''a'' 1), Request (ApplyEnterRoom 2 ''b'' 2)]"

text \<open>
  The game of the two users: they are dealt cards, the turn is user 1's, who digs a card from the
  bottom. What the examples need to know of the three rooms is computed in one go.
\<close>

definition can_play :: "int \<Rightarrow> nat \<Rightarrow> room \<Rightarrow> bool" where
  "can_play u i g \<longleftrightarrow> (case players g u of None \<Rightarrow> False | Some p \<Rightarrow> m_pGameSeat p = Some i \<and> is_active_player p g \<and>
     m_bottom_cards g \<noteq> [] \<and> m_pokercard_pool g \<noteq> [] \<and> length (m_bottom_cards g) \<noteq> 1 \<and> length (m_seats g) = 5 \<and>
     PokerCard 1 2 \<in> set (m_handcards_total (m_seats g ! i)) \<and> m_time_game_begin g + m_draw_sec g = 2200)"

definition game_probe :: "room \<Rightarrow> app_status \<times> nat \<times> nat \<times> int \<times> bool" where
  "game_probe g = (get_game_status_for_app g, get_seated_count g, get_ingame_count g, m_small_blind (m_area_info g), can_play 1 0 g)"

definition sample_rooms :: "(room \<times> room \<times> room) option" where
  "sample_rooms = do {
     g1 \<leftarrow> run sample_env (two_enter @ [Timeout, Timeout]) sample_open;
     g2 \<leftarrow> handle sample_env Timeout g1;
     g3 \<leftarrow> handle sample_env (Request (ApplyDigCard 1 DIG_BOTTOM)) g2;
     Some (g1, g2, g3)
   }"

lemma sample_probe:
  "map_option (\<lambda>(g1, g2, g3). (game_probe g1, game_probe g2, game_probe g3)) sample_rooms =
     Some ((APP_DEALER_CARD, 2, 2, 10, False), (APP_ACTIVE1, 2, 2, 10, True), (APP_ACTIVE2, 2, 2, 10, True))"
  by code_simp

lemma run_snoc: "run env (evs @ [ev]) g = do { g \<leftarrow> run env evs g; handle env ev g }"
  unfolding run_def by (induction evs arbitrary: g) (auto split: option.splits)

lemma sample_game:
  obtains g1 g2 g3 where "reachable g1" "game_probe g1 = (APP_DEALER_CARD, 2, 2, 10, False)"
    "handle sample_env Timeout g1 = Some g2" "reachable g2" "game_probe g2 = (APP_ACTIVE1, 2, 2, 10, True)"
    "reachable g3" "game_probe g3 = (APP_ACTIVE2, 2, 2, 10, True)"
proof -
  obtain g1 g2 g3 where rooms: "sample_rooms = Some (g1, g2, g3)" and probes: "game_probe g1 = (APP_DEALER_CARD, 2, 2, 10, False)"
    "game_probe g2 = (APP_ACTIVE1, 2, 2, 10, True)" "game_probe g3 = (APP_ACTIVE2, 2, 2, 10, True)"
    using sample_probe by auto
  from rooms have steps: "run sample_env (two_enter @ [Timeout, Timeout]) sample_open = Some g1" "handle sample_env Timeout g1 = Some g2"
    "handle sample_env (Request (ApplyDigCard 1 DIG_BOTTOM)) g2 = Some g3"
    by (auto simp: sample_rooms_def bind_Some)
  have "reachable g1" by (rule sample_reachable [OF steps(1)])
  moreover from this have "reachable g2" by (rule reachable.step [OF _ sample_env_fresh steps(2)])
  moreover from this have "reachable g3" by (rule reachable.step [OF _ sample_env_fresh steps(3)])
  ultimately show thesis using that probes steps(2) by blast
qed

text \<open>The two users at the desk, before the game.\<close>

lemma sample_waiting:
  obtains g g' where "reachable g" "get_seated_count g = 2" "get_game_status_for_app g = APP_UNREADY"
    "handle sample_env Timeout g = Some g'" "get_game_status_for_app g' = APP_WAIT_PLAYING"
proof -
  have "map_option (\<lambda>(g, g'). (get_seated_count g, get_game_status_for_app g, get_game_status_for_app g'))
      (do { g \<leftarrow> run sample_env two_enter sample_open; g' \<leftarrow> handle sample_env Timeout g; Some (g, g') }) =
      Some (2, APP_UNREADY, APP_WAIT_PLAYING)"
    by code_simp
  then obtain g g' where "run sample_env two_enter sample_open = Some g" "handle sample_env Timeout g = Some g'" "get_seated_count g = 2"
    "get_game_status_for_app g = APP_UNREADY" "get_game_status_for_app g' = APP_WAIT_PLAYING"
    by (auto simp: bind_Some simp del: handle.simps)
  then show thesis using that sample_reachable by blast
qed

section \<open>Rooms in the middle of a game\<close>

text \<open>Users 1, 2, ... at the seats 0, 1, ..., all in the game, with the given hands.\<close>

definition desk_seat :: "nat \<Rightarrow> poker_card list \<Rightarrow> seat" where
  "desk_seat i hand = GameSeat\<lparr>m_player := Some (int i + 1), m_seat_stauts := st_seated OR st_ingame OR st_cur_join,
     m_ingame_player_id := int i + 1, m_handcards_total := hand, seat_score := 40, m_dig_card := hd hand\<rparr>"

definition desk_player :: "nat \<Rightarrow> player" where
  "desk_player i = (sample_player (int i + 1) 1)\<lparr>m_cur_status := PLAYER_PLAYING, m_pGameSeat := Some i, m_cur_carry := 800\<rparr>"

definition desk_room :: "u32 \<Rightarrow> poker_card list list \<Rightarrow> poker_card list \<Rightarrow> room" where
  "desk_room round dealt bottom =
     (let n = length dealt
      in sample_open\<lparr>m_game_status := GAME_WAIT_MASK OR round, m_wait_round_timer := Some 0, m_active_seatnum := 0,
        m_bottom_cards := bottom, m_pokercard_pool := [PokerCard 3 9, PokerCard 4 8], m_joker_card := PokerCard 2 6,
        m_time_game_begin := 1000, m_draw_sec := 1200,
        m_seats := map (\<lambda>i. desk_seat i (dealt ! i)) [0..<n] @ replicate (5 - n) GameSeat,
        m_all_player := map (\<lambda>i. int i + 1) [0..<n],
        players := (\<lambda>u. if 1 \<le> u \<and> u \<le> int n then Some (desk_player (nat (u - 1))) else None)\<rparr>)"

definition low_hand :: "poker_card list" where
  "low_hand = [PokerCard 1 2, PokerCard 2 5, PokerCard 3 11]"

text \<open>Three players, the turn is user 1's, who has dug, and one card is left at the bottom.\<close>

definition last_card_room :: room where
  "last_card_room = desk_room GAME_ACTIVE2 [low_hand, low_hand, low_hand] [PokerCard 4 3]"

text \<open>Two players, user 1 has declared.\<close>

definition declared_room :: room where
  "declared_room = (desk_room GAME_DECLARE [low_hand, low_hand] [PokerCard 4 3])\<lparr>m_apply_declare_seatnum := 0\<rparr>"

definition low_groups :: "pb_card_group list" where
  "low_groups = copy_group_to_msg [CardGroup 0 low_hand] []"

definition lost_accounts :: "room \<Rightarrow> (int \<times> int) list" where
  "lost_accounts g = concat (map (\<lambda>(u, m). case m of GameOver q \<Rightarrow> map (\<lambda>l. (li_userid l, li_loseaccount l)) (go_loserinfo q) | _ \<Rightarrow> [])
     (sent g))"

end
