(* ===== verification/Area_Manager.thy ===== *)
theory Area_Manager
  imports Game_Sample
begin

text \<open>
  The rooms of a game server: \<open>class GG_GameArea_Manager\<close> (\<open>GG_GameArea_Manager.cpp\<close>), which opens
  them, hands each request to the room it names and checks all rooms from time to time, and the branch of
  \<open>GG_GameArea::on_player_enter\<close> that takes a user out of another room first.

  The rooms share the singleton \<open>CombinationInstance\<close>: it is part of the manager's state, and a room
  gets it for the time of an event. Whether a user is in a room is known to \<open>GamePlayer_Manager\<close>, which is not part of
  the repository: it is the argument \<open>in_room\<close>. The rows of the data base are the arguments \<open>ids\<close> and \<open>load_info\<close>.
\<close>

section \<open>State and operations\<close>

datatype manager_msg =
    Flush_room_alive int "(int \<times> nat) list"                  \<comment> \<open>port; room and players at its desk\<close>
  | Flush_room_status int "(int \<times> nat \<times> room_status) list"

text \<open>\<open>m_game_area\<close> in the order of the hash map; \<open>am_refused\<close> are the answers the manager gives itself.\<close>

record area_manager =
  m_game_area :: "(int \<times> room) list"
  m_svr_port :: int
  m_last_flush_time :: int
  am_combination :: combination
  am_refused :: "request list"
  am_sent :: "manager_msg list"

definition GG_GameArea_Manager :: "int \<Rightarrow> area_manager" where
  "GG_GameArea_Manager port = \<lparr>m_game_area = [], m_svr_port = port, m_last_flush_time = 0,
     am_combination = \<lparr>cb_joker_cards = [], cb_joker_combines = [], cb_joker_point = 0\<rparr>, am_refused = [], am_sent = []\<rparr>"

definition put_area :: "int \<Rightarrow> room \<Rightarrow> (int \<times> room) list \<Rightarrow> (int \<times> room) list" where
  "put_area i g = map (\<lambda>(j, h). if j = i then (j, g) else (j, h))"

text \<open>An event of one room.\<close>

definition in_area :: "(room \<Rightarrow> room option) \<Rightarrow> int \<Rightarrow> area_manager \<Rightarrow> area_manager option" where
  "in_area f i m = do {
     g \<leftarrow> map_of (m_game_area m) i;
     g \<leftarrow> f (g\<lparr>m_combination := am_combination m\<rparr>);
     Some (m\<lparr>m_game_area := put_area i g (m_game_area m), am_combination := m_combination g\<rparr>)
   }"

text \<open>A room that cannot be loaded is left out, one that is there already is an assertion.\<close>

definition add_game_area :: "(int \<Rightarrow> area_info option) \<Rightarrow> (nat \<Rightarrow> nat) \<Rightarrow> int \<Rightarrow> area_manager \<Rightarrow> area_manager option" where
  "add_game_area load_info rs i m =
     (case load_info i of
        None \<Rightarrow> Some m
      | Some info \<Rightarrow> do {
          g \<leftarrow> open_area rs info;
          if map_of (m_game_area m) i \<noteq> None then None
          else Some (m\<lparr>m_game_area := m_game_area m @ [(i, g)]\<rparr>)
        })"

definition load_area :: "int list option \<Rightarrow> (int \<Rightarrow> area_info option) \<Rightarrow> (int \<Rightarrow> nat \<Rightarrow> nat) \<Rightarrow> area_manager \<Rightarrow> area_manager option" where
  "load_area ids load_info rs m =
     (case ids of None \<Rightarrow> Some m | Some ids \<Rightarrow> for_each (\<lambda>i. add_game_area load_info (rs i) i) ids m)"

definition is_area_exist :: "int \<Rightarrow> area_manager \<Rightarrow> bool" where
  "is_area_exist i m = (map_of (m_game_area m) i \<noteq> None)"

text \<open>\<open>on_recv_msg\<close> of a room that the manager has, \<open>GG_ERROR_INVALID_ROOMID\<close> otherwise.\<close>

definition recv_in_area :: "game_env \<Rightarrow> int \<Rightarrow> request \<Rightarrow> area_manager \<Rightarrow> area_manager option" where
  "recv_in_area env i r m =
     (if is_area_exist i m then in_area (on_recv_msg env r) i m else Some (m\<lparr>am_refused := am_refused m @ [r]\<rparr>))"

definition enter_area :: "game_env \<Rightarrow> (int \<Rightarrow> int option) \<Rightarrow> int \<Rightarrow> int \<Rightarrow> string \<Rightarrow> int \<Rightarrow> area_manager \<Rightarrow> area_manager option" where
  "enter_area env in_room i u name session m = do {
     g \<leftarrow> map_of (m_game_area m) i;
     case (find_player u g, in_room u) of
       (None, Some room_id) \<Rightarrow> do {
         m \<leftarrow> recv_in_area env room_id (ApplyQuitRoom u) m;
         in_area (on_new_player_enter env u name session) i m
       }
     | _ \<Rightarrow> in_area (on_player_enter env u name session) i m
   }"

text \<open>
  The room of a message: the macros read it from the commands they list and give 0 for the others, among
  them that of presented chips.
\<close>

definition parse_rid_uid_from_msg :: "request \<Rightarrow> int \<Rightarrow> int" where
  "parse_rid_uid_from_msg r i = (case r of Relay (ApplyPresentChips _ _ _) \<Rightarrow> 0 | _ \<Rightarrow> i)"

definition dispatch_area_msg :: "game_env \<Rightarrow> (int \<Rightarrow> int option) \<Rightarrow> int \<Rightarrow> request \<Rightarrow> area_manager \<Rightarrow> area_manager option" where
  "dispatch_area_msg env in_room i r m =
     (case r of
        ApplyEnterRoom u name session \<Rightarrow>
          if is_area_exist i m then enter_area env in_room i u name session m else recv_in_area env i r m
      | _ \<Rightarrow> recv_in_area env (parse_rid_uid_from_msg r i) r m)"

definition close_room :: "int \<Rightarrow> area_manager \<Rightarrow> area_manager option" where
  "close_room i m =
     (if is_area_exist i m then Some (m\<lparr>m_game_area := filter (\<lambda>(j, _). j \<noteq> i) (m_game_area m)\<rparr>) else None)"

definition am_check_player_online :: "game_env \<Rightarrow> area_manager \<Rightarrow> area_manager option" where
  "am_check_player_online env m = for_each (in_area (check_player_online env)) (map fst (m_game_area m)) m"

definition send_flush_room_alive :: "area_manager \<Rightarrow> area_manager" where
  "send_flush_room_alive m = m\<lparr>am_sent := am_sent m @ [Flush_room_alive (m_svr_port m)
     (map (\<lambda>(_, g). (m_area_id (m_area_info g), get_seated_count g)) (m_game_area m))]\<rparr>"

definition send_flush_room_status :: "area_manager \<Rightarrow> area_manager" where
  "send_flush_room_status m = m\<lparr>am_sent := am_sent m @ [Flush_room_status (m_svr_port m)
     (map (\<lambda>(_, g). (m_area_id (m_area_info g), get_seated_count g, m_notify_room_type g)) (m_game_area m))]\<rparr>"

definition FLUSH_ROOM_INTERVAL :: int where "FLUSH_ROOM_INTERVAL = 100"

definition am_handle_timeout :: "game_env \<Rightarrow> area_manager \<Rightarrow> area_manager option" where
  "am_handle_timeout env m = do {
     m \<leftarrow> am_check_player_online env m;
     Some (if m_last_flush_time m + FLUSH_ROOM_INTERVAL \<le> now env
           then send_flush_room_status (send_flush_room_alive (m\<lparr>m_last_flush_time := now env\<rparr>)) else m)
   }"

text \<open>
  The queue of the manager: the \<open>switch\<close> of \<open>dispatch_msg\<close> has a body but no label, so that a message
  of the queue is taken out and thrown away.
\<close>

fun am_dispatch_msg :: "(int \<times> request) list \<Rightarrow> area_manager \<Rightarrow> area_manager" where
  "am_dispatch_msg [] m = m"
| "am_dispatch_msg (_ # q) m = am_dispatch_msg q m"

section \<open>Runs of a server\<close>

inductive server_runs :: "area_manager \<Rightarrow> bool" where
  opened: "load_area ids load_info rs (GG_GameArea_Manager port) = Some m \<Longrightarrow> server_runs (send_flush_room_alive m)"
| request: "server_runs m \<Longrightarrow> makes_fresh env \<Longrightarrow> dispatch_area_msg env in_room i r m = Some m' \<Longrightarrow> server_runs m'"
| room_timer: "server_runs m \<Longrightarrow> makes_fresh env \<Longrightarrow> in_area (on_wait_round_timeout env) i m = Some m' \<Longrightarrow> server_runs m'"
| timer: "server_runs m \<Longrightarrow> makes_fresh env \<Longrightarrow> am_handle_timeout env m = Some m' \<Longrightarrow> server_runs m'"
| closed: "server_runs m \<Longrightarrow> close_room i m = Some m' \<Longrightarrow> server_runs m'"

text \<open>The rooms have different ids, and each of them is one that a room alone can reach.\<close>

definition areas_ok :: "area_manager \<Rightarrow> bool" where
  "areas_ok m \<longleftrightarrow> distinct (map fst (m_game_area m)) \<and> (\<forall>(i, g) \<in> set (m_game_area m). reachable g)"

lemma put_area_fst [simp]: "map fst (put_area i g xs) = map fst xs"
  by (induction xs) (auto simp: put_area_def)

lemma map_of_put_area: "map_of (put_area i g xs) j = (if j = i \<and> map_of xs i \<noteq> None then Some g else map_of xs j)"
  by (induction xs) (auto simp: put_area_def)

lemma set_put_area: "set (put_area i g xs) \<subseteq> insert (i, g) (set xs)"
  by (auto simp: put_area_def split: if_splits)

lemma areas_ok_fields [simp]:
  "areas_ok (m\<lparr>am_sent := x\<rparr>) = areas_ok m" "areas_ok (m\<lparr>am_refused := y\<rparr>) = areas_ok m"
  "areas_ok (m\<lparr>m_last_flush_time := z\<rparr>) = areas_ok m"
  by (simp_all add: areas_ok_def)

lemma areas_ok_room: "areas_ok m \<Longrightarrow> map_of (m_game_area m) i = Some g \<Longrightarrow> reachable g"
  unfolding areas_ok_def using map_of_SomeD by fastforce

text \<open>What an event of one room does: that room alone changes.\<close>

lemma in_area_SomeE:
  assumes "in_area f i m = Some m'"
  obtains g g' where "map_of (m_game_area m) i = Some g" "f (g\<lparr>m_combination := am_combination m\<rparr>) = Some g'"
    "m' = m\<lparr>m_game_area := put_area i g' (m_game_area m), am_combination := m_combination g'\<rparr>"
  using assms by (auto simp: in_area_def bind_Some)

lemma in_area_rooms:
  assumes "in_area f i m = Some m'"
  shows "map fst (m_game_area m') = map fst (m_game_area m)"
    and "j \<noteq> i \<Longrightarrow> map_of (m_game_area m') j = map_of (m_game_area m) j"
  using assms by (auto elim!: in_area_SomeE simp: map_of_put_area)

lemma in_area_ok:
  assumes "in_area f i m = Some m'" "areas_ok m" "makes_fresh env"
    and "\<And>g g'. map_of (m_game_area m) i = Some g \<Longrightarrow> f (g\<lparr>m_combination := am_combination m\<rparr>) = Some g' \<Longrightarrow>
      \<exists>ev. handle env ev (g\<lparr>m_combination := am_combination m\<rparr>) = Some g'"
  shows "areas_ok m'"
proof -
  obtain g g' where g: "map_of (m_game_area m) i = Some g" "f (g\<lparr>m_combination := am_combination m\<rparr>) = Some g'"
    and m': "m' = m\<lparr>m_game_area := put_area i g' (m_game_area m), am_combination := m_combination g'\<rparr>"
    using assms(1) by (rule in_area_SomeE)
  have "reachable g'"
    using assms(4) [OF g] reachable.step [OF reachable.shared [OF areas_ok_room [OF assms(2) g(1)]] assms(3)] by blast
  then show ?thesis
    using assms(2) set_put_area [of i g' "m_game_area m"] by (auto simp: areas_ok_def m')
qed

lemma recv_in_area_ok:
  assumes "recv_in_area env i r m = Some m'" "areas_ok m" "makes_fresh env"
  shows "areas_ok m'"
proof (cases "is_area_exist i m")
  case True
  then have "in_area (on_recv_msg env r) i m = Some m'"
    using assms(1) by (simp add: recv_in_area_def)
  then show ?thesis
    using assms(2,3) by (rule in_area_ok) (rule exI [of _ "Request r"], simp)
qed (use assms in \<open>auto simp: recv_in_area_def\<close>)

text \<open>A user who is not in the room is not there after a request to quit it either.\<close>

lemma quit_absent:
  assumes "recv_in_area env j (ApplyQuitRoom u) m = Some m'" "map_of (m_game_area m) i = Some g" "find_player u g = None"
  shows "\<exists>g'. map_of (m_game_area m') i = Some g' \<and> find_player u g' = None"
proof (cases "i = j")
  case True
  then have "in_area (on_recv_msg env (ApplyQuitRoom u)) i m = Some m'"
    using assms by (simp add: recv_in_area_def is_area_exist_def)
  then obtain g' where "on_recv_msg env (ApplyQuitRoom u) (g\<lparr>m_combination := am_combination m\<rparr>) = Some g'"
    "map_of (m_game_area m') i = Some g'"
    using assms(2) by (auto elim!: in_area_SomeE simp: map_of_put_area)
  then show ?thesis
    using assms(3) by (auto simp: on_player_exit_def find_player_def reply_def split: if_splits)
next
  case False
  then show ?thesis
    using assms in_area_rooms(2) by (auto simp: recv_in_area_def split: if_splits)
qed

lemma enter_area_ok:
  assumes "enter_area env in_room i u name session m = Some m'" "areas_ok m" "makes_fresh env"
  shows "areas_ok m'"
proof -
  obtain g where g: "map_of (m_game_area m) i = Some g"
    using assms(1) by (auto simp: enter_area_def bind_Some)
  show ?thesis
  proof (cases "find_player u g = None \<and> in_room u \<noteq> None")
    case True
    then obtain j m1 where q: "recv_in_area env j (ApplyQuitRoom u) m = Some m1"
      and e: "in_area (on_new_player_enter env u name session) i m1 = Some m'"
      using assms(1) g by (auto simp: enter_area_def bind_Some)
    have "areas_ok m1"
      by (rule recv_in_area_ok [OF q assms(2,3)])
    with e show ?thesis
    proof (rule in_area_ok [OF _ _ assms(3)])
      fix h h'
      assume h: "map_of (m_game_area m1) i = Some h" "on_new_player_enter env u name session (h\<lparr>m_combination := am_combination m1\<rparr>) = Some h'"
      have "find_player u (h\<lparr>m_combination := am_combination m1\<rparr>) = None"
        using quit_absent [OF q g] True h(1) by (auto simp: find_player_def)
      then show "\<exists>ev. handle env ev (h\<lparr>m_combination := am_combination m1\<rparr>) = Some h'"
        using h(2) by (intro exI [of _ "Request (ApplyEnterRoom u name session)"]) (simp add: on_player_enter_def)
    qed
  next
    case False
    then have "in_area (on_player_enter env u name session) i m = Some m'"
      using assms(1) g by (auto simp: enter_area_def split: option.splits)
    then show ?thesis
      using assms(2,3) by (rule in_area_ok) (rule exI [of _ "Request (ApplyEnterRoom u name session)"], simp)
  qed
qed

lemma dispatch_area_msg_cases:
  assumes "dispatch_area_msg env in_room i r m = Some m'"
  shows "(\<exists>u name session. r = ApplyEnterRoom u name session \<and> enter_area env in_room i u name session m = Some m') \<or>
    recv_in_area env (parse_rid_uid_from_msg r i) r m = Some m'"
proof (cases "\<exists>u name session. r = ApplyEnterRoom u name session \<and> is_area_exist i m")
  case True
  then show ?thesis using assms by (elim exE) (simp add: dispatch_area_msg_def)
next
  case False
  then have "dispatch_area_msg env in_room i r m = recv_in_area env (parse_rid_uid_from_msg r i) r m"
    by (cases r) (simp_all add: dispatch_area_msg_def parse_rid_uid_from_msg_def)
  then show ?thesis using assms by simp
qed

lemma dispatch_area_msg_ok:
  assumes "dispatch_area_msg env in_room i r m = Some m'" "areas_ok m" "makes_fresh env"
  shows "areas_ok m'"
  using dispatch_area_msg_cases [OF assms(1)] recv_in_area_ok enter_area_ok assms(2,3) by blast

lemma check_online_ok:
  assumes "am_check_player_online env m = Some m'" "areas_ok m" "makes_fresh env"
  shows "areas_ok m'"
  using assms(1) unfolding am_check_player_online_def
proof (rule for_each_invariant)
  fix i m m'
  assume "in_area (check_player_online env) i m = Some m'" "areas_ok m"
  then show "areas_ok m'"
    using assms(3) by (rule in_area_ok) (rule exI [of _ CheckOnline], simp)
qed (rule assms(2))

lemma load_area_ok:
  assumes "load_area ids load_info rs m = Some m'" "areas_ok m"
  shows "areas_ok m'"
proof (cases ids)
  case (Some js)
  have "for_each (\<lambda>i. add_game_area load_info (rs i) i) js m = Some m'"
    using assms(1) Some by (simp add: load_area_def)
  then show ?thesis
  proof (rule for_each_invariant)
    fix i m m'
    assume "add_game_area load_info (rs i) i m = Some m'" "areas_ok m"
    then show "areas_ok m'"
      by (auto simp: add_game_area_def areas_ok_def bind_Some map_of_eq_None_iff intro: reachable.opened split: option.splits if_splits)
  qed (rule assms(2))
qed (use assms in \<open>simp add: load_area_def\<close>)

lemma server_runs_areas: "server_runs m \<Longrightarrow> areas_ok m"
proof (induction rule: server_runs.induct)
  case (opened ids load_info rs port m)
  then show ?case
    using load_area_ok [OF opened] by (simp add: send_flush_room_alive_def areas_ok_def GG_GameArea_Manager_def)
next
  case (room_timer m env i m')
  show ?case
    using room_timer.hyps(3) room_timer.IH room_timer.hyps(2) by (rule in_area_ok) (rule exI [of _ Timeout], simp)
next
  case (timer m env m')
  then show ?case
    using check_online_ok by (auto simp: am_handle_timeout_def bind_Some send_flush_room_alive_def send_flush_room_status_def)
next
  case (closed m i m')
  then show ?case
    by (auto simp: close_room_def areas_ok_def distinct_map_filter split: if_splits)
qed (rule dispatch_area_msg_ok)

section \<open>What a request does to the other rooms\<close>

text \<open>A room is changed by its own requests, and by a user of it who enters another one.\<close>

lemma recv_in_area_other:
  assumes "recv_in_area env i r m = Some m'" "j \<noteq> i"
  shows "map_of (m_game_area m') j = map_of (m_game_area m) j"
  using assms in_area_rooms(2) by (auto simp: recv_in_area_def split: if_splits)

lemma dispatch_area_msg_other:
  assumes "dispatch_area_msg env in_room i r m = Some m'" "j \<noteq> parse_rid_uid_from_msg r i"
    and "\<And>u name session. r = ApplyEnterRoom u name session \<Longrightarrow> in_room u \<noteq> Some j"
  shows "map_of (m_game_area m') j = map_of (m_game_area m) j"
  using dispatch_area_msg_cases [OF assms(1)]
proof (elim disjE exE conjE)
  fix u name session
  assume r: "r = ApplyEnterRoom u name session" and e: "enter_area env in_room i u name session m = Some m'"
  then have "j \<noteq> i" "in_room u \<noteq> Some j"
    using assms(2,3) by (simp_all add: parse_rid_uid_from_msg_def)
  moreover obtain g where "map_of (m_game_area m) i = Some g"
    using e by (auto simp: enter_area_def bind_Some)
  ultimately show ?thesis
    using e in_area_rooms(2) recv_in_area_other by (auto simp: enter_area_def bind_Some split: option.splits)
qed (use recv_in_area_other assms(2) in blast)

text \<open>A request for a room that the server has not got changes no room.\<close>

lemma dispatch_unknown_room:
  assumes "map_of (m_game_area m) (parse_rid_uid_from_msg r i) = None"
  shows "dispatch_area_msg env in_room i r m = Some (m\<lparr>am_refused := am_refused m @ [r]\<rparr>)"
  using assms by (cases r) (simp_all add: dispatch_area_msg_def parse_rid_uid_from_msg_def recv_in_area_def is_area_exist_def)

text \<open>Presented chips are refused, whatever room they are for, unless there is a room 0.\<close>

lemma present_chips_refused:
  assumes "map_of (m_game_area m) 0 = None"
  shows "dispatch_area_msg env in_room i (Relay (ApplyPresentChips u giftid acceptors)) m =
    Some (m\<lparr>am_refused := am_refused m @ [Relay (ApplyPresentChips u giftid acceptors)]\<rparr>)"
  using assms by (intro dispatch_unknown_room) (simp add: parse_rid_uid_from_msg_def)

text \<open>
  The room that a user is in does not let them go in the middle of a game. \<open>on_player_enter\<close> of another
  room asks for it, does not look at the answer and takes the user in.
\<close>

definition held :: "int \<Rightarrow> room \<Rightarrow> bool" where
  "held u g \<longleftrightarrow> u \<in> set (m_all_player g) \<and>
     (\<exists>p i. players g u = Some p \<and> m_pGameSeat p = Some i \<and> i < length (m_seats g) \<and> m_player (m_seats g ! i) = Some u \<and>
       \<not> is_game_over g \<and> is_in_game (m_seats g ! i) \<and> \<not> is_declareing g)"

lemma held_exit: "held u g \<Longrightarrow> on_player_exit env u g = Some (reply GG_ERROR_GAME_NOT_OVER g)"
  by (auto simp: held_def on_player_exit_def find_player_def player_stand_up_def leave_game_def get_seat_number_def)

lemma enter_leaves_in_two_rooms:
  assumes m: "map_of (m_game_area m) j = Some h" "held u h" "in_room u = Some j"
    and e: "dispatch_area_msg env in_room i (ApplyEnterRoom u name session) m = Some m'"
    and i: "i \<noteq> j" "map_of (m_game_area m) i = Some g" "find_player u g = None"
  shows "map_of (m_game_area m') j = Some (reply GG_ERROR_GAME_NOT_OVER (h\<lparr>m_combination := am_combination m\<rparr>))"
proof -
  have "held u (h\<lparr>m_combination := am_combination m\<rparr>)"
    using m(2) by (simp add: held_def is_game_over_def is_declareing_def)
  then have "recv_in_area env j (ApplyQuitRoom u) m =
      Some (m\<lparr>m_game_area := put_area j (reply GG_ERROR_GAME_NOT_OVER (h\<lparr>m_combination := am_combination m\<rparr>)) (m_game_area m),
        am_combination := am_combination m\<rparr>)"
    using m(1) held_exit by (simp add: recv_in_area_def is_area_exist_def in_area_def reply_def)
  then show ?thesis
    using e i m(1,3) by (auto simp: dispatch_area_msg_def is_area_exist_def enter_area_def map_of_put_area elim!: in_area_SomeE)
qed

lemma am_dispatch_msg_ignores: "am_dispatch_msg q m = m"
  by (induction q) auto

text \<open>The joker point and the jokers are written before they are read, whatever the last room left there.\<close>

lemma search_all_group_shared:
  assumes "cb_joker_point cb = cb_joker_point cb'"
  shows "search_all_group cb hand stop acc = search_all_group cb' hand stop acc"
proof -
  have js: "search_joker_cards cb cards out = search_joker_cards cb' cards out" for cards out
    using assms by (simp add: search_joker_cards_def)
  have "cb\<lparr>cb_joker_cards := js, cb_joker_combines := cs\<rparr> = cb'\<lparr>cb_joker_cards := js, cb_joker_combines := cs\<rparr>" for js cs
    using assms by simp
  then show ?thesis
    unfolding search_all_group_def js by metis
qed

lemma default_declare_shared: "default_declare cb hand jp = default_declare cb' hand jp"
  by (simp add: default_declare_def search_all_group_shared [of "cb\<lparr>cb_joker_point := jp\<rparr>" "cb'\<lparr>cb_joker_point := jp\<rparr>"])

section \<open>A sample server\<close>

definition sample_server :: area_manager where
  "sample_server = send_flush_room_alive ((GG_GameArea_Manager 7001)\<lparr>m_game_area := [(1, sample_open), (2, sample_open)]\<rparr>)"

lemma sample_server_runs: "server_runs sample_server"
  unfolding sample_server_def
  by (rule server_runs.opened [of "Some [1, 2]" "\<lambda>_. Some sample_info" "\<lambda>_ _. 0"])
    (simp add: load_area_def add_game_area_def sample_open_area GG_GameArea_Manager_def)

lemma sample_server_enter:
  "\<exists>m g. dispatch_area_msg sample_env (\<lambda>_. None) 1 (ApplyEnterRoom 1 ''a'' 1) sample_server = Some m \<and>
     map_of (m_game_area m) 1 = Some g \<and> m_all_player g = [1]"
proof -
  have "map_option m_all_player (handle sample_env (Request (ApplyEnterRoom 1 ''a'' 1)) sample_open) = Some [1]"
    by code_simp
  then obtain g where "on_player_enter sample_env 1 ''a'' 1 sample_open = Some g" "m_all_player g = [1]"
    by auto
  moreover have "sample_open\<lparr>m_combination := am_combination sample_server\<rparr> = sample_open"
    by (simp add: sample_open_def sample_server_def send_flush_room_alive_def GG_GameArea_Manager_def)
  ultimately show ?thesis
    by (simp add: dispatch_area_msg_def enter_area_def in_area_def is_area_exist_def sample_server_def send_flush_room_alive_def
      GG_GameArea_Manager_def put_area_def split: option.split)
qed

end
