(* ===== verification/Game_Play.thy ===== *)
theory Game_Play
  imports Game_Timer
begin

text \<open>
  What the actions of a game do: the seat that is next, the order of dealing, the cards dug, put
  on the pool and shuffled back, who sees a card, and the chips of the losers and the winner.
\<close>

section \<open>Seats in order\<close>

text \<open>The loop over the seats ends with the next seat of the kind looked for, or back where it began.\<close>

definition next_from :: "(nat \<Rightarrow> bool) \<Rightarrow> nat \<Rightarrow> nat \<Rightarrow> nat \<Rightarrow> bool" where
  "next_from P n i j \<longleftrightarrow> (\<exists>k. 1 \<le> k \<and> k \<le> n \<and> j = (i + k) mod n \<and> (P j \<or> j = i) \<and>
     (\<forall>m. 1 \<le> m \<longrightarrow> m < k \<longrightarrow> \<not> P ((i + m) mod n)))"

lemma next_from_less: "next_from P n i j \<Longrightarrow> i < n \<Longrightarrow> j < n"
  by (cases n) (auto simp: next_from_def)

lemma next_seat_loop_finds:
  assumes n: "length (m_seats g) = n" and "i < n" "1 \<le> k" "k \<le> n" "fuel = Suc (n - k)"
    and none: "\<forall>m. 1 \<le> m \<longrightarrow> m < k \<longrightarrow> \<not> P ((i + m) mod n)"
  shows "\<exists>j. next_seat_loop P g i ((i + k) mod n) fuel = Some j \<and> next_from P n i j"
  using assms(3-)
proof (induction fuel arbitrary: k)
  case (Suc fuel)
  let ?j = "(i + k) mod n"
  show ?case
  proof (cases "?j = i \<or> P ?j")
    case True
    then have "next_from P n i ?j" using Suc.prems unfolding next_from_def by blast
    then show ?thesis using True by auto
  next
    case False
    then have "k < n" using Suc.prems(2) assms(2) by (cases "k = n") auto
    moreover have "\<forall>m. 1 \<le> m \<longrightarrow> m < Suc k \<longrightarrow> \<not> P ((i + m) mod n)"
      using Suc.prems(4) False less_Suc_eq by auto
    moreover from \<open>k < n\<close> have "1 \<le> Suc k" "Suc k \<le> n" "fuel = Suc (n - Suc k)" using Suc.prems(3) by simp_all
    ultimately obtain j where "next_seat_loop P g i ((i + Suc k) mod n) fuel = Some j" "next_from P n i j"
      using Suc.IH [of "Suc k"] by blast
    moreover have "next_seat_number ?j g = (i + Suc k) mod n"
      using n by (simp add: next_seat_number_def mod_Suc_eq)
    ultimately show ?thesis using False by auto
  qed
qed simp

lemma next_seat_found:
  assumes "i < length (m_seats g)"
  shows "\<exists>j. next_seat_loop P g i (next_seat_number i g) (length (m_seats g)) = Some j \<and> next_from P (length (m_seats g)) i j"
  using next_seat_loop_finds [OF refl assms, of 1 "length (m_seats g)" P] assms by (simp add: next_seat_number_def)

text \<open>The order of dealing: the seats taken, round the desk from the dealer.\<close>

lemma deal_order_loop_order:
  assumes n: "length (m_seats g) = n" and "d < n" "k < n" "fuel = n - k"
  shows "deal_order_loop g d ((d + k) mod n) order fuel =
    Some (order @ filter (\<lambda>j. is_seated (m_seats g ! j)) (map (\<lambda>m. (d + m) mod n) [k..<n]))"
  using assms(3,4)
proof (induction fuel arbitrary: k order)
  case (Suc fuel)
  let ?j = "(d + k) mod n"
  have next_j: "next_seat_number ?j g = (d + Suc k) mod n"
    using n by (simp add: next_seat_number_def mod_Suc_eq)
  have split: "[k..<n] = k # [Suc k..<n]" using Suc.prems(1) by (simp add: upt_conv_Cons)
  show ?case
  proof (cases "Suc k = n")
    case True
    then have "(d + Suc k) mod n = d" using assms(2) by simp
    then show ?thesis using next_j True by (simp add: Let_def split)
  next
    case False
    then have k: "Suc k < n" using Suc.prems(1) by simp
    have "(d + Suc k) mod n \<noteq> d"
    proof
      assume *: "(d + Suc k) mod n = d"
      show False
      proof (cases "d + Suc k < n")
        case False
        then have "(d + Suc k) mod n = d + Suc k - n" using k assms(2) by (simp add: mod_if)
        then show False using * k False by simp
      qed (use * in simp)
    qed
    moreover from k have "fuel = n - Suc k" using Suc.prems(2) by simp
    ultimately show ?thesis using Suc.IH [OF k] next_j by (simp add: Let_def split)
  qed
qed simp

lemma deal_order_found:
  assumes "seat_index (m_dealer_index g) g = Some d"
  shows "get_player_deal_order g =
    Some (filter (\<lambda>j. is_seated (m_seats g ! j)) (map (\<lambda>m. (d + m) mod length (m_seats g)) [0..<length (m_seats g)]))"
proof -
  have d: "d < length (m_seats g)" using assms by (auto simp: seat_index_def split: if_splits)
  then have "0 < length (m_seats g)" by linarith
  from deal_order_loop_order [OF refl d this refl, of "[]"] show ?thesis using assms d by (simp add: get_player_deal_order_def)
qed

section \<open>Messages\<close>

lemma fold_send_sent: "sent (fold (\<lambda>r. send_to (f r) (m r)) rs g) = sent g @ map (\<lambda>r. (f r, m r)) rs"
  by (induction rs arbitrary: g) (simp_all add: send_to_def)

lemma fold_send_rest: "\<exists>ms. fold (\<lambda>r. send_to (f r) (m r)) rs g = g\<lparr>sent := ms\<rparr>"
proof (induction rs arbitrary: g)
  case Nil
  show ?case by (rule exI [of _ "sent g"]) simp
next
  case (Cons r rs)
  obtain ms where "fold (\<lambda>r. send_to (f r) (m r)) rs (send_to (f r) (m r) g) = (send_to (f r) (m r) g)\<lparr>sent := ms\<rparr>"
    using Cons by blast
  then have "fold (\<lambda>r. send_to (f r) (m r)) (r # rs) g = g\<lparr>sent := ms\<rparr>" by (simp add: send_to_def)
  then show ?case by blast
qed

lemma broadcast_rest: "\<exists>ms. broadcast_message m g = g\<lparr>sent := ms\<rparr>" "\<exists>ms. broadcast_player_digcard u c t g = g\<lparr>sent := ms\<rparr>"
  using fold_send_rest by (auto simp: broadcast_message_def broadcast_player_digcard_def)

lemma broadcast_same: "m_bottom_cards (broadcast_message m g) = m_bottom_cards g" "m_pokercard_pool (broadcast_message m g) = m_pokercard_pool g"
    "m_seats (broadcast_message m g) = m_seats g" "m_chips_pool (broadcast_message m g) = m_chips_pool g"
    "m_active_seatnum (broadcast_message m g) = m_active_seatnum g" "players (broadcast_message m g) = players g"
    "m_area_info (broadcast_message m g) = m_area_info g"
  using broadcast_rest(1) [of m g] by auto

section \<open>Turns\<close>

text \<open>A card dug from the bottom.\<close>

lemma dig_bottom_result:
  assumes p: "players g u = Some p" "m_pGameSeat p = Some i" "i < length (m_seats g)" "is_active_player p g" "is_wait_active1 g"
    and cards: "m_bottom_cards g = c # rest" "m_pokercard_pool g \<noteq> []"
  shows "player_dig_card env u DIG_BOTTOM g = Some (g\<lparr>m_bottom_cards := rest, m_is_first_pool_card := False,
    m_seats := (m_seats g)[i := (m_seats g ! i)\<lparr>seat_score := 40, m_dig_card := c,
      m_handcards_total := sort (m_handcards_total (m_seats g ! i) @ [c])\<rparr>],
    m_game_status := (GAME_WAIT_MASK OR GAME_ACTIVE2) OR (m_game_status g AND NOT GAME_ROUND_MASK),
    m_wait_begin := now env,
    m_wait_round_timer := Some (if is_player_trusteed_on p then 1000 else m_time_active2 (m_game_wait_interval (m_area_info g)) + 1500),
    replies := replies g @ [GG_ERROR_SUCCESS],
    sent := sent g @ map (\<lambda>r. (r, PlayerDigCard u (if r \<noteq> u then \<lparr>mc_point = 0, mc_color = 0\<rparr> else to_msg_card c) DIG_BOTTOM)) (receivers g)\<rparr>)"
proof -
  have a: "m_active_seatnum g = int i" using p(2,4) by (simp add: is_active_player_def get_seat_number_def split: if_splits)
  let ?g1 = "(reply GG_ERROR_SUCCESS (g\<lparr>m_bottom_cards := rest\<rparr>))\<lparr>m_is_first_pool_card := False\<rparr>"
  obtain ms where ms: "broadcast_player_digcard u (to_msg_card c) 0 (dig_card i c ?g1) = (dig_card i c ?g1)\<lparr>sent := ms\<rparr>"
    using broadcast_rest(2) by blast
  then have "ms = sent (broadcast_player_digcard u (to_msg_card c) 0 (dig_card i c ?g1))" by simp
  then have "ms = sent g @ map (\<lambda>r. (r, PlayerDigCard u (if r \<noteq> u then \<lparr>mc_point = 0, mc_color = 0\<rparr> else to_msg_card c) DIG_BOTTOM)) (receivers g)"
    unfolding broadcast_player_digcard_def fold_send_sent by (simp add: dig_card_def upd_seat_def reply_def receivers_def)
  then show ?thesis
    using p cards a ms
    by (simp add: player_dig_card_def take_dug_card_def give_dug_card_def Let_def seat_index_def reply_def dig_card_def
        upd_seat_def wait_for_round_def set_game_status_def wait_ms_def)
qed

text \<open>Who sees the dug card.\<close>

lemma dig_messages:
  assumes "player_dig_card env u t g = Some g'"
  shows "\<exists>c. sent g' = sent g @ map (\<lambda>r. (r, PlayerDigCard u (if r \<noteq> u then \<lparr>mc_point = 0, mc_color = 0\<rparr> else c) t)) (receivers g)
    \<or> sent g' = sent g"
proof -
  obtain p where p: "players g u = Some p" using assms by (auto simp: player_dig_card_def bind_Some)
  consider "sent g' = sent g" | c g1 where "take_dug_card t g = (c, g1)" "give_dug_card env u (is_player_trusteed_on p) t c g1 = Some g'"
    using assms p by (auto simp: player_dig_card_def reply_def simp del: if_split split: if_split_asm prod.splits)
  then show ?thesis
  proof cases
    case 2
    have g1: "sent g1 = sent g" "receivers g1 = receivers g"
      using 2(1) by (auto simp: take_dug_card_def receivers_def split: if_split_asm)
    obtain a k h where h: "h = dig_card a c ((reply GG_ERROR_SUCCESS g1)\<lparr>m_is_first_pool_card := False\<rparr>)"
      and g': "g' = wait_for_round GAME_ACTIVE2 k ((broadcast_player_digcard u (to_msg_card c) t h)\<lparr>m_wait_begin := now env\<rparr>)"
      using 2(2) by (auto simp: give_dug_card_def Let_def bind_Some)
    have "sent h = sent g" "receivers h = receivers g"
      using g1 by (simp_all add: h dig_card_def upd_seat_def reply_def receivers_def)
    then have "sent g' = sent g @ map (\<lambda>r. (r, PlayerDigCard u (if r \<noteq> u then \<lparr>mc_point = 0, mc_color = 0\<rparr> else to_msg_card c) t)) (receivers g)"
      unfolding g' broadcast_player_digcard_def by (simp add: wait_for_round_def set_game_status_def fold_send_sent)
    then show ?thesis by blast
  qed simp
qed

text \<open>A request out of turn.\<close>

lemma out_of_turn:
  assumes "players g u = Some p" "m_pGameSeat p = Some i"
  shows "\<not> is_active_player p g \<or> \<not> is_wait_active1 g \<Longrightarrow> player_dig_card env u t g = Some (reply GG_ERROR_INVALID_STATUS g)"
    and "\<not> is_active_player p g \<or> \<not> is_wait_active2 g \<Longrightarrow>
      \<exists>m. player_post_card env u c n g = Some (send_to u m (reply GG_ERROR_INVALID_STATUS g))"
    and "\<not> is_active_player p g \<or> \<not> is_wait_active2 g \<Longrightarrow>
      player_declare env u c gs g = Some (reply GG_ERROR_PARAMETER_INVALID g)"
    and "is_game_over g \<or> is_declareing g \<or> is_dealer_card g \<Longrightarrow> player_drop env u g = Some (reply GG_ERROR_INVALID_STATUS g)"
  using assms by (auto simp: player_dig_card_def player_post_card_def player_declare_def player_drop_def Let_def)

text \<open>The shuffle of the pool.\<close>

lemma shuffle_result:
  assumes "2 \<le> length (m_pokercard_pool g)"
  shows "\<exists>g' moved. step_shuffle_card env g = Some g' \<and> m_bottom_cards g' = m_bottom_cards g @ moved \<and>
    mset moved = mset (take (length (m_pokercard_pool g) - 2) (m_pokercard_pool g)) \<and>
    m_pokercard_pool g' = drop (length (m_pokercard_pool g) - 2) (m_pokercard_pool g) \<and> m_seats g' = m_seats g"
proof -
  let ?n = "length (m_pokercard_pool g) - 2"
  have "\<exists>moved. shuffle_loop rs k cards bottom = bottom @ moved" for rs k cards bottom
  proof (induction rs k cards bottom rule: shuffle_loop.induct)
    case (1 rs k cards bottom)
    show ?case by (subst shuffle_loop.simps) (use 1 in \<open>auto simp: Let_def\<close>)
  qed
  then obtain moved where moved: "shuffle_loop (rand_shuffle env) 0 (take ?n (m_pokercard_pool g)) (m_bottom_cards g) = m_bottom_cards g @ moved"
    by blast
  then have "mset moved = mset (take ?n (m_pokercard_pool g))"
    using mset_shuffle_loop [of "rand_shuffle env" 0 "take ?n (m_pokercard_pool g)" "m_bottom_cards g"] by simp
  then show ?thesis using assms moved by (simp add: step_shuffle_card_def Let_def broadcast_same)
qed

text \<open>The turn goes to the next player in the game.\<close>

lemma reachable_links: "reachable g \<Longrightarrow> seat_links g"
  using links_inv.always by (simp add: links_ok_def)

lemma ingame_player:
  assumes "reachable g" "running (get_game_status_for_app g)" "j < 5" "is_in_game (m_seats g ! j)"
  shows "\<exists>q. seated_player j g = Some q"
proof -
  obtain r where r: "live r g" using live_inv.always [OF assms(1)] by (auto simp: room_ok_def)
  note l = seat_linksD [OF reachable_links [OF assms(1)]]
  have "tally ghost (bits g) = 0" using r assms(2) live_app_status by (simp add: live_def play_def)
  then have "\<not> ghost (bits g ! j)" using tally_zero [of ghost "bits g"] l(1) assms(3) by (simp add: bits_length)
  then have "is_seated (m_seats g ! j)" using assms(3,4) l(1) by (simp add: bits_nth bits_of_def)
  then obtain v where "m_player (m_seats g ! j) = Some v" using l(2) [OF assms(3)] by auto
  then show ?thesis using l(3) [OF assms(3)] by (auto simp: seated_player_def)
qed

lemma turn_passes:
  assumes "m_active_seatnum g = int i" "i < length (m_seats g)" "now env \<le> m_time_game_begin g + m_draw_sec g" "m_pokercard_pool g \<noteq> []"
    and player: "\<And>j. j < length (m_seats g) \<Longrightarrow> is_in_game (m_seats g ! j) \<or> j = i \<Longrightarrow> \<exists>q. seated_player j g = Some q"
  shows "\<exists>g' j. active_player env n g = Some g' \<and> next_from (\<lambda>j. is_in_game (m_seats g ! j)) (length (m_seats g)) i j \<and>
    m_active_seatnum g' = int j \<and> m_pokercard_pool g' = m_pokercard_pool g \<and> m_seats g' = m_seats g"
proof -
  obtain j where j: "next_ingame_seat_number i g = Some j" "next_from (\<lambda>j. is_in_game (m_seats g ! j)) (length (m_seats g)) i j"
    using next_seat_found [OF assms(2)] unfolding next_ingame_seat_number_def by blast
  have jn: "j < length (m_seats g)" using next_from_less [OF j(2) assms(2)] .
  then obtain q where q: "seated_player j g = Some q" using player j(2) by (auto simp: next_from_def)
  let ?g = "g\<lparr>m_active_seatnum := int j\<rparr>"
  have "next_active g = Some ?g" using assms(1,2) j(1) by (simp add: next_active_def seat_index_def)
  moreover have "seated_player j ?g = Some q" using q by (simp add: seated_player_def)
  ultimately have "\<exists>g'. active_player env n g = Some g' \<and> m_active_seatnum g' = int j \<and> m_pokercard_pool g' = m_pokercard_pool g \<and> m_seats g' = m_seats g"
    using assms(3,4) jn
    by (simp add: active_player_def announce_active_def seat_index_def Let_def wait_for_round_def set_game_status_def broadcast_same)
  then show ?thesis using j(2) by blast
qed

lemma post_card_result:
  assumes "reachable g" "players g u = Some p" "is_active_player p g" "is_wait_active2 g"
    and seat: "m_pGameSeat p = Some i" and c: "parse_msg_card mc \<in> set (m_handcards_total (m_seats g ! i))"
    and "length (m_bottom_cards g) \<noteq> 1" "now env \<le> m_time_game_begin g + m_draw_sec g"
  shows "\<exists>g' j. player_post_card env u mc n g = Some g' \<and> next_from (\<lambda>j. is_in_game (m_seats g ! j)) 5 i j \<and>
    m_active_seatnum g' = int j \<and> m_pokercard_pool g' = m_pokercard_pool g @ [parse_msg_card mc] \<and>
    m_seats g' = (m_seats g)[i := (m_seats g ! i)\<lparr>m_handcards_total := remove1 (parse_msg_card mc) (m_handcards_total (m_seats g ! i))\<rparr>]"
proof -
  note l = seat_linksD [OF reachable_links [OF assms(1)]]
  have i: "i < 5" "m_player (m_seats g ! i) = Some u" using l(5) [OF assms(2) seat] by auto
  have a: "m_active_seatnum g = int i" using assms(3) seat by (simp add: is_active_player_def get_seat_number_def split: if_splits)
  let ?c = "parse_msg_card mc"
  let ?f = "\<lambda>s. s\<lparr>m_handcards_total := remove1 ?c (m_handcards_total s)\<rparr>"
  let ?g1 = "reply GG_ERROR_SUCCESS (upd_seat i ?f g)"
  define h where "h = broadcast_post_card u ?c (?g1\<lparr>m_pokercard_pool := m_pokercard_pool ?g1 @ [?c]\<rparr>)"
  obtain ms where "h = (?g1\<lparr>m_pokercard_pool := m_pokercard_pool ?g1 @ [?c]\<rparr>)\<lparr>sent := ms\<rparr>"
    using broadcast_rest(1) unfolding h_def broadcast_post_card_def by blast
  then have h: "players h = players g" "m_active_seatnum h = int i" "m_bottom_cards h = m_bottom_cards g" "m_pokercard_pool h = m_pokercard_pool g @ [?c]"
    "m_time_game_begin h = m_time_game_begin g" "m_draw_sec h = m_draw_sec g" and seats: "m_seats h = (m_seats g)[i := ?f (m_seats g ! i)]"
    by (simp_all add: reply_def upd_seat_def a)
  have in_game: "is_in_game (m_seats h ! j) = is_in_game (m_seats g ! j)" "m_player (m_seats h ! j) = m_player (m_seats g ! j)" for j
    unfolding seats by (cases "j = i"; cases "i < length (m_seats g)"; simp add: is_in_game_def list_update_beyond)+
  have "running (get_game_status_for_app g)"
    using live_inv.always [OF assms(1)] in_round_queries(3) live_in_round live_app_status assms(4) unfolding room_ok_def by fastforce
  then have player: "\<exists>q. seated_player j h = Some q" if "j < length (m_seats h)" "is_in_game (m_seats h ! j) \<or> j = i" for j
    using that ingame_player [OF assms(1), of j] i assms(2) l(1) seats in_game by (auto simp: seated_player_def h)
  have "\<exists>g' j. active_player env (wait_ms m_time_post_card h) h = Some g' \<and> next_from (\<lambda>j. is_in_game (m_seats h ! j)) (length (m_seats h)) i j \<and>
    m_active_seatnum g' = int j \<and> m_pokercard_pool g' = m_pokercard_pool h \<and> m_seats g' = m_seats h"
    by (rule turn_passes [OF _ _ _ _ player]) (use i l(1) assms(8) in \<open>simp_all add: h seats\<close>)
  then obtain g' j where g': "active_player env (wait_ms m_time_post_card h) h = Some g'" "next_from (\<lambda>j. is_in_game (m_seats g ! j)) 5 i j"
    "m_active_seatnum g' = int j" "m_pokercard_pool g' = m_pokercard_pool h" "m_seats g' = m_seats h"
    using in_game l(1) seats by auto
  have "after_post env h = Some g'" using g'(1) assms(7) by (simp add: after_post_def h)
  then have "player_post_card env u mc n g = Some (notify_room_will_over n g')"
    using assms(2-4) seat c a i l(1) by (simp add: player_post_card_def seat_index_def discard_card_def Let_def h_def)
  moreover have "m_seats (notify_room_will_over n g') = m_seats g'" "m_pokercard_pool (notify_room_will_over n g') = m_pokercard_pool g'"
    "m_active_seatnum (notify_room_will_over n g') = m_active_seatnum g'"
    by (simp_all add: notify_room_will_over_def notify_room_status_def)
  ultimately show ?thesis using g' seats h(4) by auto
qed

text \<open>Who sees which hand when the cards are dealt.\<close>

definition hand_of :: "int \<Rightarrow> room \<Rightarrow> poker_card list" where
  "hand_of u g = (case players g u of None \<Rightarrow> [] | Some p \<Rightarrow>
     (case m_pGameSeat p of None \<Rightarrow> [] | Some i \<Rightarrow> m_handcards_total (m_seats g ! i)))"

lemma hand_of_send: "hand_of v (send_to u m g) = hand_of v g"
  by (simp add: hand_of_def send_to_def split: option.splits)

lemma send_deal_cards_message:
  assumes "send_deal_cards u g = Some g'"
  shows "\<exists>order. g' = send_to u (DealCards (m_dealer_index g) 13 order (CopyCardToMsg (hand_of u g) [])
    (length (m_bottom_cards g)) (to_msg_card (hd (m_pokercard_pool g))) (to_msg_card (m_joker_card g))) g"
  using assms by (auto simp: send_deal_cards_def bind_Some Let_def hand_of_def split: if_split_asm)

lemma deal_messages:
  assumes "broadcast_deal_cards g = Some g'"
  shows "\<exists>orders. length orders = length (receivers g) \<and> sent g' = sent g @ map (\<lambda>(u, order).
    (u, DealCards (m_dealer_index g) 13 order (CopyCardToMsg (hand_of u g) []) (length (m_bottom_cards g))
      (to_msg_card (hd (m_pokercard_pool g))) (to_msg_card (m_joker_card g)))) (zip (receivers g) orders)"
proof -
  have "\<exists>orders. length orders = length us \<and> sent g' = sent g @ map (\<lambda>(u, order).
      (u, DealCards (m_dealer_index g) 13 order (CopyCardToMsg (hand_of u g) []) (length (m_bottom_cards g))
        (to_msg_card (hd (m_pokercard_pool g))) (to_msg_card (m_joker_card g)))) (zip us orders)"
    if "for_each send_deal_cards us g = Some g'" for us g
    using that
  proof (induction us arbitrary: g)
    case (Cons u us)
    then obtain g1 where g1: "send_deal_cards u g = Some g1" "for_each send_deal_cards us g1 = Some g'"
      by (auto split: option.splits)
    obtain order where o: "g1 = send_to u (DealCards (m_dealer_index g) 13 order (CopyCardToMsg (hand_of u g) [])
        (length (m_bottom_cards g)) (to_msg_card (hd (m_pokercard_pool g))) (to_msg_card (m_joker_card g))) g"
      using send_deal_cards_message [OF g1(1)] by blast
    have same: "m_dealer_index g1 = m_dealer_index g" "hand_of v g1 = hand_of v g" "m_bottom_cards g1 = m_bottom_cards g"
        "m_pokercard_pool g1 = m_pokercard_pool g" "m_joker_card g1 = m_joker_card g" for v
      by (simp_all add: o hand_of_send) (simp_all add: send_to_def)
    obtain orders where os: "length orders = length us" "sent g' = sent g1 @ map (\<lambda>(u, order).
        (u, DealCards (m_dealer_index g) 13 order (CopyCardToMsg (hand_of u g) []) (length (m_bottom_cards g))
          (to_msg_card (hd (m_pokercard_pool g))) (to_msg_card (m_joker_card g)))) (zip us orders)"
      using Cons.IH [OF g1(2)] by (auto simp: same)
    then show ?case by (intro exI [of _ "order # orders"]) (simp add: o send_to_def)
  qed simp
  then show ?thesis using assms by (simp add: broadcast_deal_cards_def)
qed

section \<open>Declarations\<close>

lemma declared_cards:
  assumes "check_declare i dc gs g = Some (g', True)" "i < length (m_seats g)"
  shows "parse_msg_card dc \<in> set (m_handcards_total (m_seats g ! i)) \<and>
    mset (concat (map m_cards (ParseMsgGroup [] gs))) + {#parse_msg_card dc#} = mset (m_handcards_total (m_seats g ! i)) \<and>
    is_groups_declare (ParseMsgGroup [] gs) (joker_point g)"
proof -
  have fold: "fold (\<lambda>grp out. out @ m_cards grp) groups out = out @ concat (map m_cards groups)" for groups out
    by (induction groups arbitrary: out) auto
  let ?h = "upd_seat i (\<lambda>s. s\<lparr>m_handcards_total := sort (m_handcards_total s)\<rparr>) g"
  have "sort (concat (map m_cards (ParseMsgGroup [] gs)) @ [parse_msg_card dc]) = m_handcards_total (m_seats ?h ! i)"
    "parse_msg_card dc \<in> set (m_handcards_total (m_seats g ! i))" "is_groups_declare (ParseMsgGroup [] gs) (joker_point ?h)"
    using assms(1) by (auto simp: check_declare_def Let_def bind_Some fold split: if_split_asm)
  moreover have "m_handcards_total (m_seats ?h ! i) = sort (m_handcards_total (m_seats g ! i))" "joker_point ?h = joker_point g"
    using assms(2) by (simp_all add: upd_seat_def joker_point_def)
  ultimately show ?thesis by (metis add.commute mset_append mset_single_iff_right mset_sort mset.simps(1) mset.simps(2) union_commute)
qed

end
