(* ===== verification/Game_Chips.thy ===== *)
theory Game_Chips
  imports Game_Play
begin

text \<open>
  The chips of a game. What the losers pay goes to the pool, and the winner gets the pool less the
  tips: while a game runs the pool and the accounts of the seats add up to the same amount, and at
  its end the accounts add up to the tips.
\<close>

section \<open>The purse\<close>

definition accounts :: "room \<Rightarrow> int" where
  "accounts g = (\<Sum>s \<leftarrow> m_seats g. m_match_over_account_chips s)"

definition purse :: "room \<Rightarrow> int" where
  "purse g = m_chips_pool g + accounts g"

lemma accounts_update:
  assumes "i < length (m_seats g)"
  shows "accounts (upd_seat i f g) = accounts g - m_match_over_account_chips (m_seats g ! i) + m_match_over_account_chips (f (m_seats g ! i))"
proof -
  have "(\<Sum>s \<leftarrow> ss[j := x]. h s) = (\<Sum>s \<leftarrow> ss. h s) - h (ss ! j) + h x" if "j < length ss" for ss j x and h :: "seat \<Rightarrow> int"
    using that by (induction ss arbitrary: j) (auto split: nat.splits)
  then show ?thesis using assms by (simp add: accounts_def upd_seat_def)
qed

lemma accounts_same:
  assumes "\<And>s. m_match_over_account_chips (f s) = m_match_over_account_chips s"
  shows "accounts (upd_seat i f g) = accounts g"
  using accounts_update [of i g f] assms
  by (cases "i < length (m_seats g)") (simp_all add: accounts_def upd_seat_def list_update_beyond)

lemma purse_same: "(\<And>s. m_match_over_account_chips (f s) = m_match_over_account_chips s) \<Longrightarrow> purse (upd_seat i f g) = purse g"
  by (simp add: purse_def accounts_same) (simp add: upd_seat_def)

interpretation purse: room_core purse
  by unfold_locales (simp_all add: purse_same, simp_all add: purse_def accounts_def upd_player_def)

lemma purse_fields: "purse (g\<lparr>m_bottom_cards := cs\<rparr>) = purse g" "purse (g\<lparr>m_pokercard_pool := cs\<rparr>) = purse g"
    "purse (g\<lparr>m_game_status := st\<rparr>) = purse g" "purse (g\<lparr>m_wait_round_timer := t\<rparr>) = purse g" "purse (g\<lparr>m_all_player := us\<rparr>) = purse g"
    "purse (g\<lparr>players := ps\<rparr>) = purse g" "purse (set_game_status st g) = purse g" "purse (wait_for_round r n g) = purse g"
  by (simp_all add: purse_def accounts_def set_game_status_def wait_for_round_def)

lemmas purse_simps = purse.core_simps purse.view_player_simps purse_fields

text \<open>A payment: the account of the seat goes down by what the pool gets.\<close>

lemma loser_account:
  assumes "match_over_account env i n g = Some (g', k)" "n \<le> 0" "i < length (m_seats g)"
  shows "accounts g' = accounts g - k" "m_chips_pool g' = m_chips_pool g" "length (m_seats g') = length (m_seats g)"
proof -
  obtain u g1 where g1: "deal_loser_account env u (- n) g = Some (g1, k)"
    and g': "g' = upd_seat i (\<lambda>s. s\<lparr>m_match_over_account_chips := m_match_over_account_chips s - k\<rparr>) g1"
    using assms(1,2) by (auto simp: match_over_account_def bind_Some)
  have "m_seats g1 = m_seats g" "m_chips_pool g1 = m_chips_pool g"
    using g1 by (auto simp: deal_loser_account_def upd_player_def split: option.splits)
  then show "accounts g' = accounts g - k" "m_chips_pool g' = m_chips_pool g" "length (m_seats g') = length (m_seats g)"
    using assms(3) accounts_update [of i g1 "\<lambda>s. s\<lparr>m_match_over_account_chips := m_match_over_account_chips s - k\<rparr>"]
    by (simp_all add: g' accounts_def upd_seat_def)
qed

lemma payment_purse:
  assumes "match_over_account env i n g = Some (g', k)" "n \<le> 0" "i < length (m_seats g)"
  shows "purse (g'\<lparr>m_chips_pool := m_chips_pool g' + k\<rparr>) = purse g"
  using loser_account [OF assms] by (simp add: purse_def accounts_def)

section \<open>What a loser pays\<close>

text \<open>No score is negative, whatever the hand.\<close>

definition scored :: "search_state \<Rightarrow> bool" where
  "scored s \<longleftrightarrow> (\<forall>info \<in> set (snd s). 0 \<le> m_score info)"

lemma for_return_keeps:
  assumes "for_return f xs s = Some (b, s')" "P s" "\<And>x s b s'. f x s = Some (b, s') \<Longrightarrow> P s \<Longrightarrow> P s'"
  shows "P s'"
  using assms(1,2) by (induction xs arbitrary: s) (auto dest: assms(3) split: option.splits prod.splits bool.splits)

lemma comb_scores: "0 \<le> m_score (leftover_comb cb x y gs cards)" "0 \<le> m_score (complete_comb gs)"
  by (simp_all add: leftover_comb_def complete_comb_def CombinationInfo_def gen_valid_card_group_def caculate_card_score_nonneg)

lemma fourth_scored: "fourth_group stop gs cards it s = Some (b, s') \<Longrightarrow> scored s \<Longrightarrow> scored s'"
  by (cases s) (auto simp: fourth_group_def Let_def scored_def comb_scores split: if_splits)

lemma third_scored:
  assumes "third_group stop gs2 gs cards it s = Some (b, s')" "scored s"
  shows "scored s'"
proof -
  have loop: "scored s'" if "for_return (fourth_group stop (gs @ [it]) cs) xs s = Some (b, s')" "scored s" for cs xs s b s'
    by (rule for_return_keeps [where P = scored, OF that]) (rule fourth_scored)
  show ?thesis using assms
    by (cases s) (auto simp: third_group_def Let_def bind_Some dest!: loop split: if_splits, auto simp: scored_def comb_scores)
qed

lemma second_scored:
  assumes "second_group stop it cards js it2 s = Some (b, s')" "scored s"
  shows "scored s'"
proof -
  have loop: "scored s'" if "for_return (third_group stop gs2 gs cs) xs s = Some (b, s')" "scored s" for gs2 gs cs xs s b s'
    by (rule for_return_keeps [where P = scored, OF that]) (rule third_scored)
  obtain cb combs where s: "s = (cb, combs)" by (cases s)
  have combs: "scored (cb', combs)" for cb' using assms(2) s by (simp add: scored_def)
  show ?thesis using assms(1)
    by (auto simp: s second_group_def Let_def bind_Some dest!: loop [OF _ combs] simp del: if_split split: if_split_asm,
        use combs in \<open>auto simp: scored_def comb_scores\<close>)
qed

lemma first_scored:
  assumes "first_group stop cards js gs it s = Some (b, s')" "scored s"
  shows "scored s'"
proof -
  have loop: "scored s'" if "for_return (second_group stop it cs js') xs s = Some (b, s')" "scored s" for cs js' xs s b s'
    by (rule for_return_keeps [where P = scored, OF that]) (rule second_scored)
  show ?thesis using assms
    by (cases s) (auto simp: first_group_def Let_def bind_Some dest!: loop split: if_splits, auto simp: scored_def comb_scores)
qed

lemma default_declare_nonneg:
  assumes "default_declare cb hand jp = Some (cb', score, groups)"
  shows "0 \<le> score"
proof -
  obtain cb1 combs where s: "search_all_group (cb\<lparr>cb_joker_point := jp\<rparr>) hand 0 [] = Some (cb1, combs)" "combs \<noteq> []"
    using assms by (auto simp: default_declare_def bind_Some split: if_splits)
  have loop: "scored s'" if "for_return (first_group 0 hand js gs) xs (cb2, []) = Some (b, s')" for js gs xs cb2 b s'
    by (rule for_return_keeps [where P = scored, OF that]) (simp add: scored_def, rule first_scored)
  have ok: "scored (cb1, combs)"
    using s(1) loop by (auto simp: search_all_group_def Let_def bind_Some split: if_splits) (auto simp: scored_def comb_scores)
  have min: "fst (fold min_step cs (m, it)) \<in> insert m (m_score ` set cs)" for cs m it
    by (induction cs arbitrary: m it) (auto simp: min_step_def)
  have "score = m_score (last combs) \<or> score = fst (fold min_step combs (m_score (hd combs), hd combs))"
    using assms s by (auto simp: default_declare_def split: if_splits prod.splits)
  then have "score \<in> m_score ` set combs"
    using min [of combs "m_score (hd combs)" "hd combs"] s(2) by auto
  then show ?thesis using ok by (auto simp: scored_def)
qed

definition frame :: "room \<Rightarrow> area_info \<times> nat" where
  "frame g = (m_area_info g, length (m_seats g))"

interpretation frame: room_view_seats frame
  by unfold_locales (simp_all add: frame_def upd_player_def upd_seat_def)

lemma seat_declared_result:
  assumes "seat_declared i n gs g = Some (g', k)"
  shows "purse g' = purse g" "frame g' = frame g"
    "0 \<le> n \<Longrightarrow> i < length (m_seats g) \<Longrightarrow> 1 \<le> seat_score (m_seats g' ! i) \<and> seat_score (m_seats g' ! i) \<le> 80 \<and> 0 \<le> k \<and> k \<le> 80"
proof -
  obtain a b u where sc: "lose_scores n = (a, b, k)" and g': "g' = upd_player u (set_phase PLAYER_DECLARE)
      (upd_seat i (\<lambda>s. seat_status ((m_seat_stauts s AND NOT st_ingame) OR st_declared) (s\<lparr>seat_score := a, m_card_score := b, seat_card_group := gs\<rparr>)) g)"
    using assms by (auto simp: seat_declared_def bind_Some Let_def split: prod.splits)
  show "purse g' = purse g" unfolding g' purse.view_set_phase by (rule purse_same) (simp add: seat_status_def)
  show "frame g' = frame g" by (rule frame.view_seat_declared [OF assms])
  show "0 \<le> n \<Longrightarrow> i < length (m_seats g) \<Longrightarrow> 1 \<le> seat_score (m_seats g' ! i) \<and> seat_score (m_seats g' ! i) \<le> 80 \<and> 0 \<le> k \<and> k \<le> 80"
    using sc by (auto simp: g' upd_player_def upd_seat_def seat_status_def lose_scores_def split: if_splits)
qed

lemma check_lose_declare_nonneg: "check_lose_declare groups jp = (True, n) \<Longrightarrow> 0 \<le> n"
  using lose_score_loop_ok [of jp "int (length (pure_straights groups))" "int (length (straights groups))" groups 0]
    lose_score_loop_score [of groups jp "int (length (pure_straights groups))" "int (length (straights groups))" 0]
  by (auto simp: check_lose_declare_def lose_count_loop_eq caculate_card_score_nonneg split: if_splits)

lemma check_lose_declare_result:
  assumes "seat_check_lose_declare i gs g = Some (g', ok, k)"
  shows "purse g' = purse g" "frame g' = frame g"
    "ok \<Longrightarrow> i < length (m_seats g) \<Longrightarrow> 1 \<le> seat_score (m_seats g' ! i) \<and> seat_score (m_seats g' ! i) \<le> 80 \<and> 0 \<le> k \<and> k \<le> 80"
proof -
  let ?h = "upd_seat i (\<lambda>s. s\<lparr>m_handcards_total := sort (m_handcards_total s)\<rparr>) g"
  have h: "purse ?h = purse g" "frame ?h = frame g" by (simp_all add: purse_same frame.view_sort_hand)
  consider "g' = ?h" "\<not> ok" | n where "0 \<le> n" "seat_declared i n (ParseMsgGroup [] gs) ?h = Some (g', k)"
    using assms check_lose_declare_nonneg by (auto simp: seat_check_lose_declare_def Let_def bind_Some split: if_split_asm prod.splits bool.splits)
  then have "purse g' = purse g \<and> frame g' = frame g \<and>
      (ok \<longrightarrow> i < length (m_seats g) \<longrightarrow> 1 \<le> seat_score (m_seats g' ! i) \<and> seat_score (m_seats g' ! i) \<le> 80 \<and> 0 \<le> k \<and> k \<le> 80)"
  proof cases
    case 2
    from seat_declared_result [OF 2(2)] 2(1) h show ?thesis by (auto simp: frame_def)
  qed (use h in simp)
  then show "purse g' = purse g" "frame g' = frame g"
    "ok \<Longrightarrow> i < length (m_seats g) \<Longrightarrow> 1 \<le> seat_score (m_seats g' ! i) \<and> seat_score (m_seats g' ! i) \<le> 80 \<and> 0 \<le> k \<and> k \<le> 80" by blast+
qed

lemma default_declare_result:
  assumes "seat_default_declare i g = Some (g', k, gs)"
  shows "purse g' = purse g" "frame g' = frame g"
    "i < length (m_seats g) \<Longrightarrow> 1 \<le> seat_score (m_seats g' ! i) \<and> seat_score (m_seats g' ! i) \<le> 80 \<and> 0 \<le> k \<and> k \<le> 80"
proof -
  obtain cb n where n: "0 \<le> n" and d: "seat_declared i n gs (g\<lparr>m_combination := cb\<rparr>) = Some (g', k)"
    using assms by (auto simp: seat_default_declare_def bind_Some dest: default_declare_nonneg)
  from seat_declared_result [OF d] n show "purse g' = purse g" "frame g' = frame g"
    "i < length (m_seats g) \<Longrightarrow> 1 \<le> seat_score (m_seats g' ! i) \<and> seat_score (m_seats g' ! i) \<le> 80 \<and> 0 \<le> k \<and> k \<le> 80"
    by (simp_all add: purse_simps frame.view_simps)
qed

section \<open>The purse of a game\<close>

text \<open>An event of a game either keeps the purse or ends the game.\<close>

definition purse_kept :: "room \<Rightarrow> room \<Rightarrow> bool" where
  "purse_kept g g' \<longleftrightarrow> purse g' = purse g \<or> waits APP_DISTRIBUTE g'"

lemma loser_pays_purse:
  assumes "loser_pays env i u gs n g = Some g'" "in_round r g" "0 \<le> m_small_blind (m_area_info g)" "0 \<le> seat_score (m_seats g ! i)"
    "i < length (m_seats g)"
  shows "purse_kept g g'"
proof -
  obtain g1 k where pay: "match_over_account env i (- (m_small_blind (m_area_info g) * seat_score (m_seats g ! i))) g = Some (g1, k)"
    and rest: "(let g2 = (broadcast_message (PlayerLoseDeclare u gs n k) g1)\<lparr>m_chips_pool := m_chips_pool (broadcast_message (PlayerLoseDeclare u gs n k) g1) + k\<rparr>
      in if get_ingame_count g2 = 1 then step_gameover_distrbute env g2 else Some g2) = Some g'"
    using assms(1) by (auto simp: loser_pays_def bind_Some Let_def)
  let ?g2 = "(broadcast_message (PlayerLoseDeclare u gs n k) g1)\<lparr>m_chips_pool := m_chips_pool (broadcast_message (PlayerLoseDeclare u gs n k) g1) + k\<rparr>"
  have c: "clock ?g2 = clock g" by (simp add: clock_simps clock.view_match_over [OF pay])
  have "purse ?g2 = purse (g1\<lparr>m_chips_pool := m_chips_pool g1 + k\<rparr>)" by (simp add: purse_def accounts_def broadcast_same)
  then have "purse ?g2 = purse g" using payment_purse [OF pay _ assms(5)] assms(3,4) by simp
  then show ?thesis
    using rest gameover_clock [OF _ in_round_clock [OF c assms(2)]] by (auto simp: purse_kept_def Let_def split: if_split_asm)
qed

lemma purse_kept_same: "purse g' = purse g \<Longrightarrow> purse_kept g g'"
  by (simp add: purse_kept_def)

lemma purse_kept_from: "purse_kept h g' \<Longrightarrow> purse h = purse g \<Longrightarrow> purse_kept g g'"
  by (simp add: purse_kept_def)

lemma active_player_purse:
  assumes "active_player env n g = Some g'" "in_round r g"
  shows "purse_kept g g'"
proof -
  obtain g1 where g1: "next_active g = Some g1"
    and rest: "(if m_time_game_begin g1 + m_draw_sec g1 < now env then draw_game env g1 else announce_active env n g1) = Some g'"
    using assms by (auto simp: active_player_def bind_Some)
  have 1: "clock g1 = clock g" "purse g1 = purse g"
    using g1 by (auto simp: next_active_def bind_Some clock_simps purse_simps split: if_splits)
  show ?thesis
  proof (cases "m_time_game_begin g1 + m_draw_sec g1 < now env")
    case True
    then obtain g2 where g2: "deduct_draw_tips env (notify_room_status ROOM_IDLE (g1\<lparr>m_gameover_type := BORNING_OVER\<rparr>)) = Some g2"
      "step_gameover_distrbute env g2 = Some g'" using rest by (auto simp: draw_game_def bind_Some)
    have "clock g2 = clock g" using clock.view_draw_tips [OF g2(1)] by (simp add: clock_simps 1)
    then show ?thesis using gameover_clock [OF g2(2)] in_round_clock assms(2) by (auto simp: purse_kept_def)
  next
    case False
    then show ?thesis
      using rest 1(2) by (auto simp: announce_active_def bind_Some Let_def purse_simps simp del: if_split split: if_split_asm intro!: purse_kept_same)
  qed
qed

lemma after_post_purse:
  assumes "after_post env g = Some g'" "in_round r g"
  shows "purse_kept g g'"
proof (cases "length (m_bottom_cards g) = 1")
  case True
  then show ?thesis
    using assms(1) by (auto simp: after_post_def step_shuffle_card_def bind_Some Let_def purse_simps split: if_splits intro!: purse_kept_same)
next
  case False
  then show ?thesis using assms active_player_purse by (auto simp: after_post_def)
qed

lemma purse_seat:
  "purse (upd_seat i (\<lambda>s. s\<lparr>m_handcards_total := h s\<rparr>) g) = purse g"
  "purse (upd_seat i (\<lambda>s. s\<lparr>seat_score := n, m_dig_card := c, m_handcards_total := h s\<rparr>) g) = purse g"
  "purse (upd_seat i (\<lambda>s. seat_status (w s) s) g) = purse g"
  by (rule purse_same, simp add: seat_status_def)+

lemma player_dig_card_purse: "player_dig_card env u t g = Some g' \<Longrightarrow> purse g' = purse g"
  by (auto simp: player_dig_card_def take_dug_card_def give_dug_card_def dig_card_def bind_Some Let_def purse_simps purse_seat
      simp del: if_split split: if_split_asm)

lemma post_default_card_purse:
  assumes "post_default_card env g = Some g'" "in_round r g"
  shows "purse_kept g g'"
proof -
  obtain a p h1 c where h1: "seat_post_default_card a g = Some (h1, c)"
    and post: "after_post env (broadcast_post_card p c (h1\<lparr>m_pokercard_pool := m_pokercard_pool h1 @ [c]\<rparr>)) = Some g'"
    using assms(1) by (auto simp: post_default_card_def bind_Some Let_def)
  let ?h = "broadcast_post_card p c (h1\<lparr>m_pokercard_pool := m_pokercard_pool h1 @ [c]\<rparr>)"
  have 1: "clock h1 = clock g" "purse h1 = purse g"
    using h1 by (auto simp: seat_post_default_card_def Let_def clock_simps purse_seat split: if_splits)
  have "clock ?h = clock g" "purse ?h = purse g"
    by (simp_all add: broadcast_post_card_def clock_simps purse_simps 1)
  then show ?thesis using after_post_purse [OF post in_round_clock [OF _ assms(2)]] purse_kept_from by blast
qed

lemma player_post_card_purse:
  assumes "player_post_card env u mc n g = Some g'" "in_round r g"
  shows "purse_kept g g'"
proof (cases "is_wait_active2 g")
  case False
  then show ?thesis
    using assms(1) by (auto simp: player_post_card_def bind_Some Let_def purse_simps intro!: purse_kept_same)
next
  case True
  from assms(1) show ?thesis
  proof (cases rule: player_post_card_cases)
    case (1 e m)
    then show ?thesis by (simp add: purse_kept_same purse_simps)
  next
    case (2 a g1 g2)
    let ?h = "broadcast_post_card u (parse_msg_card mc) ((reply GG_ERROR_SUCCESS g1)
         \<lparr>m_pokercard_pool := m_pokercard_pool (reply GG_ERROR_SUCCESS g1) @ [parse_msg_card mc]\<rparr>)"
    have g1: "clock g1 = clock g" "purse g1 = purse g"
      using 2(2) by (auto simp: discard_card_def clock_simps purse_seat split: if_splits)
    have h: "clock ?h = clock g" "purse ?h = purse g"
      by (simp_all add: broadcast_post_card_def clock_simps purse_simps g1)
    have "purse_kept g g2" using after_post_purse [OF 2(3) in_round_clock [OF h(1) assms(2)]] purse_kept_from h(2) by blast
    moreover have "purse g' = purse g2" "clock g' = clock g2" unfolding 2(4) by (simp_all add: purse_simps clock_simps)
    ultimately show ?thesis using waits_clock by (auto simp: purse_kept_def)
  qed
qed

lemma check_declare_purse: "check_declare i c gs g = Some (g', ok) \<Longrightarrow> purse g' = purse g"
  by (auto simp: check_declare_def bind_Some Let_def purse_simps purse_seat split: if_split_asm) (simp add: purse_same seat_status_def purse_seat)

lemma player_declare_purse:
  assumes "player_declare env u c gs g = Some g'"
  shows "purse g' = purse g"
  using assms
proof (cases rule: player_declare_cases)
  case (3 p i g1)
  then show ?thesis using check_declare_purse [OF 3(6)] by (simp add: start_declare_def Let_def purse_simps)
qed (auto simp: purse_simps dest: check_declare_purse)

lemma player_lose_declare_purse:
  assumes "player_lose_declare env u gs g = Some g'" "in_round r g" "seat_links g" "0 \<le> m_small_blind (m_area_info g)"
  shows "purse_kept g g'"
  using assms(1)
proof (cases rule: player_lose_declare_cases)
  case 1
  then show ?thesis by (simp add: purse_kept_same purse_simps)
next
  case (2 p i g1 n)
  then show ?thesis using check_lose_declare_result(1) [OF 2(5)] by (simp add: purse_kept_same purse_simps)
next
  case (3 p i g1 n)
  let ?h = "reply GG_ERROR_SUCCESS g1"
  have i: "i < length (m_seats g)" using seat_linksD(1,5) [OF assms(3)] 3(1,2) by force
  note d = check_lose_declare_result [OF 3(5)]
  have h: "purse ?h = purse g" "frame ?h = frame g" "clock ?h = clock g" "m_seats ?h = m_seats g1"
    using d(1,2) clock.view_check_lose_declare [OF 3(5)] by (simp_all add: purse_simps frame.view_simps clock_simps reply_def)
  have "purse_kept ?h g'"
    by (rule loser_pays_purse [OF 3(6) in_round_clock [OF h(3) assms(2)]]) (use h d(3) i assms(4) in \<open>auto simp: frame_def\<close>)
  then show ?thesis using purse_kept_from h(1) by blast
qed

lemma default_decalre_purse:
  assumes "default_decalre env u g = Some g'" "in_round r g" "seat_links g" "0 \<le> m_small_blind (m_area_info g)"
  shows "purse_kept g g'"
proof -
  obtain p i g1 n gs where p: "players g u = Some p" "m_pGameSeat p = Some i" and d: "seat_default_declare i g = Some (g1, n, gs)"
    and pay: "loser_pays env i u (copy_group_to_msg gs []) n g1 = Some g'"
    using assms(1) by (auto simp: default_decalre_def bind_Some)
  have i: "i < length (m_seats g)" using seat_linksD(1,5) [OF assms(3)] p by force
  note r = default_declare_result [OF d]
  have "purse_kept g1 g'"
    by (rule loser_pays_purse [OF pay in_round_clock [OF clock.view_default_declare [OF d] assms(2)]])
      (use r i assms(4) in \<open>auto simp: frame_def\<close>)
  then show ?thesis using purse_kept_from r(1) by blast
qed

lemma seat_drop_result:
  assumes "seat_drop i b g = Some g'"
  shows "purse g' = purse g" "frame g' = frame g" "i < length (m_seats g) \<Longrightarrow> seat_score (m_seats g' ! i) = seat_score (m_seats g ! i)"
proof -
  obtain u where u: "m_player (m_seats g ! i) = Some u" using assms by (auto simp: seat_drop_def bind_Some)
  let ?g1 = "upd_player u (set_phase PLAYER_DROP)
      (upd_seat i (\<lambda>s. seat_status ((m_seat_stauts s AND NOT st_ingame) OR st_drop) s) g)"
  obtain g2 where g2: "g2 = ?g1 \<or> g2 = upd_seat i (\<lambda>s. s\<lparr>m_handcards_total := remove1 (m_dig_card s) (m_handcards_total s)\<rparr>) ?g1"
    and d: "declare_hand i g2 = Some g'"
    using assms u by (auto simp: seat_drop_def bind_Some Let_def split: if_splits)
  from g2 have "purse g2 = purse g" by (auto simp: purse_simps purse_seat)
  moreover from g2 have "frame g2 = frame g" "i < length (m_seats g) \<Longrightarrow> seat_score (m_seats g2 ! i) = seat_score (m_seats g ! i)"
    by (auto simp: frame_def upd_seat_def upd_player_def seat_status_def)
  ultimately have 2: "purse g2 = purse g" "frame g2 = frame g" "i < length (m_seats g) \<Longrightarrow> seat_score (m_seats g2 ! i) = seat_score (m_seats g ! i)" .
  show "purse g' = purse g" "frame g' = frame g" using purse.view_declare_hand [OF d] frame.view_declare_hand [OF d] 2 by simp_all
  show "i < length (m_seats g) \<Longrightarrow> seat_score (m_seats g' ! i) = seat_score (m_seats g ! i)"
    using d 2(2,3) by (auto simp: declare_hand_def bind_Some upd_seat_def frame_def)
qed

lemma after_drop_purse:
  assumes "after_drop env p g = Some g'" "in_round r g"
  shows "purse_kept g g'"
proof (cases "get_ingame_count g = 1")
  case True
  then obtain w g1 where g1: "drop_win w (g\<lparr>m_gameover_type := DROP_OVER, m_apply_declare_seatnum := get_last_ingame_seatnum g\<rparr>) = Some g1"
    and over: "step_gameover_distrbute env (notify_room_status ROOM_IDLE g1) = Some g'"
    using assms(1) by (auto simp: after_drop_def drop_ends_game_def bind_Some Let_def)
  have "clock (notify_room_status ROOM_IDLE g1) = clock g"
    using clock.view_game_ends(2) [OF g1] by (simp add: clock_simps)
  then show ?thesis using gameover_clock [OF over in_round_clock [OF _ assms(2)]] by (simp add: purse_kept_def)
next
  case False
  then have "g' = g \<or> active_player env (wait_ms m_time_drop g) g = Some g'"
    using assms(1) by (auto simp: after_drop_def split: if_splits)
  then show ?thesis using active_player_purse [OF _ assms(2)] purse_kept_same by blast
qed

lemma player_drop_purse:
  assumes "player_drop env u g = Some g'" "in_round r g" "seat_links g" "0 \<le> m_small_blind (m_area_info g)"
    and scores: "\<forall>s \<in> set (m_seats g). 0 \<le> seat_score s"
  shows "purse_kept g g'"
proof -
  consider e where "g' = reply e g" | "step_player_drop env u (reply GG_ERROR_SUCCESS g) = Some g'"
    using assms(1) by (auto simp: player_drop_def bind_Some split: if_split_asm option.splits)
  then show ?thesis
  proof cases
    case 1
    then show ?thesis by (simp add: purse_kept_same purse_simps)
  next
    case 2
    from 2 show ?thesis
    proof (cases rule: step_player_drop_cases)
      case (1 p i g1 g2 k m)
      let ?g3 = "broadcast_message m (g2\<lparr>m_chips_pool := m_chips_pool g2 + k\<rparr>)"
      have i: "i < length (m_seats g)" using seat_linksD(1,5) [OF assms(3)] 1(1,2) by (force simp: reply_def)
      note d = seat_drop_result [OF 1(3)]
      have g1: "purse g1 = purse g" "m_area_info g1 = m_area_info g" "i < length (m_seats g1)" "0 \<le> seat_score (m_seats g1 ! i)"
        using d i scores nth_mem [OF i] by (auto simp: purse_simps frame_def reply_def)
      have "- m_small_blind (m_area_info g1) * seat_score (m_seats g1 ! i) \<le> 0" using g1(2,4) assms(4) by simp
      then have "purse ?g3 = purse g" using payment_purse [OF 1(4) _ g1(3)] g1(1) by (simp add: purse_simps)
      moreover have "clock ?g3 = clock g"
        by (simp add: clock_simps clock.view_match_over [OF 1(4)] seat_drop_bits(2) [OF 1(3)])
      ultimately show ?thesis using after_drop_purse [OF 1(5) in_round_clock [OF _ assms(2)]] purse_kept_from by blast
    qed
  qed
qed

lemma player_sit_down_purse: "player_sit_down u n g = Some (g', x) \<Longrightarrow> purse g' = purse g"
proof -
  assume a: "player_sit_down u n g = Some (g', x)"
  have sit: "purse h' = purse h" if "seat_sit_down i u h = Some h'" for i h h'
    using that by (auto simp: seat_sit_down_def sit_down_def Let_def purse_simps upd_player_def split: option.splits)
      (simp_all add: purse_same seat_status_def)
  show ?thesis using a
    by (auto simp: player_sit_down_def seated_status_def bind_Some Let_def purse_simps dest!: sit purse.view_trustee(2) split: if_split_asm)
qed

lemma after_stand_up_purse: "after_stand_up b g = Some g' \<Longrightarrow> purse g' = purse g"
  by (auto simp: after_stand_up_def bind_Some purse_simps dest: purse.view_over_status(2) split: if_split_asm)

lemma seat_stand_up_purse:
  assumes "seat_stand_up i g = Some g'"
  shows "purse g' = purse g"
proof -
  obtain u w g1 where up: "stand_up u (upd_seat i (\<lambda>s. seat_status (w s) s) g) = Some g1"
    and g': "g' = upd_seat i (\<lambda>s. s\<lparr>m_player := None, m_handcards_total := []\<rparr>) g1"
    using assms by (cases "is_game_over g") (auto simp: seat_stand_up_def bind_Some Let_def)
  have "purse g1 = purse (upd_seat i (\<lambda>s. seat_status (w s) s) g)"
    using up by (auto simp: stand_up_def Let_def purse_def accounts_def upd_player_def send_mq_def split: option.splits if_split_asm)
  moreover have "purse g' = purse g1" unfolding g' by (rule purse_same) simp
  ultimately show ?thesis by (simp add: purse_seat)
qed

lemma player_stand_up_purse:
  assumes "player_stand_up env u reason g = Some (g', x)" "in_round r g" "seat_links g" "0 \<le> m_small_blind (m_area_info g)"
  shows "purse_kept g g'"
  using assms(1)
proof (cases rule: player_stand_up_cases)
  case (1 p i)
  then have "g' = g" by (auto simp: leave_game_def bind_Some split: if_split_asm)
  then show ?thesis by (simp add: purse_kept_same)
next
  case (2 p i g1 g2 g3 b)
  have g2: "clock (broadcast_player_standup u reason g2) = clock g1" "purse (broadcast_player_standup u reason g2) = purse g1"
    unfolding 2(6) by (simp_all add: clock_simps purse_simps)
  have c3: "clock g3 = clock g1" using seat_stand_up_bits(2) [OF 2(7)] g2 by simp
  note up = seat_stand_up_purse
  have p': "purse g' = purse g1" using after_stand_up_purse [OF 2(8)] up [OF 2(7)] g2 by simp
  have "g1 = g \<or> default_decalre env u g = Some g1"
    using 2(5) by (auto simp: leave_game_def bind_Some split: if_split_asm)
  then have "purse_kept g g1" using default_decalre_purse [OF _ assms(2-4)] purse_kept_same by blast
  moreover have "waits APP_DISTRIBUTE g'" if "waits APP_DISTRIBUTE g1"
    using after_stand_up_clock [OF 2(8) in_round_clock [OF c3 waits_in_round [OF that]]] waits_clock [OF _ that] c3 by auto
  ultimately show ?thesis using p' by (auto simp: purse_kept_def)
qed

text \<open>The events of a running game.\<close>

lemma destroy_player_purse: "purse (destroy_player u g) = purse g" "purse (destroy_player_i u g) = purse g"
    "clock (destroy_player u g) = clock g"
  by (simp_all add: destroy_player_def destroy_player_i_def purse_simps clock_def) (simp add: send_mq_def)

lemma kept_clock: "clock h' = clock h \<Longrightarrow> purse h' = purse h \<Longrightarrow> purse_kept g h' = purse_kept g h"
  by (simp add: purse_kept_def waits_def clock_def)

lemma kept_destroy: "purse_kept g (destroy_player u h) = purse_kept g h" "purse_kept g (reply e h) = purse_kept g h"
  by (rule kept_clock, simp_all add: destroy_player_purse clock_simps purse_simps)+

lemma step_new_round_in:
  assumes "m_game_status g AND GAME_ROUND_MASK = round_word r"
  shows "step_new_round env g = (let h = set_game_status (m_game_status g AND NOT GAME_WAIT_MASK) g in
    case r of APP_UNREADY \<Rightarrow> step_unready env h | APP_WAIT_PLAYING \<Rightarrow> step_playing_begin env h
    | APP_DEALER_CARD \<Rightarrow> active_player env 0 h | APP_ACTIVE1 \<Rightarrow> step_active1_timeout env h | APP_ACTIVE2 \<Rightarrow> step_rand2_timeout env h
    | APP_DECLARE \<Rightarrow> step_declare_timeout env h | APP_DISTRIBUTE \<Rightarrow> ready_for_next_game env h | APP_SHUFFLE_CARD \<Rightarrow> active_player env 0 h)"
  using assms by (cases r) (simp_all add: step_new_round_def Let_def)

lemma timeout_purse:
  assumes "on_wait_round_timeout env g = Some g'" "live r g" "running r" "seat_links g"
  shows "purse_kept g g'"
proof (cases "m_wait_round_timer g")
  case None
  then show ?thesis using assms(1) by (simp add: on_wait_round_timeout_def purse_kept_same)
next
  case (Some t)
  let ?g = "g\<lparr>m_wait_round_timer := None\<rparr>"
  define h where "h = set_game_status (m_game_status ?g AND NOT GAME_WAIT_MASK) ?g"
  have st: "m_game_status g = (GAME_WAIT_MASK OR round_word r)" using assms(2) Some by (auto simp: live_def waits_def idle_def)
  have h: "idle r h" "bits h = bits g" "purse h = purse g" "link_view h = link_view g"
    using st by (cases r; simp add: h_def idle_def set_game_status_def bits_def purse_simps link_simps)+
  have r: "in_round r h" using h(1) by (simp add: in_round_def)
  have b: "play r (bits h)" using assms(2) h(2) by (simp add: live_def)
  have l: "seat_links h" by (rule seat_links_view [OF h(4) assms(4)])
  have w: "m_game_status ?g AND GAME_ROUND_MASK = round_word r" using in_round_queries(9) [OF live_in_round [OF assms(2)]] by simp
  have step: "step_new_round env ?g = Some g'" using assms(1) Some by (simp add: on_wait_round_timeout_def)
  note step' = step [unfolded step_new_round_in [OF w] Let_def, folded h_def]
  have trustee: "in_round r k" "purse k = purse h" if "set_trustee_on u h = Some k" for u k
    using in_round_clock [OF clock.view_trustee(1) [OF that] r] purse.view_trustee(1) [OF that] by simp_all
  have "purse_kept h g'"
  proof (cases r)
    case APP_DEALER_CARD
    then show ?thesis using step' active_player_purse [OF _ r] by simp
  next
    case APP_SHUFFLE_CARD
    then show ?thesis using step' active_player_purse [OF _ r] by simp
  next
    case APP_ACTIVE1
    then have "step_active1_timeout env h = Some g'" using step' by simp
    then obtain u k where k: "set_trustee_on u h = Some k" "active_player env 0 k = Some g'" by (auto simp: step_active1_timeout_def bind_Some)
    show ?thesis by (rule purse_kept_from [OF active_player_purse [OF k(2) trustee(1) [OF k(1)]] trustee(2) [OF k(1)]])
  next
    case APP_ACTIVE2
    then have "step_rand2_timeout env h = Some g'" using step' by simp
    then obtain u k where k: "set_trustee_on u h = Some k" "post_default_card env k = Some g'" by (auto simp: step_rand2_timeout_def bind_Some)
    show ?thesis by (rule purse_kept_from [OF post_default_card_purse [OF k(2) trustee(1) [OF k(1)]] trustee(2) [OF k(1)]])
  next
    case APP_DECLARE
    then have "step_declare_timeout env h = Some g'" using step' by simp
    then show ?thesis using step_declare_timeout_waits l h(1) b APP_DECLARE by (auto simp: purse_kept_def)
  qed (use assms(3) in simp_all)
  then show ?thesis using purse_kept_from h(3) by blast
qed

lemma enter_purse:
  assumes "on_player_enter env u name ses g = Some g'"
  shows "purse g' = purse g"
proof -
  have add: "purse h' = purse h" if "add_player env u ses h = Some h'" for h h'
    using that by (auto simp: add_player_def purse_simps split: if_splits option.splits)
  show ?thesis
    using assms by (auto simp: on_player_enter_def on_new_player_enter_def find_player_def bind_Some Let_def purse_simps purse.view_set_name
        destroy_player_purse dest!: add player_sit_down_purse purse.view_buy_in purse.view_come_back split: if_split_asm option.splits)
qed

lemma exit_purse:
  assumes "on_player_exit env u g = Some g'" "in_round r g" "seat_links g" "0 \<le> m_small_blind (m_area_info g)"
  shows "purse_kept g g'"
proof -
  have "g' = reply GG_ERROR_USER_NOT_IN_ROOM g \<or> g' = destroy_player u (reply GG_ERROR_SUCCESS g) \<or>
      (\<exists>g1 x. player_stand_up env u APPLY_STAND_UP g = Some (g1, x) \<and>
        (g' = reply GG_ERROR_GAME_NOT_OVER g1 \<or> g' = destroy_player u (reply GG_ERROR_SUCCESS g1)))"
    using assms(1) by (auto simp: on_player_exit_def find_player_def bind_Some split: if_split_asm)
  then show ?thesis using player_stand_up_purse [OF _ assms(2-4)] purse_kept_same [OF refl] kept_destroy by auto
qed

lemma standup_purse:
  assumes "on_apply_standup env u g = Some g'" "in_round r g" "seat_links g" "0 \<le> m_small_blind (m_area_info g)"
  shows "purse_kept g g'"
proof -
  let ?g = "upd_player u (flush_online_time env) (reply GG_ERROR_SUCCESS g)"
  have g: "clock ?g = clock g" "purse ?g = purse g" "link_view ?g = link_view g" "frame ?g = frame g"
    by (simp_all add: clock_simps purse_simps link_simps frame.view_simps frame.view_player_simps)
  note up = player_stand_up_purse [OF _ in_round_clock [OF g(1) assms(2)] seat_links_view [OF g(3) assms(3)]]
  have "g' = reply GG_ERROR_USER_NOT_IN_ROOM g \<or> g' = ?g \<or>
      (\<exists>g1 x. player_stand_up env u APPLY_STAND_UP ?g = Some (g1, x) \<and> (g' = g1 \<or> g' = destroy_player u g1))"
    using assms(1) by (auto simp: on_apply_standup_def find_player_def bind_Some Let_def split: if_split_asm)
  moreover have "0 \<le> m_small_blind (m_area_info ?g)" using g(4) assms(4) by (simp add: frame_def)
  ultimately have "purse_kept ?g g' \<or> g' = reply GG_ERROR_USER_NOT_IN_ROOM g"
    using up purse_kept_same [OF refl] kept_destroy(1) by metis
  then show ?thesis using purse_kept_from g(2) by (auto simp: purse_kept_same purse_simps)
qed

lemma seat_purse:
  assumes "on_apply_seat env u n g = Some g'"
  shows "purse g' = purse g"
  using assms by (auto simp: on_apply_seat_def find_player_def bind_Some Let_def purse_simps
      dest!: player_sit_down_purse purse.view_buy_in split: if_split_asm)

text \<open>While a game runs, the online check kicks out only players without a seat.\<close>

lemma online_purse:
  assumes "check_player_online env g = Some g'" "\<not> is_game_over g"
  shows "purse g' = purse g"
proof -
  have "purse g' = purse g \<and> \<not> is_game_over g'"
    using assms(1) unfolding check_player_online_def
  proof (rule for_each_invariant [where I = "\<lambda>h. purse h = purse g \<and> \<not> is_game_over h"])
    show "purse g = purse g \<and> \<not> is_game_over g" using assms(2) by simp
  next
    fix u h h'
    assume "check_one_online env u h = Some h'" and I: "purse h = purse g \<and> \<not> is_game_over h"
    then show "purse h' = purse g \<and> \<not> is_game_over h'"
    proof (cases rule: check_one_online_cases)
      case (3 g0)
      then show ?thesis using I by (simp add: destroy_player_purse purse_simps destroy_player_game_over) (simp add: is_game_over_def)
    qed (use I in \<open>auto simp: purse_simps is_game_over_def status.view_player_simps\<close>)
  qed
  then show ?thesis by simp
qed

lemma desk_request_purse:
  assumes "desk_request env u action g = Some g'" "in_round r g" "seat_links g" "0 \<le> m_small_blind (m_area_info g)"
    "\<forall>s \<in> set (m_seats g). 0 \<le> seat_score s"
    and "\<And>h g'. action h = Some g' \<Longrightarrow> in_round r h \<Longrightarrow> seat_links h \<Longrightarrow> 0 \<le> m_small_blind (m_area_info h) \<Longrightarrow>
      \<forall>s \<in> set (m_seats h). 0 \<le> seat_score s \<Longrightarrow> purse_kept h g'"
  shows "purse_kept g g'"
proof -
  let ?g = "upd_player u (flush_online_time env) g"
  have g: "clock ?g = clock g" "purse ?g = purse g" "link_view ?g = link_view g" "m_area_info ?g = m_area_info g" "m_seats ?g = m_seats g"
    by (simp_all add: clock_simps purse_simps link_simps) (simp_all add: upd_player_def)
  have "g' = reply GG_ERROR_USER_NOT_IN_ROOM g \<or> action ?g = Some g'"
    using assms(1) by (auto simp: desk_request_def find_player_def split: if_splits)
  moreover have "purse_kept ?g g'" if "action ?g = Some g'"
    by (rule assms(6) [OF that in_round_clock [OF g(1) assms(2)] seat_links_view [OF g(3) assms(3)]]) (use g(4,5) assms(4,5) in simp_all)
  ultimately show ?thesis using purse_kept_from g(2) by (auto simp: purse_kept_same purse_simps)
qed

lemma trusteeoff_purse: "player_trusteeoff env u g = Some g' \<Longrightarrow> purse g' = purse g"
  by (auto simp: player_trusteeoff_def bind_Some Let_def purse_simps dest!: purse.view_trustee(2) simp del: if_split split: if_split_asm)

lemma close_account_purse:
  assumes "player_close_account_box env u g = Some g'" "\<not> is_distribut g"
  shows "purse g' = purse g"
  using assms by (auto simp: player_close_account_box_def bind_Some split: if_splits)

lemma request_purse:
  assumes "on_recv_msg env q g = Some g'" "in_round r g" "running r" "seat_links g" "0 \<le> m_small_blind (m_area_info g)"
    "\<forall>s \<in> set (m_seats g). 0 \<le> seat_score s"
  shows "purse_kept g g'"
proof -
  note desk = desk_request_purse [OF _ assms(2,4-6)]
  have reply: "purse_kept h h' \<longleftrightarrow> purse_kept (reply e h) h'" "clock (reply e h) = clock h" for e h h'
    by (simp_all add: purse_kept_def purse_simps clock_simps)
  show ?thesis
  proof (cases q)
    case (ApplyEnterRoom u n s)
    then show ?thesis using assms(1) enter_purse purse_kept_same by simp
  next
    case (ApplyQuitRoom u)
    then show ?thesis using assms(1) exit_purse [OF _ assms(2,4,5)] by simp
  next
    case (ApplySeat u n)
    then show ?thesis using assms(1) seat_purse purse_kept_same by simp
  next
    case (ApplyStandup u)
    then show ?thesis using assms(1) standup_purse [OF _ assms(2,4,5)] by simp
  next
    case (ApplyFlushRoom u)
    then show ?thesis using assms(1)
      by (auto simp: on_apply_flush_room_def intro!: purse_kept_same purse.view_flush_room elim!: desk)
  next
    case (ApplyDigCard u t)
    then show ?thesis using assms(1) by (auto simp: on_apply_dig_card_def intro: purse_kept_same player_dig_card_purse elim!: desk)
  next
    case (ApplyPostCard u c n)
    then show ?thesis using assms(1) by (auto simp: on_apply_post_card_def intro: player_post_card_purse elim!: desk)
  next
    case (ApplyDrop u)
    then show ?thesis using assms(1) by (auto simp: on_apply_drop_def intro: player_drop_purse elim!: desk)
  next
    case (ApplyDeclare u c gs)
    then show ?thesis using assms(1) by (auto simp: on_apply_declare_def intro: purse_kept_same player_declare_purse elim!: desk)
  next
    case (ApplyLoseDeclare u gs)
    then show ?thesis using assms(1) by (auto simp: on_apply_lose_declare_def intro: player_lose_declare_purse elim!: desk)
  next
    case (ApplyTrusteeOff u)
    have "purse_kept h h'" if "player_trusteeoff env u (reply e h) = Some h'" for e h h'
      using purse_kept_same [OF trusteeoff_purse [OF that]] reply(1) by blast
    then show ?thesis using assms(1) ApplyTrusteeOff by (auto simp: on_apply_trustee_off_def elim!: desk)
  next
    case (ApplyCloseAccountBox u)
    have "purse_kept h h'" if "player_close_account_box env u (reply e h) = Some h'" "in_round r h" for e h h'
    proof -
      have "\<not> is_distribut (reply e h)" using in_round_queries(6) [OF in_round_clock [OF reply(2) that(2)]] assms(3) by auto
      then show ?thesis using purse_kept_same [OF close_account_purse [OF that(1)]] reply(1) by blast
    qed
    then show ?thesis using assms(1) ApplyCloseAccountBox by (auto simp: on_apply_close_account_box_def elim!: desk)
  next
    case (ApplyRoomStatus u)
    then show ?thesis using assms(1) by (auto simp: on_apply_room_status_def purse_simps intro!: purse_kept_same elim!: desk)
  next
    case (Relay rq)
    then show ?thesis using assms(1) purse.view_relay [of env rq g g'] purse_kept_same by simp
  qed
qed

lemma handle_purse:
  assumes "reachable g" "handle env ev g = Some g'" "running (get_game_status_for_app g)" "running (get_game_status_for_app g')"
    and "0 \<le> m_small_blind (m_area_info g)" "\<forall>s \<in> set (m_seats g). 0 \<le> seat_score s"
  shows "purse g' = purse g"
proof -
  obtain r where r: "live r g" "links_ok g" using live_inv.always [OF assms(1)] by (auto simp: room_ok_def)
  then have run: "running r" using assms(3) live_app_status by simp
  have l: "seat_links g" using r(2) by (simp add: links_ok_def)
  note q = in_round_queries(1) [OF live_in_round [OF r(1)]]
  have "purse_kept g g'"
  proof (cases ev)
    case (Request q)
    then show ?thesis using assms(2) request_purse [OF _ live_in_round [OF r(1)] run l assms(5,6)] by simp
  next
    case Timeout
    then show ?thesis using assms(2) timeout_purse [OF _ r(1) run l] by simp
  next
    case CheckOnline
    then show ?thesis using assms(2) online_purse q run purse_kept_same by simp
  qed
  moreover have "\<not> waits APP_DISTRIBUTE g'" using assms(4) waits_app_status [of APP_DISTRIBUTE g'] by auto
  ultimately show ?thesis by (simp add: purse_kept_def)
qed

section \<open>The winner\<close>

lemma tips_bounds:
  assumes "0 \<le> n" "0 \<le> m_tips_persent (m_area_info g)" "m_tips_persent (m_area_info g) \<le> 100"
  shows "0 \<le> get_game_desk_tips n g \<and> get_game_desk_tips n g \<le> n"
proof -
  let ?p = "m_tips_persent (m_area_info g)"
  have np: "0 \<le> n * ?p" "n * ?p \<le> n * 100" using assms by (simp_all add: mult_left_mono)
  then have "get_game_desk_tips n g = n * ?p div 100" by (simp add: get_game_desk_tips_def signed_divide_int_def sgn_if)
  then show ?thesis using np by (simp add: div_le_dividend zdiv_mono1 pos_imp_zdiv_nonneg_iff)
qed

lemma winner_account:
  assumes "match_over_account env i n g = Some (g', k)" "0 < n" "i < length (m_seats g)"
  shows "k = n" "accounts g' = accounts g + n" "m_apply_declare_seatnum g' = m_apply_declare_seatnum g"
proof -
  obtain u g1 g2 m where g1: "send_match_over_account i (upd_seat i (\<lambda>s. s\<lparr>m_match_over_account_chips := m_match_over_account_chips s + n\<rparr>)
        (upd_player u (carry_add n) (upd_seat i (\<lambda>s. seat_status (m_seat_stauts s OR st_win) s) g))) = Some g1"
    and g2: "get_user_money env u g1 = Some (g', m)" and k: "k = n"
    using assms(1,2) by (auto simp: match_over_account_def bind_Some Let_def)
  let ?h = "upd_seat i (\<lambda>s. seat_status (m_seat_stauts s OR st_win) s) g"
  let ?h' = "upd_seat i (\<lambda>s. s\<lparr>m_match_over_account_chips := m_match_over_account_chips s + n\<rparr>) (upd_player u (carry_add n) ?h)"
  have "m_seats g1 = m_seats ?h'" "m_apply_declare_seatnum g1 = m_apply_declare_seatnum g"
    using g1 by (auto simp: send_match_over_account_def bind_Some Let_def send_mq_def upd_player_def upd_seat_def split: if_splits)
  moreover have "m_seats g' = m_seats g1" "m_apply_declare_seatnum g' = m_apply_declare_seatnum g1"
    using g2 by (auto simp: get_user_money_def Let_def upd_player_def split: option.splits prod.splits)
  moreover have "accounts ?h' = accounts g + n"
  proof -
    have "accounts ?h = accounts g" by (rule accounts_same) (simp add: seat_status_def)
    then show ?thesis using assms(3) accounts_update [of i "upd_player u (carry_add n) ?h" "\<lambda>s. s\<lparr>m_match_over_account_chips := m_match_over_account_chips s + n\<rparr>"]
      by (simp add: accounts_def upd_player_def upd_seat_def)
  qed
  ultimately show "k = n" "accounts g' = accounts g + n" "m_apply_declare_seatnum g' = m_apply_declare_seatnum g"
    using k by (simp_all add: accounts_def)
qed

lemma declared_kept:
  assumes "match_over_account env i n g = Some (g', k)" "n \<le> 0"
  shows "m_apply_declare_seatnum g' = m_apply_declare_seatnum g"
proof -
  obtain u g1 r where "deal_loser_account env u (- n) g = Some (g1, r)" and g': "m_apply_declare_seatnum g' = m_apply_declare_seatnum g1"
    using assms by (auto simp: match_over_account_def bind_Some upd_seat_def)
  then show ?thesis
    by (auto simp: deal_loser_account_def upd_player_def split: option.split_asm)
qed

lemma account_seat_same: "account_seat i (g, q) = Some (g', q') \<Longrightarrow> m_apply_declare_seatnum g \<noteq> -1 \<Longrightarrow> g' = g \<and> go_winaccount q' = go_winaccount q"
  by (auto simp: account_seat_def bind_Some Let_def split: if_splits)

lemma account_loop_same:
  "for_each account_seat xs (g, q) = Some (g', q') \<Longrightarrow> m_apply_declare_seatnum g \<noteq> -1 \<Longrightarrow> g' = g \<and> go_winaccount q' = go_winaccount q"
  by (induction xs arbitrary: g q) (auto split: option.splits dest!: account_seat_same)

text \<open>
  The account of the winner: the pool less the tips when that is positive. Otherwise \<open>match_over_account\<close> takes him for a
  loser, and what the money service took from him is subtracted from his account and reported as his win.
\<close>

lemma winner_booked:
  assumes "caculate_over_account env g = Some (g', req)" "m_apply_declare_seatnum g = int w" "w < length (m_seats g)"
  defines "n \<equiv> m_chips_pool g - get_game_desk_tips (m_chips_pool g) g"
  shows "if 0 < n then go_winaccount req = n \<and> accounts g' = accounts g + n
    else accounts g' = accounts g - go_winaccount req"
proof -
  let ?h = "g\<lparr>m_last_winner_seatnum := m_apply_declare_seatnum g\<rparr>"
  obtain g1 k where pay: "match_over_account env w n ?h = Some (g1, k)"
    using assms(1-3) by (auto simp: n_def caculate_over_account_def Let_def bind_Some seat_index_def get_game_desk_tips_def split: if_split_asm)
  have tips: "get_game_desk_tips n (g\<lparr>m_last_winner_seatnum := x\<rparr>) = get_game_desk_tips n g" for n x by (simp add: get_game_desk_tips_def)
  obtain q :: game_over_msg where q: "go_winaccount q = k" "for_each account_seat [0..<length (m_seats g1)] (g1, q) = Some (g', req)"
  proof (rule that)
    show "go_winaccount \<lparr>go_gameovertype = m_gameover_type g, go_winnerid = m_ingame_player_id (m_seats g1 ! w), go_winaccount = k,
        go_winnercardgroup = copy_group_to_msg (seat_card_group (m_seats g1 ! w)) [], go_winnerscore = m_card_score (m_seats g1 ! w),
        go_loserinfo = [], go_playerchips = []\<rparr> = k" by simp
  qed (use assms(1-3) pay in \<open>simp add: n_def caculate_over_account_def Let_def seat_index_def tips\<close>)
  have booked: "if 0 < n then k = n \<and> accounts g1 = accounts g + n else accounts g1 = accounts g - k"
    using winner_account [OF pay] loser_account(1) [OF pay] assms(3) by (simp add: accounts_def)
  have "m_apply_declare_seatnum g1 = int w"
    using winner_account(3) [OF pay] declared_kept [OF pay] assms(2,3) by (cases "0 < n") simp_all
  then show ?thesis
    using booked account_loop_same [OF q(2)] q(1) by (simp split: if_splits)
qed

end
