(* ===== verification/Game_Scores.thy ===== *)
theory Game_Scores
  imports Game_Chips
begin

text \<open>
  The score of a seat, what a loser pays in small blinds: never negative and never more than 80.
\<close>

definition score_ok :: "seat \<Rightarrow> bool" where
  "score_ok s \<longleftrightarrow> 0 \<le> seat_score s \<and> seat_score s \<le> 80"

definition scores_ok :: "room \<Rightarrow> bool" where
  "scores_ok g \<longleftrightarrow> (\<forall>s \<in> set (m_seats g). score_ok s)"

interpretation seats: room_base m_seats
  by unfold_locales (simp_all add: upd_player_def)

lemma scores_seats: "m_seats g' = m_seats g \<Longrightarrow> scores_ok g' = scores_ok g"
  by (simp add: scores_ok_def)

lemma scores_upd:
  assumes "scores_ok g" "\<And>s. score_ok s \<Longrightarrow> score_ok (f s)"
  shows "scores_ok (upd_seat i f g)"
proof (cases "i < length (m_seats g)")
  case True
  then show ?thesis using assms by (auto simp: scores_ok_def upd_seat_def dest!: set_update_subset_insert [THEN subsetD])
qed (use assms in \<open>simp add: scores_ok_def upd_seat_def list_update_beyond\<close>)

lemma scores_seat:
  assumes "scores_ok g"
  shows "scores_ok (upd_seat i (\<lambda>s. s\<lparr>m_handcards_total := h s\<rparr>) g)"
    "scores_ok (upd_seat i (\<lambda>s. seat_status (w s) s) g)" "scores_ok (upd_seat i (seat_status w0) g)"
    "scores_ok (upd_seat i (\<lambda>s. s\<lparr>m_match_over_account_chips := k s\<rparr>) g)"
    "scores_ok (upd_seat i (\<lambda>s. s\<lparr>m_card_score := n, seat_card_group := gs\<rparr>) g)"
    "scores_ok (upd_seat i (\<lambda>s. s\<lparr>m_player := None, m_handcards_total := []\<rparr>) g)"
    "scores_ok (upd_seat i (\<lambda>s. s\<lparr>seat_score := 0\<rparr>) g)"
    "scores_ok (upd_seat i (\<lambda>s. s\<lparr>seat_score := 40, m_dig_card := c, m_handcards_total := h s\<rparr>) g)"
  by (rule scores_upd [OF assms]; simp add: score_ok_def seat_status_def)+

lemma scores_fields: "scores_ok (g\<lparr>m_bottom_cards := cs\<rparr>) = scores_ok g" "scores_ok (g\<lparr>m_pokercard_pool := cs\<rparr>) = scores_ok g"
    "scores_ok (g\<lparr>m_game_status := st\<rparr>) = scores_ok g" "scores_ok (g\<lparr>m_wait_round_timer := t\<rparr>) = scores_ok g" "scores_ok (g\<lparr>m_all_player := us\<rparr>) = scores_ok g"
    "scores_ok (g\<lparr>players := ps\<rparr>) = scores_ok g" "scores_ok (set_game_status st g) = scores_ok g" "scores_ok (wait_for_round r n g) = scores_ok g"
    "scores_ok (g\<lparr>m_chips_pool := n\<rparr>) = scores_ok g" "scores_ok (g\<lparr>m_joker_card := c\<rparr>) = scores_ok g" "scores_ok (g\<lparr>m_pCardDealer := d\<rparr>) = scores_ok g"
    "scores_ok (upd_player u f g) = scores_ok g"
  by (simp_all add: scores_ok_def set_game_status_def wait_for_round_def upd_player_def)

interpretation scores: room_base scores_ok
  by unfold_locales (simp_all add: scores_ok_def upd_player_def)

lemmas scores_simps = scores.core_simps scores.view_player_simps scores_fields

lemma scores_clear: "scores_ok g \<Longrightarrow> scores_ok (clear_desk g)"
  by (auto simp: scores_ok_def clear_desk_def reset_seat_def score_ok_def)

section \<open>The end of a game\<close>

lemma match_over_scores: "match_over_account env i n g = Some (g', k) \<Longrightarrow> scores_ok g \<Longrightarrow> scores_ok g'"
  by (auto simp: match_over_account_def bind_Some Let_def scores_simps scores_seat
      dest!: scores.view_deal_loser scores.view_send_match_over scores.view_get_user_money split: if_split_asm)

lemma declare_hand_scores: "declare_hand i g = Some g' \<Longrightarrow> scores_ok g \<Longrightarrow> scores_ok g'"
  by (auto simp: declare_hand_def bind_Some scores_seat scores_simps)

lemma game_ends_scores: "borning_over i g = Some g' \<Longrightarrow> scores_ok g \<Longrightarrow> scores_ok g'" "drop_win i g = Some g' \<Longrightarrow> scores_ok g \<Longrightarrow> scores_ok g'"
  by (auto simp: borning_over_def drop_win_def dest!: declare_hand_scores intro: scores_seat)

lemma account_seat_scores: "account_seat i (g, q) = Some (g', q') \<Longrightarrow> scores_ok g \<Longrightarrow> scores_ok g'"
  by (auto simp: account_seat_def bind_Some Let_def dest!: game_ends_scores(1) split: if_split_asm)

lemma account_loop_scores: "for_each account_seat xs (g, q) = Some (g', q') \<Longrightarrow> scores_ok g \<Longrightarrow> scores_ok g'"
  by (induction xs arbitrary: g q) (auto split: option.splits dest!: account_seat_scores)

lemma over_account_scores: "caculate_over_account env g = Some (g', q) \<Longrightarrow> scores_ok g \<Longrightarrow> scores_ok g'"
  by (auto simp: caculate_over_account_def bind_Some Let_def scores_simps dest!: account_loop_scores match_over_scores split: if_split_asm)

lemma gameover_scores:
  assumes "step_gameover_distrbute env g = Some g'" "scores_ok g"
  shows "scores_ok g'"
  using assms(1)
proof (cases rule: gameover_cases)
  case (1 g0 r n g1)
  then show ?thesis
    using over_account_scores [OF 1(1) assms(2)] scores.view_over_status(1) [OF 1(2)] scores_clear
    by (simp add: scores_simps scores.view_submit)
qed

section \<open>Turns\<close>

lemma active_player_scores: "active_player env n g = Some g' \<Longrightarrow> scores_ok g \<Longrightarrow> scores_ok g'"
  by (auto simp: active_player_def next_active_def draw_game_def announce_active_def bind_Some Let_def scores_simps
      dest!: gameover_scores scores.view_draw_tips split: if_split_asm)

lemma after_post_scores: "after_post env g = Some g' \<Longrightarrow> scores_ok g \<Longrightarrow> scores_ok g'"
  by (auto simp: after_post_def step_shuffle_card_def bind_Some Let_def scores_simps dest!: active_player_scores split: if_split_asm)

lemma player_dig_card_scores: "player_dig_card env u t g = Some g' \<Longrightarrow> scores_ok g \<Longrightarrow> scores_ok g'"
  by (auto simp: player_dig_card_def take_dug_card_def give_dug_card_def dig_card_def bind_Some Let_def scores_simps
      intro!: scores_seat simp del: if_split split: if_split_asm)

lemma post_default_card_scores: "post_default_card env g = Some g' \<Longrightarrow> scores_ok g \<Longrightarrow> scores_ok g'"
  by (auto simp: post_default_card_def seat_post_default_card_def broadcast_post_card_def bind_Some Let_def scores_simps scores_seat
      dest!: after_post_scores split: if_split_asm)

lemma player_post_card_scores: "player_post_card env u c n g = Some g' \<Longrightarrow> scores_ok g \<Longrightarrow> scores_ok g'"
  by (auto simp: player_post_card_def discard_card_def broadcast_post_card_def bind_Some Let_def scores_simps scores_seat
      dest!: after_post_scores split: if_split_asm)

section \<open>Declarations\<close>

lemma seat_declared_scores:
  assumes "seat_declared i n gs g = Some (g', k)" "0 \<le> n" "scores_ok g"
  shows "scores_ok g'"
proof -
  obtain a b u where sc: "lose_scores n = (a, b, k)" and g': "g' = upd_player u (set_phase PLAYER_DECLARE)
      (upd_seat i (\<lambda>s. seat_status ((m_seat_stauts s AND NOT st_ingame) OR st_declared) (s\<lparr>seat_score := a, m_card_score := b, seat_card_group := gs\<rparr>)) g)"
    using assms(1) by (auto simp: seat_declared_def bind_Some Let_def split: prod.splits)
  have "0 \<le> a" "a \<le> 80" using sc assms(2) by (auto simp: lose_scores_def split: if_splits)
  then show ?thesis unfolding g' scores_fields by (intro scores_upd [OF assms(3)]) (simp add: score_ok_def seat_status_def)
qed

lemma check_declare_scores: "check_declare i c gs g = Some (g', ok) \<Longrightarrow> scores_ok g \<Longrightarrow> scores_ok g'"
  by (auto simp: check_declare_def bind_Some Let_def scores_simps scores_seat split: if_split_asm)
    (auto intro!: scores_upd scores_seat(1) simp: score_ok_def seat_status_def)

lemma check_lose_declare_scores: "seat_check_lose_declare i gs g = Some (g', ok, k) \<Longrightarrow> scores_ok g \<Longrightarrow> scores_ok g'"
  by (auto simp: seat_check_lose_declare_def Let_def bind_Some dest: check_lose_declare_nonneg
      intro: seat_declared_scores scores_seat(1) split: if_split_asm prod.splits bool.splits)

lemma default_declare_scores: "seat_default_declare i g = Some (g', k, gs) \<Longrightarrow> scores_ok g \<Longrightarrow> scores_ok g'"
  by (auto simp: seat_default_declare_def bind_Some scores_simps dest: default_declare_nonneg intro: seat_declared_scores)

lemma loser_pays_scores: "loser_pays env i u gs n g = Some g' \<Longrightarrow> scores_ok g \<Longrightarrow> scores_ok g'"
  by (auto simp: loser_pays_def bind_Some Let_def scores_simps dest!: match_over_scores gameover_scores split: if_split_asm)

lemma player_declare_scores:
  assumes "player_declare env u c gs g = Some g'" "scores_ok g"
  shows "scores_ok g'"
  using assms(1)
proof (cases rule: player_declare_cases)
  case (3 p i g1)
  then show ?thesis using check_declare_scores [OF 3(6) assms(2)] by (simp add: start_declare_def Let_def scores_simps)
qed (use assms(2) in \<open>auto simp: scores_simps dest: check_declare_scores\<close>)

lemma player_lose_declare_scores:
  assumes "player_lose_declare env u gs g = Some g'" "scores_ok g"
  shows "scores_ok g'"
  using assms(1)
proof (cases rule: player_lose_declare_cases)
  case (3 p i g1 n)
  show ?thesis using loser_pays_scores [OF 3(6)] check_lose_declare_scores [OF 3(5) assms(2)] by (simp add: scores_simps)
qed (use assms(2) in \<open>auto simp: scores_simps dest: check_lose_declare_scores\<close>)

lemma default_decalre_scores: "default_decalre env u g = Some g' \<Longrightarrow> scores_ok g \<Longrightarrow> scores_ok g'"
  by (auto simp: default_decalre_def bind_Some dest!: default_declare_scores loser_pays_scores)

lemma seat_drop_scores: "seat_drop i b g = Some g' \<Longrightarrow> scores_ok g \<Longrightarrow> scores_ok g'"
  by (auto simp: seat_drop_def bind_Some Let_def scores_simps scores_seat dest!: declare_hand_scores split: if_split_asm)

lemma player_drop_scores:
  assumes "player_drop env u g = Some g'" "scores_ok g"
  shows "scores_ok g'"
proof -
  consider e where "g' = reply e g" | "step_player_drop env u (reply GG_ERROR_SUCCESS g) = Some g'"
    using assms(1) by (auto simp: player_drop_def bind_Some split: if_split_asm option.splits)
  then show ?thesis
  proof cases
    case 1
    then show ?thesis using assms(2) by (simp add: scores_simps)
  next
    case 2
    from 2 show ?thesis
    proof (cases rule: step_player_drop_cases)
      case (1 p i g1 g2 k m)
      have "scores_ok g2" using match_over_scores [OF 1(4)] seat_drop_scores [OF 1(3)] assms(2) by (simp add: scores_simps)
      then show ?thesis using 1(5)
        by (auto simp: after_drop_def drop_ends_game_def bind_Some Let_def scores_simps
            dest!: gameover_scores game_ends_scores(2) active_player_scores split: if_split_asm)
    qed
  qed
qed

section \<open>Seats\<close>

lemma stand_up_scores: "stand_up u g = Some g' \<Longrightarrow> scores_ok g' = scores_ok g"
  by (auto simp: stand_up_def Let_def scores_simps split: option.splits if_split_asm)

lemma seat_stand_up_scores: "seat_stand_up i g = Some g' \<Longrightarrow> scores_ok g \<Longrightarrow> scores_ok g'"
  by (auto simp: seat_stand_up_def bind_Some Let_def dest!: stand_up_scores intro!: scores_seat split: if_split_asm)

lemma after_stand_up_scores: "after_stand_up b g = Some g' \<Longrightarrow> scores_ok g' = scores_ok g"
  by (auto simp: after_stand_up_def bind_Some scores_simps dest!: scores.view_over_status(2) split: if_split_asm)

lemma player_stand_up_scores:
  assumes "player_stand_up env u reason g = Some (g', x)" "scores_ok g"
  shows "scores_ok g'"
  using assms(1)
proof (cases rule: player_stand_up_cases)
  case (1 p i)
  then have "g' = g" by (auto simp: leave_game_def bind_Some split: if_split_asm)
  then show ?thesis using assms(2) by simp
next
  case (2 p i g1 g2 g3 b)
  have "scores_ok g1"
    using 2(5) assms(2) by (auto simp: leave_game_def bind_Some dest: default_decalre_scores split: if_split_asm)
  then have "scores_ok (broadcast_player_standup u reason g2)" unfolding 2(6) by (simp add: scores_simps)
  then show ?thesis using seat_stand_up_scores [OF 2(7)] after_stand_up_scores [OF 2(8)] by simp
qed

lemma player_sit_down_scores: "player_sit_down u n g = Some (g', x) \<Longrightarrow> scores_ok g \<Longrightarrow> scores_ok g'"
proof -
  assume a: "player_sit_down u n g = Some (g', x)" "scores_ok g"
  have sit: "scores_ok h'" if "seat_sit_down i u h = Some h'" "scores_ok h" for i h h'
    using that by (auto simp: seat_sit_down_def sit_down_def Let_def scores_simps split: option.splits)
      (auto intro!: scores_upd simp: score_ok_def seat_status_def)
  show ?thesis using a
    by (auto simp: player_sit_down_def seated_status_def bind_Some Let_def scores_simps dest!: sit scores.view_trustee(2) split: if_split_asm)
qed

lemma destroy_player_scores: "scores_ok (destroy_player u g) = scores_ok g" "scores_ok (destroy_player_i u g) = scores_ok g"
  by (simp_all add: destroy_player_def destroy_player_i_def scores_simps)

section \<open>A new game and the timer\<close>

lemma ready_for_game_scores:
  assumes "ready_for_game i g = Some g'" "scores_ok g"
  shows "scores_ok g'"
proof -
  have first: "scores_ok (upd_seat i (\<lambda>s. s\<lparr>m_ingame_player_id := 0, seat_score := 20, m_card_score := 0\<rparr>) g)"
    by (rule scores_upd [OF assms(2)]) (simp add: score_ok_def)
  have seated: "scores_ok h \<Longrightarrow> scores_ok (upd_seat i (\<lambda>s. (seat_status w s)\<lparr>m_ingame_player_id := k\<rparr>) h)" for h w k
    by (rule scores_upd) (simp_all add: score_ok_def seat_status_def)
  have last: "scores_ok h \<Longrightarrow> scores_ok (upd_seat i (\<lambda>s. s\<lparr>m_match_over_account_chips := 0, m_handcards_total := []\<rparr>) h)" for h
    by (rule scores_upd) (simp_all add: score_ok_def)
  show ?thesis
    using assms(1) first by (auto simp: ready_for_game_def bind_Some Let_def scores_fields seated scores_seat(3) intro!: last split: if_split_asm)
qed

lemma start_new_game_scores:
  assumes "start_new_game env g = Some g'" "scores_ok g"
  shows "scores_ok g'"
proof -
  have ready: "scores_ok h'" if "step_desk_ready h = Some h'" "scores_ok h" for h h'
    using that(1) unfolding step_desk_ready_def
    by (rule for_each_invariant) (use that(2) ready_for_game_scores in \<open>simp_all add: scores_simps\<close>)
  have seat: "scores_ok h'" if "deal_seat i h = Some h'" "scores_ok h" for i h h'
    using that by (auto simp: deal_seat_def deal_cards_def scores_simps scores_seat split: if_split_asm)
  have bottom: "scores_ok h' = scores_ok h" if "deal_bottom env h = Some (h', n)" for h h' n
    using that by (auto simp: deal_bottom_def bind_Some Let_def scores_simps split: option.splits)
  have rest: "scores_ok h' = scores_ok h" if "turn_joker h = Some h' \<or> cut_bottom n h = Some h'" for h h' n
    using that by (auto simp: turn_joker_def cut_bottom_def Let_def scores_simps split: if_split_asm)
  have deal: "scores_ok h'" if step: "step_deal_cards env h = Some h'" and ok: "scores_ok h" for h h'
  proof -
    obtain h1 n h2 h3 h4 where h: "deal_bottom env h = Some (h1, n)" "for_each deal_seat [0..<length (m_seats h1)] h1 = Some h2"
      "turn_joker h2 = Some h3" "cut_bottom n h3 = Some h4" "broadcast_deal_cards h4 = Some h'"
      using step by (auto simp: step_deal_cards_def bind_Some)
    have "scores_ok h2" using h(2) by (rule for_each_invariant) (use bottom [OF h(1)] ok seat in blast)+
    then show ?thesis using rest [OF disjI1 [OF h(3)]] rest [OF disjI2 [OF h(4)]] scores.view_broadcast_deal [OF h(5)] by simp
  qed
  show ?thesis
    using assms by (auto simp: start_new_game_def bind_Some scores_simps dest!: ready scores.view_dealer_seat deal split: if_split_asm)
qed

lemma check_player_status_scores:
  assumes "check_player_status env g = Some g'" "scores_ok g"
  shows "scores_ok g'"
  using assms(1) unfolding check_player_status_def
  by (rule for_each_invariant)
    (use assms(2) in \<open>auto simp: bind_Some destroy_player_scores dest: player_stand_up_scores split: if_split_asm\<close>)

lemma check_player_chips_scores:
  assumes "check_player_chips env g = Some g'" "scores_ok g"
  shows "scores_ok g'"
  using assms(1) unfolding check_player_chips_def
  by (rule for_each_invariant)
    (use assms(2) in \<open>auto simp: bind_Some destroy_player_scores dest!: scores.view_check_chips dest: player_stand_up_scores
      split: if_split_asm option.splits\<close>)

lemma ready_for_next_game_scores: "ready_for_next_game env g = Some g' \<Longrightarrow> scores_ok g \<Longrightarrow> scores_ok g'"
  by (auto simp: ready_for_next_game_def bind_Some scores_simps dest!: check_player_status_scores scores.view_over_status(2))

lemma step_declare_timeout_scores:
  assumes "step_declare_timeout env g = Some g'" "scores_ok g"
  shows "scores_ok g'"
  using assms(1) unfolding step_declare_timeout_def
  by (rule for_each_invariant) (use assms(2) in \<open>auto simp: bind_Some dest: default_decalre_scores split: if_split_asm\<close>)

lemma timeout_scores:
  assumes "on_wait_round_timeout env g = Some g'" "scores_ok g"
  shows "scores_ok g'"
proof -
  have unready: "scores_ok h'" if "step_unready env h = Some h'" "scores_ok h" for h h'
    using that by (auto simp: step_unready_def bind_Some Let_def scores_simps dest!: check_player_chips_scores split: if_split_asm)
  have begins: "scores_ok h'" if "step_playing_begin env h = Some h'" "scores_ok h" for h h'
    using that by (auto simp: step_playing_begin_def scores_simps dest!: start_new_game_scores split: if_split_asm)
  have active1: "scores_ok h'" if "step_active1_timeout env h = Some h'" "scores_ok h" for h h'
    using that by (auto simp: step_active1_timeout_def bind_Some dest!: scores.view_trustee(1) active_player_scores)
  have active2: "scores_ok h'" if "step_rand2_timeout env h = Some h'" "scores_ok h" for h h'
    using that by (auto simp: step_rand2_timeout_def bind_Some dest!: scores.view_trustee(1) post_default_card_scores)
  let ?h = "set_game_status (m_game_status g AND NOT GAME_WAIT_MASK) (g\<lparr>m_wait_round_timer := None\<rparr>)"
  have h: "scores_ok ?h" using assms(2) by (simp add: scores_simps)
  from assms h show ?thesis
    by (auto simp: on_wait_round_timeout_def step_new_round_def Let_def intro: unready begins active1 active2 active_player_scores
        step_declare_timeout_scores ready_for_next_game_scores simp del: if_split split: option.splits if_split_asm)
qed

section \<open>Requests\<close>

lemma desk_request_scores:
  assumes "desk_request env u action g = Some g'" "scores_ok g" "\<And>h g'. action h = Some g' \<Longrightarrow> scores_ok h \<Longrightarrow> scores_ok g'"
  shows "scores_ok g'"
  using assms(1,2) by (auto simp: desk_request_def find_player_def scores_simps intro: assms(3) split: if_split_asm)

lemma request_scores:
  assumes "on_recv_msg env q g = Some g'" "scores_ok g"
  shows "scores_ok g'"
proof -
  have add: "scores_ok h' = scores_ok h" if "add_player env u ses h = Some h'" for u ses h h'
    using that by (auto simp: add_player_def scores_simps split: if_splits option.splits)
  have enter: "scores_ok g'" if "on_player_enter env u name ses g = Some g'" for u name ses
    using that assms(2) by (auto simp: on_player_enter_def on_new_player_enter_def find_player_def bind_Some Let_def scores_simps
        destroy_player_scores dest!: add player_sit_down_scores scores.view_buy_in scores.view_come_back split: if_split_asm option.splits)
  have quit: "scores_ok g'" if "on_player_exit env u g = Some g'" for u
    using that assms(2) by (auto simp: on_player_exit_def find_player_def bind_Some Let_def scores_simps
        destroy_player_scores dest!: player_stand_up_scores split: if_split_asm)
  have standup: "scores_ok g'" if step: "on_apply_standup env u g = Some g'" for u
  proof -
    let ?g = "upd_player u (flush_online_time env) (reply GG_ERROR_SUCCESS g)"
    have "scores_ok ?g" using assms(2) by (simp add: scores_simps)
    moreover have "g' = reply GG_ERROR_USER_NOT_IN_ROOM g \<or> g' = ?g \<or>
        (\<exists>g1 x. player_stand_up env u APPLY_STAND_UP ?g = Some (g1, x) \<and> (g' = g1 \<or> g' = destroy_player u g1))"
      using step by (auto simp: on_apply_standup_def find_player_def bind_Some Let_def split: if_split_asm)
    ultimately show ?thesis using player_stand_up_scores assms(2) by (auto simp: scores_simps destroy_player_scores)
  qed
  have seat: "scores_ok g'" if "on_apply_seat env u n g = Some g'" for u n
    using that assms(2) by (auto simp: on_apply_seat_def find_player_def bind_Some Let_def scores_simps
        dest!: player_sit_down_scores scores.view_buy_in split: if_split_asm)
  have trustee: "scores_ok h'" if "player_trusteeoff env u h = Some h'" "scores_ok h" for u h h'
    using that by (auto simp: player_trusteeoff_def bind_Some Let_def scores_simps dest!: scores.view_trustee(2) simp del: if_split split: if_split_asm)
  have close: "scores_ok h'" if "player_close_account_box env u h = Some h'" "scores_ok h" for u h h'
    using that by (auto simp: player_close_account_box_def bind_Some Let_def scores_simps dest!: ready_for_next_game_scores split: if_split_asm)
  show ?thesis
    using assms enter quit standup seat
    by (cases q)
      (auto elim!: desk_request_scores dest!: scores.view_flush_room scores.view_relay simp: desk_request_defs scores_simps
        intro: player_dig_card_scores player_post_card_scores player_drop_scores player_declare_scores player_lose_declare_scores trustee close)
qed

lemma online_scores:
  assumes "check_player_online env g = Some g'" "scores_ok g"
  shows "scores_ok g'"
  using assms(1) unfolding check_player_online_def
proof (rule for_each_invariant)
  fix u h h'
  assume "check_one_online env u h = Some h'" "scores_ok h"
  then show "scores_ok h'"
    by (cases rule: check_one_online_cases) (auto simp: scores_simps destroy_player_scores dest!: player_stand_up_scores)
qed (rule assms(2))

interpretation scores_inv: room_invariant scores_ok
proof unfold_locales
  show "scores_ok g" if "open_area rs info = Some g" for rs info g
    using that by (auto simp: open_area_def bind_Some scores_ok_def score_ok_def GameSeat_def)
  show "scores_ok g'" if "handle env ev g = Some g'" "makes_fresh env" "scores_ok g" for env ev g g'
    using that request_scores timeout_scores online_scores by (cases ev) auto
  show "scores_ok (g\<lparr>m_combination := cb\<rparr>)" if "scores_ok g" for g cb
    using that by (simp add: scores_ok_def)
qed

end
