(* ===== verification/Byte_Codecs.thy ===== *)
theory Byte_Codecs
  imports Stars_Prelude
begin

text \<open>
  The byte encodings of \<open>server/common/libtools\<close>: the byte orders of \<open>BigEndLittleEnd.cpp\<close> and
  the two Base64 codecs of \<open>Base64.cpp\<close>. The first codec (\<open>Base64Encode(s, n, chSet)\<close> and
  \<open>Base64Decode(strEn, buf, length, chSet)\<close>) works through tables and knows a normal and a
  secret alphabet; the second one (\<open>Unit_Code\<close>, \<open>Unit_Decode\<close> and their callers) works on
  units of three bytes.

  A byte of a buffer and a \<open>char\<close> of a \<open>std::string\<close> is a \<^typ>\<open>u8\<close>; where the C++ promotes a
  \<open>char\<close>, which is signed on the target, the model extends the sign.
\<close>

section \<open>Byte orders\<close>

definition Swap16 :: "u16 \<Rightarrow> u16" where
  "Swap16 s = push_bit 8 (s AND 0xff) OR (drop_bit 8 s AND 0xff)"

definition Swap32 :: "u32 \<Rightarrow> u32" where
  "Swap32 l = drop_bit 24 l OR drop_bit 8 (l AND 0x00ff0000) OR push_bit 8 (l AND 0x0000ff00)
     OR push_bit 24 l"

definition Swap64 :: "u64 \<Rightarrow> u64" where
  "Swap64 l = drop_bit 56 l
     OR drop_bit 40 (l AND 0x00ff000000000000)
     OR drop_bit 24 (l AND 0x0000ff0000000000)
     OR drop_bit 8 (l AND 0x000000ff00000000)
     OR push_bit 8 (l AND 0x00000000ff000000)
     OR push_bit 24 (l AND 0x0000000000ff0000)
     OR push_bit 40 (l AND 0x000000000000ff00)
     OR push_bit 56 l"

text \<open>
  How the host keeps an integer in memory: the bytes of a word from the lowest address on. A
  host is big or little endian; the flag is an argument of every operation that looks at it.
\<close>

definition le_bytes :: "nat \<Rightarrow> 'a::len word \<Rightarrow> u8 list" where
  "le_bytes n w = map (\<lambda>i. ucast (drop_bit (8 * i) w)) [0..<n]"

definition in_memory :: "bool \<Rightarrow> nat \<Rightarrow> 'a::len word \<Rightarrow> u8 list" where
  "in_memory big n w = (if big then rev (le_bytes n w) else le_bytes n w)"

definition le_word :: "u8 list \<Rightarrow> 'a::len word" where
  "le_word bs = foldr (\<lambda>b w. push_bit 8 w OR ucast b) bs 0"

definition from_memory :: "bool \<Rightarrow> u8 list \<Rightarrow> 'a::len word" where
  "from_memory big bs = le_word (if big then rev bs else bs)"

text \<open>\<open>is_big_endian\<close> looks at the first byte of the \<open>short\<close> 1.\<close>

definition is_big_endian :: "bool \<Rightarrow> bool" where
  "is_big_endian big = (if in_memory big 2 (1 :: u16) ! 0 \<noteq> 0 then False else True)"

definition hton16 :: "bool \<Rightarrow> u16 \<Rightarrow> u16" where
  "hton16 big s = (if is_big_endian big then s else Swap16 s)"

definition ntoh16 :: "bool \<Rightarrow> u16 \<Rightarrow> u16" where
  "ntoh16 big s = (if is_big_endian big then s else Swap16 s)"

definition hton32 :: "bool \<Rightarrow> u32 \<Rightarrow> u32" where
  "hton32 big i = (if is_big_endian big then i else Swap32 i)"

definition ntoh32 :: "bool \<Rightarrow> u32 \<Rightarrow> u32" where
  "ntoh32 big i = (if is_big_endian big then i else Swap32 i)"

definition hton64 :: "bool \<Rightarrow> u64 \<Rightarrow> u64" where
  "hton64 big l = (if is_big_endian big then l else Swap64 l)"

definition ntoh64 :: "bool \<Rightarrow> u64 \<Rightarrow> u64" where
  "ntoh64 big l = (if is_big_endian big then l else Swap64 l)"

text \<open>
  \<open>read_integer\<close> for integers of 2, 4 and 8 bytes. The argument of the conversions is \<open>*p\<close>, one
  (signed) \<open>char\<close>: the other bytes are not looked at.
\<close>

definition read_integer16 :: "bool \<Rightarrow> u8 list \<Rightarrow> u16 option" where
  "read_integer16 big p = (case p of [] \<Rightarrow> None | c # _ \<Rightarrow> Some (ntoh16 big (scast c)))"

definition read_integer32 :: "bool \<Rightarrow> u8 list \<Rightarrow> u32 option" where
  "read_integer32 big p = (case p of [] \<Rightarrow> None | c # _ \<Rightarrow> Some (ntoh32 big (scast c)))"

definition read_integer64 :: "bool \<Rightarrow> u8 list \<Rightarrow> u64 option" where
  "read_integer64 big p = (case p of [] \<Rightarrow> None | c # _ \<Rightarrow> Some (ntoh64 big (scast c)))"

section \<open>The table codec\<close>

text \<open>\<open>enum BASE64_CH_SET\<close>: the argument \<open>chSet\<close> selects the alphabet; every other value is the
  normal one.\<close>

datatype base64_ch_set = BASE64_CH_NORMAL | BASE64_CH_SECRET

definition chars :: "string \<Rightarrow> u8 list" where
  "chars s = map of_char s"

definition base64o :: "u8 list" where
  "base64o = chars ''ABCDEFGHIJKLMNOPQRSTUVWXYZabcdefghijklmnopqrstuvwxyz0123456789+/''"

definition base64i :: "u8 list" where
  "base64i =
     [-1, -1, -1, -1, -1, -1, -1, -1, -1, -1, -1, -1, -1, -1, -1, -1,
      -1, -1, -1, -1, -1, -1, -1, -1, -1, -1, -1, -1, -1, -1, -1, -1,
      -1, -1, -1, -1, -1, -1, -1, -1, -1, -1, -1, 62, -1, -1, -1, 63,
      52, 53, 54, 55, 56, 57, 58, 59, 60, 61, -1, -1, -1, -1, -1, -1,
      -1, 0, 1, 2, 3, 4, 5, 6, 7, 8, 9, 10, 11, 12, 13, 14,
      15, 16, 17, 18, 19, 20, 21, 22, 23, 24, 25, -1, -1, -1, -1, -1,
      -1, 26, 27, 28, 29, 30, 31, 32, 33, 34, 35, 36, 37, 38, 39, 40,
      41, 42, 43, 44, 45, 46, 47, 48, 49, 50, 51, -1, -1, -1, -1, -1]"

definition base64o_ex :: "u8 list" where
  "base64o_ex = chars ''Tiger_xu1984206bz#5%3$WwpIQ7*&[,]mNoYEs@!XUHBaZCqRtOcD<fGF+>.hjJ''"

definition base64i_ex :: "u8 list" where
  "base64i_ex =
     [-1, -1, -1, -1, -1, -1, -1, -1, -1, -1,
      -1, -1, -1, -1, -1, -1, -1, -1, -1, -1,
      -1, -1, -1, -1, -1, -1, -1, -1, -1, -1,
      -1, -1, -1, 40, -1, 17, 21, 19, 29, -1,
      -1, -1, 28, 58, 31, -1, 60, -1, 13, 8,
      12, 20, 11, 18, 14, 27, 10, 9, -1, -1,
      54, -1, 59, -1, 39, -1, 44, 47, 53, 37,
      57, 56, 43, 25, 63, -1, -1, -1, 34, 51,
      -1, 26, 49, -1, 0, 42, -1, 22, 41, 36,
      46, 30, -1, 32, -1, 5, -1, 45, 15, 52,
      -1, 3, 55, 2, 61, 1, 62, -1, -1, 33,
      -1, 35, 24, 48, 4, 38, 50, 7, -1, 23,
      6, -1, 16, -1, -1, -1, -1, -1]"

text \<open>The choice of the table and of the padding character: the \<open>switch\<close> of both functions.\<close>

fun encode_set :: "base64_ch_set \<Rightarrow> u8 list \<times> u8" where
  "encode_set BASE64_CH_SECRET = (base64o_ex, of_char CHR ''#'')"
| "encode_set BASE64_CH_NORMAL = (base64o, of_char CHR ''='')"

fun decode_set :: "base64_ch_set \<Rightarrow> u8 list \<times> u8" where
  "decode_set BASE64_CH_SECRET = (base64i_ex, of_char CHR ''#'')"
| "decode_set BASE64_CH_NORMAL = (base64i, of_char CHR ''='')"

text \<open>\<open>m = (m << 8) | c\<close> on \<open>unsigned long\<close>: the \<open>char\<close> \<open>c\<close> is promoted with its sign.\<close>

definition shift_in :: "u64 \<Rightarrow> u8 \<Rightarrow> u64" where
  "shift_in m c = push_bit 8 m OR scast c"

text \<open>The loop \<open>d[--i] = table[m & 0x3F]\<close> with \<open>m >>= 6\<close>, from \<open>i = 4\<close> down.\<close>

definition digits4 :: "u8 list \<Rightarrow> u64 \<Rightarrow> u8 list" where
  "digits4 tab m =
     map (\<lambda>i. tab ! unat (drop_bit (6 * i) m AND 0x3F)) [3, 2, 1, 0]"

fun encode_loop :: "u8 list \<Rightarrow> u8 \<Rightarrow> u8 list \<Rightarrow> u8 list" where
  "encode_loop tab e (a # b # c # s) =
     digits4 tab (shift_in (shift_in (scast a) b) c) @ encode_loop tab e s"
| "encode_loop tab e [] = []"
| "encode_loop tab e s =
     (let n = length s;
          m = push_bit (8 * (3 - n)) (fold (\<lambda>c m. shift_in m c) s 0)
      in take (n + 1) (digits4 tab m) @ replicate (3 - n) e)"

definition Base64Encode_set :: "u8 list \<Rightarrow> base64_ch_set \<Rightarrow> u8 list" where
  "Base64Encode_set s ch = (case encode_set ch of (tab, e) \<Rightarrow> encode_loop tab e s)"

text \<open>
  The decoder. \<open>strEn.at\<close> throws at the end of the string, a \<open>char\<close> of at least 128 indexes the
  table of 128 entries out of its bounds, and \<open>buf\<close> has \<open>iBuffLen\<close> bytes.
\<close>

datatype decode_error = Out_of_range | Bad_index | Buffer_overrun

fun c1_loop :: "u8 list \<Rightarrow> u8 list \<Rightarrow> decode_error + u8 \<times> u8 list" where
  "c1_loop tab [] = Inl Out_of_range"
| "c1_loop tab (x # xs) =
     (if 128 \<le> x then Inl Bad_index
      else let c1 = tab ! unat x in
        if xs \<noteq> [] \<and> c1 = -1 then c1_loop tab xs else Inr (c1, xs))"

fun c2_loop :: "u8 list \<Rightarrow> u8 \<Rightarrow> u8 list \<Rightarrow> decode_error + u8 \<times> u8 list" where
  "c2_loop tab c1 [] = Inl Out_of_range"
| "c2_loop tab c1 (x # xs) =
     (if 128 \<le> x then Inl Bad_index
      else let c2 = tab ! unat x in
        if xs \<noteq> [] \<and> c1 = -1 then c2_loop tab c1 xs else Inr (c2, xs))"

text \<open>The loops of \<open>c3\<close> and \<open>c4\<close>; \<open>Inr None\<close> is the \<open>return 0\<close> at the padding character.\<close>

fun c34_loop :: "u8 list \<Rightarrow> u8 \<Rightarrow> u8 list \<Rightarrow> decode_error + (u8 \<times> u8 list) option" where
  "c34_loop tab e [] = Inl Out_of_range"
| "c34_loop tab e (x # xs) =
     (if x = e then Inr None
      else if 128 \<le> x then Inl Bad_index
      else let c = tab ! unat x in
        if xs \<noteq> [] \<and> c = -1 then c34_loop tab e xs else Inr (Some (c, xs)))"

text \<open>One round of the outer loop: it goes on, breaks with \<open>length = 0\<close>, or returns.\<close>

datatype decode_step = Goes_on "u8 list" "u8 list" | Breaks | Returns "u8 list"

definition put :: "nat \<Rightarrow> u8 list \<Rightarrow> u8 \<Rightarrow> decode_error + u8 list" where
  "put cap buf c = (if length buf < cap then Inr (buf @ [c]) else Inl Buffer_overrun)"

definition decode_c4 ::
  "u8 list \<Rightarrow> u8 \<Rightarrow> nat \<Rightarrow> u8 \<Rightarrow> u8 list \<Rightarrow> u8 list \<Rightarrow> decode_error + decode_step" where
  "decode_c4 tab e cap c3 xs buf =
     (case c34_loop tab e xs of
        Inl err \<Rightarrow> Inl err
      | Inr None \<Rightarrow> Inr (Returns buf)
      | Inr (Some (c4, xs)) \<Rightarrow>
          if c4 = -1 then Inr Breaks
          else case put cap buf (push_bit 6 (c3 AND 0x03) OR c4) of
            Inl err \<Rightarrow> Inl err
          | Inr buf \<Rightarrow> Inr (Goes_on xs buf))"

definition decode_c3 ::
  "u8 list \<Rightarrow> u8 \<Rightarrow> nat \<Rightarrow> u8 \<Rightarrow> u8 list \<Rightarrow> u8 list \<Rightarrow> decode_error + decode_step" where
  "decode_c3 tab e cap c2 xs buf =
     (case c34_loop tab e xs of
        Inl err \<Rightarrow> Inl err
      | Inr None \<Rightarrow> Inr (Returns buf)
      | Inr (Some (c3, xs)) \<Rightarrow>
          if c3 = -1 then Inr Breaks
          else case put cap buf (push_bit 4 (c2 AND 0xF) OR drop_bit 2 (c3 AND 0x3C)) of
            Inl err \<Rightarrow> Inl err
          | Inr buf \<Rightarrow> decode_c4 tab e cap c3 xs buf)"

definition decode_unit :: "u8 list \<Rightarrow> u8 \<Rightarrow> nat \<Rightarrow> u8 list \<Rightarrow> u8 list \<Rightarrow> decode_error + decode_step" where
  "decode_unit tab e cap xs buf =
     (case c1_loop tab xs of
        Inl err \<Rightarrow> Inl err
      | Inr (c1, xs) \<Rightarrow>
          if c1 = -1 then Inr Breaks
          else case c2_loop tab c1 xs of
            Inl err \<Rightarrow> Inl err
          | Inr (c2, xs) \<Rightarrow>
              if c2 = -1 then Inr Breaks
              else case put cap buf (push_bit 2 c1 OR drop_bit 4 (c2 AND 0x30)) of
                Inl err \<Rightarrow> Inl err
              | Inr buf \<Rightarrow> decode_c3 tab e cap c2 xs buf)"

lemma c1_loop_shorter: "c1_loop tab xs = Inr (c, ys) \<Longrightarrow> length ys < length xs"
  by (induction tab xs rule: c1_loop.induct) (auto simp: Let_def split: if_splits)

lemma c2_loop_shorter: "c2_loop tab c1 xs = Inr (c, ys) \<Longrightarrow> length ys < length xs"
  by (induction tab c1 xs rule: c2_loop.induct) (auto simp: Let_def split: if_splits)

lemma c34_loop_shorter: "c34_loop tab e xs = Inr (Some (c, ys)) \<Longrightarrow> length ys < length xs"
  by (induction tab e xs rule: c34_loop.induct) (auto simp: Let_def split: if_splits)

lemma decode_unit_shorter: "decode_unit tab e cap xs buf = Inr (Goes_on ys buf') \<Longrightarrow> length ys < length xs"
  by (auto simp: decode_unit_def decode_c3_def decode_c4_def split: sum.splits option.splits if_splits
      dest!: c1_loop_shorter c2_loop_shorter c34_loop_shorter)

function (sequential) decode_loop ::
  "u8 list \<Rightarrow> u8 \<Rightarrow> nat \<Rightarrow> u8 list \<Rightarrow> u8 list \<Rightarrow> decode_error + int \<times> u8 list option" where
  "decode_loop tab e cap xs buf =
     (if xs = [] then Inr (if buf = [] then (-1, None) else (0, Some buf))
      else case decode_unit tab e cap xs buf of
        Inl err \<Rightarrow> Inl err
      | Inr Breaks \<Rightarrow> Inr (-1, None)
      | Inr (Returns buf) \<Rightarrow> Inr (0, Some buf)
      | Inr (Goes_on ys buf) \<Rightarrow> decode_loop tab e cap ys buf)"
  by pat_completeness auto
termination
  by (relation "measure (\<lambda>(_, _, _, xs, _). length xs)") (auto dest: decode_unit_shorter)

declare decode_loop.simps [simp del]

text \<open>The result is the return value and the \<open>length\<close> bytes of \<open>buf\<close>.\<close>

definition Base64Decode_set :: "u8 list \<Rightarrow> base64_ch_set \<Rightarrow> decode_error + int \<times> u8 list option" where
  "Base64Decode_set strEn ch =
     (let iBuffLen = length strEn div 4 * 3 + 1 in
      if iBuffLen \<le> 1 then Inr (-1, None)
      else case decode_set ch of (tab, e) \<Rightarrow> decode_loop tab e iBuffLen strEn [])"

section \<open>The unit codec\<close>

definition BASE64_TAB :: "u8 list" where
  "BASE64_TAB = chars ''ABCDEFGHIJKLMNOPQRSTUVWXYZabcdefghijklmnopqrstuvwxyz0123456789+/''"

definition Unit_Code :: "u8 \<Rightarrow> u8 \<Rightarrow> u8 \<Rightarrow> u8 list" where
  "Unit_Code p0 p1 p2 =
     [BASE64_TAB ! unat (drop_bit 2 p0),
      BASE64_TAB ! unat ((push_bit 4 p0 AND 0x3F) OR drop_bit 4 p1),
      BASE64_TAB ! unat ((push_bit 2 p1 AND 0x3F) OR drop_bit 6 p2),
      BASE64_TAB ! unat (p2 AND 0x3F)]"

text \<open>\<open>Fill_Code\<close> on the one or two bytes that are left; it asserts that there are so many.\<close>

fun Fill_Code :: "u8 list \<Rightarrow> u8 list option" where
  "Fill_Code [p0, p1] = Some
     [BASE64_TAB ! unat (drop_bit 2 p0),
      BASE64_TAB ! unat ((push_bit 4 p0 AND 0x3F) OR drop_bit 4 p1),
      BASE64_TAB ! unat ((push_bit 2 p1 AND 0x3F) OR drop_bit 6 0),
      of_char CHR ''='']"
| "Fill_Code [p0] = Some
     [BASE64_TAB ! unat (drop_bit 2 p0),
      BASE64_TAB ! unat ((push_bit 4 p0 AND 0x3F) OR drop_bit 4 0),
      of_char CHR ''='', of_char CHR ''='']"
| "Fill_Code _ = None"

fun Base64Encode :: "u8 list \<Rightarrow> u8 list option" where
  "Base64Encode (p0 # p1 # p2 # src) =
     (case Base64Encode src of None \<Rightarrow> None | Some t \<Rightarrow> Some (Unit_Code p0 p1 p2 @ t))"
| "Base64Encode [] = Some []"
| "Base64Encode src = Fill_Code src"

text \<open>
  \<open>Base64ChPos\<close>: \<open>strchr\<close> looks at the table with its terminating zero; for a character that is
  not there the difference with a null pointer has no meaning.
\<close>

definition Base64ChPos :: "u8 \<Rightarrow> u8 option" where
  "Base64ChPos ch =
     (let i = length (takeWhile (\<lambda>c. c \<noteq> ch) (BASE64_TAB @ [0])) in
      if i < 65 then Some (of_nat i) else None)"

text \<open>\<open>Unit_Decode\<close> fills the three bytes at \<open>pDes\<close>; a byte it does not write is \<open>None\<close>.\<close>

definition Unit_Decode :: "u8 \<Rightarrow> u8 \<Rightarrow> u8 \<Rightarrow> u8 \<Rightarrow> u8 option list option" where
  "Unit_Decode s0 s1 s2 s3 =
     (if s3 \<noteq> of_char CHR ''='' then do {
        c0 \<leftarrow> Base64ChPos s0;
        c1 \<leftarrow> Base64ChPos s1;
        c2 \<leftarrow> Base64ChPos s2;
        c3 \<leftarrow> Base64ChPos s3;
        Some [Some (push_bit 2 c0 OR drop_bit 4 c1),
              Some (push_bit 4 c1 OR drop_bit 2 c2),
              Some (push_bit 6 c2 OR c3)]
      }
      else if s2 = of_char CHR ''='' then do {
        c0 \<leftarrow> Base64ChPos s0;
        c1 \<leftarrow> Base64ChPos s1;
        Some [Some (push_bit 2 c0 OR drop_bit 4 c1), None, None]
      }
      else do {
        c0 \<leftarrow> Base64ChPos s0;
        c1 \<leftarrow> Base64ChPos s1;
        c2 \<leftarrow> Base64ChPos s2;
        Some [Some (push_bit 2 c0 OR drop_bit 4 c1),
              Some (push_bit 4 c1 OR drop_bit 2 c2), None]
      })"

fun decode_units :: "u8 list \<Rightarrow> u8 option list option" where
  "decode_units (s0 # s1 # s2 # s3 # src) = do {
     u \<leftarrow> Unit_Decode s0 s1 s2 s3;
     us \<leftarrow> decode_units src;
     Some (u @ us)
   }"
| "decode_units _ = Some []"

definition decode_padding :: "u8 list \<Rightarrow> nat" where
  "decode_padding src =
     (if src ! (length src - 1) = of_char CHR ''=''
      then if src ! (length src - 2) = of_char CHR ''='' then 2 else 1
      else 0)"

text \<open>
  \<open>Base64Decode(strEn, buf, length)\<close>: the buffer and the length it reports, which stays as the
  caller left it (\<open>old\<close>) when the text is shorter than a unit.
\<close>

definition Base64Decode_raw :: "u8 list \<Rightarrow> nat \<Rightarrow> (u8 option list \<times> nat) option" where
  "Base64Decode_raw src old =
     (if length src < 4 then Some ([], old)
      else do {
        dest \<leftarrow> decode_units src;
        Some (dest, length src div 4 * 3 - decode_padding src)
      })"

definition Base64Decode :: "u8 list \<Rightarrow> nat \<Rightarrow> (u8 option list \<times> nat) option" where
  "Base64Decode strEn old = (if strEn = [] then Some ([], 0) else Base64Decode_raw strEn old)"

section \<open>Byte orders are involutions\<close>

lemma length_le_bytes [simp]: "length (le_bytes n w) = n"
  by (simp add: le_bytes_def)

lemma Swap16_Swap16 [simp]: "Swap16 (Swap16 l) = l"
  by (rule word_eqI_all) (simp add: Swap16_def all_bits)

lemma Swap32_Swap32 [simp]: "Swap32 (Swap32 l) = l"
  by (rule word_eqI_all) (simp add: Swap32_def all_bits)

lemma Swap64_Swap64 [simp]: "Swap64 (Swap64 l) = l"
  by (rule word_eqI_all) (simp add: Swap64_def all_bits)

lemma is_big_endian_iff [simp]: "is_big_endian big \<longleftrightarrow> big"
  by (simp add: is_big_endian_def in_memory_def le_bytes_def upt_rec nth_Cons')

lemma ntoh_hton [simp]:
  "ntoh16 big (hton16 big s) = s" "ntoh32 big (hton32 big i) = i" "ntoh64 big (hton64 big l) = l"
  by (simp_all add: ntoh16_def hton16_def ntoh32_def hton32_def ntoh64_def hton64_def)

text \<open>What a host of either kind puts on the wire for a 32 bit integer: the high byte first.\<close>

lemma hton32_in_memory:
  "in_memory big 4 (hton32 big i) =
     [ucast (drop_bit 24 i), ucast (drop_bit 16 i), ucast (drop_bit 8 i), ucast i]"
proof -
  have swapped: "ucast (Swap32 i) = (ucast (drop_bit 24 i) :: u8)"
    "ucast (drop_bit 8 (Swap32 i)) = (ucast (drop_bit 16 i) :: u8)"
    "ucast (drop_bit 16 (Swap32 i)) = (ucast (drop_bit 8 i) :: u8)"
    "ucast (drop_bit 24 (Swap32 i)) = (ucast i :: u8)"
    by (rule word_eqI_all, simp add: Swap32_def all_bits)+
  then show ?thesis
    by (simp add: in_memory_def le_bytes_def hton32_def upt_rec)
qed

lemma from_memory32: "length bs = 4 \<Longrightarrow> in_memory big 4 (from_memory big bs :: u32) = bs"
proof -
  have le: "le_bytes 4 (le_word [a, b, c, d] :: u32) = [a, b, c, d]" for a b c d
    unfolding le_bytes_def le_word_def
    by (simp add: upt_rec) (intro conjI; rule word_eqI_all; simp add: all_bits)
  assume "length bs = 4"
  then obtain a b c d where "bs = [a, b, c, d]"
    by (auto simp: numeral_eq_Suc length_Suc_conv)
  then show ?thesis
    using le [of a b c d] le [of d c b a] by (simp add: in_memory_def from_memory_def)
qed

lemma in_memory32: "from_memory big (in_memory big 4 w) = (w :: u32)"
proof -
  have "le_word (le_bytes 4 w) = w"
    unfolding le_bytes_def le_word_def
    by (rule word_eqI_all) (simp add: upt_rec all_bits)
  then show ?thesis by (simp add: in_memory_def from_memory_def)
qed

section \<open>The alphabets\<close>

lemma takeWhile_nth:
  "distinct xs \<Longrightarrow> i < length xs \<Longrightarrow> takeWhile (\<lambda>c. c \<noteq> xs ! i) (xs @ ys) = take i xs"
proof (induction xs arbitrary: i)
  case (Cons x xs)
  then show ?case by (cases i) (auto simp: nth_eq_iff_index_eq)
qed simp

lemma BASE64_TAB_bytes:
  "distinct BASE64_TAB" "length BASE64_TAB = 64" "of_char CHR ''='' \<notin> set BASE64_TAB"
  "base64o = BASE64_TAB"
  by (simp_all add: BASE64_TAB_def base64o_def chars_def)

lemma base64i_inverse: "map (\<lambda>c. base64i ! unat c) base64o = map of_nat [0..<64]"
  by (simp add: base64i_def base64o_def chars_def upt_rec)

lemma base64o_ascii: "\<forall>c\<in>set base64o. c < 128"
  by (simp add: base64o_def chars_def)

text \<open>A digit: the character of a number of six bits.\<close>

definition digit :: "u8 \<Rightarrow> u8" where
  "digit w = BASE64_TAB ! unat w"

lemma digit_facts:
  assumes "unat w < 64"
  shows "Base64ChPos (digit w) = Some w" "digit w \<noteq> of_char CHR ''=''" "digit w \<noteq> 61" "digit w < 128"
    "base64i ! unat (digit w) = w" "w \<noteq> -1"
proof -
  have len: "unat w < length BASE64_TAB" using assms by (simp add: BASE64_TAB_bytes)
  then have mem: "digit w \<in> set BASE64_TAB" by (simp add: digit_def)
  show "Base64ChPos (digit w) = Some w"
    using takeWhile_nth [OF BASE64_TAB_bytes(1) len, of "[0]"] len assms
    by (simp add: Base64ChPos_def digit_def)
  show neq: "digit w \<noteq> of_char CHR ''=''" using mem BASE64_TAB_bytes(3) by metis
  then show "digit w \<noteq> 61" by simp
  show "digit w < 128" using mem base64o_ascii by (simp add: BASE64_TAB_bytes(4))
  have "map (\<lambda>c. base64i ! unat c) base64o ! unat w = of_nat (unat w)"
    using assms by (simp add: base64i_inverse)
  then show "base64i ! unat (digit w) = w"
    using len by (simp add: digit_def BASE64_TAB_bytes(4))
  show "w \<noteq> -1" using assms by (auto simp: unsigned_minus_1_eq_mask mask_eq_exp_minus_1)
qed

lemma six_bits:
  "unat (drop_bit 2 p) < 64"
  "unat (push_bit 4 p AND 0x3F OR drop_bit 4 q) < 64"
  "unat (push_bit 2 q AND 0x3F OR drop_bit 6 r) < 64"
  "unat (push_bit 4 p AND 0x3F) < 64"
  "unat (push_bit 2 q AND 0x3F) < 64"
  "unat (r AND 0x3F) < 64" for p q r :: u8
proof -
  have six: "unat w < 64" if "w AND 0x3F = w" for w :: u8
  proof -
    have "unat w = unat (take_bit 6 w)"
      using that by (simp add: take_bit_eq_mask mask_numeral)
    also have "\<dots> < 64" using take_bit_nat_less_exp [of 6 "unat w"] by (simp add: unsigned_take_bit_eq)
    finally show ?thesis .
  qed
  show "unat (drop_bit 2 p) < 64" "unat (push_bit 4 p AND 0x3F OR drop_bit 4 q) < 64"
    "unat (push_bit 2 q AND 0x3F OR drop_bit 6 r) < 64" "unat (push_bit 4 p AND 0x3F) < 64"
    "unat (push_bit 2 q AND 0x3F) < 64" "unat (r AND 0x3F) < 64"
    by (rule six, rule word_eqI_all, simp add: all_bits)+
qed

lemma unit_bytes:
  "push_bit 2 (drop_bit 2 p) OR drop_bit 4 (push_bit 4 p AND 0x3F OR drop_bit 4 q) = p"
  "push_bit 4 (push_bit 4 p AND 0x3F OR drop_bit 4 q)
     OR drop_bit 2 (push_bit 2 q AND 0x3F OR drop_bit 6 r) = q"
  "push_bit 6 (push_bit 2 q AND 0x3F OR drop_bit 6 r) OR (r AND 0x3F) = r"
  "push_bit 2 (drop_bit 2 p) OR drop_bit 4 (push_bit 4 p AND 0x3F) = p"
  "push_bit 4 (push_bit 4 p AND 0x3F OR drop_bit 4 q) OR drop_bit 2 (push_bit 2 q AND 0x3F) = q"
  for p q r :: u8
  by (rule word_eqI_all, simp add: all_bits)+

lemma unit_bytes_masked:
  "push_bit 2 (drop_bit 2 p) OR drop_bit 4 ((push_bit 4 p AND 0x3F OR drop_bit 4 q) AND 0x30) = p"
  "push_bit 4 ((push_bit 4 p AND 0x3F OR drop_bit 4 q) AND 0xF)
     OR drop_bit 2 ((push_bit 2 q AND 0x3F OR drop_bit 6 r) AND 0x3C) = q"
  "push_bit 6 ((push_bit 2 q AND 0x3F OR drop_bit 6 r) AND 0x03) OR (r AND 0x3F) = r"
  "push_bit 2 (drop_bit 2 p) OR drop_bit 4 ((push_bit 4 p AND 0x3F) AND 0x30) = p"
  "push_bit 4 ((push_bit 4 p AND 0x3F OR drop_bit 4 q) AND 0xF)
     OR drop_bit 2 ((push_bit 2 q AND 0x3F) AND 0x3C) = q"
  for p q r :: u8
  by (rule word_eqI_all, simp add: all_bits)+

lemma Unit_Code_digits:
  "Unit_Code p q r = [digit (drop_bit 2 p), digit (push_bit 4 p AND 0x3F OR drop_bit 4 q),
     digit (push_bit 2 q AND 0x3F OR drop_bit 6 r), digit (r AND 0x3F)]"
  "Fill_Code [p, q] = Some [digit (drop_bit 2 p), digit (push_bit 4 p AND 0x3F OR drop_bit 4 q),
     digit (push_bit 2 q AND 0x3F), of_char CHR ''='']"
  "Fill_Code [p] = Some [digit (drop_bit 2 p), digit (push_bit 4 p AND 0x3F),
     of_char CHR ''='', of_char CHR ''='']"
  by (simp_all add: Unit_Code_def digit_def)

section \<open>The unit codec\<close>

lemma Unit_Decode_digits [simp]:
  "Unit_Decode (digit (drop_bit 2 p)) (digit (push_bit 4 p AND 0x3F OR drop_bit 4 q))
     (digit (push_bit 2 q AND 0x3F OR drop_bit 6 r)) (digit (r AND 0x3F)) = Some [Some p, Some q, Some r]"
  "Unit_Decode (digit (drop_bit 2 p)) (digit (push_bit 4 p AND 0x3F OR drop_bit 4 q))
     (digit (push_bit 2 q AND 0x3F)) 61 = Some [Some p, Some q, None]"
  "Unit_Decode (digit (drop_bit 2 p)) (digit (push_bit 4 p AND 0x3F)) 61 61 = Some [Some p, None, None]"
proof -
  have pad: "of_char CHR ''='' = (61 :: u8)" by simp
  show
    "Unit_Decode (digit (drop_bit 2 p)) (digit (push_bit 4 p AND 0x3F OR drop_bit 4 q))
       (digit (push_bit 2 q AND 0x3F OR drop_bit 6 r)) (digit (r AND 0x3F)) = Some [Some p, Some q, Some r]"
    "Unit_Decode (digit (drop_bit 2 p)) (digit (push_bit 4 p AND 0x3F OR drop_bit 4 q))
       (digit (push_bit 2 q AND 0x3F)) 61 = Some [Some p, Some q, None]"
    "Unit_Decode (digit (drop_bit 2 p)) (digit (push_bit 4 p AND 0x3F)) 61 61 = Some [Some p, None, None]"
    unfolding Unit_Decode_def pad
    by (simp_all only: digit_facts six_bits unit_bytes bind.simps refl if_True if_False
        not_True_eq_False not_False_eq_True)
qed

lemma decode_padding_append: "2 \<le> length t \<Longrightarrow> decode_padding (u @ t) = decode_padding t"
proof -
  assume "2 \<le> length t"
  then have "(u @ t) ! (length (u @ t) - k) = t ! (length t - k)" if "0 < k" "k \<le> 2" for k
    using that by (simp add: nth_append) linarith
  from this [of 1] this [of 2] show ?thesis by (simp add: decode_padding_def)
qed

text \<open>The code of any bytes: units of four characters, the last one padded.\<close>

lemma encode_units:
  "\<exists>t dest. Base64Encode bs = Some t \<and> decode_units t = Some dest
     \<and> take (length bs) dest = map Some bs
     \<and> length t = 4 * ((length bs + 2) div 3)
     \<and> (bs \<noteq> [] \<longrightarrow> length t div 4 * 3 - decode_padding t = length bs)"
proof (induction bs rule: Base64Encode.induct)
  case (1 p q r src)
  then obtain t dest where IH: "Base64Encode src = Some t" "decode_units t = Some dest"
    "take (length src) dest = map Some src" "length t = 4 * ((length src + 2) div 3)"
    "src \<noteq> [] \<Longrightarrow> length t div 4 * 3 - decode_padding t = length src"
    by blast
  have pad: "decode_padding (Unit_Code p q r @ t) = (if src = [] then 0 else decode_padding t)"
  proof (cases "src = []")
    case True
    with IH(4) show ?thesis
      by (simp add: decode_padding_def Unit_Code_digits digit_facts six_bits)
  next
    case False
    with IH(4) have "4 \<le> length t" by (cases src) auto
    with False show ?thesis by (simp add: decode_padding_append)
  qed
  have "length (Unit_Code p q r @ t) div 4 * 3 - decode_padding (Unit_Code p q r @ t)
      = length (p # q # r # src)"
  proof (cases "src = []")
    case False
    with IH(4) have "1 \<le> length t div 4" by (cases src) auto
    moreover have "decode_padding t \<le> 2" by (simp add: decode_padding_def)
    moreover have "length (Unit_Code p q r @ t) div 4 = length t div 4 + 1" by (simp add: Unit_Code_def)
    ultimately show ?thesis using IH(5) [OF False] False pad by (simp del: length_append)
  qed (use IH(4) pad in \<open>simp add: Unit_Code_def\<close>)
  moreover have "(5 + length src) div 3 = Suc (Suc (Suc (length src)) div 3)" by presburger
  ultimately show ?case using IH by (simp add: Unit_Code_digits)
qed (auto simp: Unit_Code_digits decode_padding_def digit_facts six_bits simp del: Fill_Code.simps)

lemma Base64Decode_Encode:
  "\<exists>t dest. Base64Encode bs = Some t \<and> Base64Decode t old = Some (dest, length bs)
     \<and> take (length bs) dest = map Some bs"
proof (cases "bs = []")
  case False
  obtain t dest where t: "Base64Encode bs = Some t" "decode_units t = Some dest"
    "take (length bs) dest = map Some bs" "length t = 4 * ((length bs + 2) div 3)"
    "length t div 4 * 3 - decode_padding t = length bs"
    using encode_units [of bs] False by blast
  from t(4) False have "4 \<le> length t" by (cases bs) auto
  with t show ?thesis by (auto simp: Base64Decode_def Base64Decode_raw_def)
qed (simp add: Base64Decode_def)

section \<open>The table codec\<close>

lemma c_loops_digit:
  assumes "unat w < 64"
  shows "c1_loop base64i (digit w # xs) = Inr (w, xs)"
    "c1 \<noteq> -1 \<Longrightarrow> c2_loop base64i c1 (digit w # xs) = Inr (w, xs)"
    "c34_loop base64i 61 (digit w # xs) = Inr (Some (w, xs))"
  using digit_facts [OF assms] by (auto simp: Let_def)

lemma c34_loop_pad: "c34_loop tab e (e # xs) = Inr None"
  by simp

lemma put_fits [simp]: "length buf < cap \<Longrightarrow> put cap buf c = Inr (buf @ [c])"
  by (simp add: put_def)

lemma decode_unit_digits:
  assumes "unat w0 < 64" "unat w1 < 64" "unat w2 < 64" "unat w3 < 64"
  shows "length buf + 2 < cap \<Longrightarrow>
      decode_unit base64i 61 cap (digit w0 # digit w1 # digit w2 # digit w3 # t) buf =
      Inr (Goes_on t (buf @ [push_bit 2 w0 OR drop_bit 4 (w1 AND 0x30),
        push_bit 4 (w1 AND 0xF) OR drop_bit 2 (w2 AND 0x3C), push_bit 6 (w2 AND 0x03) OR w3]))"
    "length buf + 1 < cap \<Longrightarrow>
      decode_unit base64i 61 cap (digit w0 # digit w1 # digit w2 # 61 # t) buf =
      Inr (Returns (buf @ [push_bit 2 w0 OR drop_bit 4 (w1 AND 0x30),
        push_bit 4 (w1 AND 0xF) OR drop_bit 2 (w2 AND 0x3C)]))"
    "length buf < cap \<Longrightarrow> decode_unit base64i 61 cap (digit w0 # digit w1 # 61 # 61 # t) buf =
      Inr (Returns (buf @ [push_bit 2 w0 OR drop_bit 4 (w1 AND 0x30)]))"
  using assms
  by (simp_all add: decode_unit_def decode_c3_def decode_c4_def c_loops_digit c34_loop_pad
      digit_facts(6) del: c1_loop.simps c2_loop.simps c34_loop.simps)

lemma decode_unit_code:
  "length buf + 2 < cap \<Longrightarrow>
     decode_unit base64i 61 cap (Unit_Code p q r @ t) buf = Inr (Goes_on t (buf @ [p, q, r]))"
  "length buf + 1 < cap \<Longrightarrow> Fill_Code [p, q] = Some u \<Longrightarrow>
     decode_unit base64i 61 cap u buf = Inr (Returns (buf @ [p, q]))"
  "length buf < cap \<Longrightarrow> Fill_Code [p] = Some u \<Longrightarrow>
     decode_unit base64i 61 cap u buf = Inr (Returns (buf @ [p]))"
  using decode_unit_digits [OF six_bits(1) [of p] six_bits(2) [of p q] six_bits(3) [of q r] six_bits(6) [of r]]
    decode_unit_digits [OF six_bits(1) [of p] six_bits(2) [of p q] six_bits(5) [of q] six_bits(6) [of r]]
    decode_unit_digits [OF six_bits(1) [of p] six_bits(4) [of p] six_bits(5) [of q] six_bits(6) [of r]]
  unfolding unit_bytes_masked Unit_Code_digits
  by (auto simp del: Fill_Code.simps)

lemmas Base64Encode_cases = Base64Encode.induct [case_names unit nil one two]

lemma decode_loop_code:
  "Base64Encode bs = Some t \<Longrightarrow> length buf + length bs < cap \<Longrightarrow> buf \<noteq> [] \<or> bs \<noteq> [] \<Longrightarrow>
     decode_loop base64i 61 cap t buf = Inr (0, Some (buf @ bs))"
proof (induction bs arbitrary: t buf rule: Base64Encode_cases)
  case (unit p q r src)
  from unit(2) obtain u where u: "Base64Encode src = Some u" "t = Unit_Code p q r @ u"
    by (auto split: option.splits)
  with unit have "decode_loop base64i 61 cap u (buf @ [p, q, r]) = Inr (0, Some (buf @ p # q # r # src))"
    by simp
  moreover have "t \<noteq> []" using u by (simp add: Unit_Code_def)
  ultimately show ?case
    using decode_unit_code(1) [of buf cap p q r u] u(2) unit(3) by (subst decode_loop.simps) simp
next
  case nil
  then show ?case by (simp add: decode_loop.simps)
next
  case (one p)
  then have "t \<noteq> []" by auto
  with one decode_unit_code(3) [of buf cap p t] show ?case
    by (simp add: decode_loop.simps [of _ _ _ t] del: Fill_Code.simps)
next
  case (two p q)
  then have "t \<noteq> []" by auto
  with two decode_unit_code(2) [of buf cap p q t] show ?case
    by (simp add: decode_loop.simps [of _ _ _ t] del: Fill_Code.simps)
qed

text \<open>The table decoder reads what the unit encoder writes, for all bytes.\<close>

lemma table_decodes_units:
  assumes "Base64Encode bs = Some t" and "bs \<noteq> []"
  shows "Base64Decode_set t BASE64_CH_NORMAL = Inr (0, Some bs)"
proof -
  have "length t = 4 * ((length bs + 2) div 3)" using encode_units [of bs] assms(1) by auto
  moreover have "length bs \<le> (length bs + 2) div 3 * 3" by presburger
  moreover have "0 < (length bs + 2) div 3" using assms(2) by (cases bs) auto
  ultimately show ?thesis
    using decode_loop_code [OF assms(1), of "[]"] assms(2)
    by (simp add: Base64Decode_set_def Let_def)
qed

text \<open>On bytes below 128 the sign extension is harmless and both encoders agree.\<close>

lemma ascii_bit: "a < 128 \<longleftrightarrow> \<not> bit a 7" for a :: u8
proof -
  have "bit a 7 \<longleftrightarrow> odd (unat a div 2 ^ 7)"
    by (metis bit_iff_odd bit_unsigned_iff possible_bit_nat)
  moreover have "unat a < 256" using unsigned_less [of a, where ?'a = nat] by simp
  moreover have "a < 128 \<longleftrightarrow> unat a < 128" by (simp add: word_less_nat_alt)
  moreover have "odd (n div 2 ^ 7) \<longleftrightarrow> \<not> n < 128" if "n < 256" for n :: nat
  proof -
    have "n div 128 = (if n < 128 then 0 else 1)" using that by auto
    then show ?thesis by simp
  qed
  ultimately show ?thesis by blast
qed

lemma wide_digit: "w = ucast v \<Longrightarrow> unat w = unat v" for w :: u64 and v :: u8
  by (simp add: unsigned_ucast_eq take_bit_nat_eq_self_iff) (use unsigned_less [of v, where ?'a = nat] in simp)

lemma ascii_digits:
  fixes a b c :: u8
  assumes "a < 128" "b < 128" "c < 128"
  shows "digits4 base64o (shift_in (shift_in (scast a) b) c) = Unit_Code a b c"
    "digits4 base64o (push_bit 8 (shift_in (shift_in 0 a) b)) = Unit_Code a b 0"
    "digits4 base64o (push_bit 16 (shift_in 0 a)) = Unit_Code a 0 0"
  unfolding digits4_def Unit_Code_def shift_in_def BASE64_TAB_bytes(4) list.map
  by (intro arg_cong2 [where f = Cons] arg_cong2 [where f = nth] refl wide_digit word_eqI_all;
      use assms in \<open>simp add: all_bits ascii_bit\<close>)+

lemma encode_loop_ascii:
  "\<forall>b \<in> set bs. b < 128 \<Longrightarrow> Base64Encode bs = Some (encode_loop base64o 61 bs)"
proof (induction bs rule: Base64Encode_cases)
  case (unit p q r src)
  then show ?case by (simp add: ascii_digits)
next
  case (one p)
  then show ?case
    using ascii_digits(3) [of p p p] by (simp add: Unit_Code_digits numeral_2_eq_2 del: Fill_Code.simps)
next
  case (two p q)
  then show ?case
    using ascii_digits(2) [of p q q] by (simp add: Unit_Code_digits del: Fill_Code.simps)
qed simp

text \<open>The encoder that a decoder of the normal alphabet reads back is only the right one for
  bytes below 128: a byte of at least 128 overwrites the bits before it. In the secret alphabet
  the digit 17 is the padding character, and the buffer of the decoder is one byte too short for
  a text of seven characters.\<close>

lemma encode_sign_extension:
  "Base64Decode_set (Base64Encode_set [0, 128, 0] BASE64_CH_NORMAL) BASE64_CH_NORMAL =
     Inr (0, Some [255, 128, 0])"
  by code_simp

lemma secret_padding_clash:
  "Base64Decode_set (Base64Encode_set [0, 0, 17] BASE64_CH_SECRET) BASE64_CH_SECRET =
     Inr (0, Some [0, 0])"
  by code_simp

lemma decode_overruns_buffer:
  "Base64Decode_set (chars ''QUJDQUJ'') BASE64_CH_NORMAL = Inl Buffer_overrun"
  by code_simp

lemma read_integer_reads_one_byte:
  "read_integer32 False [0, 0, 1, 0] = Some 0" "ntoh32 False (from_memory False [0, 0, 1, 0]) = 256"
  by code_simp+

section \<open>The codecs as one interface\<close>

text \<open>A codec of byte strings: every text of the domain is read back. Texts are then never
  shared by two byte strings.\<close>

locale byte_codec =
  fixes dom :: "u8 list \<Rightarrow> bool"
    and enc :: "u8 list \<Rightarrow> u8 list option"
    and dec :: "u8 list \<Rightarrow> u8 list option"
  assumes dec_enc: "dom bs \<Longrightarrow> \<exists>t. enc bs = Some t \<and> dec t = Some bs"
begin

lemma enc_inj: "dom a \<Longrightarrow> dom b \<Longrightarrow> enc a = enc b \<Longrightarrow> a = b"
  using dec_enc by (metis option.inject)

lemma enc_total: "dom a \<Longrightarrow> \<exists>t. enc a = Some t"
  using dec_enc by blast

end

text \<open>The bytes a caller finds in the buffer of the decoder.\<close>

definition unit_decoded :: "u8 list \<Rightarrow> u8 list option" where
  "unit_decoded t =
     (case Base64Decode t 0 of
        None \<Rightarrow> None
      | Some (dest, n) \<Rightarrow> those (take n dest))"

definition table_decoded :: "u8 list \<Rightarrow> u8 list option" where
  "table_decoded t =
     (case Base64Decode_set t BASE64_CH_NORMAL of Inr (_, buf) \<Rightarrow> buf | Inl _ \<Rightarrow> None)"

lemma those_map_Some [simp]: "those (map Some xs) = Some xs"
  by (induction xs) auto

interpretation unit_codec: byte_codec "\<lambda>_. True" Base64Encode unit_decoded
proof
  fix bs
  show "\<exists>t. Base64Encode bs = Some t \<and> unit_decoded t = Some bs"
    using Base64Decode_Encode [of bs 0] by (auto simp: unit_decoded_def)
qed

interpretation table_decoder: byte_codec "\<lambda>bs. bs \<noteq> []" Base64Encode table_decoded
proof
  fix bs :: "u8 list"
  assume "bs \<noteq> []"
  then show "\<exists>t. Base64Encode bs = Some t \<and> table_decoded t = Some bs"
    using unit_codec.enc_total [of bs] table_decodes_units [of bs] by (auto simp: table_decoded_def)
qed

interpretation table_codec:
  byte_codec "\<lambda>bs. bs \<noteq> [] \<and> (\<forall>b \<in> set bs. b < 128)"
    "\<lambda>bs. Some (Base64Encode_set bs BASE64_CH_NORMAL)" table_decoded
proof
  fix bs :: "u8 list"
  assume bs: "bs \<noteq> [] \<and> (\<forall>b \<in> set bs. b < 128)"
  then have "Base64Encode bs = Some (Base64Encode_set bs BASE64_CH_NORMAL)"
    using encode_loop_ascii [of bs] by (simp add: Base64Encode_set_def)
  with table_decoder.dec_enc [of bs] bs
  show "\<exists>t. Some (Base64Encode_set bs BASE64_CH_NORMAL) = Some t \<and> table_decoded t = Some bs"
    by auto
qed

section \<open>The shifted text\<close>

text \<open>
  \<open>SimpLeSiftencode\<close> and \<open>SimpLeSiftdecode\<close> (\<open>BaseTool.cpp\<close>): the first and the last \<open>shiftBit\<close> bytes
  change places, and the first and the last byte are rotated. \<open>None\<close> is an access outside of a buffer;
  source and destination are different buffers.
\<close>

definition TEMP_BUF_SIZE :: nat where "TEMP_BUF_SIZE = 1024 * 128"

definition SimpleEncShift :: "u8 \<Rightarrow> u8" where
  "SimpleEncShift x = drop_bit 6 x OR push_bit 2 x"

definition SimpleDecShift :: "u8 \<Rightarrow> u8" where
  "SimpleDecShift x = push_bit 6 x OR drop_bit 2 x"

definition swap_ends :: "nat \<Rightarrow> 'a list \<Rightarrow> 'a list" where
  "swap_ends k xs =
     (let r = length xs - k in fold (\<lambda>i des. des[i + r := xs ! i, i := xs ! (i + r)]) [0..<k] xs)"

definition on_ends :: "('a \<Rightarrow> 'a) \<Rightarrow> 'a list \<Rightarrow> 'a list" where
  "on_ends f xs = (let ys = xs[0 := f (xs ! 0)]; n = length xs - 1 in ys[n := f (ys ! n)])"

definition SimpLeSiftencode :: "u8 list \<Rightarrow> int \<Rightarrow> u8 list option" where
  "SimpLeSiftencode src shiftBit =
     (if src = [] \<or> int (length src) < shiftBit then None
      else Some (on_ends SimpleEncShift (swap_ends (nat shiftBit) src)))"

definition SimpLeSiftdecode :: "u8 list \<Rightarrow> int \<Rightarrow> u8 list option" where
  "SimpLeSiftdecode src shiftBit =
     (if src = [] \<or> int (length src) < shiftBit \<or> TEMP_BUF_SIZE < length src then None
      else Some (swap_ends (nat shiftBit) (on_ends SimpleDecShift src)))"

lemma SimpleDec_Enc: "SimpleDecShift (SimpleEncShift x) = x"
  by (rule bit_word_eqI) (auto simp: SimpleDecShift_def SimpleEncShift_def bit_simps)

lemma length_swap_fold: "length (fold (\<lambda>i des. des[i + r := f i, i := g i]) is ys) = length ys"
  by (induction "is" arbitrary: ys) auto

lemma length_ends [simp]: "length (swap_ends k xs) = length xs" "length (on_ends f xs) = length xs"
  by (simp_all add: swap_ends_def on_ends_def Let_def length_swap_fold)

lemma swap_loop_nth:
  assumes "length xs = r + k" "k \<le> r" "m \<le> k" "j < length xs"
  shows "fold (\<lambda>i des. des[i + r := xs ! i, i := xs ! (i + r)]) [0..<m] xs ! j =
    (if j < m then xs ! (j + r) else if r \<le> j \<and> j < r + m then xs ! (j - r) else xs ! j)"
  using assms(3)
proof (induction m)
  case (Suc m)
  let ?f = "fold (\<lambda>i des. des[i + r := xs ! i, i := xs ! (i + r)]) [0..<m] xs"
  have "length ?f = length xs" by (rule length_swap_fold)
  then have "?f[m + r := xs ! m, m := xs ! (m + r)] ! j = (if j = m then xs ! (m + r) else if j = m + r then xs ! m else ?f ! j)"
    using Suc.prems assms by (simp add: nth_list_update)
  then show ?case
    using Suc assms by auto
qed auto

lemma swap_ends_nth:
  assumes "length xs = r + k" "k \<le> r" "j < length xs"
  shows "swap_ends k xs ! j = (if j < k then xs ! (j + r) else if r \<le> j then xs ! (j - r) else xs ! j)"
  using swap_loop_nth [OF assms(1,2) order_refl assms(3)] assms by (simp add: swap_ends_def Let_def)

lemma swap_ends_twice:
  assumes "2 * k \<le> length xs" shows "swap_ends k (swap_ends k xs) = xs"
proof (rule nth_equalityI)
  define r where "r = length xs - k"
  have r: "length xs = r + k" "k \<le> r" using assms by (auto simp: r_def)
  fix j assume "j < length (swap_ends k (swap_ends k xs))"
  then have "j < length xs" by simp
  then show "swap_ends k (swap_ends k xs) ! j = xs ! j"
    using swap_ends_nth [OF r] swap_ends_nth [of "swap_ends k xs" r k] r by auto
qed simp

lemma on_ends_inverse:
  assumes "\<And>x. g (f x) = x" "xs \<noteq> []" shows "on_ends g (on_ends f xs) = xs"
proof (cases xs rule: rev_cases)
  case (snoc ys y)
  then show ?thesis
    using assms(1) by (cases ys) (simp_all add: on_ends_def Let_def nth_append list_update_append)
qed (use assms in simp)

lemma shifted_text_round_trip:
  assumes "src \<noteq> []" "2 * shiftBit \<le> int (length src)" "length src \<le> TEMP_BUF_SIZE"
  shows "\<exists>des. SimpLeSiftencode src shiftBit = Some des \<and> SimpLeSiftdecode des shiftBit = Some src"
proof -
  let ?d = "on_ends SimpleEncShift (swap_ends (nat shiftBit) src)"
  have ne: "swap_ends (nat shiftBit) src \<noteq> []" "?d \<noteq> []"
    using assms(1) length_ends by (metis length_0_conv)+
  have "swap_ends (nat shiftBit) (on_ends SimpleDecShift ?d) = src"
    using on_ends_inverse [of SimpleDecShift SimpleEncShift, OF SimpleDec_Enc ne(1)] swap_ends_twice [of "nat shiftBit" src] assms by simp
  then show ?thesis
    using assms ne by (simp add: SimpLeSiftencode_def SimpLeSiftdecode_def)
qed

text \<open>
  \<open>hex2bin\<close> of a text without its final zero: every digit is written over the last one at the same
  address, digits below \<open>a\<close> are not converted. It does not read what \<open>bin2hex\<close> writes.
\<close>

definition hex_value :: "u8 \<Rightarrow> u8" where
  "hex_value c = (if 97 < c then c - 97 + 10 else c)"

fun hex2bin :: "u8 \<Rightarrow> u8 list \<Rightarrow> u8" where
  "hex2bin to [] = to"
| "hex2bin to (c # cs) = hex2bin (push_bit 4 (hex_value c) OR hex_value (if cs = [] then 0 else hd cs)) cs"

lemma hex2bin_not_inverse: "hex2bin 0 [0x31, 0x32] = 0x20"
  by (simp add: hex_value_def)

end
