(* ===== verification/Tcp_Messages.thy ===== *)
theory Tcp_Messages
  imports Byte_Codecs
begin

text \<open>
  Messages of \<open>server/common/libmessage\<close>: the header of a frame and its message types
  (\<open>MsgHeader.proto\<close>, \<open>MsgType.proto\<close>, \<open>Message.h\<close>), the table of message prototypes
  (\<open>MessageMaker.cpp\<close>), the queue of outgoing messages (\<open>SendQueue.cpp\<close>), the buffer of a frame
  (\<open>MessageBuffer.inl\<close>) and the dispatch of a received message (\<open>MessageDealer.inl\<close>).

  The protobuf library is a parameter: how a header and a message become bytes and are read
  back. An \<open>int32\<close> field is a \<^typ>\<open>u32\<close> that is read with its sign.
\<close>

section \<open>Headers and types\<close>

record tcp_header =
  h_cmdtype :: u32
  h_type :: u32
  h_sequenceid :: u64
  h_length :: u32
  h_check_result :: u64
  h_response_result :: u32

definition empty_header :: tcp_header where
  "empty_header = \<lparr>h_cmdtype = 0, h_type = 0, h_sequenceid = 0, h_length = 0,
     h_check_result = 0, h_response_result = 0\<rparr>"

abbreviation (input) REQUEST_MASK :: u32 where "REQUEST_MASK \<equiv> 0x4000"
abbreviation (input) RESPONSE_MASK :: u32 where "RESPONSE_MASK \<equiv> 0x8000"
abbreviation (input) SYN_REQUEST :: u32 where "SYN_REQUEST \<equiv> 0x4001"
abbreviation (input) SYN_RESPONSE :: u32 where "SYN_RESPONSE \<equiv> 0x8001"
abbreviation (input) ASYN_REQUEST :: u32 where "ASYN_REQUEST \<equiv> 0x4002"
abbreviation (input) ASYN_RESPONSE :: u32 where "ASYN_RESPONSE \<equiv> 0x8002"
abbreviation (input) HEARTBEAT_REQUEST :: u32 where "HEARTBEAT_REQUEST \<equiv> 0x4004"
abbreviation (input) HEARTBEAT_RESPONSE :: u32 where "HEARTBEAT_RESPONSE \<equiv> 0x8004"
abbreviation (input) NOTIFY_REQUEST :: u32 where "NOTIFY_REQUEST \<equiv> 0x4005"
abbreviation (input) NOTIFY_RESPONSE :: u32 where "NOTIFY_RESPONSE \<equiv> 0x8005"

abbreviation (input) CMD_HEARTBEAT :: u32 where "CMD_HEARTBEAT \<equiv> 1"
abbreviation (input) CMD_SESSION_OPEN :: u32 where "CMD_SESSION_OPEN \<equiv> 2"
abbreviation (input) CMD_SESSION_CLOSE :: u32 where "CMD_SESSION_CLOSE \<equiv> 3"
abbreviation (input) CMD_SHUTDOWN_SESSION :: u32 where "CMD_SHUTDOWN_SESSION \<equiv> 6"

record 'm message =
  msg_header :: tcp_header
  msg_body :: 'm

text \<open>\<open>Message::send_response\<close> turns the type of a request into the type of its response.\<close>

definition response_type :: "u32 \<Rightarrow> u32" where
  "response_type t = (t XOR REQUEST_MASK) OR RESPONSE_MASK"

definition response_to :: "tcp_header \<Rightarrow> 'm message \<Rightarrow> 'm message" where
  "response_to req res =
     res\<lparr>msg_header := (msg_header res)
       \<lparr>h_cmdtype := h_cmdtype req, h_type := response_type (h_type req),
        h_sequenceid := h_sequenceid req\<rparr>\<rparr>"

text \<open>The overload with a body of its own: a fresh header without sequence number.\<close>

definition response_with :: "tcp_header \<Rightarrow> 'm \<Rightarrow> 'm message" where
  "response_with req body =
     \<lparr>msg_header = empty_header\<lparr>h_cmdtype := h_cmdtype req, h_type := response_type (h_type req)\<rparr>,
      msg_body = body\<rparr>"

section \<open>MessageMaker\<close>

text \<open>The messages of the generated file \<open>SystemMsg.pb.h\<close> that the constructor registers.\<close>

datatype system_msg =
    HeartbeatRequest | HeartbeatResponse | RPCRequest | RPCResponse
  | SessionSilentRequest | SessionSilentResponse | SessionCloseRequest | SessionCloseResponse
  | ShutDownSessionRequest | ShutDownSessionResponse | SiteRegisterBusRequest | SiteRegisterBusResponse
  | SiteToBusTransmitRequest | SiteToBusTransmitResponse | BusToSiteTransmitRequest
  | BusToSiteTransmitResponse | StreamOverCtrlRequest | StreamOverCtrlResponse | MQTransmitRequest
  | MQTransmitResponse | SessionOpenRequest | SessionOpenResponse

record 'p message_maker =
  m_cmd_request :: "u32 \<Rightarrow> 'p option"
  m_cmd_response :: "u32 \<Rightarrow> 'p option"
  m_cmd_names :: "u32 \<Rightarrow> u8 list option"

text \<open>\<open>m_cmd_names[cmd_type] = cmd_type\<close> assigns an \<open>int\<close> to a string: it becomes one character.\<close>

definition register_message :: "u32 \<Rightarrow> 'p \<Rightarrow> 'p \<Rightarrow> 'p message_maker \<Rightarrow> 'p message_maker" where
  "register_message cmd req res mm =
     mm\<lparr>m_cmd_names := (m_cmd_names mm)(cmd \<mapsto> [ucast cmd]),
        m_cmd_request := (m_cmd_request mm)(cmd \<mapsto> req),
        m_cmd_response := (m_cmd_response mm)(cmd \<mapsto> res)\<rparr>"

definition MessageMaker :: "(system_msg \<Rightarrow> 'p) \<Rightarrow> 'p message_maker" where
  "MessageMaker sys =
     fold (\<lambda>(cmd, req, res). register_message cmd (sys req) (sys res))
       [(1, HeartbeatRequest, HeartbeatResponse), (5, RPCRequest, RPCResponse),
        (7, SessionSilentRequest, SessionSilentResponse), (3, SessionCloseRequest, SessionCloseResponse),
        (6, ShutDownSessionRequest, ShutDownSessionResponse),
        (8, SiteRegisterBusRequest, SiteRegisterBusResponse),
        (9, SiteToBusTransmitRequest, SiteToBusTransmitResponse),
        (10, BusToSiteTransmitRequest, BusToSiteTransmitResponse),
        (12, StreamOverCtrlRequest, StreamOverCtrlResponse), (13, MQTransmitRequest, MQTransmitResponse),
        (2, SessionOpenRequest, SessionOpenResponse)]
       \<lparr>m_cmd_request = (\<lambda>_. None), m_cmd_response = (\<lambda>_. None), m_cmd_names = (\<lambda>_. None)\<rparr>"

definition make_request_message :: "u32 \<Rightarrow> 'p message_maker \<Rightarrow> 'p option" where
  "make_request_message cmd mm = m_cmd_request mm cmd"

definition make_response_message :: "u32 \<Rightarrow> 'p message_maker \<Rightarrow> 'p option" where
  "make_response_message cmd mm = m_cmd_response mm cmd"

definition make_message :: "u32 \<Rightarrow> u32 \<Rightarrow> 'p message_maker \<Rightarrow> 'p option" where
  "make_message msg_type cmd mm =
     (if msg_type AND REQUEST_MASK \<noteq> 0 then make_request_message cmd mm
      else if msg_type AND RESPONSE_MASK \<noteq> 0 then make_response_message cmd mm
      else None)"

section \<open>SendQueue\<close>

text \<open>A \<open>boost::circular_buffer\<close>: its elements and its capacity. \<open>push_back\<close> on a full buffer
  overwrites the front element.\<close>

record 'a send_queue =
  q_items :: "'a list"
  q_capacity :: nat

definition push_back :: "'a \<Rightarrow> 'a send_queue \<Rightarrow> 'a send_queue" where
  "push_back x q =
     (if length (q_items q) < q_capacity q then q\<lparr>q_items := q_items q @ [x]\<rparr>
      else if q_capacity q = 0 then q
      else q\<lparr>q_items := tl (q_items q) @ [x]\<rparr>)"

abbreviation (input) INIT_SIZE :: nat where "INIT_SIZE \<equiv> 0x100"
abbreviation (input) MAX_SIZE :: nat where "MAX_SIZE \<equiv> 100000"

definition SendQueue :: "'a send_queue" where
  "SendQueue = \<lparr>q_items = [], q_capacity = INIT_SIZE\<rparr>"

definition q_push :: "'a \<Rightarrow> 'a send_queue \<Rightarrow> bool \<times> 'a send_queue" where
  "q_push msg q =
     (let all_size = length (q_items q) in
      if all_size = q_capacity q
      then if MAX_SIZE < all_size then (False, q)
           else (True, push_back msg (q\<lparr>q_capacity := all_size + all_size\<rparr>))
      else (True, push_back msg q))"

definition q_pop :: "'a send_queue \<Rightarrow> 'a option \<times> 'a send_queue" where
  "q_pop q = (case q_items q of [] \<Rightarrow> (None, q) | x # xs \<Rightarrow> (Some x, q\<lparr>q_items := xs\<rparr>))"

definition q_front :: "'a send_queue \<Rightarrow> 'a option" where
  "q_front q = (case q_items q of [] \<Rightarrow> None | x # _ \<Rightarrow> Some x)"

definition q_is_empty :: "'a send_queue \<Rightarrow> bool" where
  "q_is_empty q = (q_items q = [])"

section \<open>Frame buffers\<close>

text \<open>
  A buffer has \<open>MSG_BUF_SIZE + HEADER_LENGTH\<close> bytes; \<open>b_bytes\<close> are the bytes written to it so
  far, from its start. A write out of its bounds is a fault.
\<close>

abbreviation (input) MSG_BUF_SIZE :: nat where "MSG_BUF_SIZE \<equiv> 131072"
abbreviation (input) HEADER_LENGTH :: nat where "HEADER_LENGTH \<equiv> 4"

record msg_buffer =
  b_header_length :: u32
  b_msg_length :: u32
  b_bytes :: "u8 list"

definition MsgMutableBuffer :: msg_buffer where
  "MsgMutableBuffer = \<lparr>b_header_length = 0, b_msg_length = 0, b_bytes = []\<rparr>"

definition write_at :: "nat \<Rightarrow> u8 list \<Rightarrow> msg_buffer \<Rightarrow> msg_buffer option" where
  "write_at off bs b =
     (if off + length bs \<le> MSG_BUF_SIZE + HEADER_LENGTH
      then Some (b\<lparr>b_bytes := take off (b_bytes b) @ bs @ drop (off + length bs) (b_bytes b)\<rparr>)
      else None)"

definition read_at :: "nat \<Rightarrow> nat \<Rightarrow> msg_buffer \<Rightarrow> u8 list" where
  "read_at off n b = take n (drop off (b_bytes b))"

text \<open>\<open>buffer_length\<close>, \<open>header_length\<close> and \<open>body_length\<close> return an \<open>int\<close>: the sums are taken
  modulo \<open>2^32\<close>. Where such an \<open>int\<close> is the size of a transfer, it becomes a \<open>size_t\<close>.\<close>

definition buffer_length :: "msg_buffer \<Rightarrow> u32" where
  "buffer_length b = of_nat HEADER_LENGTH + b_header_length b + b_msg_length b"

definition transfer_size :: "u32 \<Rightarrow> nat" where
  "transfer_size i = unat (scast i :: u64)"

record ('p, 'm) protobuf =
  ser_header :: "tcp_header \<Rightarrow> u8 list"
  parse_header :: "u8 list \<Rightarrow> tcp_header option"
  ser_msg :: "'m \<Rightarrow> u8 list"
  parse_msg :: "'p \<Rightarrow> u8 list \<Rightarrow> 'm option"

definition encode_header_length :: "bool \<Rightarrow> u32 \<Rightarrow> msg_buffer \<Rightarrow> msg_buffer option" where
  "encode_header_length big len b =
     write_at 0 (in_memory big 4 (hton32 big len)) (b\<lparr>b_header_length := len\<rparr>)"

definition encode_header :: "('p, 'm) protobuf \<Rightarrow> tcp_header \<Rightarrow> msg_buffer \<Rightarrow> msg_buffer option" where
  "encode_header pb h b =
     write_at HEADER_LENGTH (ser_header pb h) (b\<lparr>b_msg_length := h_length h\<rparr>)"

definition encode_message :: "('p, 'm) protobuf \<Rightarrow> 'm \<Rightarrow> msg_buffer \<Rightarrow> msg_buffer option" where
  "encode_message pb m b = write_at (HEADER_LENGTH + unat (b_header_length b)) (ser_msg pb m) b"

definition decode_header_length :: "bool \<Rightarrow> msg_buffer \<Rightarrow> msg_buffer" where
  "decode_header_length big b = b\<lparr>b_header_length := ntoh32 big (from_memory big (read_at 0 4 b))\<rparr>"

text \<open>\<open>ParseFromArray\<close> of the bytes of the header; the length of the body is taken from it.\<close>

definition buf_decode_header :: "('p, 'm) protobuf \<Rightarrow> msg_buffer \<Rightarrow> (tcp_header \<times> msg_buffer) option" where
  "buf_decode_header pb b =
     (case parse_header pb (read_at HEADER_LENGTH (unat (b_header_length b)) b) of
        None \<Rightarrow> None
      | Some h \<Rightarrow> Some (h, b\<lparr>b_msg_length := h_length h\<rparr>))"

definition decode_message :: "('p, 'm) protobuf \<Rightarrow> 'p \<Rightarrow> msg_buffer \<Rightarrow> 'm option" where
  "decode_message pb p b =
     parse_msg pb p (read_at (HEADER_LENGTH + unat (b_header_length b)) (unat (b_msg_length b)) b)"

section \<open>MessageDealer\<close>

text \<open>What the dealer does with a message: the calls of \<open>basic_deal\<close>.\<close>

datatype deal_call = Handle_message | Send_heartbeat_response | Asyn_response_come | Response_come

definition basic_deal :: "tcp_header \<Rightarrow> deal_call list" where
  "basic_deal h =
     (if h_type h \<in> {SYN_REQUEST, NOTIFY_REQUEST, ASYN_REQUEST} then [Handle_message]
      else if h_type h = ASYN_RESPONSE then [Asyn_response_come]
      else if h_type h = SYN_RESPONSE then [Response_come]
      else if h_type h = NOTIFY_RESPONSE then []
      else if h_type h = HEARTBEAT_REQUEST then [Send_heartbeat_response, Handle_message]
      else [])"

text \<open>The answer to a heartbeat: its type and command are set and then again by
  \<open>Message::send_response\<close>.\<close>

definition deal_heart_beat_message :: "tcp_header \<Rightarrow> 'm \<Rightarrow> 'm message" where
  "deal_heart_beat_message req heart_res =
     response_to req
       \<lparr>msg_header = empty_header\<lparr>h_cmdtype := CMD_HEARTBEAT, h_type := HEARTBEAT_RESPONSE\<rparr>,
        msg_body = heart_res\<rparr>"

section \<open>TaskManager\<close>

text \<open>The handler \<open>do_handle_message\<close> of \<open>TaskManager.inl\<close> calls; \<open>handlers\<close> is the table
  \<open>m_cmd_handler\<close>. Opening, closing and heartbeats are never looked up in the table.\<close>

datatype 'f task_call = On_session_open | On_session_close | On_heart_beat | Call 'f | On_unknown_msg

definition register_msg_handler :: "u32 \<Rightarrow> 'f \<Rightarrow> (u32 \<Rightarrow> 'f option) \<Rightarrow> (u32 \<Rightarrow> 'f option)" where
  "register_msg_handler cmd f handlers = handlers(cmd \<mapsto> f)"

definition do_handle_message :: "(u32 \<Rightarrow> 'f option) \<Rightarrow> tcp_header \<Rightarrow> 'f task_call" where
  "do_handle_message handlers h =
     (if h_cmdtype h = CMD_SESSION_OPEN then On_session_open
      else if h_cmdtype h = CMD_SESSION_CLOSE then On_session_close
      else if h_cmdtype h = CMD_HEARTBEAT then On_heart_beat
      else case handlers (h_cmdtype h) of Some f \<Rightarrow> Call f | None \<Rightarrow> On_unknown_msg)"

section \<open>Facts\<close>

lemma response_types:
  "map response_type [SYN_REQUEST, ASYN_REQUEST, HEARTBEAT_REQUEST, NOTIFY_REQUEST] =
     [SYN_RESPONSE, ASYN_RESPONSE, HEARTBEAT_RESPONSE, NOTIFY_RESPONSE]"
  by (simp add: response_type_def)

text \<open>The queue never drops a message by itself: it grows, or it refuses the new one.\<close>

definition queue_ok :: "'a send_queue \<Rightarrow> bool" where
  "queue_ok q \<longleftrightarrow> length (q_items q) \<le> q_capacity q \<and> 0 < q_capacity q"

lemma SendQueue_ok [simp]: "queue_ok SendQueue"
  by (simp add: queue_ok_def SendQueue_def)

lemma q_push_ok:
  assumes "queue_ok q" and "q_push x q = (ok, q')"
  shows "queue_ok q'" "q_items q' = (if ok then q_items q @ [x] else q_items q)"
    "\<not> ok \<Longrightarrow> MAX_SIZE < length (q_items q)"
  using assms by (auto simp: queue_ok_def q_push_def push_back_def Let_def split: if_splits)

lemma q_pop_ok: "queue_ok q \<Longrightarrow> queue_ok (snd (q_pop q))" "q_items (snd (q_pop q)) = tl (q_items q)"
  by (auto simp: queue_ok_def q_pop_def split: list.splits)

lemma read_write_same: "write_at off bs b = Some b' \<Longrightarrow> off \<le> length (b_bytes b) \<Longrightarrow>
    read_at off (length bs) b' = bs \<and> b_header_length b' = b_header_length b
    \<and> b_msg_length b' = b_msg_length b"
  by (auto simp: write_at_def read_at_def split: if_splits)

lemma read_write_before: "write_at off bs b = Some b' \<Longrightarrow> off \<le> length (b_bytes b) \<Longrightarrow> o' + n \<le> off \<Longrightarrow>
    read_at o' n b' = read_at o' n b"
  by (auto simp: write_at_def read_at_def drop_take min_def split: if_splits)

end
