(* ===== verification/Tcp_Session.thy ===== *)
theory Tcp_Session
  imports Tcp_Messages
begin

text \<open>
  A TCP session: \<open>TcpSession.cpp\<close> with its base class \<open>Session.inl\<close> of
  \<open>server/common/libserver\<close>. A session reads frames (length of the header, header, body) with
  one \<open>async_read\<close> at a time and writes the messages of its queue with one \<open>async_write\<close> at a
  time. All handlers of a session run in one loop, so that a call of a handler is one step.

  What a session does to its surroundings is the list \<open>out\<close>: the buffers it gives to
  \<open>async_write\<close>, the messages it gives to the message dealer and the notice to the session
  manager. \<open>async_read(n)\<close> of the asio library calls its handler when \<open>n\<close> bytes of the stream
  are in the buffer, \<open>async_write\<close> when the whole buffer has been sent.
\<close>

section \<open>State\<close>

datatype read_phase = Read_head_len | Read_head | Read_body

datatype 'm session_out = Wire "u8 list" | Deal "'m message" | Deal_open | Deal_close | Manager_close

record 'm tcp_session =
  sock_open :: bool
  recv_buf :: msg_buffer
  cur_header :: tcp_header
  reading :: "(read_phase \<times> nat \<times> nat) option"
  send_buf :: msg_buffer
  send_q :: "'m message send_queue"
  writes_pending :: nat
  sequenceid :: u64
  alive_time :: int
  alive_interval :: int
  session_id :: int
  out :: "'m session_out list"

record ('p, 'm) session_env =
  env_pb :: "('p, 'm) protobuf"
  env_maker :: "'p message_maker"
  env_big :: bool
  env_manager :: bool

definition TcpSession :: "int \<Rightarrow> 'm tcp_session" where
  "TcpSession now =
     \<lparr>sock_open = True, recv_buf = MsgMutableBuffer, cur_header = empty_header, reading = None,
      send_buf = MsgMutableBuffer, send_q = SendQueue, writes_pending = 0, sequenceid = 0,
      alive_time = now, alive_interval = 20, session_id = 0, out = []\<rparr>"

definition emit :: "'m session_out \<Rightarrow> 'm tcp_session \<Rightarrow> 'm tcp_session" where
  "emit x s = s\<lparr>out := out s @ [x]\<rparr>"

section \<open>Closing\<close>

definition do_close :: "('p, 'm) session_env \<Rightarrow> 'm tcp_session \<Rightarrow> 'm tcp_session" where
  "do_close env s =
     (if sock_open s
      then emit Deal_close
        ((if env_manager env then emit Manager_close else id) (s\<lparr>sock_open := False\<rparr>))
      else s)"

section \<open>Reading\<close>

text \<open>\<open>async_read\<close> into the receive buffer: the region must lie in the buffer.\<close>

definition async_read :: "read_phase \<Rightarrow> nat \<Rightarrow> nat \<Rightarrow> 'm tcp_session \<Rightarrow> 'm tcp_session option" where
  "async_read ph off n s =
     (if off + n \<le> MSG_BUF_SIZE + HEADER_LENGTH then Some (s\<lparr>reading := Some (ph, off, n)\<rparr>) else None)"

definition do_read_head_len :: "'m tcp_session \<Rightarrow> 'm tcp_session option" where
  "do_read_head_len s = async_read Read_head_len 0 HEADER_LENGTH s"

definition flush_alive :: "int \<Rightarrow> 'm tcp_session \<Rightarrow> 'm tcp_session" where
  "flush_alive now s = s\<lparr>alive_time := now\<rparr>"

definition start :: "int \<Rightarrow> 'm tcp_session \<Rightarrow> 'm tcp_session option" where
  "start now s = map_option (emit Deal_open) (do_read_head_len (flush_alive now s))"

text \<open>The length of the header is compared as an \<open>int\<close> and then used as a \<open>size_t\<close>.\<close>

definition do_read_head :: "('p, 'm) session_env \<Rightarrow> 'm tcp_session \<Rightarrow> 'm tcp_session option" where
  "do_read_head env s =
     (let s = s\<lparr>recv_buf := decode_header_length (env_big env) (recv_buf s)\<rparr>;
          len = b_header_length (recv_buf s)
      in if sint len > int MSG_BUF_SIZE then Some (do_close env s)
         else async_read Read_head HEADER_LENGTH (transfer_size len) s)"

definition on_read_head_len_complete ::
  "('p, 'm) session_env \<Rightarrow> bool \<Rightarrow> 'm tcp_session \<Rightarrow> 'm tcp_session option" where
  "on_read_head_len_complete env err s =
     (if \<not> err then do_read_head env s else Some (do_close env s))"

text \<open>The checksum of a header: \<open>int32\<close> operands are extended with their sign.\<close>

definition header_check :: "tcp_header \<Rightarrow> u64" where
  "header_check h = scast (h_cmdtype h OR h_type h) OR h_sequenceid h OR scast (h_length h)
     OR scast (h_response_result h)"

definition decode_header ::
  "('p, 'm) session_env \<Rightarrow> 'm tcp_session \<Rightarrow> bool \<times> 'm tcp_session" where
  "decode_header env s =
     (case buf_decode_header (env_pb env) (recv_buf s) of
        None \<Rightarrow> (False, s\<lparr>cur_header := empty_header\<rparr>)
      | Some (h, b) \<Rightarrow>
          let s = s\<lparr>cur_header := h, recv_buf := b\<rparr> in
          if sint (buffer_length b) > int MSG_BUF_SIZE then (False, s)
          else if h_check_result h XOR header_check h \<noteq> 0 then (False, s)
          else (True, s))"

definition do_read_body :: "('p, 'm) session_env \<Rightarrow> 'm tcp_session \<Rightarrow> 'm tcp_session option" where
  "do_read_body env s =
     (case decode_header env s of
        (False, s) \<Rightarrow> Some (do_close env s)
      | (True, s) \<Rightarrow>
          async_read Read_body (HEADER_LENGTH + unat (b_header_length (recv_buf s)))
            (transfer_size (b_msg_length (recv_buf s))) s)"

definition on_read_head_complete ::
  "('p, 'm) session_env \<Rightarrow> bool \<Rightarrow> 'm tcp_session \<Rightarrow> 'm tcp_session option" where
  "on_read_head_complete env err s =
     (if \<not> err then do_read_body env s else Some (do_close env s))"

definition make_msg :: "('p, 'm) session_env \<Rightarrow> 'm tcp_session \<Rightarrow> 'm message option" where
  "make_msg env s = do {
     p \<leftarrow> make_message (h_type (cur_header s)) (h_cmdtype (cur_header s)) (env_maker env);
     m \<leftarrow> decode_message (env_pb env) p (recv_buf s);
     Some \<lparr>msg_header = cur_header s, msg_body = m\<rparr>
   }"

definition on_read_complete ::
  "('p, 'm) session_env \<Rightarrow> int \<Rightarrow> bool \<Rightarrow> 'm tcp_session \<Rightarrow> 'm tcp_session option" where
  "on_read_complete env now err s =
     (case if err then None else make_msg env s of
        None \<Rightarrow> Some (do_close env s)
      | Some msg \<Rightarrow> do_read_head_len (emit (Deal msg) (flush_alive now s)))"

text \<open>One completed read: the bytes are in the buffer and the handler runs.\<close>

definition read_step ::
  "('p, 'm) session_env \<Rightarrow> int \<Rightarrow> 'm tcp_session \<Rightarrow> u8 list \<Rightarrow> ('m tcp_session \<times> u8 list) option" where
  "read_step env now s stream =
     (case reading s of
        None \<Rightarrow> None
      | Some (ph, off, n) \<Rightarrow> do {
          b \<leftarrow> write_at off (take n stream) (recv_buf s);
          let s = s\<lparr>recv_buf := b, reading := None\<rparr>;
          s \<leftarrow> (case ph of
             Read_head_len \<Rightarrow> on_read_head_len_complete env False s
           | Read_head \<Rightarrow> on_read_head_complete env False s
           | Read_body \<Rightarrow> on_read_complete env now False s);
          Some (s, drop n stream)
        })"

definition read_ready :: "'m tcp_session \<Rightarrow> u8 list \<Rightarrow> bool" where
  "read_ready s stream =
     (sock_open s \<and> (case reading s of None \<Rightarrow> False | Some (_, _, n) \<Rightarrow> n \<le> length stream))"

text \<open>The session works on the bytes that have arrived until a read has to wait for more; the
  bytes not yet taken stay in the socket.\<close>

fun phase_rank :: "read_phase \<Rightarrow> nat \<Rightarrow> nat" where
  "phase_rank Read_head_len n = (if n = 0 then 3 else 0)"
| "phase_rank Read_head _ = 2"
| "phase_rank Read_body _ = 1"

definition read_measure :: "'m tcp_session \<Rightarrow> u8 list \<Rightarrow> nat" where
  "read_measure s stream =
     3 * length stream + (case reading s of None \<Rightarrow> 0 | Some (ph, _, n) \<Rightarrow> phase_rank ph n)"

lemma do_close_fields [simp]:
  "sock_open (do_close env s) = False" "reading (do_close env s) = reading s"
  by (simp_all add: do_close_def emit_def)

lemma emit_fields [simp]:
  "sock_open (emit x s) = sock_open s" "reading (emit x s) = reading s" "recv_buf (emit x s) = recv_buf s"
  "out (emit x s) = out s @ [x]" "send_q (emit x s) = send_q s" "send_buf (emit x s) = send_buf s"
  "writes_pending (emit x s) = writes_pending s" "sequenceid (emit x s) = sequenceid s"
  by (simp_all add: emit_def)

lemma handler_phase:
  "on_read_head_len_complete env err s = Some s' \<Longrightarrow> reading s = None \<Longrightarrow>
     (case reading s' of None \<Rightarrow> True | Some (ph, off, n) \<Rightarrow> ph = Read_head)"
  "on_read_head_complete env err s = Some s' \<Longrightarrow> reading s = None \<Longrightarrow>
     (case reading s' of None \<Rightarrow> True | Some (ph, off, n) \<Rightarrow> ph = Read_body)"
  "on_read_complete env now err s = Some s' \<Longrightarrow> reading s = None \<Longrightarrow>
     (case reading s' of None \<Rightarrow> True | Some (ph, off, n) \<Rightarrow> ph = Read_head_len \<and> n = HEADER_LENGTH)"
  by (auto simp: on_read_head_len_complete_def on_read_head_complete_def on_read_complete_def
      do_read_head_def do_read_body_def do_read_head_len_def async_read_def Let_def decode_header_def
      split: if_splits option.splits prod.splits bool.splits)

lemma read_step_decreases:
  assumes "read_ready s stream" and "read_step env now s stream = Some (s', stream')"
  shows "read_measure s' stream' < read_measure s stream"
proof -
  from assms(1) obtain ph off n where r: "reading s = Some (ph, off, n)" "n \<le> length stream"
    by (auto simp: read_ready_def split: option.splits)
  with assms(2) have rest: "stream' = drop n stream"
    by (auto simp: read_step_def Let_def bind_eq_Some_conv)
  have ranks: "(case reading s' of None \<Rightarrow> True | Some (ph', off', n') \<Rightarrow>
      phase_rank ph' n' \<le> (case ph of Read_head_len \<Rightarrow> 2 | Read_head \<Rightarrow> 1 | Read_body \<Rightarrow> 0))"
  proof (cases ph)
    case Read_head_len
    then show ?thesis using assms(2) r
      by (auto simp: read_step_def Let_def bind_eq_Some_conv dest!: handler_phase(1) split: option.splits)
  next
    case Read_head
    then show ?thesis using assms(2) r
      by (auto simp: read_step_def Let_def bind_eq_Some_conv dest!: handler_phase(2) split: option.splits)
  next
    case Read_body
    then show ?thesis using assms(2) r
      by (auto simp: read_step_def Let_def bind_eq_Some_conv dest!: handler_phase(3) split: option.splits)
  qed
  show ?thesis
    using r rest ranks
    by (cases ph; cases "reading s'") (auto simp: read_measure_def)
qed

function feed ::
  "('p, 'm) session_env \<Rightarrow> int \<Rightarrow> 'm tcp_session \<Rightarrow> u8 list \<Rightarrow> ('m tcp_session \<times> u8 list) option" where
  "feed env now s stream =
     (if read_ready s stream
      then case read_step env now s stream of
             None \<Rightarrow> None
           | Some (s', stream') \<Rightarrow> feed env now s' stream'
      else Some (s, stream))"
  by pat_completeness auto
termination
  by (relation "measure (\<lambda>(env, now, s, stream). read_measure s stream)")
    (auto intro: read_step_decreases)

declare feed.simps [simp del]

text \<open>The stream comes in pieces; each piece is put behind the bytes still in the socket.\<close>

fun feed_chunks ::
  "('p, 'm) session_env \<Rightarrow> int \<Rightarrow> 'm tcp_session \<Rightarrow> u8 list \<Rightarrow> u8 list list
     \<Rightarrow> ('m tcp_session \<times> u8 list) option" where
  "feed_chunks env now s rest [] = Some (s, rest)"
| "feed_chunks env now s rest (c # cs) = do {
     (s, rest) \<leftarrow> feed env now s (rest @ c);
     feed_chunks env now s rest cs
   }"

section \<open>Writing\<close>

text \<open>\<open>encode\<close> completes the header of the message and puts the frame into the send buffer.\<close>

definition complete_header :: "('p, 'm) protobuf \<Rightarrow> 'm message \<Rightarrow> tcp_header" where
  "complete_header pb msg =
     (let h = (msg_header msg)\<lparr>h_length := of_nat (length (ser_msg pb (msg_body msg)))\<rparr>
      in h\<lparr>h_check_result := header_check h\<rparr>)"

definition encode :: "('p, 'm) session_env \<Rightarrow> 'm message \<Rightarrow> 'm tcp_session \<Rightarrow> 'm tcp_session option" where
  "encode env msg s = do {
     let pb = env_pb env;
     let h = complete_header pb msg;
     b \<leftarrow> encode_header_length (env_big env) (of_nat (length (ser_header pb h))) (send_buf s);
     b \<leftarrow> encode_header pb h b;
     b \<leftarrow> encode_message pb (msg_body msg) b;
     Some (s\<lparr>send_buf := b\<rparr>)
   }"

text \<open>\<open>async_write\<close> of the first \<open>buffer_length\<close> bytes of the send buffer.\<close>

definition async_write :: "'m tcp_session \<Rightarrow> 'm tcp_session option" where
  "async_write s =
     (let n = transfer_size (buffer_length (send_buf s)) in
      if n \<le> MSG_BUF_SIZE + HEADER_LENGTH
      then Some (emit (Wire (read_at 0 n (send_buf s))) (s\<lparr>writes_pending := writes_pending s + 1\<rparr>))
      else None)"

definition do_write :: "('p, 'm) session_env \<Rightarrow> 'm message \<Rightarrow> 'm tcp_session \<Rightarrow> 'm tcp_session option" where
  "do_write env msg s =
     (let is_in_write = \<not> q_is_empty (send_q s) in
      case q_push msg (send_q s) of
        (False, q) \<Rightarrow> Some (do_close env (s\<lparr>send_q := q\<rparr>))
      | (True, q) \<Rightarrow>
          let s = s\<lparr>send_q := q\<rparr> in
          if \<not> is_in_write then
            if \<not> sock_open s then Some s
            else do { s \<leftarrow> encode env msg s; async_write s }
          else Some s)"

definition on_write_complete ::
  "('p, 'm) session_env \<Rightarrow> bool \<Rightarrow> 'm tcp_session \<Rightarrow> 'm tcp_session option" where
  "on_write_complete env err s =
     (let s = s\<lparr>writes_pending := writes_pending s - 1\<rparr> in
      if \<not> err then do {
        _ \<leftarrow> q_front (send_q s);
        let s = s\<lparr>send_q := snd (q_pop (send_q s))\<rparr>;
        (if \<not> q_is_empty (send_q s) then
           if \<not> sock_open s then Some s
           else do {
             msg \<leftarrow> q_front (send_q s);
             s \<leftarrow> encode env msg s;
             async_write s
           }
         else Some s)
      }
      else Some (do_close env s))"

definition set_msg_sequenceid :: "'m message \<Rightarrow> 'm tcp_session \<Rightarrow> 'm message \<times> 'm tcp_session" where
  "set_msg_sequenceid msg s =
     (let h = msg_header msg;
          h = (if h_type h = 0 then h\<lparr>h_type := NOTIFY_REQUEST\<rparr> else h)
      in (msg\<lparr>msg_header := h\<lparr>h_sequenceid := sequenceid s\<rparr>\<rparr>, s\<lparr>sequenceid := sequenceid s + 1\<rparr>))"

definition do_send_message :: "('p, 'm) session_env \<Rightarrow> 'm message \<Rightarrow> 'm tcp_session \<Rightarrow> 'm tcp_session option" where
  "do_send_message env msg s = (case set_msg_sequenceid msg s of (msg, s) \<Rightarrow> do_write env msg s)"

text \<open>\<open>Session::send\<close>: a message that shuts the session down is not written.\<close>

definition send :: "('p, 'm) session_env \<Rightarrow> 'm message \<Rightarrow> 'm tcp_session \<Rightarrow> 'm tcp_session option" where
  "send env msg s =
     (if h_cmdtype (msg_header msg) = CMD_SHUTDOWN_SESSION then Some (do_close env s)
      else do_send_message env msg s)"

definition send_message :: "('p, 'm) session_env \<Rightarrow> u32 \<Rightarrow> 'm \<Rightarrow> 'm tcp_session \<Rightarrow> 'm tcp_session option" where
  "send_message env cmd body s =
     send env \<lparr>msg_header = empty_header\<lparr>h_cmdtype := cmd\<rparr>, msg_body = body\<rparr> s"

definition send_response :: "('p, 'm) session_env \<Rightarrow> 'm message \<Rightarrow> 'm tcp_session \<Rightarrow> 'm tcp_session option" where
  "send_response env msg s = do_write env msg s"

section \<open>Keeping alive\<close>

definition is_alive :: "int \<Rightarrow> 'm tcp_session \<Rightarrow> bool" where
  "is_alive now s = (alive_time s + alive_interval s > now)"

definition do_check_alive :: "('p, 'm) session_env \<Rightarrow> int \<Rightarrow> 'm tcp_session \<Rightarrow> 'm tcp_session" where
  "do_check_alive env now s = (if \<not> is_alive now s then do_close env s else s)"

definition set_alive_interval :: "int \<Rightarrow> 'm tcp_session \<Rightarrow> 'm tcp_session" where
  "set_alive_interval seconds s = s\<lparr>alive_interval := seconds\<rparr>"

end
