(* ===== verification/Tcp_Stream.thy ===== *)
theory Tcp_Stream
  imports Tcp_Session
begin

text \<open>
  The two ends of a TCP session together. A message is written as one frame; the frames a
  session writes are those of the messages it was given, in their order and without gaps; a
  session that reads such a stream deals exactly these messages, however the network cuts the
  stream into pieces.
\<close>

section \<open>Sizes\<close>

lemma unat_small: "n < 2 ^ 31 \<Longrightarrow> unat (of_nat n :: u32) = n"
  by (simp add: unsigned_of_nat take_bit_nat_eq_self_iff)

lemma sint_small: "n < 2 ^ 31 \<Longrightarrow> sint (of_nat n :: u32) = int n"
  by (simp add: sint_uint uint_nat unat_small signed_take_bit_int_eq_self_iff)

lemma transfer_size_small: "n < 2 ^ 31 \<Longrightarrow> transfer_size (of_nat n) = n"
proof -
  assume n: "n < 2 ^ 31"
  then have "scast (of_nat n :: u32) = (of_nat n :: u64)"
    by (simp add: scast_eq sint_small)
  with n show ?thesis by (simp add: transfer_size_def unsigned_of_nat take_bit_nat_eq_self_iff)
qed

section \<open>Frames\<close>

definition tcp_frame :: "('p, 'm) session_env \<Rightarrow> 'm message \<Rightarrow> u8 list" where
  "tcp_frame env msg =
     (let pb = env_pb env; hd = ser_header pb (complete_header pb msg) in
      in_memory (env_big env) 4 (hton32 (env_big env) (of_nat (length hd))) @ hd
        @ ser_msg pb (msg_body msg))"

text \<open>A message fits when its frame is not longer than what a receiver accepts.\<close>

definition fits :: "('p, 'm) session_env \<Rightarrow> 'm message \<Rightarrow> bool" where
  "fits env msg \<longleftrightarrow> length (tcp_frame env msg) \<le> MSG_BUF_SIZE"

lemma in_memory_length [simp]: "length (in_memory big n w) = n"
  by (simp add: in_memory_def le_bytes_def)

lemma frame_length:
  "length (tcp_frame env msg) =
     4 + length (ser_header (env_pb env) (complete_header (env_pb env) msg))
       + length (ser_msg (env_pb env) (msg_body msg))"
  by (simp add: tcp_frame_def Let_def)

lemma complete_header_length [simp]:
  "h_length (complete_header pb msg) = of_nat (length (ser_msg pb (msg_body msg)))"
  by (simp add: complete_header_def Let_def)

lemma complete_header_check [simp]:
  "h_check_result (complete_header pb msg) = header_check (complete_header pb msg)"
  by (simp add: complete_header_def header_check_def Let_def)

lemma encode_frame_bytes:
  assumes "length (tcp_frame env msg) \<le> MSG_BUF_SIZE + HEADER_LENGTH"
  obtains b where "encode env msg s = Some (s\<lparr>send_buf := b\<rparr>)"
    "transfer_size (buffer_length b) = length (tcp_frame env msg)"
    "read_at 0 (length (tcp_frame env msg)) b = tcp_frame env msg"
proof -
  let ?pb = "env_pb env"
  let ?h = "ser_header ?pb (complete_header ?pb msg)" and ?m = "ser_msg ?pb (msg_body msg)"
  let ?l = "in_memory (env_big env) 4 (hton32 (env_big env) (of_nat (length ?h)))"
  have size: "4 + length ?h + length ?m \<le> 131076"
    using assms by (simp add: frame_length)
  define b where "b = (send_buf s)\<lparr>b_header_length := of_nat (length ?h), b_msg_length := of_nat (length ?m),
    b_bytes := ?l @ ?h @ ?m @ drop (4 + length ?h + length ?m) (b_bytes (send_buf s))\<rparr>"
  have "encode env msg s = Some (s\<lparr>send_buf := b\<rparr>)"
    using size
    by (simp add: encode_def encode_header_length_def encode_header_def encode_message_def write_at_def
        unat_small b_def Let_def add.commute add.left_commute)
  moreover have "buffer_length b = of_nat (length (tcp_frame env msg))"
    by (simp add: buffer_length_def b_def frame_length)
  then have "transfer_size (buffer_length b) = length (tcp_frame env msg)"
    using transfer_size_small [of "length (tcp_frame env msg)"] assms by simp
  moreover have "read_at 0 (length (tcp_frame env msg)) b = tcp_frame env msg"
    by (simp add: read_at_def b_def tcp_frame_def Let_def)
  ultimately show ?thesis using that by blast
qed

lemma encode_frame:
  assumes "fits env msg"
  obtains b where "encode env msg s = Some (s\<lparr>send_buf := b\<rparr>)"
    "transfer_size (buffer_length b) = length (tcp_frame env msg)"
    "read_at 0 (length (tcp_frame env msg)) b = tcp_frame env msg"
  using encode_frame_bytes [of env msg s] assms that by (auto simp: fits_def)

section \<open>Reading a stream\<close>

text \<open>A session that waits for the next frame.\<close>

definition awaits_frame :: "'m tcp_session \<Rightarrow> bool" where
  "awaits_frame s \<longleftrightarrow> sock_open s \<and> reading s = Some (Read_head_len, 0, HEADER_LENGTH)"

lemma start_idle: "sock_open s \<Longrightarrow> \<exists>s'. start now s = Some s' \<and> awaits_frame s' \<and> out s' = out s @ [Deal_open]"
  by (simp add: start_def do_read_head_len_def async_read_def flush_alive_def awaits_frame_def)

text \<open>What protobuf promises for the message: its header and its body are read back, the body
  by the prototype the receiver makes for its type and command.\<close>

definition reads_back :: "('p, 'm) session_env \<Rightarrow> 'm message \<Rightarrow> bool" where
  "reads_back env msg \<longleftrightarrow>
     (let pb = env_pb env; h = complete_header pb msg in
      parse_header pb (ser_header pb h) = Some h \<and>
      (\<exists>p. make_message (h_type h) (h_cmdtype h) (env_maker env) = Some p
         \<and> parse_msg pb p (ser_msg pb (msg_body msg)) = Some (msg_body msg)))"

definition delivered :: "('p, 'm) session_env \<Rightarrow> 'm message \<Rightarrow> 'm message" where
  "delivered env msg = msg\<lparr>msg_header := complete_header (env_pb env) msg\<rparr>"

lemma read_at_prefix:
  "b_bytes b = xs @ ys @ zs \<Longrightarrow> length xs = off \<Longrightarrow> length ys = n \<Longrightarrow> read_at off n b = ys"
  by (simp add: read_at_def)

text \<open>The length of the header is read; the read of the header follows.\<close>

lemma read_frame_length:
  fixes env :: "('p, 'm) session_env" and s :: "'m tcp_session"
  assumes "awaits_frame s" "n \<le> 131072"
  defines "l \<equiv> in_memory (env_big env) 4 (hton32 (env_big env) (of_nat n))"
  shows "read_step env now s (l @ ys) =
    Some (s\<lparr>recv_buf := (recv_buf s)\<lparr>b_header_length := of_nat n, b_bytes := l @ drop 4 (b_bytes (recv_buf s))\<rparr>,
      reading := Some (Read_head, 4, n)\<rparr>, ys)"
proof -
  have "n < 2 ^ 31" using assms(2) by simp
  moreover have "read_at 0 4 (b\<lparr>b_bytes := l @ zs\<rparr>) = l" for b :: msg_buffer and zs
    by (simp add: read_at_def l_def)
  ultimately show ?thesis
    using assms
    by (simp add: read_step_def awaits_frame_def write_at_def on_read_head_len_complete_def do_read_head_def Let_def
        decode_header_length_def in_memory32 sint_small transfer_size_small async_read_def)
qed

lemma read_frame:
  assumes "awaits_frame s" "fits env msg" "reads_back env msg"
  obtains s' where "feed env now s (tcp_frame env msg @ rest) = feed env now s' rest" "awaits_frame s'"
    "out s' = out s @ [Deal (delivered env msg)]"
proof -
  let ?pb = "env_pb env" and ?big = "env_big env"
  let ?hd = "complete_header ?pb msg"
  let ?h = "ser_header ?pb ?hd" and ?m = "ser_msg ?pb (msg_body msg)"
  let ?l = "in_memory ?big 4 (hton32 ?big (of_nat (length ?h)))"
  have size: "4 + length ?h + length ?m \<le> 131072"
    using assms(2) by (simp add: fits_def frame_length)
  then have h31: "length ?h < 2 ^ 31" and m31: "length ?m < 2 ^ 31" by simp_all
  obtain p where p: "parse_header ?pb ?h = Some ?hd"
    "make_message (h_type ?hd) (h_cmdtype ?hd) (env_maker env) = Some p"
    "parse_msg ?pb p ?m = Some (msg_body msg)"
    using assms(3) by (auto simp: reads_back_def Let_def)
  define b1 where "b1 = (recv_buf s)\<lparr>b_header_length := of_nat (length ?h),
    b_bytes := ?l @ drop 4 (b_bytes (recv_buf s))\<rparr>"
  define s1 where "s1 = s\<lparr>recv_buf := b1, reading := Some (Read_head, 4, length ?h)\<rparr>"
  have step1: "read_step env now s (?l @ ys) = Some (s1, ys)" for ys
    using read_frame_length [OF assms(1), of "length ?h"] size by (simp add: s1_def b1_def)
  define b2 where "b2 = b1\<lparr>b_msg_length := of_nat (length ?m),
    b_bytes := ?l @ ?h @ drop (4 + length ?h) (b_bytes b1)\<rparr>"
  define s2 where "s2 = s1\<lparr>recv_buf := b2, cur_header := ?hd,
    reading := Some (Read_body, 4 + length ?h, length ?m)\<rparr>"
  have total: "sint (of_nat (4 + length ?h + length ?m) :: u32) = int (4 + length ?h + length ?m)"
    using size by (intro sint_small) simp
  have step2: "read_step env now s1 (?h @ ys) = Some (s2, ys)" for ys
    using size p(1) m31 total
    by (simp add: read_step_def write_at_def on_read_head_complete_def do_read_body_def decode_header_def
        buf_decode_header_def read_at_def Let_def s1_def b1_def s2_def b2_def unat_small
        transfer_size_small async_read_def buffer_length_def add.assoc [symmetric])
  define b3 where "b3 = b2\<lparr>b_bytes := ?l @ ?h @ ?m @ drop (4 + length ?h + length ?m) (b_bytes b2)\<rparr>"
  define s3 where "s3 = emit (Deal (delivered env msg)) (flush_alive now (s2\<lparr>recv_buf := b3,
    reading := Some (Read_head_len, 0, 4)\<rparr>))"
  have step3: "read_step env now s2 (?m @ ys) = Some (s3, ys)" for ys
    using size p
    by (simp add: read_step_def write_at_def on_read_complete_def make_msg_def decode_message_def
        read_at_def Let_def s2_def b2_def s1_def b1_def s3_def b3_def unat_small do_read_head_len_def
        async_read_def flush_alive_def emit_def delivered_def add.assoc [symmetric])
  have ready: "read_ready s (?l @ ys)" "read_ready s1 (?h @ ys)" "read_ready s2 (?m @ ys)" for ys
    using assms(1) by (simp_all add: read_ready_def awaits_frame_def s1_def s2_def)
  have "feed env now s (tcp_frame env msg @ rest) = feed env now s3 rest"
    by (simp add: tcp_frame_def Let_def feed.simps [of env now s] feed.simps [of env now s1]
        feed.simps [of env now s2] ready step1 step2 step3)
  moreover have "awaits_frame s3" "out s3 = out s @ [Deal (delivered env msg)]"
    using assms(1) by (simp_all add: s3_def s2_def s1_def awaits_frame_def flush_alive_def)
  ultimately show ?thesis using that by blast
qed

text \<open>Pieces of a stream: a completed read never depends on the bytes behind it.\<close>

lemma read_step_append:
  "read_ready s a \<Longrightarrow>
     read_step env now s (a @ b) = map_option (\<lambda>(s', r). (s', r @ b)) (read_step env now s a)"
  by (auto simp: read_ready_def read_step_def Let_def split: option.splits read_phase.splits
      bind_splits)

lemma feed_append:
  "feed env now s (a @ b) =
     (case feed env now s a of None \<Rightarrow> None | Some (s', r) \<Rightarrow> feed env now s' (r @ b))"
proof (induction env now s a rule: feed.induct)
  case (1 env now s a)
  show ?case
  proof (cases "read_ready s a")
    case True
    then have "read_ready s (a @ b)" by (auto simp: read_ready_def split: option.splits)
    with 1 [OF True] show ?thesis
      by (auto simp: feed.simps [of env now s] True read_step_append split: option.splits)
  qed (simp add: feed.simps [of env now s a])
qed

lemma feed_waits: "feed env now s a = Some (s', r) \<Longrightarrow> \<not> read_ready s' r"
proof (induction env now s a rule: feed.induct)
  case (1 env now s a)
  then show ?case
    by (cases "read_ready s a") (auto simp: feed.simps [of env now s a] split: option.splits)
qed

lemma feed_chunks_concat:
  "\<not> read_ready s rest \<Longrightarrow> feed_chunks env now s rest cs = feed env now s (rest @ concat cs)"
proof (induction cs arbitrary: s rest)
  case Nil
  then show ?case by (simp add: feed.simps)
next
  case (Cons c cs)
  then show ?case
    by (auto simp: feed_append [of env now s "rest @ c" "concat cs", simplified] Cons.IH feed_waits
        split: option.splits bind_splits)
qed

lemma read_frames:
  assumes "awaits_frame s" "\<forall>m \<in> set ms. fits env m \<and> reads_back env m"
  shows "\<exists>s'. feed env now s (concat (map (tcp_frame env) ms)) = Some (s', []) \<and> awaits_frame s'
    \<and> out s' = out s @ map (Deal \<circ> delivered env) ms"
  using assms
proof (induction ms arbitrary: s)
  case Nil
  then show ?case by (simp add: feed.simps read_ready_def awaits_frame_def)
next
  case (Cons m ms)
  obtain s1 where s1: "feed env now s (tcp_frame env m @ concat (map (tcp_frame env) ms))
      = feed env now s1 (concat (map (tcp_frame env) ms))" "awaits_frame s1" "out s1 = out s @ [Deal (delivered env m)]"
    using read_frame [of s env m now] Cons.prems by (metis list.set_intros(1))
  from Cons.IH [OF s1(2)] Cons.prems s1 show ?case by auto
qed

section \<open>Writing messages\<close>

text \<open>
  The life of a session seen from its writer: \<open>ms\<close> are the messages \<open>do_write\<close> was called with,
  in their order, and \<open>d\<close> the number of writes that have completed. Reads and checks happen in
  between.
\<close>

inductive sends :: "('p, 'm) session_env \<Rightarrow> 'm tcp_session \<Rightarrow> 'm message list \<Rightarrow> nat \<Rightarrow> 'm tcp_session \<Rightarrow> bool"
  for env s0 where
  start: "sends env s0 [] 0 s0"
| send: "sends env s0 ms d s \<Longrightarrow> h_cmdtype (msg_header m) \<noteq> CMD_SHUTDOWN_SESSION \<Longrightarrow>
     send env m s = Some s' \<Longrightarrow> sends env s0 (ms @ [fst (set_msg_sequenceid m s)]) d s'"
| shutdown: "sends env s0 ms d s \<Longrightarrow> h_cmdtype (msg_header m) = CMD_SHUTDOWN_SESSION \<Longrightarrow>
     send env m s = Some s' \<Longrightarrow> sends env s0 ms d s'"
| respond: "sends env s0 ms d s \<Longrightarrow> send_response env m s = Some s' \<Longrightarrow> sends env s0 (ms @ [m]) d s'"
| written: "sends env s0 ms d s \<Longrightarrow> 0 < writes_pending s \<Longrightarrow> on_write_complete env False s = Some s' \<Longrightarrow>
     sends env s0 ms (Suc d) s'"
| failed: "sends env s0 ms d s \<Longrightarrow> on_write_complete env True s = Some s' \<Longrightarrow> sends env s0 ms d s'"
| reads: "sends env s0 ms d s \<Longrightarrow> read_ready s stream \<Longrightarrow> read_step env now s stream = Some (s', rest) \<Longrightarrow>
     sends env s0 ms d s'"
| checks: "sends env s0 ms d s \<Longrightarrow> sends env s0 ms d (do_check_alive env now s)"

definition wires :: "'m tcp_session \<Rightarrow> u8 list list" where
  "wires s = concat (map (\<lambda>x. case x of Wire b \<Rightarrow> [b] | _ \<Rightarrow> []) (out s))"

lemma wires_emit [simp]:
  "wires (emit (Wire b) s) = wires s @ [b]" "wires (emit (Deal m) s) = wires s"
  "wires (emit Deal_open s) = wires s" "wires (emit Deal_close s) = wires s"
  "wires (emit Manager_close s) = wires s"
  by (simp_all add: wires_def)

text \<open>What the writer knows: closed sessions write nothing more.\<close>

definition writer_ok :: "('p, 'm) session_env \<Rightarrow> 'm message list \<Rightarrow> nat \<Rightarrow> 'm tcp_session \<Rightarrow> bool" where
  "writer_ok env ms d s \<longleftrightarrow>
     queue_ok (send_q s) \<and>
     (\<exists>k \<le> length ms. wires s = map (tcp_frame env) (take k ms) \<and>
        (sock_open s \<longrightarrow> k = min (Suc d) (length ms))) \<and>
     (sock_open s \<longrightarrow> d \<le> length ms \<and> q_items (send_q s) = drop d ms
        \<and> writes_pending s = (if d < length ms then 1 else 0))"

text \<open>The part of the session its writer depends on.\<close>

definition same_writer :: "'m tcp_session \<Rightarrow> 'm tcp_session \<Rightarrow> bool" where
  "same_writer s s' \<longleftrightarrow> send_q s' = send_q s \<and> writes_pending s' = writes_pending s \<and> wires s' = wires s
     \<and> (sock_open s' \<longrightarrow> sock_open s)"

lemma same_writer_ok: "same_writer s s' \<Longrightarrow> writer_ok env ms d s \<Longrightarrow> writer_ok env ms d s'"
  by (auto simp: same_writer_def writer_ok_def)

lemma same_writer_trans: "same_writer a b \<Longrightarrow> same_writer b c \<Longrightarrow> same_writer a c"
  by (auto simp: same_writer_def)

lemma same_writer_update [simp]:
  "same_writer (s\<lparr>recv_buf := b\<rparr>) t = same_writer s t" "same_writer s (t\<lparr>recv_buf := b\<rparr>) = same_writer s t"
  "same_writer (s\<lparr>reading := r\<rparr>) t = same_writer s t" "same_writer s (t\<lparr>reading := r\<rparr>) = same_writer s t"
  "same_writer (s\<lparr>cur_header := h\<rparr>) t = same_writer s t" "same_writer s (t\<lparr>cur_header := h\<rparr>) = same_writer s t"
  "same_writer (flush_alive now s) t = same_writer s t" "same_writer (emit (Deal m) s) t = same_writer s t"
  "same_writer s s"
  by (simp_all add: same_writer_def wires_def flush_alive_def)

lemma do_close_writer [simp]: "same_writer s (do_close env t) \<longleftrightarrow> same_writer s (t\<lparr>sock_open := False\<rparr>)"
  by (simp add: same_writer_def do_close_def wires_def)

lemma close_writer: "same_writer s t \<Longrightarrow> same_writer s (t\<lparr>sock_open := False\<rparr>)"
  by (simp add: same_writer_def wires_def)

lemma closed_writer [simp]: "same_writer s (s\<lparr>sock_open := False\<rparr>)"
  by (rule close_writer) simp

lemma async_read_writer: "async_read ph off n s = Some s' \<Longrightarrow> same_writer s s'"
  by (auto simp: async_read_def split: if_splits)

lemma decode_header_writer: "decode_header env s = (ok, s') \<Longrightarrow> same_writer s s'"
  by (auto simp: decode_header_def Let_def split: option.splits if_splits)

lemma read_handlers_writer:
  "on_read_head_len_complete env err s = Some s' \<Longrightarrow> same_writer s s'"
  "on_read_head_complete env err s = Some s' \<Longrightarrow> same_writer s s'"
  "on_read_complete env now err s = Some s' \<Longrightarrow> same_writer s s'"
proof -
  assume "on_read_head_len_complete env err s = Some s'"
  then show "same_writer s s'"
    by (auto simp: on_read_head_len_complete_def do_read_head_def Let_def split: if_splits
        dest!: async_read_writer intro!: close_writer)
next
  assume "on_read_head_complete env err s = Some s'"
  then show "same_writer s s'"
    by (auto simp: on_read_head_complete_def do_read_body_def split: if_splits prod.splits bool.splits
        dest!: async_read_writer decode_header_writer intro: same_writer_trans close_writer)
next
  assume "on_read_complete env now err s = Some s'"
  then show "same_writer s s'"
    by (auto simp: on_read_complete_def do_read_head_len_def split: if_splits option.splits
        dest!: async_read_writer intro!: close_writer)
qed

lemma read_step_writer: "read_step env now s stream = Some (s', rest) \<Longrightarrow> same_writer s s'"
  by (cases "reading s"; cases "fst (the (reading s))")
    (auto simp: read_step_def Let_def bind_eq_Some_conv dest!: read_handlers_writer)

lemma check_alive_writer [simp]: "same_writer s (do_check_alive env now s)"
  by (simp add: do_check_alive_def close_writer)

lemma encode_then_write:
  assumes "fits env m" "encode env m s = Some s1" "async_write s1 = Some s'"
  shows "send_q s' = send_q s" "writes_pending s' = Suc (writes_pending s)"
    "wires s' = wires s @ [tcp_frame env m]" "sock_open s' = sock_open s"
proof -
  obtain b where b: "encode env m s = Some (s\<lparr>send_buf := b\<rparr>)"
    "transfer_size (buffer_length b) = length (tcp_frame env m)"
    "read_at 0 (length (tcp_frame env m)) b = tcp_frame env m"
    using encode_frame [OF assms(1)] by blast
  with assms(2,3) have "s' = emit (Wire (tcp_frame env m)) (s\<lparr>send_buf := b, writes_pending := writes_pending s + 1\<rparr>)"
    by (auto simp: async_write_def Let_def split: if_splits)
  then show "send_q s' = send_q s" "writes_pending s' = Suc (writes_pending s)"
    "wires s' = wires s @ [tcp_frame env m]" "sock_open s' = sock_open s"
    by (simp_all add: wires_def)
qed

lemma writer_okE:
  assumes "writer_ok env ms d s"
  obtains k where "queue_ok (send_q s)" "k \<le> length ms" "wires s = map (tcp_frame env) (take k ms)"
    "sock_open s \<Longrightarrow> k = min (Suc d) (length ms) \<and> d \<le> length ms \<and> q_items (send_q s) = drop d ms
      \<and> writes_pending s = (if d < length ms then 1 else 0)"
  using assms unfolding writer_ok_def by blast

lemma writer_ok_closed:
  "\<not> sock_open s \<Longrightarrow> queue_ok (send_q s) \<Longrightarrow> k \<le> length ms \<Longrightarrow> wires s = map (tcp_frame env) (take k ms) \<Longrightarrow>
     writer_ok env ms d s"
  unfolding writer_ok_def by blast

lemma writer_ok_open:
  "queue_ok (send_q s) \<Longrightarrow> wires s = map (tcp_frame env) (take (min (Suc d) (length ms)) ms) \<Longrightarrow>
     d \<le> length ms \<Longrightarrow> q_items (send_q s) = drop d ms \<Longrightarrow>
     writes_pending s = (if d < length ms then 1 else 0) \<Longrightarrow> writer_ok env ms d s"
  unfolding writer_ok_def by (metis min.cobounded2)

lemma do_write_ok:
  assumes ok: "writer_ok env ms d s" and fit: "fits env m" and run: "do_write env m s = Some s'"
  shows "writer_ok env (ms @ [m]) d s'"
proof -
  obtain k where k: "queue_ok (send_q s)" "k \<le> length ms" "wires s = map (tcp_frame env) (take k ms)"
    "sock_open s \<Longrightarrow> k = min (Suc d) (length ms) \<and> d \<le> length ms \<and> q_items (send_q s) = drop d ms
      \<and> writes_pending s = (if d < length ms then 1 else 0)"
    using writer_okE [OF ok] by blast
  obtain pushed q where q: "q_push m (send_q s) = (pushed, q)" by (cases "q_push m (send_q s)") auto
  have qok: "queue_ok q" and items: "q_items q = (if pushed then q_items (send_q s) @ [m] else q_items (send_q s))"
    using q_push_ok [OF k(1) q] by auto
  have wires_q: "wires (s\<lparr>send_q := q\<rparr>) = wires s" by (simp add: wires_def)
  consider (full) "s' = do_close env (s\<lparr>send_q := q\<rparr>)"
    | (closed) "s' = s\<lparr>send_q := q\<rparr>" "\<not> sock_open s"
    | (waits) "pushed" "s' = s\<lparr>send_q := q\<rparr>" "q_items (send_q s) \<noteq> []" "sock_open s"
    | (writes) s1 where "pushed" "q_items (send_q s) = []" "sock_open s"
        "encode env m (s\<lparr>send_q := q\<rparr>) = Some s1" "async_write s1 = Some s'"
    using run q by (auto simp: do_write_def Let_def q_is_empty_def bind_eq_Some_conv split: bool.splits if_splits)
  then show ?thesis
  proof cases
    case full
    have "same_writer (s\<lparr>send_q := q\<rparr>) s'" by (simp add: full)
    with full k(2,3) qok wires_q show ?thesis
      by (intro writer_ok_closed [where k = k]) (simp_all add: same_writer_def)
  next
    case closed
    with k(2,3) qok wires_q show ?thesis by (intro writer_ok_closed [where k = k]) simp_all
  next
    case waits
    with k(4) have "d < length ms" by (cases "d < length ms") auto
    with waits k(3,4) qok items wires_q show ?thesis by (intro writer_ok_open) (simp_all add: min_def)
  next
    case writes
    with k(4) have "d = length ms" "writes_pending s = 0" by auto
    with encode_then_write [OF fit writes(4,5)] writes k(3,4) qok items wires_q show ?thesis
      by (intro writer_ok_open) simp_all
  qed
qed

lemma on_write_complete_ok:
  assumes ok: "writer_ok env ms d s" and fit: "\<forall>m \<in> set ms. fits env m" and "0 < writes_pending s"
    and run: "on_write_complete env False s = Some s'"
  shows "writer_ok env ms (Suc d) s'"
proof -
  obtain k where k: "queue_ok (send_q s)" "k \<le> length ms" "wires s = map (tcp_frame env) (take k ms)"
    "sock_open s \<Longrightarrow> k = min (Suc d) (length ms) \<and> d \<le> length ms \<and> q_items (send_q s) = drop d ms
      \<and> writes_pending s = (if d < length ms then 1 else 0)"
    using writer_okE [OF ok] by blast
  let ?q = "snd (q_pop (send_q s))"
  let ?s = "s\<lparr>writes_pending := writes_pending s - 1, send_q := ?q\<rparr>"
  have q: "queue_ok ?q" "q_items ?q = tl (q_items (send_q s))" using q_pop_ok k(1) by auto
  have wires_q: "wires ?s = wires s" by (simp add: wires_def)
  consider (closed) "s' = ?s" "\<not> sock_open s"
    | (last) "s' = ?s" "sock_open s" "q_items ?q = []"
    | (more) m s1 where "sock_open s" "q_items ?q \<noteq> []" "m = hd (q_items ?q)"
        "encode env m ?s = Some s1" "async_write s1 = Some s'"
    using run
    by (auto simp: on_write_complete_def Let_def q_is_empty_def q_front_def bind_eq_Some_conv
        split: if_splits list.splits)
  then show ?thesis
  proof cases
    case closed
    with k(2,3) q wires_q show ?thesis by (intro writer_ok_closed [where k = k]) simp_all
  next
    case last
    with k(4) assms(3) have d: "d < length ms" "q_items (send_q s) = drop d ms" "writes_pending s = 1"
      by (auto split: if_splits)
    with last(3) q have "Suc d = length ms" by (simp add: tl_drop drop_Suc [symmetric])
    with last d k(3,4) q wires_q show ?thesis by (intro writer_ok_open) simp_all
  next
    case more
    with k(4) assms(3) have d: "d < length ms" "q_items (send_q s) = drop d ms" "writes_pending s = 1"
      by (auto split: if_splits)
    with more(2) q have d1: "Suc d < length ms" "q_items ?q = drop (Suc d) ms"
      by (simp_all add: tl_drop drop_Suc [symmetric] Suc_lessI)
    with more(3) have m: "m = ms ! Suc d" by (simp add: hd_drop_conv_nth)
    have "fits env m" using m d1 fit by simp
    from encode_then_write [OF this more(4,5)] m d d1 k(3,4) q wires_q more(1) show ?thesis
      by (intro writer_ok_open) (simp_all add: min_def take_Suc_conv_app_nth)
  qed
qed

lemma sends_ok:
  assumes "sends env s0 ms d s" and "writer_ok env [] 0 s0" and "\<forall>m \<in> set ms. fits env m"
  shows "writer_ok env ms d s"
  using assms(1,3)
proof (induction rule: sends.induct)
  case start
  show ?case using assms(2) .
next
  case (send ms d s m s')
  let ?s = "s\<lparr>sequenceid := sequenceid s + 1\<rparr>"
  have "writer_ok env ms d ?s"
    using send.IH send.prems by (intro same_writer_ok [of s ?s]) (auto simp: same_writer_def wires_def)
  moreover have "do_write env (fst (set_msg_sequenceid m s)) ?s = Some s'"
    using send.hyps by (simp add: send_def do_send_message_def set_msg_sequenceid_def Let_def)
  ultimately show ?case using do_write_ok send.prems by (metis UnCI list.set_intros(1) set_append)
next
  case (shutdown ms d s m s')
  then have "same_writer s s'" by (auto simp: send_def)
  with shutdown same_writer_ok show ?case by blast
next
  case (respond ms d s m s')
  then show ?case using do_write_ok [of env ms d s m s'] by (simp add: send_response_def)
next
  case (written ms d s s')
  then show ?case by (intro on_write_complete_ok) auto
next
  case (failed ms d s s')
  then have s': "\<not> sock_open s'" "send_q s' = send_q s" "wires s' = wires s"
    by (auto simp: on_write_complete_def do_close_def wires_def Let_def split: if_splits)
  obtain k where "queue_ok (send_q s)" "k \<le> length ms" "wires s = map (tcp_frame env) (take k ms)"
    using writer_okE [OF failed.IH [OF failed.prems]] by blast
  with s' show ?case by (intro writer_ok_closed [where k = k]) simp_all
next
  case (reads ms d s stream now s' rest)
  then show ?case using read_step_writer same_writer_ok by blast
next
  case (checks ms d s now)
  then show ?case using check_alive_writer same_writer_ok by blast
qed

lemma new_session_writer: "start now (TcpSession t) = Some s \<Longrightarrow> writer_ok env [] 0 s"
  by (auto simp: start_def do_read_head_len_def async_read_def TcpSession_def flush_alive_def writer_ok_def
      wires_def SendQueue_def queue_ok_def)

text \<open>Frames do not depend on the byte order of the host.\<close>

lemma frame_host: "env_pb env' = env_pb env \<Longrightarrow> tcp_frame env' msg = tcp_frame env msg"
  by (simp add: tcp_frame_def Let_def hton32_in_memory)

lemma delivered_host: "env_pb env' = env_pb env \<Longrightarrow> delivered env' msg = delivered env msg"
  by (simp add: delivered_def)

lemma stream_delivered:
  assumes "start t (TcpSession t) = Some s0" "sends env s0 ms d s"
    and "\<forall>m \<in> set ms. fits env m \<and> reads_back env' m" and "env_pb env' = env_pb env"
    and "awaits_frame r" and "concat cs = concat (wires s)"
  shows "\<exists>k r'. k \<le> length ms \<and> (sock_open s \<longrightarrow> k = min (Suc d) (length ms))
    \<and> feed_chunks env' now r [] cs = Some (r', []) \<and> awaits_frame r'
    \<and> out r' = out r @ map (Deal \<circ> delivered env) (take k ms)"
proof -
  have "writer_ok env ms d s"
    using sends_ok [OF assms(2) new_session_writer [OF assms(1)]] assms(3) by simp
  then obtain k where k: "k \<le> length ms" "wires s = map (tcp_frame env) (take k ms)"
    "sock_open s \<longrightarrow> k = min (Suc d) (length ms)"
    by (rule writer_okE) blast
  have "\<forall>m \<in> set (take k ms). fits env' m \<and> reads_back env' m"
    using assms(3) frame_host [OF assms(4)] by (auto simp: fits_def dest: in_set_takeD)
  from read_frames [OF assms(5) this, of now]
  obtain r' where r': "feed env' now r (concat (map (tcp_frame env') (take k ms))) = Some (r', [])" "awaits_frame r'"
    "out r' = out r @ map (Deal \<circ> delivered env') (take k ms)" by blast
  have "\<not> read_ready r []" using assms(5) by (simp add: read_ready_def awaits_frame_def)
  then have "feed_chunks env' now r [] cs = feed env' now r (concat cs)"
    using feed_chunks_concat [of r "[]"] by simp
  also have "concat cs = concat (map (tcp_frame env') (take k ms))"
    using assms(6) k(2) frame_host [OF assms(4)] by (simp cong: map_cong)
  finally show ?thesis
    using k r' delivered_host [OF assms(4)] by (auto simp: comp_def)
qed

text \<open>The writer does not get stuck: a message that fits can always be given to it, and the
  completion of a write is always handled.\<close>

lemma encode_write_total:
  assumes "fits env m"
  shows "\<exists>s1 s'. encode env m s = Some s1 \<and> async_write s1 = Some s'"
proof -
  obtain b where "encode env m s = Some (s\<lparr>send_buf := b\<rparr>)"
    "transfer_size (buffer_length b) = length (tcp_frame env m)"
    using encode_frame [OF assms] by blast
  with assms show ?thesis by (auto simp: async_write_def Let_def fits_def)
qed

lemma do_write_total: "fits env m \<Longrightarrow> \<exists>s'. do_write env m s = Some s'"
  using encode_write_total [of env m]
  by (auto simp: do_write_def Let_def bind_eq_Some_conv split: prod.splits bool.splits) blast

lemma on_write_complete_total:
  assumes "writer_ok env ms d s" "\<forall>m \<in> set ms. fits env m" "0 < writes_pending s" "sock_open s"
  shows "\<exists>s'. on_write_complete env False s = Some s'"
proof -
  have d: "d < length ms" "q_items (send_q s) = drop d ms"
    using writer_okE [OF assms(1)] assms(3,4) by (metis less_irrefl)+
  then obtain x xs where x: "q_items (send_q s) = x # xs" "set xs \<subseteq> set ms"
    by (metis Cons_nth_drop_Suc set_drop_subset)
  have "\<exists>s1 s'. encode env (hd xs) t = Some s1 \<and> async_write s1 = Some s'" if "xs \<noteq> []" for t
    using hd_in_set [OF that] x(2) assms(2) by (intro encode_write_total) auto
  with x(1) assms(4) show ?thesis
    by (cases xs)
      (auto simp: on_write_complete_def Let_def q_front_def q_pop_def q_is_empty_def bind_eq_Some_conv, blast)
qed

section \<open>Lengths from the network\<close>

lemma uint_scast64: "uint (scast w :: u64) = sint (w :: u32) mod 2 ^ 64"
proof -
  have "LENGTH(64) = 64" by simp
  then show ?thesis by (simp only: scast_eq uint_word_of_int)
qed

lemma transfer_size_negative: "sint (w :: u32) < 0 \<Longrightarrow> 2 ^ 63 \<le> transfer_size w"
proof -
  assume neg: "sint w < 0"
  have "- (2 ^ 31) \<le> sint w" using sint_ge [of w] by simp
  then have "(sint w + 2 ^ 64) mod 2 ^ 64 = sint w + 2 ^ 64"
    using neg by (intro mod_pos_pos_trivial) simp_all
  then have "sint w mod 2 ^ 64 = sint w + 2 ^ 64" by (simp only: mod_add_self2)
  moreover have "uint (scast w :: u64) = sint w mod 2 ^ 64" by (rule uint_scast64)
  ultimately have "uint (scast w :: u64) = sint w + 2 ^ 64" by (simp only:)
  then have "int (transfer_size w) = sint w + 2 ^ 64"
    by (simp add: transfer_size_def)
  then show ?thesis using \<open>- (2 ^ 31) \<le> sint w\<close> by simp
qed

lemma transfer_size_nonneg: "0 \<le> sint (w :: u32) \<Longrightarrow> int (transfer_size w) = sint w"
proof -
  assume "0 \<le> sint w"
  moreover have "sint w < 2 ^ 31" using sint_lt [of w] by simp
  ultimately have "sint w mod 2 ^ 64 = sint w" by (intro mod_pos_pos_trivial) simp_all
  moreover have "uint (scast w :: u64) = sint w mod 2 ^ 64" by (rule uint_scast64)
  ultimately have "uint (scast w :: u64) = sint w" by (simp only:)
  then show ?thesis by (simp add: transfer_size_def)
qed

text \<open>The length of a header whose first byte is at least 128 is a negative \<open>int\<close>: it passes
  the check and the session asks for more bytes than its buffer has.\<close>

lemma header_length_checked:
  assumes "awaits_frame s"
  shows "read_step env now s (b0 # b1 # b2 # b3 # rest) = None \<longleftrightarrow> 128 \<le> b0"
proof -
  let ?bs = "[b0, b1, b2, b3]" and ?big = "env_big env"
  let ?w = "ntoh32 ?big (from_memory ?big ?bs)"
  have "in_memory ?big 4 (hton32 ?big ?w) = ?bs"
    using from_memory32 [of ?bs ?big] by (cases ?big) (simp_all add: ntoh32_def hton32_def)
  then have b0: "b0 = ucast (drop_bit 24 ?w)" by (simp add: hton32_in_memory)
  have "sint ?w < 0 \<longleftrightarrow> bit ?w 31" using bit_last_iff [of ?w] by simp
  also have "\<dots> \<longleftrightarrow> bit b0 7" by (subst b0) (simp add: bit_simps)
  finally have neg: "sint ?w < 0 \<longleftrightarrow> 128 \<le> b0" by (simp add: ascii_bit flip: not_less)
  have "read_at 0 4 (b\<lparr>b_bytes := ?bs @ zs\<rparr>) = ?bs" for b :: msg_buffer and zs
    by (simp add: read_at_def)
  then have step: "read_step env now s (?bs @ rest) = None \<longleftrightarrow>
      sint ?w \<le> 131072 \<and> \<not> 4 + transfer_size ?w \<le> 131076"
    using assms
    by (simp add: read_step_def awaits_frame_def write_at_def on_read_head_len_complete_def do_read_head_def Let_def
        decode_header_length_def async_read_def)
  show ?thesis
  proof (cases "sint ?w < 0")
    case True
    with transfer_size_negative [OF this] neg step show ?thesis by simp
  next
    case False
    then have "0 \<le> sint ?w" by simp
    from transfer_size_nonneg [OF this] False neg step show ?thesis by auto
  qed
qed

text \<open>The length of the body, which the header names, is added to the other lengths modulo
  \<open>2^32\<close>: a negative one passes the check of the whole length as well.\<close>

lemma body_length_overruns:
  assumes "b_header_length (recv_buf s) = of_nat n" "n \<le> MSG_BUF_SIZE"
    and "parse_header (env_pb env) (read_at 4 n (recv_buf s)) = Some h"
    and "h_length h = - of_nat (4 + n)" "h_check_result h = header_check h"
  shows "do_read_body env s = None"
proof -
  have len: "h_length h = word_of_int (- int (4 + n))" using assms(4) by simp
  have "sint (h_length h) = - int (4 + n)"
  proof -
    have "LENGTH(32) - 1 = 31" by simp
    moreover have "signed_take_bit 31 (- int (4 + n)) = - int (4 + n)"
      using assms(2) by (intro signed_take_bit_int_eq_self) simp_all
    ultimately show ?thesis unfolding len sint_sbintrunc' by (simp only:)
  qed
  then have "2 ^ 63 \<le> transfer_size (h_length h)" by (intro transfer_size_negative) simp
  then show ?thesis
    using assms by (simp add: do_read_body_def decode_header_def buf_decode_header_def Let_def
        buffer_length_def async_read_def unat_small)
qed

text \<open>
  The sender has room for frames of four bytes more than a receiver takes: they are written, and the receiver closes its session
  without dealing the message.
\<close>

lemma long_frame_refused:
  assumes "MSG_BUF_SIZE < length (tcp_frame env msg)" "length (tcp_frame env msg) \<le> MSG_BUF_SIZE + HEADER_LENGTH"
    and "reads_back env msg" "awaits_frame r"
  shows "\<exists>b. encode env msg s = Some (s\<lparr>send_buf := b\<rparr>) \<and>
      async_write (s\<lparr>send_buf := b\<rparr>) = Some (emit (Wire (tcp_frame env msg)) (s\<lparr>send_buf := b, writes_pending := writes_pending s + 1\<rparr>))"
    and "\<exists>r' rest. feed env now r (tcp_frame env msg) = Some (r', rest) \<and> \<not> sock_open r' \<and>
      (\<forall>m. Deal m \<in> set (out r') \<longrightarrow> Deal m \<in> set (out r))"
proof -
  obtain b where "encode env msg s = Some (s\<lparr>send_buf := b\<rparr>)" "transfer_size (buffer_length b) = length (tcp_frame env msg)"
    "read_at 0 (length (tcp_frame env msg)) b = tcp_frame env msg"
    using encode_frame_bytes [OF assms(2)] by blast
  then show "\<exists>b. encode env msg s = Some (s\<lparr>send_buf := b\<rparr>) \<and>
      async_write (s\<lparr>send_buf := b\<rparr>) = Some (emit (Wire (tcp_frame env msg)) (s\<lparr>send_buf := b, writes_pending := writes_pending s + 1\<rparr>))"
    using assms(2) by (intro exI [of _ b]) (simp add: async_write_def)
next
  let ?pb = "env_pb env" and ?big = "env_big env"
  let ?hd = "complete_header ?pb msg"
  let ?h = "ser_header ?pb ?hd" and ?m = "ser_msg ?pb (msg_body msg)"
  let ?l = "in_memory ?big 4 (hton32 ?big (of_nat (length ?h)))"
  have size: "131072 < 4 + length ?h + length ?m" "4 + length ?h + length ?m \<le> 131076"
    using assms(1,2) by (simp_all add: frame_length)
  let ?r1 = "r\<lparr>recv_buf := (recv_buf r)\<lparr>b_header_length := of_nat (length ?h), b_bytes := ?l @ drop 4 (b_bytes (recv_buf r))\<rparr>,
    reading := Some (Read_head, 4, length ?h)\<rparr>"
  have step1: "read_step env now r (?l @ ?h @ ?m) = Some (?r1, ?h @ ?m)"
    using read_frame_length [OF assms(4), of "length ?h"] size(2) by simp
  have "sint (of_nat (4 + length ?h + length ?m) :: u32) = int (4 + length ?h + length ?m)"
    using size(2) by (intro sint_small) simp
  moreover have "parse_header ?pb ?h = Some ?hd" using assms(3) by (simp add: reads_back_def Let_def)
  ultimately obtain r2 where step2: "read_step env now ?r1 (?h @ ?m) = Some (do_close env r2, ?m)" "sock_open r2" "out r2 = out r"
    using size assms(4)
    by (simp add: read_step_def write_at_def on_read_head_complete_def do_read_body_def decode_header_def buf_decode_header_def
        read_at_def Let_def unat_small buffer_length_def awaits_frame_def add.assoc [symmetric])
  have "read_ready r (?l @ ?h @ ?m)" "read_ready ?r1 (?h @ ?m)" "\<not> read_ready (do_close env r2) ?m"
    using assms(4) step2(2) by (simp_all add: read_ready_def awaits_frame_def do_close_def emit_def)
  then have "feed env now r (tcp_frame env msg) = Some (do_close env r2, ?m)"
    by (simp add: tcp_frame_def Let_def feed.simps [of env now r] feed.simps [of env now ?r1]
        feed.simps [of env now "do_close env r2"] step1 step2(1))
  moreover have "\<not> sock_open (do_close env r2)" "\<forall>m. Deal m \<in> set (out (do_close env r2)) \<longrightarrow> Deal m \<in> set (out r)"
    using step2(2,3) by (auto simp: do_close_def emit_def)
  ultimately show "\<exists>r' rest. feed env now r (tcp_frame env msg) = Some (r', rest) \<and> \<not> sock_open r' \<and>
      (\<forall>m. Deal m \<in> set (out r') \<longrightarrow> Deal m \<in> set (out r))" by blast
qed

end
