(* ===== verification/Tcp_Sample.thy ===== *)
theory Tcp_Sample
  imports Tcp_Stream
begin

text \<open>
  A sample for the sessions: a codec with headers of six little endian words and messages that
  are their own bytes, which reads back everything it writes, and a session that has sent two
  heartbeats and has seen its first write complete.
\<close>

lemma le_word_bytes [simp]:
  "le_word (le_bytes 4 v) = v" "le_word (le_bytes 8 w) = w" for v :: u32 and w :: u64
  unfolding le_bytes_def le_word_def by (rule word_eqI_all, simp add: upt_rec all_bits)+

definition sample_pb :: "(unit, u8 list) protobuf" where
  "sample_pb = \<lparr>
     ser_header = (\<lambda>h. le_bytes 4 (h_cmdtype h) @ le_bytes 4 (h_type h) @ le_bytes 8 (h_sequenceid h)
       @ le_bytes 4 (h_length h) @ le_bytes 8 (h_check_result h) @ le_bytes 4 (h_response_result h)),
     parse_header = (\<lambda>bs. if length bs \<noteq> 32 then None else Some \<lparr>
       h_cmdtype = le_word (take 4 bs), h_type = le_word (take 4 (drop 4 bs)),
       h_sequenceid = le_word (take 8 (drop 8 bs)), h_length = le_word (take 4 (drop 16 bs)),
       h_check_result = le_word (take 8 (drop 20 bs)), h_response_result = le_word (drop 28 bs)\<rparr>),
     ser_msg = (\<lambda>m. m), parse_msg = (\<lambda>_ bs. Some bs)\<rparr>"

definition sample_tcp_env :: "bool \<Rightarrow> (unit, u8 list) session_env" where
  "sample_tcp_env big = \<lparr>env_pb = sample_pb, env_maker = MessageMaker (\<lambda>_. ()), env_big = big, env_manager = True\<rparr>"

definition heartbeat :: "u8 list \<Rightarrow> u8 list message" where
  "heartbeat body = \<lparr>msg_header = empty_header\<lparr>h_cmdtype := 1, h_type := SYN_REQUEST\<rparr>, msg_body = body\<rparr>"

definition sent_heartbeats :: "u8 list message list" where
  "sent_heartbeats =
     [heartbeat [1, 2, 3], (heartbeat [4])\<lparr>msg_header := (msg_header (heartbeat [4]))\<lparr>h_sequenceid := 1\<rparr>\<rparr>]"

lemma sample_header: "parse_header sample_pb (ser_header sample_pb h) = Some h"
  by (cases h) (simp add: sample_pb_def)

lemma sample_frames:
  assumes "m \<in> set sent_heartbeats"
  shows "fits (sample_tcp_env big) m \<and> reads_back (sample_tcp_env big') m"
proof -
  have "length (msg_body m) \<le> 3" "h_type (msg_header m) = SYN_REQUEST" "h_cmdtype (msg_header m) = 1"
    using assms by (auto simp: sent_heartbeats_def heartbeat_def)
  moreover have "make_message SYN_REQUEST 1 (env_maker (sample_tcp_env big')) = Some ()" by code_simp
  ultimately show ?thesis
    using sample_header [of "complete_header sample_pb m"]
    by (simp add: fits_def frame_length reads_back_def sample_tcp_env_def sample_pb_def complete_header_def Let_def)
qed

text \<open>Two messages and one completed write.\<close>

lemma q_push_room:
  "length (q_items q) < q_capacity q \<Longrightarrow> q_push m q = (True, q\<lparr>q_items := q_items q @ [m]\<rparr>)"
  by (simp add: q_push_def push_back_def)

lemma send_heartbeat:
  "fst (set_msg_sequenceid (heartbeat b) s) = (heartbeat b)\<lparr>msg_header := (msg_header (heartbeat b))\<lparr>h_sequenceid := sequenceid s\<rparr>\<rparr>"
  "send env (heartbeat b) s = do_write env (fst (set_msg_sequenceid (heartbeat b) s)) (s\<lparr>sequenceid := sequenceid s + 1\<rparr>)"
  by (simp_all add: set_msg_sequenceid_def heartbeat_def send_def do_send_message_def Let_def)

lemma sample_sends:
  obtains s0 s where "start 0 (TcpSession 0) = Some s0" "sends (sample_tcp_env big) s0 sent_heartbeats 1 s" "sock_open s"
proof -
  let ?env = "sample_tcp_env big" and ?m1 = "sent_heartbeats ! 0" and ?m2 = "sent_heartbeats ! 1"
  have fit: "fits ?env ?m1" "fits ?env ?m2" using sample_frames by (simp_all add: sent_heartbeats_def)
  obtain s0 :: "u8 list tcp_session" where s0: "start 0 (TcpSession 0) = Some s0" "sock_open s0"
    "send_q s0 = SendQueue" "sequenceid s0 = 0" "writes_pending s0 = 0"
    by (simp add: start_def do_read_head_len_def async_read_def flush_alive_def TcpSession_def)
  define t where "t = s0\<lparr>sequenceid := 1, send_q := \<lparr>q_items = [?m1], q_capacity = INIT_SIZE\<rparr>\<rparr>"
  obtain t1 s1 where s1: "encode ?env ?m1 t = Some t1" "async_write t1 = Some s1"
    using encode_write_total [OF fit(1)] by blast
  note w1 = encode_then_write [OF fit(1) s1]
  have msg1: "fst (set_msg_sequenceid (heartbeat [1, 2, 3]) s0) = ?m1"
    unfolding send_heartbeat(1) using s0(4) by (simp add: sent_heartbeats_def heartbeat_def empty_header_def)
  have send1: "send ?env (heartbeat [1, 2, 3]) s0 = Some s1"
    unfolding send_heartbeat(2) msg1 using s0 s1
    by (simp add: do_write_def q_is_empty_def q_push_room SendQueue_def t_def)
  have seq1: "sequenceid s1 = 1"
    using s1 by (auto simp: t_def encode_def async_write_def Let_def bind_eq_Some_conv split: if_splits)
  have msg2: "fst (set_msg_sequenceid (heartbeat [4]) s1) = ?m2"
    using seq1 by (simp add: send_heartbeat sent_heartbeats_def)
  define s2 where "s2 = s1\<lparr>sequenceid := 2, send_q := \<lparr>q_items = [?m1, ?m2], q_capacity = INIT_SIZE\<rparr>\<rparr>"
  have send2: "send ?env (heartbeat [4]) s1 = Some s2"
    unfolding send_heartbeat(2) msg2 using w1 seq1
    by (simp add: do_write_def q_is_empty_def q_push_room s2_def t_def)
  have s2: "sends ?env s0 sent_heartbeats 0 s2"
  proof -
    have "sends ?env s0 [?m1] 0 s1"
      using sends.send [OF sends.start _ send1] unfolding msg1 by (simp add: heartbeat_def)
    then have "sends ?env s0 ([?m1] @ [?m2]) 0 s2"
      using sends.send [OF _ _ send2, of s0 "[?m1]" 0] unfolding msg2 by (simp add: heartbeat_def)
    then show ?thesis by (simp add: sent_heartbeats_def)
  qed
  define u where "u = s2\<lparr>writes_pending := 0, send_q := \<lparr>q_items = [?m2], q_capacity = INIT_SIZE\<rparr>\<rparr>"
  obtain u1 s where s: "encode ?env ?m2 u = Some u1" "async_write u1 = Some s"
    using encode_write_total [OF fit(2)] by blast
  have done1: "on_write_complete ?env False s2 = Some s"
    using s w1 s0 by (simp add: on_write_complete_def q_front_def q_pop_def q_is_empty_def s2_def u_def t_def Let_def)
  have "0 < writes_pending s2" using w1 s0 by (simp add: s2_def t_def)
  with s2 have "sends ?env s0 sent_heartbeats (Suc 0) s" using done1 by (rule sends.written)
  moreover have "sock_open s" using encode_then_write(4) [OF fit(2) s] w1 s0 by (simp add: u_def s2_def t_def)
  ultimately show ?thesis using that s0(1) by simp
qed

end
