(* ===== verification/Session_Requests.thy ===== *)
theory Session_Requests
  imports Tcp_Messages
begin

text \<open>
  Around a session: requests that wait for a response (\<open>AsyncRequest.inl\<close>, \<open>Synrequest.inl\<close>) and
  the table of the sessions of a server (\<open>ServerSessionManager.cpp\<close>), all of
  \<open>server/common/libserver\<close>.

  Handlers of a loop run one after the other. A \<open>deadline_timer\<close> of asio has at most one wait in
  these sources: it is running, or its handler is in the queue of the loop with the result of the
  wait. \<open>cancel\<close> ends a running wait with an error; it has no effect on a handler that is already
  in the queue.
\<close>

section \<open>Asynchronous requests\<close>

record 'c asyn_item =
  m_request :: tcp_header
  m_fun :: 'c

datatype async_result = Response tcp_header | Timeout_response tcp_header

record 'c async_request =
  m_items :: "u64 \<Rightarrow> 'c asyn_item option"
  timers_running :: "u64 set"
  expired :: "(u64 \<times> bool) list"
  posted :: "('c \<times> u64 \<times> async_result) list"

definition AsyncRequest :: "'c async_request" where
  "AsyncRequest = \<lparr>m_items = (\<lambda>_. None), timers_running = {}, expired = [], posted = []\<rparr>"

text \<open>\<open>send_request\<close>: a sequence number that is in use is ignored; the constructor of \<open>AsynItem\<close>
  starts the timer.\<close>

definition send_request :: "tcp_header \<Rightarrow> 'c \<Rightarrow> 'c async_request \<Rightarrow> 'c async_request" where
  "send_request req f r =
     (if m_items r (h_sequenceid req) \<noteq> None then r
      else r\<lparr>m_items := (m_items r)(h_sequenceid req \<mapsto> \<lparr>m_request = req, m_fun = f\<rparr>),
             timers_running := insert (h_sequenceid req) (timers_running r)\<rparr>)"

definition cancel_timer :: "u64 \<Rightarrow> 'c async_request \<Rightarrow> 'c async_request" where
  "cancel_timer q r =
     (if q \<in> timers_running r then r\<lparr>timers_running := timers_running r - {q}, expired := expired r @ [(q, True)]\<rparr> else r)"

text \<open>\<open>on_response_come\<close> cancels the timer and posts the callback; the item stays until the
  handler of the timer runs.\<close>

definition on_response_come :: "tcp_header \<Rightarrow> 'c async_request \<Rightarrow> 'c async_request" where
  "on_response_come res r =
     (case m_items r (h_sequenceid res) of
        None \<Rightarrow> r
      | Some it \<Rightarrow>
          let r = cancel_timer (h_sequenceid res) r
          in r\<lparr>posted := posted r @ [(m_fun it, h_sequenceid res, Response res)]\<rparr>)"

abbreviation (input) CODE_WAIT_RESP_TIMEOUT :: u32 where "CODE_WAIT_RESP_TIMEOUT \<equiv> 3"
abbreviation (input) CODE_SYSTEM_ERROR :: u32 where "CODE_SYSTEM_ERROR \<equiv> 4"

text \<open>The response that \<open>make_response\<close> and the handler build for a request that timed out.\<close>

definition timeout_header :: "u64 \<Rightarrow> tcp_header" where
  "timeout_header q = empty_header\<lparr>h_response_result := CODE_WAIT_RESP_TIMEOUT, h_sequenceid := q\<rparr>"

text \<open>\<open>on_response_timeout\<close>: the assertion that the request is known, the callback unless the wait
  was cancelled, and the removal of the item.\<close>

definition on_response_timeout :: "bool \<Rightarrow> u64 \<Rightarrow> 'c async_request \<Rightarrow> 'c async_request option" where
  "on_response_timeout err q r =
     (case m_items r q of
        None \<Rightarrow> None
      | Some it \<Rightarrow>
          let r = (if \<not> err
                   then r\<lparr>posted := posted r @ [(m_fun it, q, Timeout_response (timeout_header q))]\<rparr>
                   else r)
          in Some (r\<lparr>m_items := (m_items r)(q := None)\<rparr>))"

text \<open>The timer runs out, and the loop takes a handler from its queue.\<close>

definition timer_expires :: "u64 \<Rightarrow> 'c async_request \<Rightarrow> 'c async_request" where
  "timer_expires q r =
     (if q \<in> timers_running r then r\<lparr>timers_running := timers_running r - {q}, expired := expired r @ [(q, False)]\<rparr> else r)"

definition run_timer_handler :: "'c async_request \<Rightarrow> 'c async_request option" where
  "run_timer_handler r =
     (case expired r of
        [] \<Rightarrow> Some r
      | (q, err) # rest \<Rightarrow> on_response_timeout err q (r\<lparr>expired := rest\<rparr>))"

text \<open>
  Everything that happens to the requests of a session; \<open>qs\<close> are the requests that were taken, with
  their sequence numbers and callbacks. A request with a sequence number that waits for its answer is not taken.
\<close>

inductive requests :: "(u64 \<times> 'c) list \<Rightarrow> 'c async_request \<Rightarrow> bool" where
  start: "requests [] AsyncRequest"
| request: "requests qs r \<Longrightarrow> m_items r (h_sequenceid req) = None \<Longrightarrow>
    requests (qs @ [(h_sequenceid req, f)]) (send_request req f r)"
| ignored: "requests qs r \<Longrightarrow> m_items r (h_sequenceid req) \<noteq> None \<Longrightarrow> requests qs (send_request req f r)"
| response: "requests qs r \<Longrightarrow> requests qs (on_response_come res r)"
| expires: "requests qs r \<Longrightarrow> requests qs (timer_expires q r)"
| handler: "requests qs r \<Longrightarrow> run_timer_handler r = Some r' \<Longrightarrow> requests qs r'"

text \<open>How often the callback \<open>f\<close> was posted for the number \<open>q\<close>, and whether a request of this kind still waits for its post.\<close>

definition callbacks :: "u64 \<Rightarrow> 'c \<Rightarrow> 'c async_request \<Rightarrow> nat" where
  "callbacks q f r = length (filter (\<lambda>(f', q', _). f' = f \<and> q' = q) (posted r))"

definition unanswered :: "u64 \<Rightarrow> 'c \<Rightarrow> 'c async_request \<Rightarrow> nat" where
  "unanswered q f r =
     (case m_items r q of None \<Rightarrow> 0 | Some it \<Rightarrow> of_bool (m_fun it = f \<and> (q, True) \<notin> set (expired r)))"

text \<open>Each request that waits has one wait of a timer, running or in the queue, and no other
  request has one.\<close>

definition waits_ok :: "'c async_request \<Rightarrow> bool" where
  "waits_ok r \<longleftrightarrow>
     distinct (map fst (expired r)) \<and>
     timers_running r \<inter> fst ` set (expired r) = {} \<and>
     dom (m_items r) = timers_running r \<union> fst ` set (expired r)"

lemma run_timer_handler_Cons:
  assumes "waits_ok r" "expired r = (q, err) # rest"
  obtains it where "m_items r q = Some it" "q \<notin> timers_running r" "q \<notin> fst ` set rest"
    "run_timer_handler r = Some (r\<lparr>expired := rest, m_items := (m_items r)(q := None),
       posted := posted r @ (if err then [] else [(m_fun it, q, Timeout_response (timeout_header q))])\<rparr>)"
proof -
  have "q \<in> dom (m_items r)" using assms unfolding waits_ok_def by simp
  then obtain it where "m_items r q = Some it" by blast
  then show ?thesis
    using assms by (intro that) (auto simp: waits_ok_def run_timer_handler_def on_response_timeout_def Let_def)
qed

lemma requests_waits: "requests qs r \<Longrightarrow> waits_ok r"
proof (induction rule: requests.induct)
  case start
  then show ?case by (simp add: waits_ok_def AsyncRequest_def)
next
  case (handler qs r r')
  show ?case
  proof (cases "expired r")
    case Nil
    with handler show ?thesis by (simp add: run_timer_handler_def)
  next
    case (Cons p rest)
    obtain q err where "expired r = (q, err) # rest" using Cons by (cases p) simp
    with handler.IH obtain it where "q \<notin> timers_running r" "q \<notin> fst ` set rest" and r': "m_items r' = (m_items r)(q := None)"
      "timers_running r' = timers_running r" "expired r' = rest"
      by (rule run_timer_handler_Cons) (use handler.hyps(2) in auto)
    moreover have "dom (m_items r) = timers_running r \<union> insert q (fst ` set rest)" "distinct (map fst rest)"
      "timers_running r \<inter> fst ` set rest = {}"
      using handler.IH Cons \<open>expired r = (q, err) # rest\<close> by (auto simp: waits_ok_def)
    ultimately show ?thesis unfolding waits_ok_def r' by auto
  qed
qed (auto simp: waits_ok_def send_request_def on_response_come_def cancel_timer_def timer_expires_def Let_def
  split: option.splits if_splits)

text \<open>Every request that was taken has had a post of its own, or waits for it.\<close>

lemma requests_counted: "requests qs r \<Longrightarrow> count_list qs (q, f) \<le> callbacks q f r + unanswered q f r"
proof (induction arbitrary: q f rule: requests.induct)
  case start
  then show ?case by simp
next
  case (request qs r req f')
  have "(h_sequenceid req, True) \<notin> set (expired r)"
    using requests_waits [OF request.hyps(1)] request.hyps(2) by (force simp: waits_ok_def)
  then show ?case
    using request.IH [of q f] request.hyps(2) by (auto simp: callbacks_def unanswered_def send_request_def split: option.split)
next
  case (ignored qs r req f')
  then show ?case by (auto simp: send_request_def)
next
  case (response qs r res)
  show ?case
    using response.IH [of q f]
    by (auto simp: callbacks_def unanswered_def on_response_come_def cancel_timer_def Let_def of_bool_def
        split: option.splits if_split_asm)
next
  case (expires qs r q')
  have "unanswered q f (timer_expires q' r) = unanswered q f r"
    by (simp add: unanswered_def timer_expires_def split: option.split)
  then show ?case using expires.IH [of q f] by (simp add: callbacks_def timer_expires_def)
next
  case (handler qs r r')
  show ?case
  proof (cases "expired r")
    case Nil
    with handler show ?thesis by (simp add: run_timer_handler_def)
  next
    case (Cons p rest)
    obtain q' err where e: "expired r = (q', err) # rest" using Cons by (cases p) simp
    from requests_waits [OF handler.hyps(1)] e
    obtain it where it: "m_items r q' = Some it" and r': "m_items r' = (m_items r)(q' := None)" "expired r' = rest"
      "posted r' = posted r @ (if err then [] else [(m_fun it, q', Timeout_response (timeout_header q'))])"
      by (rule run_timer_handler_Cons) (use handler.hyps(2) in auto)
    show ?thesis
    proof (cases "q = q'")
      case True
      then show ?thesis
        using handler.IH [of q f] it by (cases err) (auto simp: callbacks_def unanswered_def r' e of_bool_def split: if_split_asm)
    next
      case False
      then have "unanswered q f r' = unanswered q f r" "callbacks q f r' = callbacks q f r"
        by (simp_all add: unanswered_def callbacks_def r' e split: option.split)
      then show ?thesis using handler.IH [of q f] by simp
    qed
  qed
qed

text \<open>So the assertion of \<open>on_response_timeout\<close> holds, and a request is only forgotten after its
  callback was posted.\<close>

lemma handler_runs: "requests qs r \<Longrightarrow> \<exists>r'. run_timer_handler r = Some r'"
  by (cases "expired r") (auto simp: run_timer_handler_def elim!: run_timer_handler_Cons dest!: requests_waits)

lemma request_answered: "requests qs r \<Longrightarrow> m_items r q = None \<Longrightarrow> count_list qs (q, f) \<le> callbacks q f r"
  using requests_counted [of qs r q f] by (simp add: unanswered_def)

text \<open>With its timers run out and its handlers run, nothing waits any more.\<close>

fun run_handlers :: "nat \<Rightarrow> 'c async_request \<Rightarrow> 'c async_request option" where
  "run_handlers 0 r = Some r"
| "run_handlers (Suc n) r = (case run_timer_handler r of None \<Rightarrow> None | Some r' \<Rightarrow> run_handlers n r')"

lemma all_answered:
  assumes "requests qs r" "timers_running r = {}"
  shows "\<exists>r'. run_handlers (length (expired r)) r = Some r' \<and> m_items r' = (\<lambda>_. None)
    \<and> (\<forall>q f. count_list qs (q, f) \<le> callbacks q f r')"
  using assms
proof (induction "length (expired r)" arbitrary: r)
  case 0
  then have "m_items r = (\<lambda>_. None)"
    using requests_waits [OF 0(2)] by (auto simp: waits_ok_def)
  then show ?case using 0 request_answered [OF 0(2)] by simp
next
  case (Suc n)
  obtain r1 where r1: "run_timer_handler r = Some r1" using handler_runs [OF Suc.prems(1)] by blast
  obtain q err rest where e: "expired r = (q, err) # rest" using Suc.hyps(2) by (cases "expired r") auto
  have "timers_running r1 = {}" "expired r1 = rest"
    by (rule run_timer_handler_Cons [OF requests_waits [OF Suc.prems(1)] e]; use r1 Suc.prems(2) in simp)+
  moreover have "requests qs r1" using Suc.prems(1) r1 by (rule requests.handler)
  ultimately show ?case using Suc.hyps(1) [of r1] Suc.hyps(2) r1 e by (simp flip: Suc.hyps(2))
qed

text \<open>A request whose number waits is dropped without a word: its callback is never posted.\<close>

lemma second_request_ignored:
  assumes "f \<noteq> f'"
  shows "\<exists>r'. run_timer_handler (timer_expires 7 (send_request (empty_header\<lparr>h_sequenceid := 7\<rparr>) f'
      (send_request (empty_header\<lparr>h_sequenceid := 7\<rparr>) f AsyncRequest))) = Some r' \<and>
    m_items r' = (\<lambda>_. None) \<and> callbacks 7 f r' = 1 \<and> callbacks 7 f' r' = 0"
  using assms by (simp add: send_request_def timer_expires_def run_timer_handler_def on_response_timeout_def
      AsyncRequest_def empty_header_def callbacks_def Let_def fun_eq_iff)

text \<open>A callback can be posted twice: the timer runs out, the response comes before the handler of
  the timer runs, and the handler reports a timeout for the same request.\<close>

lemma callback_twice:
  "run_timer_handler (on_response_come (empty_header\<lparr>h_sequenceid := 7\<rparr>)
     (timer_expires 7 (send_request (empty_header\<lparr>h_sequenceid := 7\<rparr>) c AsyncRequest)))
   = Some \<lparr>m_items = (\<lambda>_. None), timers_running = {}, expired = [],
       posted = [(c, 7, Response (empty_header\<lparr>h_sequenceid := 7\<rparr>)), (c, 7, Timeout_response (timeout_header 7))]\<rparr>"
  by (simp add: send_request_def timer_expires_def on_response_come_def cancel_timer_def run_timer_handler_def
      on_response_timeout_def AsyncRequest_def empty_header_def Let_def fun_eq_iff)

section \<open>Synchronous requests\<close>

text \<open>\<open>SynRequest\<close>: one request at a time; \<open>m_promise\<close> is absent, open or holds its value. The
  two halves of \<open>wait_response\<close> are the steps before and after the wait of the caller's thread.\<close>

record syn_request =
  m_send_sequenceid :: u64
  m_promise :: "tcp_header option option"

definition SynRequest :: syn_request where
  "SynRequest = \<lparr>m_send_sequenceid = 0, m_promise = None\<rparr>"

definition wait_begin :: "tcp_header \<Rightarrow> syn_request \<Rightarrow> syn_request" where
  "wait_begin msg r = r\<lparr>m_send_sequenceid := h_sequenceid msg, m_promise := Some None\<rparr>"

datatype wait_status = Wait_ready | Wait_timeout | Wait_deferred

definition wait_end :: "wait_status \<Rightarrow> tcp_header \<Rightarrow> syn_request \<Rightarrow> (tcp_header \<times> syn_request) option" where
  "wait_end st msg r = do {
     res \<leftarrow> (case st of
        Wait_ready \<Rightarrow> (case m_promise r of Some (Some v) \<Rightarrow> Some v | _ \<Rightarrow> None)
      | Wait_timeout \<Rightarrow> Some (empty_header\<lparr>h_response_result := CODE_WAIT_RESP_TIMEOUT, h_sequenceid := h_sequenceid msg\<rparr>)
      | Wait_deferred \<Rightarrow> Some (empty_header\<lparr>h_response_result := CODE_SYSTEM_ERROR, h_sequenceid := h_sequenceid msg\<rparr>));
     Some (res, r\<lparr>m_send_sequenceid := -1, m_promise := None\<rparr>)
   }"

text \<open>\<open>response_come\<close>: \<open>set_value\<close> on a promise that has its value throws.\<close>

definition syn_response_come :: "tcp_header \<Rightarrow> syn_request \<Rightarrow> syn_request option" where
  "syn_response_come res r =
     (if m_send_sequenceid r \<noteq> h_sequenceid res then Some r
      else case m_promise r of
        None \<Rightarrow> Some r
      | Some (Some _) \<Rightarrow> None
      | Some None \<Rightarrow> Some (r\<lparr>m_promise := Some (Some res)\<rparr>))"

lemma syn_request_matches:
  assumes "syn_response_come res (wait_begin msg r) = Some r'" and "wait_end Wait_ready msg r' = Some (v, r'')"
  shows "v = res" "h_sequenceid res = h_sequenceid msg"
  using assms by (auto simp: syn_response_come_def wait_begin_def wait_end_def split: if_splits)

lemma syn_response_twice:
  "h_sequenceid res = h_sequenceid msg \<Longrightarrow> h_sequenceid res' = h_sequenceid msg \<Longrightarrow>
     syn_response_come res (wait_begin msg r) \<bind> syn_response_come res' = None"
  by (simp add: syn_response_come_def wait_begin_def)

section \<open>The sessions of a server\<close>

text \<open>
  \<open>ServerSessionManager\<close>: sessions by their number. A session is a pointer of type \<open>'s\<close>; \<open>ids\<close> is
  the number each session object carries. The table holds weak pointers. The expression
  \<open>m_current_session + 1 % m_max_session_id\<close> adds \<open>1 % m_max_session_id\<close>, which is 1, so that the
  counter is never taken modulo anything: past the largest \<open>int\<close> the addition overflows.
\<close>

abbreviation (input) INT_MAX :: int where "INT_MAX \<equiv> 2147483647"

record 's session_table =
  m_max_session_count :: nat
  m_current_session :: int
  m_session_all :: "(int \<times> 's) list"
  ids :: "'s \<Rightarrow> int"

datatype 's table_call = Close_session 's | Start_session 's | Check_alive 's

definition ServerSessionManager :: "nat \<Rightarrow> ('s \<Rightarrow> int) \<Rightarrow> 's session_table" where
  "ServerSessionManager n f =
     \<lparr>m_max_session_count = n, m_current_session = 0, m_session_all = [], ids = f\<rparr>"

definition is_session_over_limit :: "'s session_table \<Rightarrow> bool" where
  "is_session_over_limit t = (length (m_session_all t) \<ge> m_max_session_count t)"

definition do_add_session :: "'s \<Rightarrow> 's session_table \<Rightarrow> ('s table_call \<times> 's session_table) option" where
  "do_add_session s t =
     (if is_session_over_limit t then Some (Close_session s, t)
      else let cur = m_current_session t + 1 mod INT_MAX in
        if cur > INT_MAX then None
        else Some (Start_session s,
          t\<lparr>m_current_session := cur, ids := (ids t)(s := cur),
            m_session_all := (if map_of (m_session_all t) cur \<noteq> None then m_session_all t
              else (cur, s) # m_session_all t)\<rparr>))"

definition do_close_session :: "'s \<Rightarrow> 's session_table \<Rightarrow> 's session_table" where
  "do_close_session s t =
     t\<lparr>m_session_all := filter (\<lambda>(i, _). i \<noteq> ids t s) (m_session_all t), ids := (ids t)(s := -1)\<rparr>"

text \<open>\<open>check_session_alive\<close>: entries whose session is gone are erased, the others are checked.\<close>

definition check_session_alive :: "('s \<Rightarrow> bool) \<Rightarrow> 's session_table \<Rightarrow> 's table_call list \<times> 's session_table" where
  "check_session_alive gone t =
     (let kept = filter (\<lambda>(_, s). \<not> gone s) (m_session_all t)
      in (map (\<lambda>(_, s). Check_alive s) kept, t\<lparr>m_session_all := kept\<rparr>))"

inductive session_tables :: "nat \<Rightarrow> 's session_table \<Rightarrow> bool" for n where
  start: "session_tables n (ServerSessionManager n f)"
| add: "session_tables n t \<Longrightarrow> \<forall>i. (i, s) \<notin> set (m_session_all t) \<Longrightarrow>
     do_add_session s t = Some (c, t') \<Longrightarrow> session_tables n t'"
| close: "session_tables n t \<Longrightarrow> session_tables n (do_close_session s t)"
| check: "session_tables n t \<Longrightarrow> session_tables n (snd (check_session_alive gone t))"

definition table_ok :: "nat \<Rightarrow> 's session_table \<Rightarrow> bool" where
  "table_ok n t \<longleftrightarrow>
     m_max_session_count t = n \<and> length (m_session_all t) \<le> n \<and> distinct (map fst (m_session_all t)) \<and>
     0 \<le> m_current_session t \<and>
     (\<forall>(i, s) \<in> set (m_session_all t). 0 < i \<and> i \<le> m_current_session t \<and> ids t s = i)"

lemma table_ok_filter:
  assumes "table_ok n t"
  shows "table_ok n (t\<lparr>m_session_all := filter P (m_session_all t)\<rparr>)"
  using assms le_trans [OF length_filter_le [of P "m_session_all t"]]
  by (simp add: table_ok_def distinct_map_filter)

lemma tables_ok: "session_tables n t \<Longrightarrow> table_ok n t"
proof (induction rule: session_tables.induct)
  case (start f)
  then show ?case by (simp add: table_ok_def ServerSessionManager_def)
next
  case (add t s c t')
  then show ?case
    by (auto simp: table_ok_def do_add_session_def is_session_over_limit_def Let_def map_of_eq_None_iff
        split: if_splits) force+
next
  case (close t s)
  let ?kept = "filter (\<lambda>(i, _). i \<noteq> ids t s) (m_session_all t)"
  from table_ok_filter [OF close.IH, of "\<lambda>(i, _). i \<noteq> ids t s"]
  have kept: "table_ok n (t\<lparr>m_session_all := ?kept\<rparr>)" .
  have "s' \<noteq> s" if "(i, s') \<in> set ?kept" for i s'
    using that close.IH by (auto simp: table_ok_def)
  then have "\<forall>(i, s') \<in> set ?kept. ((ids t)(s := -1)) s' = ids t s'" by auto
  with kept show ?case unfolding table_ok_def do_close_session_def by (simp add: case_prod_beta) blast
next
  case (check t gone)
  from table_ok_filter [OF this(2)] show ?case by (simp add: check_session_alive_def Let_def)
qed

text \<open>After the largest \<open>int\<close> the next session overflows the counter.\<close>

lemma session_counter_overflows:
  "m_current_session t = INT_MAX \<Longrightarrow> \<not> is_session_over_limit t \<Longrightarrow> do_add_session s t = None"
  by (simp add: do_add_session_def)

end
