(* ===== verification/Tcp_Client.thy ===== *)
theory Tcp_Client
  imports Stars_Prelude
begin

text \<open>
  The client end of a TCP connection (\<open>server/common/libserver/Client.cpp\<close>): it connects, waits
  and connects again, keeps a session and sends heartbeats. The flags are those of the class.
  The rest of the state is the one of the asio loop: which timers wait, whether a connect is
  pending on the socket, and the handlers that are ready, which the loop runs in the order in
  which they became ready. To cancel a wait makes its handler ready with an error; a handler that
  is ready already is not changed. \<open>None\<close> is a null pointer that is followed, or an address
  that is none.
\<close>

section \<open>The loop\<close>

datatype client_timer = Reconnect_timer | Connect_timer | Heart_beat_timer | Alive_timer

datatype 'e handler =
    Do_connect "'e option" | Do_close_client
  | Connet_complete bool | Timer client_timer bool | Session_do_close nat

datatype client_call = Connect_failed | Session_started nat | Heartbeat_sent | Alive_checked nat

text \<open>
  \<open>m_socket\<close>: whether the socket is open and whether a connect is pending on it. \<open>m_session_ref\<close>
  is the current session while its socket is open; \<open>session_id\<close> counts the sessions.
\<close>

record 'e client =
  m_auto_reconnect :: bool
  m_is_connecting :: bool
  m_is_wait_connect :: bool
  m_is_connected :: bool
  m_endpoint :: "'e option"
  m_socket :: "(bool \<times> bool) option"
  m_session_ref :: "nat option"
  session_count :: nat
  timers_waiting :: "client_timer set"
  ready :: "'e handler list"
  client_calls :: "client_call list"

definition Client :: "'e client" where
  "Client = \<lparr>m_auto_reconnect = False, m_is_connecting = False, m_is_wait_connect = False, m_is_connected = False,
     m_endpoint = None, m_socket = None, m_session_ref = None, session_count = 0, timers_waiting = {},
     ready = [], client_calls = []\<rparr>"

definition post :: "'e handler \<Rightarrow> 'e client \<Rightarrow> 'e client" where
  "post h c = c\<lparr>ready := ready c @ [h]\<rparr>"

definition call :: "client_call \<Rightarrow> 'e client \<Rightarrow> 'e client" where
  "call x c = c\<lparr>client_calls := client_calls c @ [x]\<rparr>"

definition cancel_wait :: "client_timer \<Rightarrow> 'e client \<Rightarrow> 'e client" where
  "cancel_wait t c =
     (if t \<in> timers_waiting c then post (Timer t True) (c\<lparr>timers_waiting := timers_waiting c - {t}\<rparr>) else c)"

text \<open>\<open>expires_from_now\<close>, which cancels what waits, and \<open>async_wait\<close>.\<close>

definition wait_timer :: "client_timer \<Rightarrow> 'e client \<Rightarrow> 'e client" where
  "wait_timer t c = (let c = cancel_wait t c in c\<lparr>timers_waiting := insert t (timers_waiting c)\<rparr>)"

text \<open>The end of a socket, by \<open>close()\<close> or its destructor, aborts the connect pending on it.\<close>

definition abort_connect :: "'e client \<Rightarrow> 'e client" where
  "abort_connect c = (case m_socket c of Some (_, True) \<Rightarrow> post (Connet_complete True) c | _ \<Rightarrow> c)"

definition close_socket :: "'e client \<Rightarrow> 'e client option" where
  "close_socket c =
     (case m_socket c of None \<Rightarrow> None | Some _ \<Rightarrow> Some ((abort_connect c)\<lparr>m_socket := Some (False, False)\<rparr>))"

definition drop_socket :: "'e client \<Rightarrow> 'e client" where
  "drop_socket c = (abort_connect c)\<lparr>m_socket := None\<rparr>"

section \<open>The client\<close>

definition register_connect_timer :: "'e client \<Rightarrow> 'e client" where
  "register_connect_timer c = wait_timer Reconnect_timer (c\<lparr>m_is_wait_connect := True\<rparr>)"

definition register_heart_beat_timer :: "'e client \<Rightarrow> 'e client" where
  "register_heart_beat_timer c = wait_timer Heart_beat_timer c"

definition register_alive_timer :: "'e client \<Rightarrow> 'e client" where
  "register_alive_timer c = wait_timer Alive_timer c"

definition client_connect :: "'e client \<Rightarrow> 'e client" where
  "client_connect c =
     (let c = wait_timer Connect_timer (drop_socket c)
      in c\<lparr>m_socket := Some (True, True), m_is_connecting := True\<rparr>)"

definition on_connet_complete :: "bool \<Rightarrow> 'e client \<Rightarrow> 'e client option" where
  "on_connet_complete err c =
     (let c = cancel_wait Connect_timer (c\<lparr>m_is_connecting := False\<rparr>) in
      case m_socket c of
        None \<Rightarrow> None
      | Some (is_open, _) \<Rightarrow>
          if \<not> is_open \<or> err
          then let c = drop_socket (call Connect_failed c)
               in Some (if m_auto_reconnect c then register_connect_timer c else c)
          else let n = session_count c + 1;
                   c = call (Session_started n) (c\<lparr>m_is_connected := True, m_session_ref := Some n,
                          m_socket := None, session_count := n\<rparr>)
               in Some (register_alive_timer (register_heart_beat_timer c)))"

definition on_send_heart_beat :: "bool \<Rightarrow> 'e client \<Rightarrow> 'e client" where
  "on_send_heart_beat err c =
     (if \<not> err \<and> m_is_connected c
      then register_heart_beat_timer (if m_session_ref c \<noteq> None then call Heartbeat_sent c else c)
      else c)"

definition on_wait_reconnect :: "bool \<Rightarrow> 'e client \<Rightarrow> 'e client" where
  "on_wait_reconnect err c =
     (let c = c\<lparr>m_is_wait_connect := False\<rparr> in if \<not> err then client_connect c else c)"

definition on_check_alive :: "bool \<Rightarrow> 'e client \<Rightarrow> 'e client" where
  "on_check_alive err c =
     (if \<not> err \<and> m_is_connected c
      then (case m_session_ref c of None \<Rightarrow> c | Some n \<Rightarrow> register_alive_timer (call (Alive_checked n) c))
      else c)"

definition on_connect_timeout :: "bool \<Rightarrow> 'e client \<Rightarrow> 'e client" where
  "on_connect_timeout err c =
     (if \<not> err then (case m_socket c of Some (True, _) \<Rightarrow> the (close_socket c) | _ \<Rightarrow> c) else c)"

text \<open>\<open>m_session_ref.lock()->close()\<close> posts the close of the session.\<close>

definition close_current :: "'e client \<Rightarrow> 'e client option" where
  "close_current c = (case m_session_ref c of None \<Rightarrow> None | Some n \<Rightarrow> Some (post (Session_do_close n) c))"

definition do_connect :: "'e option \<Rightarrow> 'e client \<Rightarrow> 'e client option" where
  "do_connect ep c =
     (let c = c\<lparr>m_auto_reconnect := True\<rparr> in
      case ep of
        None \<Rightarrow> None
      | Some e \<Rightarrow>
          let c = c\<lparr>m_endpoint := Some e\<rparr> in
          if m_is_connected c then close_current c
          else if m_is_connecting c then close_socket c
          else Some (client_connect (if m_is_wait_connect c
                 then (cancel_wait Reconnect_timer c)\<lparr>m_is_wait_connect := False\<rparr> else c)))"

definition do_close_client :: "'e client \<Rightarrow> 'e client option" where
  "do_close_client c =
     (let c = c\<lparr>m_auto_reconnect := False\<rparr> in
      map_option (\<lambda>c. cancel_wait Alive_timer (cancel_wait Heart_beat_timer (cancel_wait Connect_timer c)))
        (if m_is_connected c then close_current c
         else if m_is_connecting c then close_socket c
         else if m_is_wait_connect c then Some (cancel_wait Reconnect_timer (c\<lparr>m_is_wait_connect := False\<rparr>))
         else Some c))"

definition close_session :: "'e client \<Rightarrow> 'e client" where
  "close_session c =
     client_connect (cancel_wait Alive_timer (cancel_wait Heart_beat_timer (c\<lparr>m_is_connected := False\<rparr>)))"

text \<open>The session closes its socket once and tells its manager, the client.\<close>

definition session_do_close :: "nat \<Rightarrow> 'e client \<Rightarrow> 'e client" where
  "session_do_close n c =
     (if m_session_ref c = Some n then close_session (c\<lparr>m_session_ref := None\<rparr>) else c)"

fun run_handler :: "'e handler \<Rightarrow> 'e client \<Rightarrow> 'e client option" where
  "run_handler (Do_connect ep) c = do_connect ep c"
| "run_handler Do_close_client c = do_close_client c"
| "run_handler (Connet_complete err) c = on_connet_complete err c"
| "run_handler (Timer Reconnect_timer err) c = Some (on_wait_reconnect err c)"
| "run_handler (Timer Connect_timer err) c = Some (on_connect_timeout err c)"
| "run_handler (Timer Heart_beat_timer err) c = Some (on_send_heart_beat err c)"
| "run_handler (Timer Alive_timer err) c = Some (on_check_alive err c)"
| "run_handler (Session_do_close n) c = Some (session_do_close n c)"

definition run_next :: "'e client \<Rightarrow> 'e client option" where
  "run_next c = (case ready c of [] \<Rightarrow> Some c | h # hs \<Rightarrow> run_handler h (c\<lparr>ready := hs\<rparr>))"

section \<open>Runs\<close>

text \<open>
  A timer runs out, a connect completes, and a request to connect is late when a reconnect timer
  has run out and its handler is ready but has not run.
\<close>

definition expire_timer :: "client_timer \<Rightarrow> 'e client \<Rightarrow> 'e client" where
  "expire_timer t c =
     (if t \<in> timers_waiting c then post (Timer t False) (c\<lparr>timers_waiting := timers_waiting c - {t}\<rparr>) else c)"

definition complete_connect :: "bool \<Rightarrow> 'e client \<Rightarrow> 'e client" where
  "complete_connect err c =
     (case m_socket c of Some (True, True) \<Rightarrow> post (Connet_complete err) (c\<lparr>m_socket := Some (True, False)\<rparr>) | _ \<Rightarrow> c)"

definition late_connect :: "'e client \<Rightarrow> bool" where
  "late_connect c =
     (case ready c of Do_connect _ # hs \<Rightarrow> Timer Reconnect_timer False \<in> set hs | _ \<Rightarrow> False)"

text \<open>
  Everything that can happen to a client: requests to connect (to an address that can be read) and to close, expiries,
  ends of connects and of sessions, and the handlers of the loop. \<open>late\<close> notes whether a request to connect was
  ever run late.
\<close>

inductive client_runs :: "bool \<Rightarrow> 'e client \<Rightarrow> bool" where
  start: "client_runs False Client"
| connect: "client_runs late c \<Longrightarrow> client_runs late (post (Do_connect (Some e)) c)"
| close: "client_runs late c \<Longrightarrow> client_runs late (post Do_close_client c)"
| expires: "client_runs late c \<Longrightarrow> client_runs late (expire_timer t c)"
| connects: "client_runs late c \<Longrightarrow> client_runs late (complete_connect err c)"
| ends: "client_runs late c \<Longrightarrow> m_session_ref c = Some n \<Longrightarrow> client_runs late (session_do_close n c)"
| run: "client_runs late c \<Longrightarrow> run_next c = Some c' \<Longrightarrow> client_runs (late \<or> late_connect c) c'"

section \<open>The invariant\<close>

text \<open>
  How many expiries of the reconnect timer are still to run, and how many ends of a connect. A
  cancelled wait is run before the end of the connect that was started after it.
\<close>

definition reconnects :: "'e client \<Rightarrow> nat" where
  "reconnects c = count_list (ready c) (Timer Reconnect_timer False) + of_bool (Reconnect_timer \<in> timers_waiting c)"

fun is_completion :: "'e handler \<Rightarrow> bool" where
  "is_completion (Connet_complete _) = True"
| "is_completion _ = False"

definition completions :: "'e client \<Rightarrow> nat" where
  "completions c = length (filter is_completion (ready c)) + of_bool (m_socket c = Some (True, True))"

fun cancelled_first :: "'e handler list \<Rightarrow> bool" where
  "cancelled_first [] = True"
| "cancelled_first (h # hs) = ((is_completion h \<longrightarrow> Timer Reconnect_timer True \<notin> set hs) \<and> cancelled_first hs)"

definition socket_ok :: "'e client \<Rightarrow> bool" where
  "socket_ok c =
     (m_is_connecting c = (m_socket c \<noteq> None) \<and> m_socket c \<noteq> Some (False, True) \<and>
      completions c = (if m_socket c = None then 0 else 1) \<and>
      m_is_connected c = (m_session_ref c \<noteq> None) \<and> (m_session_ref c = None \<or> m_socket c = None))"

definition wait_ok :: "'e client \<Rightarrow> bool" where
  "wait_ok c =
     (reconnects c \<le> 1 \<and> (m_is_wait_connect c \<longrightarrow> reconnects c = 1) \<and>
      (m_is_connecting c \<or> m_is_connected c \<longrightarrow> reconnects c = 0) \<and>
      (Reconnect_timer \<in> timers_waiting c \<longrightarrow> m_is_wait_connect c) \<and>
      (Timer Reconnect_timer True \<in> set (ready c) \<longrightarrow> \<not> m_is_wait_connect c) \<and>
      cancelled_first (ready c))"

definition client_ok :: "'e client \<Rightarrow> bool" where
  "client_ok c =
     (socket_ok c \<and> wait_ok c \<and> Do_connect None \<notin> set (ready c) \<and>
      (m_auto_reconnect c \<longrightarrow> m_is_connecting c \<or> m_is_connected c \<or> m_is_wait_connect c))"

lemma count_list_snoc [simp]: "count_list (xs @ [x]) y = count_list xs y + of_bool (y = x)"
  by (induction xs) auto

lemma cancelled_first_snoc [simp]:
  "cancelled_first (hs @ [h])
    \<longleftrightarrow> cancelled_first hs \<and> (Timer Reconnect_timer True = h \<longrightarrow> filter is_completion hs = [])"
  by (induction hs) auto

named_theorems client_defs

lemmas [client_defs] =
  post_def call_def cancel_wait_def wait_timer_def abort_connect_def close_socket_def drop_socket_def
  register_connect_timer_def register_heart_beat_timer_def register_alive_timer_def client_connect_def
  on_connet_complete_def on_send_heart_beat_def on_wait_reconnect_def on_check_alive_def
  on_connect_timeout_def close_current_def do_connect_def do_close_client_def close_session_def
  session_do_close_def Let_def reconnects_def completions_def

lemma client_ok_start: "client_ok Client"
  by (simp add: client_ok_def socket_ok_def wait_ok_def Client_def client_defs)

text \<open>What a step does not touch.\<close>

lemma socket_ok_post [simp]: "\<not> is_completion h \<Longrightarrow> socket_ok (post h c) = socket_ok c"
  by (simp add: socket_ok_def client_defs)

lemma wait_ok_post [simp]:
  "\<not> is_completion h \<Longrightarrow> h \<noteq> Timer Reconnect_timer True \<Longrightarrow> h \<noteq> Timer Reconnect_timer False
    \<Longrightarrow> wait_ok (post h c) = wait_ok c"
  by (simp add: wait_ok_def client_defs)

lemma socket_ok_waiting [simp]: "socket_ok (c\<lparr>timers_waiting := ts\<rparr>) = socket_ok c"
  by (simp add: socket_ok_def client_defs)

lemma wait_ok_waiting [simp]:
  "(Reconnect_timer \<in> ts) = (Reconnect_timer \<in> timers_waiting c) \<Longrightarrow> wait_ok (c\<lparr>timers_waiting := ts\<rparr>) = wait_ok c"
  by (simp add: wait_ok_def client_defs)

lemma post_fields [simp]:
  "m_is_connecting (post h c) = m_is_connecting c" "m_is_connected (post h c) = m_is_connected c"
  "m_is_wait_connect (post h c) = m_is_wait_connect c" "m_auto_reconnect (post h c) = m_auto_reconnect c"
  "m_socket (post h c) = m_socket c" "m_session_ref (post h c) = m_session_ref c"
  "timers_waiting (post h c) = timers_waiting c" "ready (post h c) = ready c @ [h]"
  by (simp_all add: post_def)

lemma client_ok_post:
  assumes "client_ok c" "\<not> is_completion h" "Do_connect None \<noteq> h" "h \<noteq> Timer Reconnect_timer True" "h \<noteq> Timer Reconnect_timer False"
  shows "client_ok (post h c)"
  using assms by (auto simp: client_ok_def)

lemma client_ok_waiting [simp]:
  "(Reconnect_timer \<in> ts) = (Reconnect_timer \<in> timers_waiting c) \<Longrightarrow> client_ok (c\<lparr>timers_waiting := ts\<rparr>) = client_ok c"
  by (simp add: client_ok_def)

lemma client_ok_call: "client_ok (call x c) = client_ok c"
  by (simp add: client_ok_def socket_ok_def wait_ok_def client_defs)

lemma client_ok_cancel:
  assumes "client_ok c" "t \<noteq> Reconnect_timer" shows "client_ok (cancel_wait t c)"
  using assms by (simp add: cancel_wait_def client_ok_post)

lemma client_ok_wait:
  assumes "client_ok c" "t \<noteq> Reconnect_timer" shows "client_ok (wait_timer t c)"
  using client_ok_cancel [OF assms] assms(2) by (simp add: wait_timer_def Let_def)

lemma client_ok_expires:
  assumes "client_ok c" shows "client_ok (expire_timer t c)"
proof (cases "t = Reconnect_timer")
  case True
  then have "wait_ok (expire_timer t c)"
    using assms by (auto simp: client_ok_def wait_ok_def expire_timer_def client_defs)
  then show ?thesis
    using assms True by (simp add: client_ok_def expire_timer_def)
next
  case False
  then show ?thesis
    using assms by (simp add: expire_timer_def client_ok_post)
qed

lemma client_ok_completes:
  assumes "client_ok c" shows "client_ok (complete_connect err c)"
proof (cases "m_socket c = Some (True, True)")
  case True
  have "socket_ok (complete_connect err c)"
    using assms True by (simp add: client_ok_def socket_ok_def complete_connect_def client_defs)
  moreover have "wait_ok (complete_connect err c)"
    using assms True by (simp add: client_ok_def wait_ok_def complete_connect_def client_defs)
  ultimately show ?thesis
    using assms True by (simp add: client_ok_def complete_connect_def)
next
  case False
  then show ?thesis
    using assms by (auto simp: complete_connect_def split: option.splits prod.splits bool.splits)
qed

text \<open>A connect is only started when no other one is under way.\<close>

lemma client_ok_connect:
  assumes "socket_ok c" "wait_ok c" "Do_connect None \<notin> set (ready c)" "m_socket c = None" "m_session_ref c = None"
    and "reconnects c = 0"
  shows "client_ok (client_connect c)"
proof -
  let ?d = "c\<lparr>m_socket := Some (True, True), m_is_connecting := True\<rparr>"
  have w: "Reconnect_timer \<notin> timers_waiting c" "\<not> m_is_wait_connect c"
    using assms(2,6) by (auto simp: reconnects_def wait_ok_def)
  have "client_ok ?d"
    using assms w by (simp add: client_ok_def socket_ok_def wait_ok_def completions_def reconnects_def)
  moreover have "client_connect c = wait_timer Connect_timer ?d"
    using assms(4) by (simp add: client_connect_def drop_socket_def abort_connect_def wait_timer_def cancel_wait_def Let_def post_def)
  ultimately show ?thesis
    by (simp add: client_ok_wait)
qed

lemma client_ok_socket_closes:
  assumes "client_ok c" "m_is_connecting c"
  shows "\<exists>c'. close_socket c = Some c' \<and> client_ok c'"
proof -
  obtain o' p where s: "m_socket c = Some (o', p)"
    using assms by (auto simp: client_ok_def socket_ok_def)
  have "socket_ok (the (close_socket c))"
    using assms s by (cases p) (auto simp: client_ok_def socket_ok_def client_defs)
  moreover have "wait_ok (the (close_socket c))"
    using assms s by (cases p) (auto simp: client_ok_def wait_ok_def client_defs)
  ultimately show ?thesis
    using assms s by (cases p) (auto simp: client_ok_def close_socket_def abort_connect_def)
qed

lemma client_ok_session_closes:
  assumes "client_ok c" "m_is_connected c"
  shows "\<exists>c'. close_current c = Some c' \<and> client_ok c'"
  using assms client_ok_post [OF assms(1)] by (auto simp: close_current_def client_ok_def socket_ok_def)

lemma client_ok_pop:
  assumes "client_ok c" "ready c = h # hs" "\<not> is_completion h" "h \<noteq> Timer Reconnect_timer False"
  shows "client_ok (c\<lparr>ready := hs\<rparr>)"
proof -
  have "socket_ok (c\<lparr>ready := hs\<rparr>)"
    using assms by (simp add: client_ok_def socket_ok_def completions_def)
  moreover have "wait_ok (c\<lparr>ready := hs\<rparr>)"
    using assms by (simp add: client_ok_def wait_ok_def reconnects_def)
  ultimately show ?thesis
    using assms by (simp add: client_ok_def)
qed

lemma client_ok_auto:
  assumes "client_ok c" "b \<longrightarrow> m_is_connecting c \<or> m_is_connected c \<or> m_is_wait_connect c"
  shows "client_ok (c\<lparr>m_auto_reconnect := b\<rparr>)"
  using assms by (simp add: client_ok_def socket_ok_def wait_ok_def completions_def reconnects_def)

lemma client_ok_endpoint: "client_ok (c\<lparr>m_endpoint := e\<rparr>) = client_ok c"
  by (simp add: client_ok_def socket_ok_def wait_ok_def completions_def reconnects_def)

lemma client_ok_end_wait:
  assumes "client_ok c" "\<not> m_auto_reconnect c \<or> m_is_connecting c \<or> m_is_connected c"
    "Reconnect_timer \<notin> timers_waiting c"
  shows "client_ok (c\<lparr>m_is_wait_connect := False\<rparr>)"
  using assms by (auto simp: client_ok_def socket_ok_def wait_ok_def completions_def reconnects_def)

text \<open>The wait for a reconnect is cancelled.\<close>

lemma client_ok_cancel_reconnect:
  assumes "socket_ok c" "wait_ok c" "Do_connect None \<notin> set (ready c)" "m_socket c = None"
  shows "socket_ok ((cancel_wait Reconnect_timer c)\<lparr>m_is_wait_connect := False\<rparr>)"
    and "wait_ok ((cancel_wait Reconnect_timer c)\<lparr>m_is_wait_connect := False\<rparr>)"
    and "Do_connect None \<notin> set (ready ((cancel_wait Reconnect_timer c)\<lparr>m_is_wait_connect := False\<rparr>))"
  using assms by (simp_all add: socket_ok_def wait_ok_def client_defs)

lemma on_connet_complete_ok:
  assumes "client_ok c" "ready c = Connet_complete err # hs"
  shows "\<exists>c'. on_connet_complete err (c\<lparr>ready := hs\<rparr>) = Some c' \<and> client_ok c'"
proof -
  obtain o' where s: "m_socket c = Some (o', False)" and r: "filter is_completion hs = []"
    using assms by (auto simp: client_ok_def socket_ok_def completions_def split: if_splits)
  have f: "socket_ok c" "wait_ok c" "Do_connect None \<notin> set hs" "Timer Reconnect_timer True \<notin> set hs" "cancelled_first hs"
    "m_session_ref c = None" "reconnects c = 0" "\<not> m_is_wait_connect c"
    using assms s by (auto simp: client_ok_def socket_ok_def wait_ok_def)
  have w: "Reconnect_timer \<notin> timers_waiting c" "count_list hs (Timer Reconnect_timer False) = 0"
    using f(7) assms(2) by (auto simp: reconnects_def)
  let ?c = "cancel_wait Connect_timer (c\<lparr>ready := hs, m_is_connecting := False, m_socket := None\<rparr>)"
  show ?thesis
  proof (cases "\<not> o' \<or> err")
    case True
    have e: "on_connet_complete err (c\<lparr>ready := hs\<rparr>) =
      Some (if m_auto_reconnect c then register_connect_timer (call Connect_failed ?c) else call Connect_failed ?c)"
      using s True by (simp add: client_defs)
    have "client_ok (if m_auto_reconnect c then register_connect_timer (call Connect_failed ?c) else call Connect_failed ?c)"
      using f w r s by (simp add: client_ok_def socket_ok_def wait_ok_def client_defs)
    then show ?thesis
      using e by blast
  next
    case False
    let ?n = "session_count c + 1"
    let ?d = "call (Session_started ?n) (?c\<lparr>m_is_connected := True, m_session_ref := Some ?n, session_count := ?n\<rparr>)"
    have e: "on_connet_complete err (c\<lparr>ready := hs\<rparr>) = Some (register_alive_timer (register_heart_beat_timer ?d))"
      using s False by (simp add: client_defs)
    have "client_ok ?d"
      using f w r s by (simp add: client_ok_def socket_ok_def wait_ok_def client_defs)
    then show ?thesis
      using e by (simp add: register_alive_timer_def register_heart_beat_timer_def client_ok_wait)
  qed
qed

lemma on_wait_reconnect_ok:
  assumes "client_ok c" "ready c = Timer Reconnect_timer err # hs"
  shows "client_ok (on_wait_reconnect err (c\<lparr>ready := hs\<rparr>))"
proof (cases err)
  case True
  have "\<not> m_is_wait_connect c"
    using assms True by (auto simp: client_ok_def wait_ok_def)
  then have "on_wait_reconnect err (c\<lparr>ready := hs\<rparr>) = c\<lparr>ready := hs\<rparr>"
    using True by (simp add: on_wait_reconnect_def)
  then show ?thesis
    using client_ok_pop [OF assms] True by simp
next
  case False
  have r: "reconnects c = 1"
    using assms False by (auto simp: client_ok_def wait_ok_def reconnects_def)
  have n: "m_socket c = None" "m_session_ref c = None"
    using assms(1) r by (auto simp: client_ok_def socket_ok_def wait_ok_def)
  have t: "Reconnect_timer \<notin> timers_waiting c" "count_list hs (Timer Reconnect_timer False) = 0"
    using assms False r by (auto simp: reconnects_def)
  let ?c = "c\<lparr>ready := hs, m_is_wait_connect := False\<rparr>"
  have "client_ok (client_connect ?c)"
  proof (rule client_ok_connect)
    show "socket_ok ?c"
      using assms False by (simp add: client_ok_def socket_ok_def completions_def)
    show "wait_ok ?c"
      using assms False t by (simp add: client_ok_def wait_ok_def reconnects_def)
    show "Do_connect None \<notin> set (ready ?c)"
      using assms by (simp add: client_ok_def)
  qed (simp_all add: n t reconnects_def)
  then show ?thesis
    using False by (simp add: on_wait_reconnect_def Let_def)
qed

lemma client_ok_close_session:
  assumes "client_ok c" "m_session_ref c = Some n" shows "client_ok (session_do_close n c)"
proof -
  let ?d = "cancel_wait Alive_timer (cancel_wait Heart_beat_timer (c\<lparr>m_session_ref := None, m_is_connected := False\<rparr>))"
  have n: "m_socket c = None" "reconnects c = 0" "\<not> m_is_wait_connect c" "wait_ok c" "socket_ok c"
    using assms by (auto simp: client_ok_def socket_ok_def wait_ok_def)
  have "client_ok (client_connect ?d)"
  proof (rule client_ok_connect)
    show "socket_ok ?d" "m_socket ?d = None" "m_session_ref ?d = None"
      using n(1,5) by (simp_all add: socket_ok_def client_defs)
    show "wait_ok ?d" "reconnects ?d = 0"
      using n(2,3,4) by (simp_all add: wait_ok_def client_defs)
    show "Do_connect None \<notin> set (ready ?d)"
      using assms(1) by (simp add: client_ok_def cancel_wait_def)
  qed
  then show ?thesis
    using assms by (simp add: session_do_close_def close_session_def)
qed

lemma client_ok_heart_beat: "client_ok c \<Longrightarrow> client_ok (on_send_heart_beat err c)"
  by (simp add: on_send_heart_beat_def register_heart_beat_timer_def client_ok_wait client_ok_call)

lemma client_ok_check_alive: "client_ok c \<Longrightarrow> client_ok (on_check_alive err c)"
  by (simp add: on_check_alive_def register_alive_timer_def client_ok_wait client_ok_call split: option.split)

lemma client_ok_connect_timeout:
  assumes "client_ok c" shows "client_ok (on_connect_timeout err c)"
proof (cases "\<not> err \<and> (\<exists>p. m_socket c = Some (True, p))")
  case True
  then have "m_is_connecting c"
    using assms by (auto simp: client_ok_def socket_ok_def)
  then show ?thesis
    using client_ok_socket_closes [OF assms] True by (auto simp: on_connect_timeout_def)
next
  case False
  then show ?thesis
    using assms by (auto simp: on_connect_timeout_def split: option.split bool.split)
qed

lemma do_connect_ok:
  assumes "client_ok c" "reconnects c = of_bool (Reconnect_timer \<in> timers_waiting c)"
  shows "\<exists>c'. do_connect (Some e) c = Some c' \<and> client_ok c'"
proof -
  let ?c = "c\<lparr>m_auto_reconnect := True, m_endpoint := Some e\<rparr>"
  consider "m_is_connected c" | "m_is_connecting c" "\<not> m_is_connected c" | "\<not> m_is_connecting c" "\<not> m_is_connected c"
    by blast
  then show ?thesis
  proof cases
    case 1
    have "client_ok ?c"
      using client_ok_auto [OF assms(1), of True] 1 by (simp add: client_ok_endpoint)
    then show ?thesis
      using client_ok_session_closes [of ?c] 1 by (simp add: do_connect_def)
  next
    case 2
    have "client_ok ?c"
      using client_ok_auto [OF assms(1), of True] 2 by (simp add: client_ok_endpoint)
    then show ?thesis
      using client_ok_socket_closes [of ?c] 2 by (simp add: do_connect_def)
  next
    case 3
    have n: "m_socket c = None" "m_session_ref c = None"
      using assms(1) 3 unfolding client_ok_def socket_ok_def by blast+
    have c: "socket_ok ?c" "wait_ok ?c" "Do_connect None \<notin> set (ready ?c)" "m_socket ?c = None"
      using assms n by (simp_all add: client_ok_def socket_ok_def wait_ok_def client_defs)
    let ?d = "if m_is_wait_connect c then (cancel_wait Reconnect_timer ?c)\<lparr>m_is_wait_connect := False\<rparr> else ?c"
    have "reconnects ?d = 0"
      using assms by (auto simp: client_ok_def wait_ok_def client_defs)
    moreover have "m_socket ?d = None" "m_session_ref ?d = None"
      using n by (simp_all add: client_defs)
    ultimately have "client_ok (client_connect ?d)"
      using c client_ok_cancel_reconnect [OF c] by (intro client_ok_connect) simp_all
    then show ?thesis
      using 3 by (simp add: do_connect_def Let_def)
  qed
qed

lemma do_close_client_ok:
  assumes "client_ok c" shows "\<exists>c'. do_close_client c = Some c' \<and> client_ok c'"
proof -
  let ?c = "c\<lparr>m_auto_reconnect := False\<rparr>"
  have c: "client_ok ?c"
    using client_ok_auto [OF assms] by simp
  have "\<exists>c'. (if m_is_connected ?c then close_current ?c else if m_is_connecting ?c then close_socket ?c
      else if m_is_wait_connect ?c then Some (cancel_wait Reconnect_timer (?c\<lparr>m_is_wait_connect := False\<rparr>)) else Some ?c) = Some c'
    \<and> client_ok c'"
  proof (cases "m_is_connected ?c \<or> m_is_connecting ?c")
    case True
    then show ?thesis
      using client_ok_session_closes [OF c] client_ok_socket_closes [OF c] by auto
  next
    case False
    then have n: "m_socket ?c = None"
      using c unfolding client_ok_def socket_ok_def by blast
    have "cancel_wait Reconnect_timer (?c\<lparr>m_is_wait_connect := False\<rparr>) = (cancel_wait Reconnect_timer ?c)\<lparr>m_is_wait_connect := False\<rparr>"
      by (simp add: client_defs)
    moreover have "client_ok ((cancel_wait Reconnect_timer ?c)\<lparr>m_is_wait_connect := False\<rparr>)"
      using client_ok_cancel_reconnect [OF _ _ _ n] c by (simp add: client_ok_def cancel_wait_def)
    ultimately show ?thesis
      using c False by auto
  qed
  then show ?thesis
    by (auto simp: do_close_client_def Let_def client_ok_cancel)
qed

text \<open>A handler runs, unless it is a request to connect that is late.\<close>

lemma run_handler_ok:
  assumes c: "client_ok c" and r: "ready c = h # hs" and l: "\<not> late_connect c"
  shows "\<exists>c'. run_handler h (c\<lparr>ready := hs\<rparr>) = Some c' \<and> client_ok c'"
proof (cases "is_completion h \<or> (\<exists>b. h = Timer Reconnect_timer b)")
  case True
  then show ?thesis
    using on_connet_complete_ok [OF c] on_wait_reconnect_ok [OF c] r by (cases h) auto
next
  case False
  then have p: "client_ok (c\<lparr>ready := hs\<rparr>)"
    using client_ok_pop [OF c r] by blast
  show ?thesis
  proof (cases h)
    case (Do_connect ep)
    have "reconnects (c\<lparr>ready := hs\<rparr>) = of_bool (Reconnect_timer \<in> timers_waiting c)"
      using l r Do_connect by (simp add: late_connect_def reconnects_def)
    moreover have "ep \<noteq> None"
      using c r Do_connect by (cases ep) (auto simp: client_ok_def)
    ultimately show ?thesis
      using do_connect_ok [OF p] Do_connect by auto
  next
    case (Timer t b)
    then show ?thesis
      using p False by (cases t) (simp_all add: client_ok_connect_timeout client_ok_heart_beat client_ok_check_alive)
  next
    case (Session_do_close n)
    then show ?thesis
      using p client_ok_close_session [OF p, of n] by (cases "m_session_ref c = Some n") (auto simp: session_do_close_def)
  qed (use False p do_close_client_ok [OF p] in auto)
qed

lemma run_next_ok:
  assumes "client_ok c" "\<not> late_connect c"
  shows "\<exists>c'. run_next c = Some c' \<and> client_ok c'"
  using assms run_handler_ok [OF assms(1) _ assms(2)] by (cases "ready c") (auto simp: run_next_def)

text \<open>A late request runs too; it is what comes after it that may fail.\<close>

lemma late_connect_runs:
  assumes "client_ok c" "late_connect c"
  shows "\<exists>c'. run_next c = Some c'"
proof -
  obtain ep hs where r: "ready c = Do_connect ep # hs"
    using assms(2) by (auto simp: late_connect_def split: list.splits handler.splits)
  moreover obtain e where "ep = Some e"
    using assms(1) r by (cases ep) (auto simp: client_ok_def)
  moreover have "m_is_connected c \<longrightarrow> m_session_ref c \<noteq> None" "m_is_connecting c \<longrightarrow> m_socket c \<noteq> None"
    using assms(1) by (auto simp: client_ok_def socket_ok_def)
  ultimately show ?thesis
    by (auto simp: run_next_def do_connect_def close_current_def close_socket_def Let_def)
qed

lemma client_runs_ok: "client_runs late c \<Longrightarrow> \<not> late \<Longrightarrow> client_ok c"
proof (induction rule: client_runs.induct)
  case (run late c c')
  then show ?case
    using run_next_ok [of c] by auto
qed (simp_all add: client_ok_start client_ok_post client_ok_expires client_ok_completes client_ok_close_session)

lemma client_runs_next:
  assumes "client_runs False c"
  shows "\<exists>c'. run_next c = Some c'"
proof -
  have "client_ok c" using client_runs_ok [OF assms] by simp
  then show ?thesis using run_next_ok late_connect_runs by (cases "late_connect c") blast+
qed

text \<open>
  A client that is to be connected is connected, or has a connect whose end is to come, or waits
  with a timer that is to run out.
\<close>

lemma client_ok_goes_on:
  assumes "client_ok c" "m_auto_reconnect c"
  shows "m_session_ref c \<noteq> None \<or>
    m_socket c = Some (True, True) \<or> (\<exists>err. Connet_complete err \<in> set (ready c)) \<or>
    Reconnect_timer \<in> timers_waiting c \<or> Timer Reconnect_timer False \<in> set (ready c)"
proof -
  have s: "socket_ok c" "wait_ok c" "m_is_connecting c \<or> m_is_connected c \<or> m_is_wait_connect c"
    using assms by (auto simp: client_ok_def)
  from s(3) consider "m_is_connected c" | "m_is_connecting c" | "m_is_wait_connect c"
    by blast
  then show ?thesis
  proof cases
    case 2
    then have "m_socket c = Some (True, True) \<or> filter is_completion (ready c) \<noteq> []"
      using s(1) by (auto simp: socket_ok_def completions_def split: if_splits)
    then show ?thesis
      by (auto simp: filter_empty_conv elim: is_completion.elims(2))
  next
    case 3
    then have "count_list (ready c) (Timer Reconnect_timer False) \<noteq> 0 \<or> Reconnect_timer \<in> timers_waiting c"
      using s(2) by (auto simp: wait_ok_def reconnects_def)
    then show ?thesis
      by (auto simp: count_list_0_iff)
  qed (use s(1) in \<open>auto simp: socket_ok_def\<close>)
qed

section \<open>What the guards miss\<close>

text \<open>Several handlers in turn.\<close>

fun run_all :: "nat \<Rightarrow> 'e client \<Rightarrow> 'e client option" where
  "run_all 0 c = Some c"
| "run_all (Suc n) c = (case run_next c of None \<Rightarrow> None | Some c' \<Rightarrow> run_all n c')"

text \<open>
  A client waits to reconnect, a request to connect is posted, and then the timer runs out
  before the loop has run the request: the request starts a connect, the expiry starts another
  and drops the first, whose end then drops the second; the end of that one follows a socket that is
  not there.
\<close>

definition waiting_client :: "nat client" where
  "waiting_client = Client\<lparr>m_auto_reconnect := True, m_endpoint := Some 0, m_is_wait_connect := True,
     timers_waiting := {Reconnect_timer}, ready := [Timer Connect_timer True], client_calls := [Connect_failed]\<rparr>"

text \<open>A client that has tried to connect once and failed.\<close>

lemma waiting_client_runs: "client_runs False waiting_client"
proof -
  let ?c1 = "Client\<lparr>m_auto_reconnect := True, m_endpoint := Some 0, m_is_connecting := True, m_socket := Some (True, True),
    timers_waiting := {Connect_timer}\<rparr>"
  let ?c2 = "?c1\<lparr>m_socket := Some (True, False), ready := [Connet_complete True]\<rparr>"
  have "run_next (post (Do_connect (Some 0)) Client) = Some ?c1"
    by (simp add: run_next_def Client_def client_defs)
  from client_runs.run [OF client_runs.connect [OF client_runs.start] this]
  have "client_runs False ?c1" by (simp add: late_connect_def Client_def)
  moreover have "complete_connect True ?c1 = ?c2" by (simp add: complete_connect_def Client_def client_defs)
  ultimately have c2: "client_runs False ?c2" using client_runs.connects by metis
  have "run_next ?c2 = Some waiting_client"
    by (simp add: run_next_def waiting_client_def Client_def client_defs)
  from client_runs.run [OF c2 this] show ?thesis by (simp add: late_connect_def)
qed

lemma run_all_runs: "run_all n c = Some c' \<Longrightarrow> client_runs late c \<Longrightarrow> \<exists>late. client_runs late c'"
  by (induction n arbitrary: c late) (auto split: option.splits dest: client_runs.run)

lemma late_connect_fails:
  "\<exists>c :: nat client. client_runs True c \<and> run_next c = None"
proof -
  let ?c = "expire_timer Reconnect_timer (post (Do_connect (Some 1)) waiting_client)"
  have "\<exists>c. run_all 6 ?c = Some c \<and> run_next c = None"
    by (simp add: waiting_client_def Client_def expire_timer_def run_next_def client_defs eval_nat_numeral insert_Diff_if)
  then obtain c where c: "run_all 6 ?c = Some c" "run_next c = None" by blast
  moreover obtain late where "client_runs late c"
    using run_all_runs [OF c(1) client_runs.expires [OF client_runs.connect [OF waiting_client_runs]]] by blast
  moreover have late
    using client_runs_next [of c] c(2) \<open>client_runs late c\<close> by (cases late) auto
  ultimately show ?thesis by auto
qed

text \<open>
  \<open>close_client\<close> of a connected client: the session closes, and its end starts a new connect,
  though nothing is to be connected any more.
\<close>

lemma closed_client_connects:
  assumes "client_ok c" "m_session_ref c = Some n" "ready c = []" "timers_waiting c = {}"
  shows "\<exists>c'. run_all 2 (post Do_close_client c) = Some c' \<and> \<not> m_auto_reconnect c' \<and> m_is_connecting c'"
  using assms by (simp add: client_ok_def socket_ok_def run_next_def client_defs eval_nat_numeral)

end
