(* ===== verification/Mq_Client.thy ===== *)
theory Mq_Client
  imports Tcp_Messages
begin

text \<open>
  The connection to the message broker: \<open>MqClient.cpp\<close> and \<open>MqSession.cpp\<close> of \<open>server/common/libserver\<close>. The
  AMQP library is outside: what it reports (the connection is up or lost, the channel is ready, an
  exchange is declared, a message came) are events, which come only after the library was asked for them; what it is asked to do is the list \<open>channel_calls\<close>. The loop is the one of \<open>Client.cpp\<close>: the handlers
  that are ready run in turn, to cancel a wait makes its handler ready with an error. \<open>None\<close>
  is a null pointer that is followed.
\<close>

section \<open>State\<close>

datatype mq_event =
    Mq_do_connect | Mq_do_close_client | Mq_do_bind string int string | Mq_init | Mq_do_close | Mq_on_timeout bool

datatype channel_call =
    New_channel | Declare_queue | Declare_exchange string int | Bind_queue string string | Consume | Ack | Close_connection

text \<open>\<open>m_mq_handler\<close>: whether it is there and whether it is connected; \<open>m_connection\<close> and \<open>m_channel\<close>: whether they are there. The session keeps a copy of the exchanges.\<close>

record mq_client =
  mq_auto_reconnect :: bool
  mq_is_connecting :: bool
  mq_timer_waits :: bool
  client_exchanges :: "(string \<times> int) list"
  client_binds :: "(string \<times> string list) list"
  m_mq_handler :: "bool option"
  m_connection :: bool
  m_channel :: bool
  m_is_session_opend :: bool
  m_exchanges :: "(string \<times> int) list"
  m_binds :: "(string \<times> string list) list"
  mq_ready :: "mq_event list"
  channel_calls :: "channel_call list"

definition MqClient :: "(string \<times> int) list \<Rightarrow> (string \<times> string list) list \<Rightarrow> mq_client" where
  "MqClient exchanges binds = \<lparr>mq_auto_reconnect = False, mq_is_connecting = False, mq_timer_waits = False,
     client_exchanges = exchanges, client_binds = binds, m_mq_handler = None, m_connection = False, m_channel = False,
     m_is_session_opend = False, m_exchanges = exchanges, m_binds = binds, mq_ready = [], channel_calls = []\<rparr>"

definition mq_post :: "mq_event \<Rightarrow> mq_client \<Rightarrow> mq_client" where
  "mq_post e c = c\<lparr>mq_ready := mq_ready c @ [e]\<rparr>"

text \<open>A call of the library, and one through the pointer \<open>m_channel\<close>.\<close>

definition mq_call :: "channel_call \<Rightarrow> mq_client \<Rightarrow> mq_client" where
  "mq_call x c = c\<lparr>channel_calls := channel_calls c @ [x]\<rparr>"

definition on_channel :: "channel_call \<Rightarrow> mq_client \<Rightarrow> mq_client option" where
  "on_channel x c = (if m_channel c then Some (mq_call x c) else None)"

text \<open>\<open>std::map::insert\<close> keeps what is there.\<close>

definition insert_new :: "string \<Rightarrow> 'v \<Rightarrow> (string \<times> 'v) list \<Rightarrow> (string \<times> 'v) list" where
  "insert_new k v m = (if map_of m k = None then m @ [(k, v)] else m)"

section \<open>MqSession\<close>

definition is_connected :: "mq_client \<Rightarrow> bool" where
  "is_connected c = (m_mq_handler c = Some True)"

definition mq_init :: "mq_client \<Rightarrow> mq_client" where
  "mq_init c = mq_call New_channel (c\<lparr>m_mq_handler := Some False, m_connection := True, m_channel := True\<rparr>)"

definition binding_exchange :: "mq_client \<Rightarrow> mq_client option" where
  "binding_exchange c = for_each (\<lambda>(x, t). on_channel (Declare_exchange x t)) (m_exchanges c) c"

text \<open>The callbacks: of a channel that is ready, of a queue and of an exchange that are declared, of a message.\<close>

definition channel_ready_call :: "mq_client \<Rightarrow> mq_client option" where
  "channel_ready_call c = do {
     c \<leftarrow> on_channel Declare_queue c;
     c \<leftarrow> binding_exchange c;
     Some (c\<lparr>m_is_session_opend := True\<rparr>)
   }"

definition queue_success_call :: "mq_client \<Rightarrow> mq_client option" where
  "queue_success_call c = do { c \<leftarrow> binding_exchange c; on_channel Consume c }"

definition exchange_success_call :: "string \<Rightarrow> mq_client \<Rightarrow> mq_client option" where
  "exchange_success_call x c =
     (case map_of (m_binds c) x of None \<Rightarrow> Some c | Some keys \<Rightarrow> for_each (\<lambda>e. on_channel (Bind_queue x e)) keys c)"

definition message_call :: "mq_client \<Rightarrow> mq_client option" where
  "message_call c = on_channel Ack c"

definition bind_one_exchange :: "string \<Rightarrow> int \<Rightarrow> string \<Rightarrow> mq_client \<Rightarrow> mq_client option" where
  "bind_one_exchange x t key c =
     (let c = c\<lparr>m_exchanges := insert_new x t (m_exchanges c), m_binds := insert_new x [key] (m_binds c)\<rparr> in
      if \<not> m_is_session_opend c then Some c
      else do { c \<leftarrow> on_channel (Declare_exchange x t) c; on_channel (Bind_queue x key) c })"

definition mq_do_close :: "mq_client \<Rightarrow> mq_client option" where
  "mq_do_close c =
     (if \<not> m_is_session_opend c then Some c
      else if \<not> m_connection c then None
      else Some (mq_call Close_connection (c\<lparr>m_is_session_opend := False, m_mq_handler := None\<rparr>)))"

text \<open>
  A message for the broker: the size test, the three parts of the frame, and the frame that is
  published. The header is the one of a session with the exchange and the route in addition.
\<close>

record mq_header = tcp_header +
  recv_exchange :: string
  recv_routkey :: string

definition MQ_BUF_SIZE :: nat where "MQ_BUF_SIZE = 1024 * 1024 * 10"

text \<open>The length of the header and of the message, and what \<open>SerializeToArray\<close> reports of the two.\<close>

definition mq_do_write :: "nat \<Rightarrow> nat \<Rightarrow> bool \<Rightarrow> bool \<Rightarrow> bool \<Rightarrow> mq_header \<Rightarrow> (string \<times> string) list" where
  "mq_do_write header_size msg_size header_written msg_written has_channel h =
     (if header_size + msg_size > MQ_BUF_SIZE then []
      else if \<not> header_written then []
      else if msg_written then []
      else if has_channel then [(recv_exchange h, recv_routkey h)] else [])"

section \<open>MqClient\<close>

definition register_timer :: "mq_client \<Rightarrow> mq_client" where
  "register_timer c = (let c = (if mq_timer_waits c then mq_post (Mq_on_timeout True) c else c) in c\<lparr>mq_timer_waits := True\<rparr>)"

definition do_bind :: "string \<Rightarrow> int \<Rightarrow> string \<Rightarrow> mq_client \<Rightarrow> mq_client option" where
  "do_bind x t key c =
     bind_one_exchange x t key
       (c\<lparr>client_exchanges := insert_new x t (client_exchanges c), client_binds := insert_new x [key] (client_binds c)\<rparr>)"

definition connect_mq :: "mq_client \<Rightarrow> mq_client" where
  "connect_mq c = mq_post Mq_init (c\<lparr>mq_is_connecting := True\<rparr>)"

definition mq_do_connect :: "mq_client \<Rightarrow> mq_client" where
  "mq_do_connect c = (if is_connected c then c else register_timer (connect_mq (c\<lparr>mq_auto_reconnect := True\<rparr>)))"

definition mq_close_session :: "mq_client \<Rightarrow> mq_client" where
  "mq_close_session c = (if is_connected c then mq_post Mq_do_close c else c)"

definition mq_do_close_client :: "mq_client \<Rightarrow> mq_client" where
  "mq_do_close_client c =
     (let c = mq_close_session (c\<lparr>mq_auto_reconnect := False, mq_is_connecting := False\<rparr>)
      in if mq_timer_waits c then mq_post (Mq_on_timeout True) (c\<lparr>mq_timer_waits := False\<rparr>) else c)"

definition mq_on_timeout :: "bool \<Rightarrow> mq_client \<Rightarrow> mq_client" where
  "mq_on_timeout err c =
     (if err then c
      else register_timer
        (if mq_is_connecting c then if is_connected c then c\<lparr>mq_is_connecting := False\<rparr> else c
         else let c = (if \<not> is_connected c then mq_close_session c else c)
              in if mq_auto_reconnect c \<and> \<not> is_connected c then connect_mq c else c))"

fun mq_run_event :: "mq_event \<Rightarrow> mq_client \<Rightarrow> mq_client option" where
  "mq_run_event Mq_do_connect c = Some (mq_do_connect c)"
| "mq_run_event Mq_do_close_client c = Some (mq_do_close_client c)"
| "mq_run_event (Mq_do_bind x t key) c = do_bind x t key c"
| "mq_run_event Mq_init c = Some (mq_init c)"
| "mq_run_event Mq_do_close c = mq_do_close c"
| "mq_run_event (Mq_on_timeout err) c = Some (mq_on_timeout err c)"

definition mq_run_next :: "mq_client \<Rightarrow> mq_client option" where
  "mq_run_next c = (case mq_ready c of [] \<Rightarrow> Some c | e # es \<Rightarrow> mq_run_event e (c\<lparr>mq_ready := es\<rparr>))"

section \<open>Runs\<close>

definition mq_timer_expires :: "mq_client \<Rightarrow> mq_client" where
  "mq_timer_expires c = (if mq_timer_waits c then mq_post (Mq_on_timeout False) (c\<lparr>mq_timer_waits := False\<rparr>) else c)"

definition mq_link :: "bool \<Rightarrow> mq_client \<Rightarrow> mq_client" where
  "mq_link up c = (if m_mq_handler c = None then c else c\<lparr>m_mq_handler := Some up\<rparr>)"

text \<open>What the library reports, and the call that it must have got before.\<close>

datatype mq_report = Channel_ready | Queue_declared | Exchange_declared string int | Message_came

fun asked_by :: "mq_report \<Rightarrow> channel_call" where
  "asked_by Channel_ready = New_channel"
| "asked_by Queue_declared = Declare_queue"
| "asked_by (Exchange_declared x t) = Declare_exchange x t"
| "asked_by Message_came = Consume"

fun on_report :: "mq_report \<Rightarrow> mq_client \<Rightarrow> mq_client option" where
  "on_report Channel_ready c = channel_ready_call c"
| "on_report Queue_declared c = queue_success_call c"
| "on_report (Exchange_declared x t) c = exchange_success_call x c"
| "on_report Message_came c = message_call c"

inductive mq_runs :: "mq_client \<Rightarrow> bool" where
  start: "mq_runs (MqClient exchanges binds)"
| connect: "mq_runs c \<Longrightarrow> mq_runs (mq_post Mq_do_connect c)"
| close_client: "mq_runs c \<Longrightarrow> mq_runs (mq_post Mq_do_close_client c)"
| bind_exchange: "mq_runs c \<Longrightarrow> mq_runs (mq_post (Mq_do_bind x t key) c)"
| expires: "mq_runs c \<Longrightarrow> mq_runs (mq_timer_expires c)"
| link: "mq_runs c \<Longrightarrow> mq_runs (mq_link up c)"
| report: "mq_runs c \<Longrightarrow> asked_by rep \<in> set (channel_calls c) \<Longrightarrow> on_report rep c = Some c' \<Longrightarrow> mq_runs c'"
| run: "mq_runs c \<Longrightarrow> mq_run_next c = Some c' \<Longrightarrow> mq_runs c'"

text \<open>
  A session that is open or has called the library has a connection and a channel; while the client is to be connected
  its timer goes on; and the session has the exchanges of its client.
\<close>

definition link_ok :: "mq_client \<Rightarrow> bool" where
  "link_ok c \<longleftrightarrow> (m_is_session_opend c \<or> channel_calls c \<noteq> [] \<longrightarrow> m_connection c \<and> m_channel c)"

definition mq_ok :: "mq_client \<Rightarrow> bool" where
  "mq_ok c \<longleftrightarrow> link_ok c \<and>
     (mq_auto_reconnect c \<longrightarrow> mq_timer_waits c \<or> Mq_on_timeout False \<in> set (mq_ready c)) \<and>
     m_exchanges c = client_exchanges c \<and> m_binds c = client_binds c"

lemmas mq_defs = mq_ok_def link_ok_def mq_post_def mq_call_def Let_def mq_init_def bind_one_exchange_def mq_do_close_def
  register_timer_def do_bind_def connect_mq_def mq_do_connect_def mq_close_session_def mq_do_close_client_def mq_on_timeout_def
  mq_timer_expires_def mq_link_def

text \<open>What goes through the channel only adds calls.\<close>

lemma on_channel_ok: "mq_ok c \<Longrightarrow> m_channel c \<Longrightarrow> m_connection c \<Longrightarrow>
    \<exists>c'. on_channel x c = Some c' \<and> mq_ok c' \<and> m_channel c' \<and> m_connection c'"
  by (simp add: on_channel_def mq_defs)

lemma each_on_channel_ok:
  assumes "mq_ok c" "m_channel c" "m_connection c"
  shows "\<exists>c'. for_each (\<lambda>x. on_channel (f x)) xs c = Some c' \<and> mq_ok c' \<and> m_channel c' \<and> m_connection c'"
  using assms
proof (induction xs arbitrary: c)
  case (Cons x xs)
  obtain c1 where "on_channel (f x) c = Some c1" "mq_ok c1" "m_channel c1" "m_connection c1"
    using on_channel_ok [OF Cons.prems] by blast
  with Cons.IH show ?case by simp
qed simp

lemma binding_exchange_ok:
  assumes "mq_ok c" "m_channel c" "m_connection c"
  shows "\<exists>c'. binding_exchange c = Some c' \<and> mq_ok c' \<and> m_channel c' \<and> m_connection c'"
  using each_on_channel_ok [OF assms, of "\<lambda>(x, t). Declare_exchange x t"] by (simp add: binding_exchange_def split_def)

lemma on_report_ok:
  assumes "mq_ok c" "asked_by rep \<in> set (channel_calls c)"
  shows "\<exists>c'. on_report rep c = Some c' \<and> mq_ok c'"
proof -
  have c: "m_channel c" "m_connection c" using assms by (auto simp: mq_ok_def link_ok_def)
  show ?thesis
  proof (cases rep)
    case Channel_ready
    obtain c1 where "on_channel Declare_queue c = Some c1" "mq_ok c1" "m_channel c1" "m_connection c1"
      using on_channel_ok [OF assms(1) c] by blast
    moreover from this obtain c2 where "binding_exchange c1 = Some c2" "mq_ok c2" "m_channel c2" "m_connection c2"
      using binding_exchange_ok by blast
    ultimately show ?thesis
      using Channel_ready by (simp add: channel_ready_call_def mq_ok_def link_ok_def)
  next
    case Queue_declared
    obtain c1 where "binding_exchange c = Some c1" "mq_ok c1" "m_channel c1" "m_connection c1"
      using binding_exchange_ok [OF assms(1) c] by blast
    then show ?thesis
      using Queue_declared on_channel_ok [of c1 Consume] by (auto simp: queue_success_call_def)
  next
    case (Exchange_declared x t)
    then show ?thesis
      using assms(1) each_on_channel_ok [OF assms(1) c, of "Bind_queue x"] by (auto simp: exchange_success_call_def split: option.split)
  next
    case Message_came
    then show ?thesis using on_channel_ok [OF assms(1) c, of Ack] by (auto simp: message_call_def)
  qed
qed

lemma mq_run_event_ok:
  assumes "mq_ok c" "mq_ready c = e # es"
  shows "\<exists>c'. mq_run_event e (c\<lparr>mq_ready := es\<rparr>) = Some c' \<and> mq_ok c'"
proof (cases e)
  case (Mq_on_timeout err)
  then show ?thesis
    using assms by (cases err) (auto simp: mq_defs)
next
  case (Mq_do_bind x t key)
  then show ?thesis
    using assms by (auto simp: mq_defs on_channel_def)
qed (use assms in \<open>auto simp: mq_defs\<close>)

lemma mq_run_next_ok:
  assumes "mq_ok c"
  shows "\<exists>c'. mq_run_next c = Some c' \<and> mq_ok c'"
  using assms mq_run_event_ok [OF assms] by (cases "mq_ready c") (auto simp: mq_run_next_def)

lemma mq_runs_ok: "mq_runs c \<Longrightarrow> mq_ok c"
proof (induction rule: mq_runs.induct)
  case (run c c')
  then show ?case
    using mq_run_next_ok by fastforce
next
  case (report c rep c')
  then show ?case
    using on_report_ok by fastforce
qed (auto simp: mq_defs MqClient_def)

text \<open>A connection that an expiry has found up and that is lost: the next expiry of the timer asks for a new one.\<close>

lemma lost_connection_reconnects:
  assumes "mq_auto_reconnect c" "\<not> mq_is_connecting c" "\<not> is_connected c"
  shows "mq_is_connecting (mq_on_timeout False c) \<and> Mq_init \<in> set (mq_ready (mq_on_timeout False c))"
  using assms by (auto simp: mq_defs is_connected_def)

lemma connection_noted:
  assumes "mq_is_connecting c" "is_connected c"
  shows "mq_on_timeout False c = register_timer (c\<lparr>mq_is_connecting := False\<rparr>)"
  using assms by (simp add: mq_on_timeout_def)

text \<open>
  A connect that fails is not tried again, nor is a connection that is lost before an expiry has found it up: as long as the
  handler is not connected the expiries of the timer only start the timer again.
\<close>

lemma failed_connect_waits:
  assumes "mq_is_connecting c" "\<not> is_connected c"
  shows "mq_on_timeout False c = register_timer c"
  using assms by (simp add: mq_on_timeout_def)

lemma register_timer_fields:
  "mq_is_connecting (register_timer c) = mq_is_connecting c" "is_connected (register_timer c) = is_connected c"
  "Mq_init \<in> set (mq_ready (register_timer c)) \<longleftrightarrow> Mq_init \<in> set (mq_ready c)" "mq_timer_waits (register_timer c)"
  by (auto simp: mq_defs is_connected_def)

text \<open>
  The test of \<open>encode_message\<close> is the wrong way round: a message that is written is not published.
\<close>

lemma mq_never_publishes: "mq_do_write n k True True has_channel h = []"
  by (simp add: mq_do_write_def)

text \<open>A second key for an exchange is bound now, but not remembered for the next connection.\<close>

lemma second_key_forgotten:
  assumes "map_of (m_binds c) x = Some keys"
    and "do_bind x t key c = Some c'"
  shows "m_binds c' = m_binds c"
  using assms by (auto simp: do_bind_def bind_one_exchange_def insert_new_def on_channel_def mq_call_def Let_def split: if_splits)

end
