(* ===== verification/Player_Manager.thy ===== *)
theory Player_Manager
  imports Stars_Prelude
begin

text \<open>
  Who is logged in at the game server: \<open>PlayerManager.cpp\<close>, \<open>Player.cpp\<close>, \<open>GameRoom.cpp\<close> and
  \<open>RoomManager.cpp\<close> of \<open>server/server/gamesvr\<close>. The two tables of the manager share the player
  objects (\<open>std::shared_ptr<Player>\<close>), so that players live in a store and the tables hold their
  addresses. A session is a pointer of type \<open>'s\<close>, the null pointer is \<open>None\<close>.

  What the manager sends is the list \<open>pm_out\<close>. The token of a login is decrypted and parsed by
  code outside of these files: a login names the result, and whether its fields have the
  expected types.
\<close>

section \<open>State\<close>

record 's gplayer =
  gp_user_id :: int
  gp_session :: "'s option"
  gp_room :: "int option"
  gp_online_time :: int

definition new_player :: "int \<Rightarrow> 's gplayer" where
  "new_player now = \<lparr>gp_user_id = -1, gp_session = None, gp_room = None, gp_online_time = now\<rparr>"

datatype 's pm_message =
    Failed_reason 's int | Shutdown "'s option" | Login_elsewhere "'s option" int string

record 's manager =
  gplayers :: "'s gplayer list"
  m_login_user :: "int \<Rightarrow> nat option"
  m_online_user :: "'s option \<Rightarrow> nat option"
  pm_out :: "'s pm_message list"

definition PlayerManager :: "'s manager" where
  "PlayerManager = \<lparr>gplayers = [], m_login_user = (\<lambda>_. None), m_online_user = (\<lambda>_. None), pm_out = []\<rparr>"

definition upd_gplayer :: "nat \<Rightarrow> ('s gplayer \<Rightarrow> 's gplayer) \<Rightarrow> 's manager \<Rightarrow> 's manager" where
  "upd_gplayer p f m = m\<lparr>gplayers := (gplayers m)[p := f (gplayers m ! p)]\<rparr>"

definition pm_send :: "'s pm_message \<Rightarrow> 's manager \<Rightarrow> 's manager" where
  "pm_send x m = m\<lparr>pm_out := pm_out m @ [x]\<rparr>"

definition session_close :: "nat \<Rightarrow> 's manager \<Rightarrow> 's manager" where
  "session_close p = upd_gplayer p (\<lambda>x. x\<lparr>gp_session := None\<rparr>)"

definition gp_flush_online_time :: "int \<Rightarrow> nat \<Rightarrow> 's manager \<Rightarrow> 's manager" where
  "gp_flush_online_time now p = upd_gplayer p (\<lambda>x. x\<lparr>gp_online_time := now\<rparr>)"

definition set_session :: "'s option \<Rightarrow> nat \<Rightarrow> 's manager \<Rightarrow> 's manager" where
  "set_session s p = upd_gplayer p (\<lambda>x. x\<lparr>gp_session := s\<rparr>)"

definition set_room :: "int option \<Rightarrow> nat \<Rightarrow> 's manager \<Rightarrow> 's manager" where
  "set_room r p = upd_gplayer p (\<lambda>x. x\<lparr>gp_room := r\<rparr>)"

section \<open>PlayerManager\<close>

definition shutdown_user_session :: "'s option \<Rightarrow> 's manager \<Rightarrow> 's manager" where
  "shutdown_user_session s = pm_send (Shutdown s)"

definition send_player_login_elsewhere :: "'s option \<Rightarrow> int \<Rightarrow> string \<Rightarrow> 's manager \<Rightarrow> 's manager" where
  "send_player_login_elsewhere s reason descr = pm_send (Login_elsewhere s reason descr)"

text \<open>\<open>on_session_close\<close>; the \<open>assert(0)\<close> of an online player who is not logged in is a fault.\<close>

definition on_session_close :: "'s option \<Rightarrow> 's manager \<Rightarrow> 's manager option" where
  "on_session_close s m =
     (case m_online_user m s of
        None \<Rightarrow> Some m
      | Some p \<Rightarrow>
          let m = session_close p m;
              m = m\<lparr>m_online_user := (m_online_user m)(s := None)\<rparr>;
              uid = gp_user_id (gplayers m ! p)
          in if gp_room (gplayers m ! p) = None
             then if m_login_user m uid \<noteq> None
                  then Some (m\<lparr>m_login_user := (m_login_user m)(uid := None)\<rparr>)
                  else None
             else Some m)"

text \<open>A player object of its own for a user and his session.\<close>

definition enrol :: "int \<Rightarrow> int \<Rightarrow> 's option \<Rightarrow> 's manager \<Rightarrow> 's manager" where
  "enrol now uid s m =
     (let p = length (gplayers m) in
      m\<lparr>gplayers := gplayers m @ [(new_player now)\<lparr>gp_user_id := uid, gp_session := s\<rparr>],
        m_login_user := (m_login_user m)(uid \<mapsto> p),
        m_online_user := (m_online_user m)(s \<mapsto> p)\<rparr>)"

definition add_user_session :: "int \<Rightarrow> int \<Rightarrow> 's option \<Rightarrow> 's manager \<Rightarrow> 's manager" where
  "add_user_session now uid s m =
     (case m_login_user m uid of
        Some p \<Rightarrow>
          let old = gp_session (gplayers m ! p);
              m = set_session s p m;
              m = m\<lparr>m_online_user := ((m_online_user m)(old := None))(s \<mapsto> p)\<rparr>
          in if old \<noteq> None \<and> old \<noteq> s then shutdown_user_session old m else m
      | None \<Rightarrow> enrol now uid s m)"

record token =
  tok_valid :: bool
  tok_user_id :: "int option"
  tok_account :: bool
  tok_type :: bool

definition check_user_token :: "token \<Rightarrow> bool" where
  "check_user_token t =
     (if \<not> tok_valid t \<or> tok_user_id t = None \<or> \<not> tok_account t \<or> \<not> tok_type t then False else True)"

abbreviation (input) CODE_SUCCESS :: int where "CODE_SUCCESS \<equiv> 0"
abbreviation (input) CODE_CHECK_GAME_TOKEN_FAILED :: int where "CODE_CHECK_GAME_TOKEN_FAILED \<equiv> 1000"

definition player_token_login :: "int \<Rightarrow> token \<Rightarrow> 's \<Rightarrow> 's manager \<Rightarrow> bool \<times> 's manager" where
  "player_token_login now t s m =
     (if \<not> check_user_token t
      then (False, pm_send (Shutdown (Some s)) (pm_send (Failed_reason s CODE_CHECK_GAME_TOKEN_FAILED) m))
      else (True, add_user_session now (the (tok_user_id t)) (Some s)
              (pm_send (Failed_reason s CODE_SUCCESS) m)))"

definition recv_session :: "int \<Rightarrow> 's manager \<Rightarrow> 's option" where
  "recv_session uid m =
     (case m_login_user m uid of None \<Rightarrow> None | Some p \<Rightarrow> gp_session (gplayers m ! p))"

definition pm_make_player :: "int \<Rightarrow> int \<Rightarrow> 's option \<Rightarrow> 's manager \<Rightarrow> nat option \<times> 's manager" where
  "pm_make_player now uid s m =
     (case m_login_user m uid of
        None \<Rightarrow> (Some (length (gplayers m)), enrol now uid s m)
      | Some p \<Rightarrow>
          if gp_room (gplayers m ! p) = None then (Some p, gp_flush_online_time now p m) else (None, m))"

text \<open>\<open>destory_player\<close>, with its \<open>assert(0)\<close> for a user who is not logged in.\<close>

definition destory_player :: "nat \<Rightarrow> 's manager \<Rightarrow> 's manager option" where
  "destory_player p m =
     (let uid = gp_user_id (gplayers m ! p) in
      case m_login_user m uid of
        None \<Rightarrow> None
      | Some q \<Rightarrow>
          Some (m\<lparr>m_online_user := (m_online_user m)(gp_session (gplayers m ! q) := None),
                  m_login_user := (m_login_user m)(uid := None)\<rparr>))"

definition is_player_online :: "int \<Rightarrow> 's manager \<Rightarrow> bool" where
  "is_player_online uid m = (recv_session uid m \<noteq> None)"

definition check_player_session :: "int \<Rightarrow> 's option \<Rightarrow> 's manager \<Rightarrow> bool" where
  "check_player_session uid s m =
     (case m_login_user m uid of None \<Rightarrow> False | Some p \<Rightarrow> gp_session (gplayers m ! p) = s)"

definition on_kick_out_user :: "int \<Rightarrow> int \<Rightarrow> string \<Rightarrow> 's manager \<Rightarrow> 's manager" where
  "on_kick_out_user uid reason descr m =
     (case recv_session uid m of
        None \<Rightarrow> m
      | Some s \<Rightarrow> shutdown_user_session (Some s) (send_player_login_elsewhere (Some s) reason descr m))"

definition is_player_in_room :: "int \<Rightarrow> 's manager \<Rightarrow> int option" where
  "is_player_in_room uid m =
     (case m_login_user m uid of None \<Rightarrow> None | Some p \<Rightarrow> gp_room (gplayers m ! p))"

definition flush_user_online :: "int \<Rightarrow> 's option \<Rightarrow> 's manager \<Rightarrow> 's manager" where
  "flush_user_online now s m =
     (case m_online_user m s of None \<Rightarrow> m | Some p \<Rightarrow> gp_flush_online_time now p m)"

section \<open>GameRoom and RoomManager\<close>

record game_room =
  gr_room_id :: int
  gr_players :: "int \<Rightarrow> nat option"

definition room_find_player :: "int \<Rightarrow> game_room \<Rightarrow> nat option" where
  "room_find_player uid r = gr_players r uid"

definition check_player_exist :: "int \<Rightarrow> game_room \<Rightarrow> nat option" where
  "check_player_exist uid r = (case room_find_player uid r of None \<Rightarrow> None | Some p \<Rightarrow> Some p)"

definition create_player :: "int \<Rightarrow> int \<Rightarrow> 's option \<Rightarrow> 's manager \<Rightarrow> nat option \<times> 's manager" where
  "create_player now uid s m = pm_make_player now uid s m"

definition room_add_player ::
  "int \<Rightarrow> int \<Rightarrow> 's option \<Rightarrow> game_room \<times> 's manager \<Rightarrow> nat option \<times> game_room \<times> 's manager" where
  "room_add_player now uid s rm =
     (let (r, m) = rm in
      case gr_players r uid of
        Some p \<Rightarrow> (Some p, r, m)
      | None \<Rightarrow>
          (case create_player now uid s m of
             (None, m) \<Rightarrow> (None, r, m)
           | (Some p, m) \<Rightarrow>
               (Some p, r\<lparr>gr_players := (gr_players r)(uid \<mapsto> p)\<rparr>, set_room (Some (gr_room_id r)) p m)))"

definition room_destroy_player :: "nat \<Rightarrow> game_room \<times> 's manager \<Rightarrow> (game_room \<times> 's manager) option" where
  "room_destroy_player p rm =
     (let (r, m) = rm in
        map_option (Pair (r\<lparr>gr_players := (gr_players r)(gp_user_id (gplayers m ! p) := None)\<rparr>))
          (destory_player p m))"

definition get_room_id :: "int list" where
  "get_room_id = [1, 2, 3, 4, 5]"

definition add_room :: "int \<Rightarrow> (int \<Rightarrow> game_room option) \<Rightarrow> (int \<Rightarrow> game_room option)" where
  "add_room i rooms =
     (if rooms i \<noteq> None then rooms else rooms(i \<mapsto> \<lparr>gr_room_id = i, gr_players = (\<lambda>_. None)\<rparr>))"

definition open_rooms :: "(int \<Rightarrow> game_room option) \<Rightarrow> (int \<Rightarrow> game_room option)" where
  "open_rooms rooms = fold add_room get_room_id rooms"

definition check_room :: "int \<Rightarrow> (int \<Rightarrow> game_room option) \<Rightarrow> bool" where
  "check_room i rooms = (if rooms i = None then False else True)"

section \<open>The tables agree\<close>

text \<open>A user who is logged in has a player object of his own; whoever is online is logged in with
  the session he is online with.\<close>

definition manager_ok :: "'s manager \<Rightarrow> bool" where
  "manager_ok m \<longleftrightarrow>
     (\<forall>uid p. m_login_user m uid = Some p \<longrightarrow>
        p < length (gplayers m) \<and> gp_user_id (gplayers m ! p) = uid) \<and>
     (\<forall>s p. m_online_user m s = Some p \<longrightarrow>
        m_login_user m (gp_user_id (gplayers m ! p)) = Some p \<and> gp_session (gplayers m ! p) = s)"

lemma manager_okI:
  assumes "\<And>uid p. m_login_user m uid = Some p \<Longrightarrow> p < length (gplayers m) \<and> gp_user_id (gplayers m ! p) = uid"
    and "\<And>s p. m_online_user m s = Some p \<Longrightarrow>
      m_login_user m (gp_user_id (gplayers m ! p)) = Some p \<and> gp_session (gplayers m ! p) = s"
  shows "manager_ok m"
  using assms by (simp add: manager_ok_def)

lemma manager_okD:
  assumes "manager_ok m"
  shows "m_login_user m uid = Some p \<Longrightarrow> p < length (gplayers m)"
    and "m_login_user m uid = Some p \<Longrightarrow> gp_user_id (gplayers m ! p) = uid"
    and "m_online_user m s = Some p \<Longrightarrow> m_login_user m (gp_user_id (gplayers m ! p)) = Some p"
    and "m_online_user m s = Some p \<Longrightarrow> gp_session (gplayers m ! p) = s"
    and "m_online_user m s = Some p \<Longrightarrow> p < length (gplayers m)"
  using assms by (auto simp: manager_ok_def)

text \<open>The rooms: a player of a room is logged in and knows his room.\<close>

definition rooms_ok :: "(int \<Rightarrow> game_room option) \<Rightarrow> 's manager \<Rightarrow> bool" where
  "rooms_ok rooms m \<longleftrightarrow>
     (\<forall>i r. rooms i = Some r \<longrightarrow> gr_room_id r = i \<and>
        (\<forall>uid p. gr_players r uid = Some p \<longrightarrow>
           m_login_user m uid = Some p \<and> gp_room (gplayers m ! p) = Some i))"

lemma rooms_okD:
  assumes "rooms_ok rooms m" "rooms i = Some r"
  shows "gr_room_id r = i"
    and "gr_players r uid = Some p \<Longrightarrow> m_login_user m uid = Some p"
    and "gr_players r uid = Some p \<Longrightarrow> gp_room (gplayers m ! p) = Some i"
  using assms by (auto simp: rooms_ok_def)

lemma rooms_ok_change:
  assumes "rooms_ok rooms m"
    and "\<And>uid p i. m_login_user m uid = Some p \<Longrightarrow> gp_room (gplayers m ! p) = Some i \<Longrightarrow>
      m_login_user m' uid = Some p \<and> gp_room (gplayers m' ! p) = Some i"
  shows "rooms_ok rooms m'"
  using assms unfolding rooms_ok_def by blast

inductive managed :: "(int \<Rightarrow> game_room option) \<Rightarrow> 's manager \<Rightarrow> bool" where
  start: "managed (open_rooms (\<lambda>_. None)) PlayerManager"
| login: "managed rooms m \<Longrightarrow> managed rooms (snd (player_token_login now t s m))"
| close: "managed rooms m \<Longrightarrow> on_session_close s m = Some m' \<Longrightarrow> managed rooms m'"
| kick: "managed rooms m \<Longrightarrow> managed rooms (on_kick_out_user uid reason descr m)"
| heartbeat: "managed rooms m \<Longrightarrow> managed rooms (flush_user_online now s m)"
| enter: "managed rooms m \<Longrightarrow> rooms i = Some r \<Longrightarrow>
     room_add_player now uid s (r, m) = (res, r', m') \<Longrightarrow> managed (rooms(i \<mapsto> r')) m'"
| leave: "managed rooms m \<Longrightarrow> rooms i = Some r \<Longrightarrow> gr_players r uid = Some p \<Longrightarrow>
     room_destroy_player p (r, m) = Some (r', m') \<Longrightarrow> managed (rooms(i \<mapsto> r')) m'"

text \<open>Changes of one player object that keep his user and session.\<close>

lemma upd_gplayer_fields [simp]:
  "m_login_user (upd_gplayer p f m) = m_login_user m" "m_online_user (upd_gplayer p f m) = m_online_user m"
  "length (gplayers (upd_gplayer p f m)) = length (gplayers m)"
  "p < length (gplayers m) \<Longrightarrow> gplayers (upd_gplayer p f m) ! q =
     (if q = p then f (gplayers m ! p) else gplayers m ! q)"
  by (auto simp: upd_gplayer_def nth_list_update)

lemma pm_send_fields [simp]:
  "m_login_user (pm_send x m) = m_login_user m" "m_online_user (pm_send x m) = m_online_user m"
  "gplayers (pm_send x m) = gplayers m"
  by (simp_all add: pm_send_def)

lemma manager_ok_send [simp]: "manager_ok (pm_send x m) = manager_ok m" "rooms_ok rooms (pm_send x m) = rooms_ok rooms m"
  by (simp_all add: manager_ok_def rooms_ok_def)

lemma manager_ok_upd:
  assumes "manager_ok m" "p < length (gplayers m)"
    and "gp_user_id (f (gplayers m ! p)) = gp_user_id (gplayers m ! p)"
      "gp_session (f (gplayers m ! p)) = gp_session (gplayers m ! p)"
  shows "manager_ok (upd_gplayer p f m)"
  using assms by (auto simp: manager_ok_def)

lemma rooms_ok_upd:
  assumes "rooms_ok rooms m" "p < length (gplayers m)"
    and "gp_room (f (gplayers m ! p)) = gp_room (gplayers m ! p)"
  shows "rooms_ok rooms (upd_gplayer p f m)"
  using assms by (auto simp: rooms_ok_def)

lemma session_close_ok:
  assumes ok: "manager_ok m" and rooms: "rooms_ok rooms m"
  shows "\<exists>m'. on_session_close s m = Some m' \<and> manager_ok m' \<and> rooms_ok rooms m'"
proof (cases "m_online_user m s")
  case None
  with assms show ?thesis by (simp add: on_session_close_def)
next
  case (Some p)
  note p = manager_okD [OF ok] Some
  have mine: "q = p \<Longrightarrow> s' = s" if "m_online_user m s' = Some q" for s' q
    using that Some manager_okD(4) [OF ok] by blast
  let ?m = "(session_close p m)\<lparr>m_online_user := (m_online_user m)(s := None)\<rparr>"
  have pl: "p < length (gplayers m)" using p by blast
  have others: "q \<noteq> p" if "((m_online_user m)(s := None)) s' = Some q" for s' q
    using that mine by (auto split: if_splits)
  have mok: "manager_ok ?m"
  proof (rule manager_okI)
    fix uid q assume "m_login_user ?m uid = Some q"
    then show "q < length (gplayers ?m) \<and> gp_user_id (gplayers ?m ! q) = uid"
      using manager_okD(1,2) [OF ok] pl by (auto simp: session_close_def)
  next
    fix s' q assume "m_online_user ?m s' = Some q"
    then show "m_login_user ?m (gp_user_id (gplayers ?m ! q)) = Some q \<and> gp_session (gplayers ?m ! q) = s'"
      using manager_okD(3,4) [OF ok] pl others [of s' q] by (auto simp: session_close_def split: if_splits)
  qed
  have rok: "rooms_ok rooms ?m"
    using rooms pl by (auto simp: rooms_ok_def session_close_def)
  show ?thesis
  proof (cases "gp_room (gplayers m ! p)")
    case None
    let ?u = "gp_user_id (gplayers m ! p)"
    have u: "m_login_user m ?u = Some p" using p by blast
    have "on_session_close s m = Some (?m\<lparr>m_login_user := (m_login_user m)(?u := None)\<rparr>)"
      using Some None u pl by (simp add: on_session_close_def Let_def session_close_def)
    moreover have "manager_ok (?m\<lparr>m_login_user := (m_login_user m)(?u := None)\<rparr>)"
    proof (rule manager_okI)
      fix uid q assume "m_login_user (?m\<lparr>m_login_user := (m_login_user m)(?u := None)\<rparr>) uid = Some q"
      then show "q < length (gplayers (?m\<lparr>m_login_user := (m_login_user m)(?u := None)\<rparr>)) \<and>
          gp_user_id (gplayers (?m\<lparr>m_login_user := (m_login_user m)(?u := None)\<rparr>) ! q) = uid"
        using manager_okD(1,2) [OF mok, of uid q] by (auto simp: session_close_def split: if_splits)
    next
      fix s' q assume online: "m_online_user (?m\<lparr>m_login_user := (m_login_user m)(?u := None)\<rparr>) s' = Some q"
      then have "q \<noteq> p" "m_login_user m (gp_user_id (gplayers m ! q)) = Some q"
        using others [of s' q] manager_okD(3) [OF ok, of s' q] by (auto split: if_splits)
      with online u manager_okD(4) [OF mok, of s' q] pl
      show "m_login_user (?m\<lparr>m_login_user := (m_login_user m)(?u := None)\<rparr>)
            (gp_user_id (gplayers (?m\<lparr>m_login_user := (m_login_user m)(?u := None)\<rparr>) ! q)) = Some q \<and>
          gp_session (gplayers (?m\<lparr>m_login_user := (m_login_user m)(?u := None)\<rparr>) ! q) = s'"
        by (auto simp: session_close_def)
    qed
    moreover have "rooms_ok rooms (?m\<lparr>m_login_user := (m_login_user m)(?u := None)\<rparr>)"
      using None u pl by (intro rooms_ok_change [OF rooms]) (auto simp: session_close_def)
    ultimately show ?thesis by blast
  next
    case room: (Some i)
    then have "on_session_close s m = Some ?m"
      using Some pl by (simp add: on_session_close_def Let_def session_close_def)
    with mok rok show ?thesis by blast
  qed
qed

lemma enrol_ok:
  assumes ok: "manager_ok m" and rooms: "rooms_ok rooms m" and new: "m_login_user m uid = None"
  shows "manager_ok (enrol now uid s m)" "rooms_ok rooms (enrol now uid s m)"
proof -
  let ?m = "enrol now uid s m"
  have old: "gplayers ?m ! p = gplayers m ! p" if "p < length (gplayers m)" for p
    using that by (simp add: enrol_def Let_def nth_append)
  have mine: "gplayers ?m ! length (gplayers m) = (new_player now)\<lparr>gp_user_id := uid, gp_session := s\<rparr>"
    by (simp add: enrol_def Let_def)
  have tables: "m_login_user ?m = (m_login_user m)(uid \<mapsto> length (gplayers m))"
    "m_online_user ?m = (m_online_user m)(s \<mapsto> length (gplayers m))"
    "length (gplayers ?m) = Suc (length (gplayers m))"
    by (simp_all add: enrol_def Let_def)
  show "manager_ok ?m"
  proof (rule manager_okI)
    fix u p assume "m_login_user ?m u = Some p"
    then show "p < length (gplayers ?m) \<and> gp_user_id (gplayers ?m ! p) = u"
      using manager_okD(1,2) [OF ok, of u p] old [of p] mine tables by (auto split: if_splits)
  next
    fix t p assume online: "m_online_user ?m t = Some p"
    show "m_login_user ?m (gp_user_id (gplayers ?m ! p)) = Some p \<and> gp_session (gplayers ?m ! p) = t"
    proof (cases "t = s")
      case True
      then show ?thesis using online mine tables by simp
    next
      case False
      then have "m_online_user m t = Some p" using online tables by simp
      then show ?thesis
        using manager_okD(3,4,5) [OF ok, of t p] old [of p] tables new by auto
    qed
  qed
  show "rooms_ok rooms ?m"
    using manager_okD(1) [OF ok] old new tables by (intro rooms_ok_change [OF rooms]) auto
qed

lemma add_user_session_ok:
  assumes ok: "manager_ok m" and rooms: "rooms_ok rooms m"
  shows "manager_ok (add_user_session now uid s m)" "rooms_ok rooms (add_user_session now uid s m)"
proof -
  have "manager_ok (add_user_session now uid s m) \<and> rooms_ok rooms (add_user_session now uid s m)"
  proof (cases "m_login_user m uid")
    case None
    with enrol_ok [OF ok rooms] show ?thesis by (simp add: add_user_session_def)
  next
    case (Some p)
    let ?old = "gp_session (gplayers m ! p)"
    let ?m = "(set_session s p m)\<lparr>m_online_user := ((m_online_user m)(?old := None))(s \<mapsto> p)\<rparr>"
    have p: "p < length (gplayers m)" "gp_user_id (gplayers m ! p) = uid" using Some manager_okD(1,2) [OF ok] by auto
    have "manager_ok ?m"
    proof (rule manager_okI)
      fix u q assume "m_login_user ?m u = Some q"
      then show "q < length (gplayers ?m) \<and> gp_user_id (gplayers ?m ! q) = u"
        using manager_okD(1,2) [OF ok, of u q] p by (auto simp: set_session_def)
    next
      fix t q assume online: "m_online_user ?m t = Some q"
      show "m_login_user ?m (gp_user_id (gplayers ?m ! q)) = Some q \<and> gp_session (gplayers ?m ! q) = t"
      proof (cases "t = s")
        case True
        then show ?thesis using online p Some by (simp add: set_session_def)
      next
        case False
        then have "m_online_user m t = Some q" "t \<noteq> ?old" using online by (auto split: if_splits)
        then show ?thesis using manager_okD(3,4) [OF ok, of t q] p by (auto simp: set_session_def)
      qed
    qed
    moreover have "rooms_ok rooms ?m"
      using p by (intro rooms_ok_change [OF rooms]) (auto simp: set_session_def)
    moreover have "add_user_session now uid s m = ?m \<or> add_user_session now uid s m = pm_send (Shutdown ?old) ?m"
      using Some by (simp add: add_user_session_def Let_def shutdown_user_session_def set_session_def)
    ultimately show ?thesis by auto
  qed
  then show "manager_ok (add_user_session now uid s m)" "rooms_ok rooms (add_user_session now uid s m)" by auto
qed

lemma rooms_ok_enter:
  assumes "rooms_ok rooms m" "rooms i = Some r" "m_login_user m uid = Some p" "p < length (gplayers m)"
    and "gp_room (gplayers m ! p) = None"
  shows "rooms_ok (rooms(i \<mapsto> r\<lparr>gr_players := (gr_players r)(uid \<mapsto> p)\<rparr>)) (set_room (Some i) p m)"
proof -
  have "q \<noteq> p" if "rooms j = Some r'" "gr_players r' u = Some q" for j r' u q
    using rooms_okD(3) [OF assms(1) that(1), of u q] that(2) assms(5) by auto
  with assms show ?thesis
    by (auto simp: rooms_ok_def set_room_def)
qed

lemma room_add_player_ok:
  assumes ok: "manager_ok m" and rooms: "rooms_ok rooms m" and r: "rooms i = Some r"
    and run: "room_add_player now uid s (r, m) = (res, r', m')"
  shows "manager_ok m' \<and> rooms_ok (rooms(i \<mapsto> r')) m'"
proof -
  have id: "gr_room_id r = i" using rooms_okD(1) [OF rooms r] .
  have same: "rooms(i \<mapsto> r) = rooms" using r by (simp add: fun_upd_idem)
  consider (known) "r' = r" "m' = m"
    | (new) "m_login_user m uid = None" "r' = r\<lparr>gr_players := (gr_players r)(uid \<mapsto> length (gplayers m))\<rparr>"
        "m' = set_room (Some i) (length (gplayers m)) (enrol now uid s m)"
    | (here) p where "m_login_user m uid = Some p" "gp_room (gplayers m ! p) = None"
        "r' = r\<lparr>gr_players := (gr_players r)(uid \<mapsto> p)\<rparr>"
        "m' = set_room (Some i) p (gp_flush_online_time now p m)"
  proof (cases "gr_players r uid")
    case (Some q)
    with run known show ?thesis by (simp add: room_add_player_def)
  next
    case None
    note unknown = this
    show ?thesis
    proof (cases "m_login_user m uid")
      case None
      with unknown run id new show ?thesis
        by (auto simp: room_add_player_def create_player_def pm_make_player_def)
    next
      case (Some p)
      note login = this
      show ?thesis
      proof (cases "gp_room (gplayers m ! p)")
        case None
        have "r' = r\<lparr>gr_players := (gr_players r)(uid \<mapsto> p)\<rparr>"
          "m' = set_room (Some i) p (gp_flush_online_time now p m)"
          using unknown run id login None
          by (auto simp: room_add_player_def create_player_def pm_make_player_def)
        with login None here show ?thesis by blast
      next
        case (Some j)
        have "r' = r" "m' = m"
          using unknown run id login Some
          by (auto simp: room_add_player_def create_player_def pm_make_player_def)
        with known show ?thesis by blast
      qed
    qed
  qed
  then show ?thesis
  proof cases
    case known
    then show ?thesis using ok rooms same by simp
  next
    case new
    let ?m = "enrol now uid s m" and ?p = "length (gplayers m)"
    have m: "manager_ok ?m" "rooms_ok rooms ?m" using enrol_ok [OF ok rooms new(1)] by auto
    have e: "m_login_user ?m uid = Some ?p" "?p < length (gplayers ?m)" "gp_room (gplayers ?m ! ?p) = None"
      by (simp_all add: enrol_def Let_def new_player_def)
    from rooms_ok_enter [OF m(2) r e] manager_ok_upd [OF m(1) e(2)] new show ?thesis
      by (simp add: set_room_def)
  next
    case here
    let ?m = "gp_flush_online_time now p m"
    have p: "p < length (gplayers m)" using here(1) manager_okD(1) [OF ok] by blast
    have m: "manager_ok ?m" "rooms_ok rooms ?m"
      unfolding gp_flush_online_time_def
      by (rule manager_ok_upd [OF ok p] rooms_ok_upd [OF rooms p]; simp)+
    have e: "m_login_user ?m uid = Some p" "p < length (gplayers ?m)" "gp_room (gplayers ?m ! p) = None"
      using here p by (simp_all add: gp_flush_online_time_def)
    from rooms_ok_enter [OF m(2) r e] manager_ok_upd [OF m(1) e(2)] here show ?thesis
      by (simp add: set_room_def)
  qed
qed

lemma room_destroy_player_ok:
  assumes ok: "manager_ok m" and rooms: "rooms_ok rooms m" and r: "rooms i = Some r" "gr_players r uid = Some p"
  shows "\<exists>r' m'. room_destroy_player p (r, m) = Some (r', m') \<and> manager_ok m' \<and> rooms_ok (rooms(i \<mapsto> r')) m'"
proof -
  have login: "m_login_user m uid = Some p" and room: "gp_room (gplayers m ! p) = Some i"
    using rooms_okD [OF rooms r(1)] r(2) by auto
  have user: "gp_user_id (gplayers m ! p) = uid" using manager_okD(2) [OF ok login] .
  let ?r = "r\<lparr>gr_players := (gr_players r)(uid := None)\<rparr>"
  let ?m = "m\<lparr>m_online_user := (m_online_user m)(gp_session (gplayers m ! p) := None),
    m_login_user := (m_login_user m)(uid := None)\<rparr>"
  have "room_destroy_player p (r, m) = Some (?r, ?m)"
    using login user by (simp add: room_destroy_player_def destory_player_def)
  moreover have "manager_ok ?m"
  proof (rule manager_okI)
    fix u q assume "m_login_user ?m u = Some q"
    then show "q < length (gplayers ?m) \<and> gp_user_id (gplayers ?m ! q) = u"
      using manager_okD(1,2) [OF ok, of u q] by (auto split: if_splits)
  next
    fix t q assume "m_online_user ?m t = Some q"
    then have t: "m_online_user m t = Some q" "t \<noteq> gp_session (gplayers m ! p)" by (auto split: if_splits)
    then have "q \<noteq> p" using manager_okD(4) [OF ok t(1)] by auto
    then show "m_login_user ?m (gp_user_id (gplayers ?m ! q)) = Some q \<and> gp_session (gplayers ?m ! q) = t"
      using manager_okD(3,4) [OF ok t(1)] login by auto
  qed
  moreover have "rooms_ok (rooms(i \<mapsto> ?r)) ?m"
  proof -
    have "u \<noteq> uid" if "rooms j = Some r'" "gr_players r' u = Some q" "j \<noteq> i" for j r' u q
      using rooms_okD(2,3) [OF rooms that(1), of u q] that(2,3) login room by auto
    then show ?thesis using rooms r by (auto simp: rooms_ok_def)
  qed
  ultimately show ?thesis by blast
qed

lemma open_rooms_start: "rooms_ok (open_rooms (\<lambda>_. None)) PlayerManager" "manager_ok PlayerManager"
  by (auto simp: rooms_ok_def manager_ok_def open_rooms_def get_room_id_def add_room_def PlayerManager_def
      split: if_splits)

lemma managed_ok: "managed rooms m \<Longrightarrow> manager_ok m \<and> rooms_ok rooms m"
proof (induction rule: managed.induct)
  case start
  show ?case using open_rooms_start by blast
next
  case (login rooms m now t s)
  then show ?case by (auto simp: player_token_login_def intro: add_user_session_ok)
next
  case (close rooms m s m')
  then show ?case using session_close_ok [of m rooms s] by auto
next
  case (kick rooms m uid reason descr)
  then show ?case
    by (auto simp: on_kick_out_user_def shutdown_user_session_def send_player_login_elsewhere_def split: option.splits)
next
  case (heartbeat rooms m now s)
  then show ?case
    by (auto simp: flush_user_online_def gp_flush_online_time_def split: option.splits
        intro!: manager_ok_upd rooms_ok_upd dest: manager_okD(5))
next
  case (enter rooms m i r now uid s res r' m')
  then show ?case using room_add_player_ok by blast
next
  case (leave rooms m i r uid p r' m')
  then show ?case using room_destroy_player_ok [of m rooms i r uid p] by (metis option.inject prod.inject)
qed

text \<open>What follows: no assertion fails, a user is online with at most one session and plays in at
  most one room.\<close>

lemma managed_facts:
  assumes "managed rooms m"
  shows "\<exists>m'. on_session_close s m = Some m'"
    and "rooms i = Some r \<Longrightarrow> gr_players r uid = Some p \<Longrightarrow> \<exists>r' m'. room_destroy_player p (r, m) = Some (r', m')"
    and "m_online_user m s = Some p \<Longrightarrow> m_online_user m s' = Some p' \<Longrightarrow>
      gp_user_id (gplayers m ! p) = gp_user_id (gplayers m ! p') \<Longrightarrow> s = s'"
    and "rooms i = Some r \<Longrightarrow> rooms j = Some r' \<Longrightarrow> gr_players r uid = Some p \<Longrightarrow> gr_players r' uid = Some p' \<Longrightarrow> i = j"
proof -
  have ok: "manager_ok m" "rooms_ok rooms m" using managed_ok [OF assms] by auto
  show "\<exists>m'. on_session_close s m = Some m'" using session_close_ok [OF ok] by blast
  show "rooms i = Some r \<Longrightarrow> gr_players r uid = Some p \<Longrightarrow> \<exists>r' m'. room_destroy_player p (r, m) = Some (r', m')"
    using room_destroy_player_ok [OF ok] by blast
  show "s = s'" if "m_online_user m s = Some p" "m_online_user m s' = Some p'"
      "gp_user_id (gplayers m ! p) = gp_user_id (gplayers m ! p')"
    using manager_okD(3,4) [OF ok(1) that(1)] manager_okD(3,4) [OF ok(1) that(2)] that(3)
    by (metis option.inject)
  show "i = j" if "rooms i = Some r" "rooms j = Some r'" "gr_players r uid = Some p" "gr_players r' uid = Some p'"
    using rooms_okD(2,3) [OF ok(2) that(1), OF that(3)] rooms_okD(2,3) [OF ok(2) that(2), OF that(4)]
    by (metis option.inject)
qed

text \<open>A login with a good token makes the new session the only one of the user, shuts his old
  session down, and the end of the old session later changes nothing.\<close>

lemma login_takes_over:
  assumes "managed rooms m" "check_user_token t" "tok_user_id t = Some uid"
    and "player_token_login now t s m = (ok, m')"
  shows "ok" "check_player_session uid (Some s) m'" "\<exists>p. m_online_user m' (Some s) = Some p \<and> gp_user_id (gplayers m' ! p) = uid"
    and "recv_session uid m = Some s0 \<Longrightarrow> s0 \<noteq> s \<Longrightarrow> last (pm_out m') = Shutdown (Some s0)"
    and "recv_session uid m = Some s0 \<Longrightarrow> s0 \<noteq> s \<Longrightarrow> on_session_close (Some s0) m' = Some m'"
proof -
  have ok: "manager_ok m" using managed_ok [OF assms(1)] by blast
  have m': "ok" "m' = add_user_session now uid (Some s) (pm_send (Failed_reason s CODE_SUCCESS) m)"
    using assms(2-4) by (auto simp: player_token_login_def)
  note d = manager_okD [OF ok]
  show "ok" by (rule m')
  show "check_player_session uid (Some s) m'"
    "\<exists>p. m_online_user m' (Some s) = Some p \<and> gp_user_id (gplayers m' ! p) = uid"
    using d(1,2) [of uid] unfolding m'(2)
    by (auto simp: check_player_session_def add_user_session_def enrol_def set_session_def Let_def
        shutdown_user_session_def split: option.splits)
  assume old: "recv_session uid m = Some s0" "s0 \<noteq> s"
  then obtain p where p: "m_login_user m uid = Some p" "gp_session (gplayers m ! p) = Some s0"
    by (auto simp: recv_session_def split: option.splits)
  show "last (pm_out m') = Shutdown (Some s0)"
    using p old(2) unfolding m'(2) by (simp add: add_user_session_def Let_def shutdown_user_session_def pm_send_def)
  have "m_online_user m' (Some s0) = None"
    using p old(2) unfolding m'(2)
    by (simp add: add_user_session_def Let_def shutdown_user_session_def)
  then show "on_session_close (Some s0) m' = Some m'" by (simp add: on_session_close_def)
qed

text \<open>One session may log in as two users; when it ends, the first of them stays logged in and
  counts as online with a session that is gone.\<close>

definition token_of :: "int \<Rightarrow> token" where
  "token_of uid = \<lparr>tok_valid = True, tok_user_id = Some uid, tok_account = True, tok_type = True\<rparr>"

lemma session_of_two_users:
  "let m = snd (player_token_login 0 (token_of 2) s (snd (player_token_login 0 (token_of 1) s PlayerManager)))
   in \<exists>m'. on_session_close (Some s) m = Some m' \<and> is_player_online 1 m' \<and> m_online_user m' (Some s) = None"
  by (simp add: player_token_login_def token_of_def check_user_token_def add_user_session_def enrol_def
      PlayerManager_def pm_send_def on_session_close_def session_close_def upd_gplayer_def new_player_def
      is_player_online_def recv_session_def Let_def)

end
