(* ===== verification/Md5_Digest.thy ===== *)
theory Md5_Digest
  imports Byte_Codecs
begin

text \<open>
  The digest of \<open>server/common/libtools/MD5.cpp\<close> with the hexadecimal output of \<open>BaseTool.cpp\<close>.
  The sources keep a context that is fed piece by piece. It is shown here to give what the whole padded message gives
  when it is compressed block by block with \<open>MD5Transform\<close>; that this is MD5 as RFC 1321 defines it is shown in
  \<open>Md5_Rfc\<close>.

  Words are read from bytes with the low byte first on every host: \<open>byteReverse\<close> does nothing on
  a little endian host and swaps the bytes on the others.
\<close>

section \<open>MD5Transform\<close>

type_synonym md5_state = "u32 \<times> u32 \<times> u32 \<times> u32"

definition F1 :: "u32 \<Rightarrow> u32 \<Rightarrow> u32 \<Rightarrow> u32" where "F1 x y z = z XOR (x AND (y XOR z))"
definition F2 :: "u32 \<Rightarrow> u32 \<Rightarrow> u32 \<Rightarrow> u32" where "F2 x y z = F1 z x y"
definition F3 :: "u32 \<Rightarrow> u32 \<Rightarrow> u32 \<Rightarrow> u32" where "F3 x y z = x XOR y XOR z"
definition F4 :: "u32 \<Rightarrow> u32 \<Rightarrow> u32 \<Rightarrow> u32" where "F4 x y z = y XOR (x OR NOT z)"

text \<open>\<open>MD5STEP(f, w, x, y, z, data, s)\<close>: the new value of \<open>w\<close>.\<close>

definition MD5STEP :: "(u32 \<Rightarrow> u32 \<Rightarrow> u32 \<Rightarrow> u32) \<Rightarrow> u32 \<Rightarrow> u32 \<Rightarrow> u32 \<Rightarrow> u32 \<Rightarrow> u32 \<Rightarrow> nat \<Rightarrow> u32" where
  "MD5STEP f w x y z d s =
     (let w = w + (f x y z + d); w = push_bit s w OR drop_bit (32 - s) w in w + x)"

text \<open>The steps of a round: index of the input word, constant and shift. The registers rotate
  through the arguments \<open>a, b, c, d\<close>, then \<open>d, a, b, c\<close>, and so on; after sixteen steps they are
  in their places again.\<close>

definition md5_steps1 :: "(nat \<times> u32 \<times> nat) list" where
  "md5_steps1 =
     [(0, 0xd76aa478, 7), (1, 0xe8c7b756, 12), (2, 0x242070db, 17), (3, 0xc1bdceee, 22),
      (4, 0xf57c0faf, 7), (5, 0x4787c62a, 12), (6, 0xa8304613, 17), (7, 0xfd469501, 22),
      (8, 0x698098d8, 7), (9, 0x8b44f7af, 12), (10, 0xffff5bb1, 17), (11, 0x895cd7be, 22),
      (12, 0x6b901122, 7), (13, 0xfd987193, 12), (14, 0xa679438e, 17), (15, 0x49b40821, 22)]"

definition md5_steps2 :: "(nat \<times> u32 \<times> nat) list" where
  "md5_steps2 =
     [(1, 0xf61e2562, 5), (6, 0xc040b340, 9), (11, 0x265e5a51, 14), (0, 0xe9b6c7aa, 20),
      (5, 0xd62f105d, 5), (10, 0x02441453, 9), (15, 0xd8a1e681, 14), (4, 0xe7d3fbc8, 20),
      (9, 0x21e1cde6, 5), (14, 0xc33707d6, 9), (3, 0xf4d50d87, 14), (8, 0x455a14ed, 20),
      (13, 0xa9e3e905, 5), (2, 0xfcefa3f8, 9), (7, 0x676f02d9, 14), (12, 0x8d2a4c8a, 20)]"

definition md5_steps3 :: "(nat \<times> u32 \<times> nat) list" where
  "md5_steps3 =
     [(5, 0xfffa3942, 4), (8, 0x8771f681, 11), (11, 0x6d9d6122, 16), (14, 0xfde5380c, 23),
      (1, 0xa4beea44, 4), (4, 0x4bdecfa9, 11), (7, 0xf6bb4b60, 16), (10, 0xbebfbc70, 23),
      (13, 0x289b7ec6, 4), (0, 0xeaa127fa, 11), (3, 0xd4ef3085, 16), (6, 0x04881d05, 23),
      (9, 0xd9d4d039, 4), (12, 0xe6db99e5, 11), (15, 0x1fa27cf8, 16), (2, 0xc4ac5665, 23)]"

definition md5_steps4 :: "(nat \<times> u32 \<times> nat) list" where
  "md5_steps4 =
     [(0, 0xf4292244, 6), (7, 0x432aff97, 10), (14, 0xab9423a7, 15), (5, 0xfc93a039, 21),
      (12, 0x655b59c3, 6), (3, 0x8f0ccc92, 10), (10, 0xffeff47d, 15), (1, 0x85845dd1, 21),
      (8, 0x6fa87e4f, 6), (15, 0xfe2ce6e0, 10), (6, 0xa3014314, 15), (13, 0x4e0811a1, 21),
      (4, 0xf7537e82, 6), (11, 0xbd3af235, 10), (2, 0x2ad7d2bb, 15), (9, 0xeb86d391, 21)]"

definition md5_round ::
  "(u32 \<Rightarrow> u32 \<Rightarrow> u32 \<Rightarrow> u32) \<Rightarrow> u32 list \<Rightarrow> (nat \<times> u32 \<times> nat) list \<Rightarrow> md5_state \<Rightarrow> md5_state" where
  "md5_round f inp steps st =
     fold (\<lambda>(k, c, s) (w, x, y, z). (z, MD5STEP f w x y z (inp ! k + c) s, x, y)) steps st"

definition MD5Transform :: "md5_state \<Rightarrow> u32 list \<Rightarrow> md5_state" where
  "MD5Transform buf inp =
     (case (md5_round F4 inp md5_steps4 \<circ> md5_round F3 inp md5_steps3 \<circ> md5_round F2 inp md5_steps2
              \<circ> md5_round F1 inp md5_steps1) buf of
        (a, b, c, d) \<Rightarrow> (case buf of (b0, b1, b2, b3) \<Rightarrow> (b0 + a, b1 + b, b2 + c, b3 + d)))"

section \<open>The context\<close>

record md5_ctx =
  ctx_buf :: md5_state
  ctx_bits0 :: u32
  ctx_bits1 :: u32
  ctx_in :: "u8 list"

definition MD5Init :: "md5_ctx \<Rightarrow> md5_ctx" where
  "MD5Init ctx = ctx\<lparr>ctx_buf := (0x67452301, 0xefcdab89, 0x98badcfe, 0x10325476),
     ctx_bits0 := 0, ctx_bits1 := 0\<rparr>"

text \<open>The 32 bit words of a block after \<open>byteReverse\<close>.\<close>

fun words_of :: "u8 list \<Rightarrow> u32 list" where
  "words_of (a # b # c # d # bs) = le_word [a, b, c, d] # words_of bs"
| "words_of _ = []"

definition memcpy_at :: "nat \<Rightarrow> u8 list \<Rightarrow> u8 list \<Rightarrow> u8 list" where
  "memcpy_at off bs xs = take off xs @ bs @ drop (off + length bs) xs"

definition transform_in :: "md5_ctx \<Rightarrow> md5_ctx" where
  "transform_in ctx = ctx\<lparr>ctx_buf := MD5Transform (ctx_buf ctx) (words_of (ctx_in ctx))\<rparr>"

text \<open>The loop of \<open>MD5Update\<close> over blocks of 64 bytes and the copy of the rest.\<close>

function update_loop :: "md5_ctx \<Rightarrow> u8 list \<Rightarrow> md5_ctx" where
  "update_loop ctx buf =
     (if length buf \<ge> 64
      then update_loop (transform_in (ctx\<lparr>ctx_in := memcpy_at 0 (take 64 buf) (ctx_in ctx)\<rparr>)) (drop 64 buf)
      else ctx\<lparr>ctx_in := memcpy_at 0 buf (ctx_in ctx)\<rparr>)"
  by pat_completeness auto
termination
  by (relation "measure (\<lambda>(ctx, buf). length buf)") auto

declare update_loop.simps [simp del]

definition MD5Update :: "md5_ctx \<Rightarrow> u8 list \<Rightarrow> md5_ctx" where
  "MD5Update ctx buf =
     (let len = of_nat (length buf) :: u32;
          t = ctx_bits0 ctx;
          ctx = ctx\<lparr>ctx_bits0 := t + push_bit 3 len\<rparr>;
          ctx = (if ctx_bits0 ctx < t then ctx\<lparr>ctx_bits1 := ctx_bits1 ctx + 1\<rparr> else ctx);
          ctx = ctx\<lparr>ctx_bits1 := ctx_bits1 ctx + drop_bit 29 len\<rparr>;
          n = unat (drop_bit 3 t AND 0x3f)
      in if n \<noteq> 0
         then let r = 64 - n in
              if length buf < r then ctx\<lparr>ctx_in := memcpy_at n buf (ctx_in ctx)\<rparr>
              else update_loop (transform_in (ctx\<lparr>ctx_in := memcpy_at n (take r buf) (ctx_in ctx)\<rparr>))
                     (drop r buf)
         else update_loop ctx buf)"

definition state_bytes :: "md5_state \<Rightarrow> u8 list" where
  "state_bytes st = (case st of (a, b, c, d) \<Rightarrow> le_bytes 4 a @ le_bytes 4 b @ le_bytes 4 c @ le_bytes 4 d)"

text \<open>\<open>MD5Final\<close>; \<open>memset(ctx, 0, sizeof(ctx))\<close> clears the size of a pointer, eight bytes, which are
  the first two words.\<close>

definition MD5Final :: "md5_ctx \<Rightarrow> u8 list \<times> md5_ctx" where
  "MD5Final ctx =
     (let n = unat (drop_bit 3 (ctx_bits0 ctx) AND 0x3F);
          ctx = ctx\<lparr>ctx_in := memcpy_at n [0x80] (ctx_in ctx)\<rparr>;
          count = 64 - 1 - n;
          ctx = (if count < 8
                 then let ctx = transform_in (ctx\<lparr>ctx_in := memcpy_at (n + 1) (replicate count 0) (ctx_in ctx)\<rparr>)
                      in ctx\<lparr>ctx_in := memcpy_at 0 (replicate 56 0) (ctx_in ctx)\<rparr>
                 else ctx\<lparr>ctx_in := memcpy_at (n + 1) (replicate (count - 8) 0) (ctx_in ctx)\<rparr>);
          ctx = ctx\<lparr>ctx_in := memcpy_at 56 (le_bytes 4 (ctx_bits0 ctx) @ le_bytes 4 (ctx_bits1 ctx)) (ctx_in ctx)\<rparr>;
          ctx = transform_in ctx
      in (state_bytes (ctx_buf ctx), ctx\<lparr>ctx_buf := (case ctx_buf ctx of (a, b, c, d) \<Rightarrow> (0, 0, c, d))\<rparr>))"

text \<open>The length is cast to \<open>unsigned int\<close>, which drops what exceeds 32 bits.\<close>

definition MD5_16 :: "md5_ctx \<Rightarrow> u8 list \<Rightarrow> u8 list" where
  "MD5_16 garbage msg = fst (MD5Final (MD5Update (MD5Init garbage) (take (length msg mod 2 ^ 32) msg)))"

definition hex_digit :: "u8 \<Rightarrow> u8" where
  "hex_digit w = chars ''0123456789abcdef'' ! unat w"

definition bin2hex :: "u8 list \<Rightarrow> u8 list" where
  "bin2hex p = concat (map (\<lambda>b. [hex_digit (drop_bit 4 b), hex_digit (b AND 0x0f)]) p)"

definition MD5_32 :: "md5_ctx \<Rightarrow> u8 list \<Rightarrow> u8 list" where
  "MD5_32 garbage msg = bin2hex (MD5_16 garbage msg)"

definition Md5_Check :: "u8 list \<Rightarrow> u8 list \<Rightarrow> bool" where
  "Md5_Check pSrc pDst = (\<forall>i \<in> set [0..<16]. pSrc ! i = pDst ! i)"

section \<open>The whole message at once\<close>

text \<open>What the context computes piece by piece: the padded message, compressed block by block with \<open>MD5Transform\<close>.\<close>

definition md5_init :: md5_state where
  "md5_init = (0x67452301, 0xefcdab89, 0x98badcfe, 0x10325476)"

text \<open>All whole blocks of a message.\<close>

function compress :: "md5_state \<Rightarrow> u8 list \<Rightarrow> md5_state" where
  "compress st m =
     (if length m < 64 then st else compress (MD5Transform st (words_of (take 64 m))) (drop 64 m))"
  by pat_completeness auto
termination
  by (relation "measure (\<lambda>(st, m). length m)") auto

declare compress.simps [simp del]

definition md5_pad :: "u8 list \<Rightarrow> u8 list" where
  "md5_pad m =
     m @ [0x80] @ replicate ((119 - length m mod 64) mod 64) 0
       @ le_bytes 8 (of_nat (8 * length m) :: u64)"

definition md5_whole :: "u8 list \<Rightarrow> u8 list" where
  "md5_whole m = state_bytes (compress md5_init (md5_pad m))"

section \<open>Blocks\<close>

definition unblocked :: "u8 list \<Rightarrow> u8 list" where
  "unblocked m = drop (64 * (length m div 64)) m"

lemma length_unblocked [simp]: "length (unblocked m) = length m mod 64"
  by (simp add: unblocked_def minus_mult_div_eq_mod)

lemma compress_short: "length m < 64 \<Longrightarrow> compress st m = st"
  by (simp add: compress.simps)

lemma compress_block:
  "length a = 64 \<Longrightarrow> compress st (a @ m) = compress (MD5Transform st (words_of a)) m"
  by (subst compress.simps) simp

lemma unblocked_step: "64 \<le> length m \<Longrightarrow> unblocked m = unblocked (drop 64 m)"
proof -
  assume "64 \<le> length m"
  then obtain k where k: "length m = 64 + k" using le_Suc_ex by blast
  moreover have "(64 + k) div 64 = Suc (k div 64)" by simp
  ultimately show ?thesis by (simp add: unblocked_def add.commute)
qed

lemma unblocked_short: "length m < 64 \<Longrightarrow> unblocked m = m"
  by (simp add: unblocked_def)

lemma compress_append:
  "compress st (m @ b) = compress (compress st m) (unblocked m @ b)
   \<and> unblocked (m @ b) = unblocked (unblocked m @ b)"
proof (induction "length m" arbitrary: st m rule: less_induct)
  case less
  show ?case
  proof (cases "length m < 64")
    case True
    then show ?thesis by (simp add: compress_short unblocked_short)
  next
    case False
    let ?a = "take 64 m" and ?r = "drop 64 m"
    have a: "length ?a = 64" "m = ?a @ ?r" using False by simp_all
    let ?st = "MD5Transform st (words_of ?a)"
    have block: "compress st (m @ b) = compress ?st (?r @ b)" "compress st m = compress ?st ?r"
      using compress_block [OF a(1), of st "?r @ b"] compress_block [OF a(1), of st ?r]
      by (simp_all flip: append_assoc)
    have rest: "unblocked m = unblocked ?r" "unblocked (m @ b) = unblocked (?r @ b)"
      using unblocked_step [of m] unblocked_step [of "m @ b"] False by simp_all
    have IH: "compress ?st (?r @ b) = compress (compress ?st ?r) (unblocked ?r @ b)"
      "unblocked (?r @ b) = unblocked (unblocked ?r @ b)"
      using less [of ?r ?st] False by simp_all
    show ?thesis unfolding block rest using IH by simp
  qed
qed

lemma words_of_append: "length a mod 4 = 0 \<Longrightarrow> words_of (a @ b) = words_of a @ words_of b"
proof (induction a rule: words_of.induct)
  case (1 a b c d bs)
  then show ?case by simp
qed auto

lemma length_words_of: "length (words_of a) = length a div 4"
  by (induction a rule: words_of.induct) auto

lemma words_of_le_bytes: "words_of (le_bytes 4 w) = [w]" for w :: u32
proof -
  have "le_word (le_bytes 4 w) = w"
    using in_memory32 [of False w] by (simp add: in_memory_def from_memory_def)
  moreover have "le_bytes 4 w = [ucast w, ucast (drop_bit 8 w), ucast (drop_bit 16 w), ucast (drop_bit 24 w)]"
    by (simp add: le_bytes_def upt_rec)
  ultimately show ?thesis by simp
qed

lemma update_loop_ok:
  "length (ctx_in ctx) = 64 \<Longrightarrow>
     ctx_buf (update_loop ctx b) = compress (ctx_buf ctx) b \<and>
     ctx_bits0 (update_loop ctx b) = ctx_bits0 ctx \<and> ctx_bits1 (update_loop ctx b) = ctx_bits1 ctx \<and>
     length (ctx_in (update_loop ctx b)) = 64 \<and>
     take (length b mod 64) (ctx_in (update_loop ctx b)) = unblocked b"
proof (induction ctx b rule: update_loop.induct)
  case (1 ctx b)
  show ?case
  proof (cases "64 \<le> length b")
    case True
    let ?ctx = "transform_in (ctx\<lparr>ctx_in := memcpy_at 0 (take 64 b) (ctx_in ctx)\<rparr>)"
    have c: "length (ctx_in ?ctx) = 64" "ctx_bits0 ?ctx = ctx_bits0 ctx" "ctx_bits1 ?ctx = ctx_bits1 ctx"
      "ctx_buf ?ctx = MD5Transform (ctx_buf ctx) (words_of (take 64 b))"
      using 1(2) True by (simp_all add: transform_in_def memcpy_at_def)
    have "compress (ctx_buf ctx) b = compress (ctx_buf ?ctx) (drop 64 b)"
      using compress_block [of "take 64 b" "ctx_buf ctx" "drop 64 b"] True c(4) by simp
    moreover have "length (drop 64 b) mod 64 = length b mod 64"
      using True by (simp add: le_mod_geq)
    moreover have "update_loop ctx b = update_loop ?ctx (drop 64 b)"
      using True by (simp add: update_loop.simps [of ctx b])
    ultimately show ?thesis
      using 1(1) [OF True c(1)] c unblocked_step [OF True] by simp
  next
    case False
    then show ?thesis
      using 1(2) by (simp add: update_loop.simps [of ctx b] memcpy_at_def compress_short unblocked_short)
  qed
qed

section \<open>The context stands for the bytes it was fed\<close>

definition digests :: "md5_ctx \<Rightarrow> u8 list \<Rightarrow> bool" where
  "digests ctx m \<longleftrightarrow>
     ctx_buf ctx = compress md5_init m \<and>
     ctx_bits0 ctx = of_nat (8 * length m) \<and> ctx_bits1 ctx = of_nat (8 * length m div 2 ^ 32) \<and>
     length (ctx_in ctx) = 64 \<and> take (length m mod 64) (ctx_in ctx) = unblocked m"

lemma MD5Init_digests: "length (ctx_in garbage) = 64 \<Longrightarrow> digests (MD5Init garbage) []"
  by (simp add: digests_def MD5Init_def md5_init_def compress_short unblocked_def)

text \<open>The bit count: the number of bytes in the buffer, and the carry into the high word.\<close>

lemma buffered_bytes: "unat (drop_bit 3 (of_nat (8 * M) :: u32) AND 0x3f) = M mod 64"
proof -
  let ?w = "of_nat (8 * M) :: u32"
  have "unat ?w = 8 * M mod 2 ^ 32" by (simp add: unsigned_of_nat take_bit_eq_mod del: of_nat_mult)
  also have "\<dots> = 8 * (M mod 2 ^ 29)" using mult_mod_right [of 8 M "2 ^ 29"] by simp
  finally have "unat ?w div 2 ^ 3 = M mod 2 ^ 29" by simp
  then have "unat (drop_bit 3 ?w) = M mod 2 ^ 29"
    by (simp add: drop_bit_eq_div unat_div del: of_nat_mult)
  moreover have "drop_bit 3 ?w AND 0x3f = take_bit 6 (drop_bit 3 ?w)"
    by (simp add: take_bit_eq_mask mask_numeral del: of_nat_mult)
  ultimately have "unat (drop_bit 3 ?w AND 0x3f) = M mod 2 ^ 29 mod 2 ^ 6"
    by (simp add: take_bit_eq_mod unat_mod del: of_nat_mult)
  then show ?thesis by (simp add: mod_mod_cancel)
qed

lemma bit_count_carry:
  fixes M L :: nat
  assumes "L < 2 ^ 32"
  defines "t \<equiv> of_nat (8 * M) :: u32" and "l \<equiv> of_nat L :: u32"
  shows "t + push_bit 3 l = of_nat (8 * (M + L))"
    and "of_nat (8 * M div 2 ^ 32) + (if t + push_bit 3 l < t then 1 else 0) + drop_bit 29 l
      = (of_nat (8 * (M + L) div 2 ^ 32) :: u32)"
proof -
  let ?a = "8 * M mod 2 ^ 32" and ?b = "8 * L mod 2 ^ 32"
  show sum: "t + push_bit 3 l = of_nat (8 * (M + L))"
    by (simp add: t_def l_def push_bit_eq_mult)
  have small: "?a < 2 ^ 32" "?b < 2 ^ 32" by simp_all
  have u32: "unat (of_nat n :: u32) = n mod 2 ^ 32" for n by (simp add: unat_of_nat)
  have "8 * (M + L) mod 2 ^ 32 = (?a + ?b) mod 2 ^ 32"
    unfolding distrib_left by (rule mod_add_eq [symmetric])
  then have "unat t = ?a" "unat (t + push_bit 3 l) = (?a + ?b) mod 2 ^ 32"
    unfolding sum by (simp_all only: t_def u32)
  then have "t + push_bit 3 l < t \<longleftrightarrow> (?a + ?b) mod 2 ^ 32 < ?a"
    by (simp only: word_less_nat_alt)
  also have "\<dots> \<longleftrightarrow> 2 ^ 32 \<le> ?a + ?b"
  proof (cases "?a + ?b < 2 ^ 32")
    case False
    then have "(?a + ?b) mod 2 ^ 32 = ?a + ?b - 2 ^ 32" using small by (subst le_mod_geq) simp_all
    with False small show ?thesis by linarith
  qed simp
  finally have wraps: "t + push_bit 3 l < t \<longleftrightarrow> 2 ^ 32 \<le> ?a + ?b" .
  have carry: "(if t + push_bit 3 l < t then 1 else 0) = (of_nat ((?a + ?b) div 2 ^ 32) :: u32)"
  proof -
    have "(?a + ?b) div 2 ^ 32 = (if 2 ^ 32 \<le> ?a + ?b then 1 else 0)"
      using small by (auto simp: div_eq_0_iff intro!: div_nat_eqI)
    with wraps show ?thesis by simp
  qed
  have "drop_bit 29 l = of_nat (8 * L div 2 ^ 32)"
  proof -
    have "drop_bit 29 l = of_nat (unat l div 2 ^ 29)"
      by (simp add: drop_bit_eq_div word_arith_nat_div)
    moreover have "unat l = L" using assms(1) by (simp add: l_def u32)
    moreover have "8 * L div 2 ^ 32 = L div 2 ^ 29" using div_mult_mult1 [of 8 L "2 ^ 29"] by simp
    ultimately show ?thesis by simp
  qed
  then show "of_nat (8 * M div 2 ^ 32) + (if t + push_bit 3 l < t then 1 else 0) + drop_bit 29 l
      = (of_nat (8 * (M + L) div 2 ^ 32) :: u32)"
    unfolding carry using div_add1_eq [of "8 * M" "8 * L" "2 ^ 32"] by (simp add: algebra_simps)
qed

lemma MD5Update_digests:
  assumes "digests ctx m" "length b < 2 ^ 32"
  shows "digests (MD5Update ctx b) (m @ b)"
proof -
  let ?n = "length m mod 64"
  define c where "c = ctx\<lparr>ctx_bits0 := of_nat (8 * length (m @ b)), ctx_bits1 := of_nat (8 * length (m @ b) div 2 ^ 32)\<rparr>"
  note d = assms(1) [unfolded digests_def]
  have n: "unat (drop_bit 3 (ctx_bits0 ctx) AND 0x3f) = ?n" using d buffered_bytes by simp
  let ?t = "ctx_bits0 ctx" and ?l = "of_nat (length b) :: u32"
  let ?c1 = "ctx\<lparr>ctx_bits0 := ?t + push_bit 3 ?l\<rparr>"
  let ?c2 = "if ctx_bits0 ?c1 < ?t then ?c1\<lparr>ctx_bits1 := ctx_bits1 ?c1 + 1\<rparr> else ?c1"
  have counted: "?c2\<lparr>ctx_bits1 := ctx_bits1 ?c2 + drop_bit 29 ?l\<rparr> = c"
    using bit_count_carry [OF assms(2), of "length m"] d
    by (cases "?t + push_bit 3 ?l < ?t") (simp_all add: c_def del: of_nat_mult of_nat_add)
  have update: "MD5Update ctx b =
      (if ?n \<noteq> 0
       then if length b < 64 - ?n then c\<lparr>ctx_in := memcpy_at ?n b (ctx_in c)\<rparr>
            else update_loop (transform_in (c\<lparr>ctx_in := memcpy_at ?n (take (64 - ?n) b) (ctx_in c)\<rparr>)) (drop (64 - ?n) b)
       else update_loop c b)"
    unfolding MD5Update_def Let_def counted n ..
  have c: "ctx_buf c = compress md5_init m" "length (ctx_in c) = 64" "take ?n (ctx_in c) = unblocked m"
    using d by (simp_all add: c_def)
  have len: "length (unblocked m) = ?n" by simp
  have whole: "compress md5_init (m @ b) = compress (ctx_buf c) (unblocked m @ b)"
    "unblocked (m @ b) = unblocked (unblocked m @ b)"
    using compress_append [of md5_init m b] c(1) by simp_all
  have mods: "length (m @ b) mod 64 = length (unblocked m @ b) mod 64" by (simp add: mod_add_left_eq)
  show ?thesis
  proof (cases "?n = 0")
    case True
    then have "unblocked m = []" using len by (metis length_0_conv)
    with update_loop_ok [OF c(2), of b] update True whole mods show ?thesis
      by (simp add: digests_def c_def)
  next
    case False
    show ?thesis
    proof (cases "length b < 64 - ?n")
      case True
      then have "length (unblocked m @ b) < 64" by simp
      with True False update whole mods c show ?thesis
        by (simp add: digests_def compress_short unblocked_short memcpy_at_def c_def)
    next
      case long: False
      let ?r = "64 - ?n"
      have block: "length (unblocked m @ take ?r b) = 64" using long by simp
      have split: "unblocked m @ b = (unblocked m @ take ?r b) @ drop ?r b" by simp
      let ?c = "transform_in (c\<lparr>ctx_in := memcpy_at ?n (take ?r b) (ctx_in c)\<rparr>)"
      have "memcpy_at ?n (take ?r b) (ctx_in c) = unblocked m @ take ?r b"
        using c long by (simp add: memcpy_at_def)
      then have c': "length (ctx_in ?c) = 64" "ctx_buf ?c = MD5Transform (ctx_buf c) (words_of (unblocked m @ take ?r b))"
        "ctx_bits0 ?c = ctx_bits0 c" "ctx_bits1 ?c = ctx_bits1 c"
        using block by (simp_all add: transform_in_def)
      have "compress (ctx_buf c) (unblocked m @ b) = compress (ctx_buf ?c) (drop ?r b)"
        unfolding split compress_block [OF block] c'(2) ..
      then have "compress md5_init (m @ b) = compress (ctx_buf ?c) (drop ?r b)" using whole(1) by (rule trans [rotated])
      moreover have "unblocked (unblocked m @ b) = unblocked (drop ?r b)"
        using unblocked_step [of "unblocked m @ b"] block long by simp
      then have "unblocked (m @ b) = unblocked (drop ?r b)" using whole(2) by (rule trans [rotated])
      moreover have "length (unblocked m @ b) mod 64 = length (drop ?r b) mod 64"
        using long le_mod_geq [of 64 "?n + length b"] by (simp add: add.commute)
      then have "length (m @ b) mod 64 = length (drop ?r b) mod 64" using mods by (rule trans [rotated])
      moreover have "MD5Update ctx b = update_loop ?c (drop ?r b)"
        using False long unfolding update by (simp only: if_False if_True not_False_eq_True)
      moreover have "ctx_bits0 ?c = of_nat (8 * length (m @ b))" "ctx_bits1 ?c = of_nat (8 * length (m @ b) div 2 ^ 32)"
        unfolding c'(3,4) by (simp_all add: c_def)
      ultimately show ?thesis
        unfolding digests_def using update_loop_ok [OF c'(1), of "drop ?r b"] by metis
    qed
  qed
qed

lemma bit_count_bytes:
  "le_bytes 8 (of_nat n :: u64) = le_bytes 4 (of_nat n :: u32) @ le_bytes 4 (of_nat (n div 2 ^ 32) :: u32)"
proof (rule nth_equalityI)
  show "length (le_bytes 8 (of_nat n :: u64)) = length (le_bytes 4 (of_nat n :: u32) @ le_bytes 4 (of_nat (n div 2 ^ 32) :: u32))"
    by simp
next
  fix i assume "i < length (le_bytes 8 (of_nat n :: u64))"
  then have i: "i < 8" by simp
  show "le_bytes 8 (of_nat n :: u64) ! i = (le_bytes 4 (of_nat n :: u32) @ le_bytes 4 (of_nat (n div 2 ^ 32) :: u32)) ! i"
  proof (rule bit_word_eqI)
    fix k assume "k < LENGTH(8)"
    then have k: "k < 8" by simp
    have "n div 2 ^ 32 = drop_bit 32 n" by (simp add: drop_bit_eq_div)
    then show "bit (le_bytes 8 (of_nat n :: u64) ! i) k
        = bit ((le_bytes 4 (of_nat n :: u32) @ le_bytes 4 (of_nat (n div 2 ^ 32) :: u32)) ! i) k"
      using i k by (auto simp: le_bytes_def nth_append bit_simps ac_simps algebra_simps)
  qed
qed

lemma padding_zeros: "n < 56 \<Longrightarrow> (119 - n) mod 64 = 55 - n" for n :: nat
  by (subst le_mod_geq) simp_all

lemma two_blocks_zeros: "56 \<le> n \<Longrightarrow> n < 64 \<Longrightarrow> (119 - n) mod 64 = 63 - n + 56" for n :: nat
  by simp

lemma memcpy_at_append: "length a = k \<Longrightarrow> memcpy_at k bs (a @ r) = (a @ bs) @ drop (length bs) r"
  by (simp add: memcpy_at_def)

lemma MD5Final_digests:
  assumes "digests ctx m"
  shows "fst (MD5Final ctx) = md5_whole m"
proof -
  let ?n = "length m mod 64" and ?len = "le_bytes 4 (ctx_bits0 ctx) @ le_bytes 4 (ctx_bits1 ctx)"
  note d = assms [unfolded digests_def]
  have n: "unat (drop_bit 3 (ctx_bits0 ctx) AND 0x3F) = ?n" using d buffered_bytes by simp
  have len: "le_bytes 8 (of_nat (8 * length m) :: u64) = ?len" using bit_count_bytes [of "8 * length m"] d by (simp only: d)
  obtain r where r: "ctx_in ctx = unblocked m @ r" using d by (metis append_take_drop_id)
  then have lr: "length r = 64 - ?n" using d by (metis add_diff_cancel_left' length_append length_unblocked)
  have pad: "compress md5_init (md5_pad m)
      = compress (ctx_buf ctx) (unblocked m @ [0x80] @ replicate ((119 - ?n) mod 64) 0 @ ?len)"
    unfolding md5_pad_def len using compress_append [of md5_init m] d by simp
  have le: "length ?len = 8" by simp
  show ?thesis
  proof (cases "?n < 56")
    case True
    then have "(119 - ?n) mod 64 = 55 - ?n" by (rule padding_zeros)
    with True pad have "compress md5_init (md5_pad m)
        = MD5Transform (ctx_buf ctx) (words_of (unblocked m @ [0x80] @ replicate (55 - ?n) 0 @ ?len))"
      using compress_block [of "unblocked m @ [0x80] @ replicate (55 - ?n) 0 @ ?len" "ctx_buf ctx" "[]"]
      by (simp add: compress_short)
    moreover have "memcpy_at 56 ?len (memcpy_at (?n + 1) (replicate (63 - ?n - 8) 0) (memcpy_at ?n [0x80] (ctx_in ctx)))
        = unblocked m @ [0x80] @ replicate (55 - ?n) 0 @ ?len"
      unfolding r using True lr by (simp add: memcpy_at_append del: append_assoc)
    moreover have "\<not> 63 - ?n < 8" using True by simp
    ultimately show ?thesis
      by (simp add: MD5Final_def n Let_def transform_in_def md5_whole_def)
  next
    case False
    have "(119 - ?n) mod 64 = (63 - ?n) + 56" using False by (intro two_blocks_zeros) simp_all
    then have "unblocked m @ [0x80] @ replicate ((119 - ?n) mod 64) 0 @ ?len
        = (unblocked m @ [0x80] @ replicate (63 - ?n) 0) @ (replicate 56 0 @ ?len)"
      by (simp only: replicate_add append_assoc)
    with pad have "compress md5_init (md5_pad m)
        = MD5Transform (MD5Transform (ctx_buf ctx) (words_of (unblocked m @ [0x80] @ replicate (63 - ?n) 0)))
            (words_of (replicate 56 0 @ ?len))"
      using compress_block [of "unblocked m @ [0x80] @ replicate (63 - ?n) 0" "ctx_buf ctx" "replicate 56 0 @ ?len"]
        compress_block [of "replicate 56 0 @ ?len" _ "[]"]
      by (simp add: compress_short)
    moreover have "memcpy_at (?n + 1) (replicate (63 - ?n) 0) (memcpy_at ?n [0x80] (ctx_in ctx))
        = unblocked m @ [0x80] @ replicate (63 - ?n) 0"
      unfolding r using lr by (simp add: memcpy_at_append del: append_assoc)
    moreover have "memcpy_at 56 ?len (memcpy_at 0 (replicate 56 0) x) = replicate 56 0 @ ?len"
      if "length x = 64" for x :: "u8 list" using that by (simp add: memcpy_at_def)
    moreover have "63 - ?n < 8" using False by simp
    ultimately show ?thesis
      by (simp add: MD5Final_def n Let_def transform_in_def md5_whole_def)
  qed
qed

text \<open>However the message is cut into pieces, the context computes the digest of the whole.\<close>

lemma MD5_pieces:
  assumes "length (ctx_in garbage) = 64" "\<forall>b \<in> set pieces. length b < 2 ^ 32"
  shows "fst (MD5Final (fold (\<lambda>b ctx. MD5Update ctx b) pieces (MD5Init garbage))) = md5_whole (concat pieces)"
proof -
  have "digests (fold (\<lambda>b ctx. MD5Update ctx b) pieces ctx) (m @ concat pieces)"
    if "digests ctx m" for ctx m
    using that assms(2)
  proof (induction pieces arbitrary: ctx m)
    case (Cons b pieces)
    then show ?case using MD5Update_digests [of ctx m b] by (metis append.assoc concat.simps(2) fold_simps(2) list.set_intros)
  qed simp
  from this [OF MD5Init_digests [OF assms(1)]] show ?thesis using MD5Final_digests by fastforce
qed

lemma MD5_16_whole:
  assumes "length (ctx_in garbage) = 64" "length msg < 2 ^ 32"
  shows "MD5_16 garbage msg = md5_whole msg"
  using MD5_pieces [OF assms(1), of "[msg]"] assms(2) by (simp add: MD5_16_def)

lemma length_md5_whole [simp]: "length (md5_whole m) = 16"
  by (simp add: md5_whole_def state_bytes_def split: prod.split)

lemma length_bin2hex: "length (bin2hex p) = 2 * length p"
  by (induction p) (simp_all add: bin2hex_def)

end
