(* ===== verification/Md5_Rfc.thy ===== *)
theory Md5_Rfc
  imports Complex_Main Md5_Digest
begin

text \<open>
  MD5 as RFC 1321 describes it, written down without the code: the functions F, G, H and I, the
  words and shifts of the 64 steps, and the constants, the integer parts of \<open>2^32\<close> times the absolute value of the sine of
  1 to 64. The macros, constants and shifts of \<open>MD5.cpp\<close> are then shown to compute it, so that the digest of the code is the one
  of the RFC.
\<close>

section \<open>The RFC\<close>

definition rfc_T :: "nat \<Rightarrow> u32" where
  "rfc_T i = of_int \<lfloor>2 ^ 32 * \<bar>sin (real i)\<bar>\<rfloor>"

definition rfc_fun :: "nat \<Rightarrow> u32 \<Rightarrow> u32 \<Rightarrow> u32 \<Rightarrow> u32" where
  "rfc_fun r x y z =
     (if r = 0 then (x AND y) OR (NOT x AND z)
      else if r = 1 then (x AND z) OR (y AND NOT z)
      else if r = 2 then x XOR y XOR z
      else y XOR (x OR NOT z))"

definition rfc_index :: "nat \<Rightarrow> nat" where
  "rfc_index j =
     (if j div 16 = 0 then j mod 16 else if j div 16 = 1 then (5 * j + 1) mod 16
      else if j div 16 = 2 then (3 * j + 5) mod 16 else 7 * j mod 16)"

definition rfc_shift :: "nat \<Rightarrow> nat" where
  "rfc_shift j = [[7, 12, 17, 22], [5, 9, 14, 20], [4, 11, 16, 23], [6, 10, 15, 21]] ! (j div 16) ! (j mod 4)"

text \<open>Step \<open>j\<close>, from 0: \<open>a = b + ((a + f(b,c,d) + X[k] + T[j + 1]) <<< s)\<close>, then the registers change their roles.\<close>

definition rfc_step :: "u32 list \<Rightarrow> nat \<Rightarrow> md5_state \<Rightarrow> md5_state" where
  "rfc_step X j = (\<lambda>(a, b, c, d).
     (d, b + word_rotl (rfc_shift j) (a + rfc_fun (j div 16) b c d + X ! rfc_index j + rfc_T (j + 1)), b, c))"

definition rfc_block :: "u32 list \<Rightarrow> md5_state \<Rightarrow> md5_state" where
  "rfc_block X st =
     (case (st, fold (rfc_step X) [0..<64] st) of
        ((aa, bb, cc, dd), (a, b, c, d)) \<Rightarrow> (aa + a, bb + b, cc + c, dd + d))"

text \<open>
  The message is padded with a one bit and zeros to 56 bytes modulo 64 and with its length in bits modulo \<open>2^64\<close>; each 64 bytes are sixteen
  words, low byte first, and so are the four words of the result.
\<close>

function rfc_blocks :: "u8 list \<Rightarrow> md5_state \<Rightarrow> md5_state" where
  "rfc_blocks m st = (if length m < 64 then st else rfc_blocks (drop 64 m) (rfc_block (words_of (take 64 m)) st))"
  by pat_completeness auto
termination
  by (relation "measure (\<lambda>(m, st). length m)") auto

declare rfc_blocks.simps [simp del]

definition rfc_md5 :: "u8 list \<Rightarrow> u8 list" where
  "rfc_md5 m =
     (let zeros = (56 + 64 - (length m + 1) mod 64) mod 64;
          padded = m @ [0x80] @ replicate zeros 0 @ le_bytes 8 (of_nat (8 * length m) :: u64)
      in state_bytes (rfc_blocks padded (0x67452301, 0xefcdab89, 0x98badcfe, 0x10325476)))"

section \<open>The constants are sines\<close>

text \<open>
  Chebyshev's recurrence \<open>sin (n + 2) = 2 cos 1 sin (n + 1) - sin n\<close> in integers scaled by \<open>2^192\<close>, with the error at most four times
  larger after each step.
\<close>

definition cos1 :: int where "cos1 = 3391532541798325009655159465099825549094561982098022253495"
definition sin1 :: int where "sin1 = 5281998979015186446760032743853080903494816384767149312845"

lemma cos1_bound: "\<bar>2 ^ 192 * cos 1 - of_int cos1\<bar> \<le> (2 :: real)"
proof -
  obtain t :: real where "cos 1 = (\<Sum>m<48. cos_coeff m * 1 ^ m) + cos (t + 1/2 * real 48 * pi) / fact 48 * 1 ^ 48"
    using Maclaurin_cos_expansion [of 1 48] by blast
  moreover have "\<bar>2 ^ 192 * (\<Sum>m<48. cos_coeff m * 1 ^ m) - of_int cos1\<bar> \<le> (1 :: real)"
    by (simp add: cos1_def cos_coeff_def lessThan_nat_numeral lessThan_Suc fact_numeral abs_le_iff)
  moreover have "\<bar>2 ^ 192 * (x / fact 48)\<bar> \<le> (1 :: real)" if "\<bar>x\<bar> \<le> 1" for x
    using that by (simp add: fact_numeral abs_le_iff)
  then have "\<bar>2 ^ 192 * (cos (t + 1/2 * real 48 * pi) / fact 48)\<bar> \<le> (1 :: real)" by simp
  ultimately show ?thesis by (simp only: distrib_left power_one mult_1_right)
qed

lemma sin1_bound: "\<bar>2 ^ 192 * sin 1 - of_int sin1\<bar> \<le> (2 :: real)"
proof -
  have "\<bar>sin 1 - (\<Sum>m<48. sin_coeff m * 1 ^ m)\<bar> \<le> inverse (fact 48) * \<bar>1 :: real\<bar> ^ 48"
    by (rule Maclaurin_sin_bound)
  then have "2 ^ 192 * \<bar>sin 1 - (\<Sum>m<48. sin_coeff m * 1 ^ m)\<bar> \<le> 2 ^ 192 * (inverse (fact 48) * \<bar>1 :: real\<bar> ^ 48)"
    by (rule mult_left_mono) simp
  moreover have "2 ^ 192 * (inverse (fact 48) * \<bar>1 :: real\<bar> ^ 48) \<le> 1" by (simp add: fact_numeral)
  moreover have "\<bar>2 ^ 192 * (\<Sum>m<48. sin_coeff m * 1 ^ m) - of_int sin1\<bar> \<le> (1 :: real)"
    by (simp add: sin1_def sin_coeff_def lessThan_nat_numeral lessThan_Suc fact_numeral abs_le_iff)
  ultimately show ?thesis by (simp only: abs_le_iff abs_mult) (simp add: abs_if algebra_simps split: if_splits)
qed

lemma sin_recurrence: "sin (x + 2) = 2 * cos 1 * sin (x + 1) - sin (x :: real)"
  using sin_add [of "x + 1" 1] sin_diff [of "x + 1" 1] by (simp add: add.assoc)

fun sines :: "int \<Rightarrow> int \<Rightarrow> int \<Rightarrow> int list \<Rightarrow> bool" where
  "sines e a b [] = True"
| "sines e a b (t # ts) =
     (t * 2 ^ 192 \<le> 2 ^ 32 * (\<bar>b\<bar> - e) \<and> 2 ^ 32 * (\<bar>b\<bar> + e) < (t + 1) * 2 ^ 192 \<and> e \<le> 2 ^ 192 \<and>
      sines (4 * e) b ((2 * cos1 * b) div 2 ^ 192 - a) ts)"

lemma sine_step:
  fixes a b e :: int and x :: real
  assumes a: "\<bar>2 ^ 192 * sin x - of_int a\<bar> \<le> of_int e / 4" and b: "\<bar>2 ^ 192 * sin (x + 1) - of_int b\<bar> \<le> of_int e"
    and e: "16 \<le> e" "e \<le> 2 ^ 192"
  shows "\<bar>2 ^ 192 * sin (x + 2) - of_int ((2 * cos1 * b) div 2 ^ 192 - a)\<bar> \<le> of_int (4 * e)"
proof -
  define K :: real where "K = 2 ^ 192"
  define q where "q = (2 * cos1 * b) div 2 ^ 192"
  have K: "0 < K" by (simp add: K_def)
  have "real_of_int e \<le> real_of_int (2 ^ 192)" using e(2) by (simp only: of_int_le_iff)
  with e(1) have e': "16 \<le> real_of_int e" "real_of_int e \<le> K" by (simp_all add: K_def)
  have "q = \<lfloor>2 * real_of_int cos1 * real_of_int b / K\<rfloor>"
    unfolding q_def K_def using floor_divide_of_int_eq [of "2 * cos1 * b" "2 ^ 192", where 'a = real] by simp
  then have q: "\<bar>2 * real_of_int cos1 * real_of_int b / K - of_int q\<bar> \<le> 1" by linarith
  have "\<bar>2 ^ 192 * sin (x + 1)\<bar> \<le> K" using abs_sin_le_one [of "x + 1"] by (simp add: K_def abs_mult)
  then have b2: "\<bar>real_of_int b\<bar> \<le> 2 * K" using b e' by linarith
  have "\<bar>K * cos 1 - of_int cos1\<bar> * \<bar>real_of_int b\<bar> \<le> 2 * (2 * K)"
    using mult_mono [OF cos1_bound b2] by (simp add: K_def)
  then have "\<bar>(K * cos 1 - of_int cos1) * real_of_int b\<bar> / K \<le> 4"
    using K by (simp add: abs_mult pos_divide_le_eq)
  then have c: "\<bar>(K * cos 1 - of_int cos1) * real_of_int b / K\<bar> \<le> 4" using K by simp
  have "\<bar>cos 1\<bar> * \<bar>K * sin (x + 1) - of_int b\<bar> \<le> 1 * of_int e"
    using b by (intro mult_mono) (simp_all add: K_def)
  then have d: "\<bar>cos 1 * (K * sin (x + 1) - of_int b)\<bar> \<le> of_int e" by (simp add: abs_mult)
  have "K * sin (x + 2) - of_int (q - a) =
      2 * (cos 1 * (K * sin (x + 1) - of_int b)) + 2 * ((K * cos 1 - of_int cos1) * real_of_int b / K)
      + (2 * real_of_int cos1 * real_of_int b / K - of_int q) - (K * sin x - of_int a)"
    using K unfolding sin_recurrence by (simp add: field_simps)
  then have "\<bar>K * sin (x + 2) - of_int (q - a)\<bar> \<le> 2 * of_int e + 8 + 1 + of_int e / 4"
    using c d q a unfolding K_def by linarith
  then show ?thesis using e' unfolding K_def q_def by simp
qed

lemma sines_sound:
  assumes "sines e a b ts" "\<bar>2 ^ 192 * sin (real n) - of_int a\<bar> \<le> of_int e / 4"
    "\<bar>2 ^ 192 * sin (real n + 1) - of_int b\<bar> \<le> of_int e" "16 \<le> e" "i < length ts"
  shows "\<lfloor>2 ^ 32 * \<bar>sin (real (n + 1 + i))\<bar>\<rfloor> = ts ! i"
  using assms
proof (induction ts arbitrary: e a b n i)
  case (Cons t ts)
  show ?case
  proof (cases i)
    case 0
    have t: "t * 2 ^ 192 \<le> 2 ^ 32 * (\<bar>b\<bar> - e)" "2 ^ 32 * (\<bar>b\<bar> + e) < (t + 1) * 2 ^ 192" using Cons.prems(1) by simp_all
    have "real_of_int (t * 2 ^ 192) \<le> real_of_int (2 ^ 32 * (\<bar>b\<bar> - e))"
      "real_of_int (2 ^ 32 * (\<bar>b\<bar> + e)) < real_of_int ((t + 1) * 2 ^ 192)"
      using t by (simp_all only: of_int_le_iff of_int_less_iff)
    moreover have "\<bar>real_of_int b\<bar> - of_int e \<le> 2 ^ 192 * \<bar>sin (real n + 1)\<bar>" "2 ^ 192 * \<bar>sin (real n + 1)\<bar> \<le> \<bar>real_of_int b\<bar> + of_int e"
      using Cons.prems(3) by (simp_all add: abs_if split: if_splits)
    ultimately have "real_of_int t \<le> 2 ^ 32 * \<bar>sin (real n + 1)\<bar>" "2 ^ 32 * \<bar>sin (real n + 1)\<bar> < real_of_int t + 1"
      by simp_all
    then show ?thesis using 0 by (simp add: floor_eq_iff add.commute)
  next
    case (Suc j)
    have "\<bar>2 ^ 192 * sin (real n + 2) - of_int ((2 * cos1 * b) div 2 ^ 192 - a)\<bar> \<le> of_int (4 * e)"
      using Cons.prems by (intro sine_step) simp_all
    then show ?thesis
      using Cons.IH [of "4 * e" b "(2 * cos1 * b) div 2 ^ 192 - a" "n + 1" j] Cons.prems Suc
      by (simp add: add.commute add.left_commute)
  qed
qed simp

definition rfc_table :: "int list" where
  "rfc_table = [
     0xd76aa478, 0xe8c7b756, 0x242070db, 0xc1bdceee,
     0xf57c0faf, 0x4787c62a, 0xa8304613, 0xfd469501,
     0x698098d8, 0x8b44f7af, 0xffff5bb1, 0x895cd7be,
     0x6b901122, 0xfd987193, 0xa679438e, 0x49b40821,
     0xf61e2562, 0xc040b340, 0x265e5a51, 0xe9b6c7aa,
     0xd62f105d, 0x02441453, 0xd8a1e681, 0xe7d3fbc8,
     0x21e1cde6, 0xc33707d6, 0xf4d50d87, 0x455a14ed,
     0xa9e3e905, 0xfcefa3f8, 0x676f02d9, 0x8d2a4c8a,
     0xfffa3942, 0x8771f681, 0x6d9d6122, 0xfde5380c,
     0xa4beea44, 0x4bdecfa9, 0xf6bb4b60, 0xbebfbc70,
     0x289b7ec6, 0xeaa127fa, 0xd4ef3085, 0x04881d05,
     0xd9d4d039, 0xe6db99e5, 0x1fa27cf8, 0xc4ac5665,
     0xf4292244, 0x432aff97, 0xab9423a7, 0xfc93a039,
     0x655b59c3, 0x8f0ccc92, 0xffeff47d, 0x85845dd1,
     0x6fa87e4f, 0xfe2ce6e0, 0xa3014314, 0x4e0811a1,
     0xf7537e82, 0xbd3af235, 0x2ad7d2bb, 0xeb86d391]"

lemma rfc_T_table:
  assumes "j < 64"
  shows "rfc_T (j + 1) = of_int (rfc_table ! j)"
proof -
  have "sines 16 0 sin1 rfc_table" by code_simp
  moreover have "length rfc_table = 64" by (simp add: rfc_table_def)
  ultimately show ?thesis
    using sines_sound [of 16 0 sin1 rfc_table 0 j] sin1_bound assms by (simp add: rfc_T_def add.commute)
qed

section \<open>The code computes the RFC\<close>

lemma rfc_funs: "rfc_fun 0 = F1" "rfc_fun 1 = F2" "rfc_fun 2 = F3" "rfc_fun 3 = F4"
  unfolding rfc_fun_def F1_def F2_def F3_def F4_def
  by (intro ext; rule bit_word_eqI; auto simp: bit_simps)+

lemma rotate_left:
  fixes w :: u32
  assumes "s \<le> 32"
  shows "push_bit s w OR drop_bit (32 - s) w = word_rotl s w"
proof (rule bit_word_eqI)
  fix n assume "n < LENGTH(32)"
  then have n: "n < 32" by simp
  have l: "bit (push_bit s w OR drop_bit (32 - s) w) n \<longleftrightarrow> s \<le> n \<and> bit w (n - s) \<or> bit w (32 - s + n)"
    using n by (simp add: bit_simps)
  have r: "bit (word_rotl s w) n \<longleftrightarrow> bit w ((n + (32 - s mod 32)) mod 32)"
    using n by (simp add: bit_word_rotl_iff)
  consider "s = 32" | "s < 32" "s \<le> n" | "s < 32" "n < s" using assms by linarith
  then show "bit (push_bit s w OR drop_bit (32 - s) w) n = bit (word_rotl s w) n"
  proof cases
    case 2
    then have "(n + (32 - s mod 32)) mod 32 = n - s" using n by (simp add: mod_if)
    moreover have "\<not> bit w (32 - s + n)" using 2 bit_imp_le_length [of w "32 - s + n"] by auto
    ultimately show ?thesis unfolding l r using 2 by simp
  next
    case 3
    then have "(n + (32 - s mod 32)) mod 32 = 32 - s + n" by simp
    with 3 show ?thesis unfolding l r by simp
  qed (use l r n in simp)
qed

lemma md5_rounds_steps:
  "md5_steps1 = map (\<lambda>j. (rfc_index j, of_int (rfc_table ! j), rfc_shift j)) [0..<16]"
  "md5_steps2 = map (\<lambda>j. (rfc_index j, of_int (rfc_table ! j), rfc_shift j)) [16..<32]"
  "md5_steps3 = map (\<lambda>j. (rfc_index j, of_int (rfc_table ! j), rfc_shift j)) [32..<48]"
  "md5_steps4 = map (\<lambda>j. (rfc_index j, of_int (rfc_table ! j), rfc_shift j)) [48..<64]"
  by code_simp+

lemma md5_round_rfc:
  assumes "\<forall>j \<in> set js. j < 64 \<and> rfc_fun (j div 16) = f \<and> rfc_shift j \<le> 32"
  shows "md5_round f X (map (\<lambda>j. (rfc_index j, of_int (rfc_table ! j), rfc_shift j)) js) st = fold (rfc_step X) js st"
  using assms
proof (induction js arbitrary: st)
  case (Cons j js)
  obtain w x y z where st: "st = (w, x, y, z)" by (cases st)
  have "(z, MD5STEP f w x y z (X ! rfc_index j + of_int (rfc_table ! j)) (rfc_shift j), x, y) = rfc_step X j st"
    using Cons.prems rfc_T_table [of j]
    by (simp add: st rfc_step_def MD5STEP_def Let_def rotate_left ac_simps)
  then show ?case
    using Cons.IH [of "rfc_step X j st"] Cons.prems by (simp add: md5_round_def st)
qed (simp add: md5_round_def)

lemma shifts_small: "j < 64 \<Longrightarrow> rfc_shift j \<le> 32"
proof -
  have "\<forall>j \<in> set [0..<64]. rfc_shift j \<le> 32" by code_simp
  then show "j < 64 \<Longrightarrow> rfc_shift j \<le> 32" by simp
qed

lemma round_of: "16 * r \<le> j \<Longrightarrow> j < 16 * Suc r \<Longrightarrow> j div 16 = r" for j r :: nat
  by (simp add: div_nat_eqI)

lemma md5_rounds:
  "md5_round F1 X md5_steps1 st = fold (rfc_step X) [0..<16] st"
  "md5_round F2 X md5_steps2 st = fold (rfc_step X) [16..<32] st"
  "md5_round F3 X md5_steps3 st = fold (rfc_step X) [32..<48] st"
  "md5_round F4 X md5_steps4 st = fold (rfc_step X) [48..<64] st"
  unfolding md5_rounds_steps
  using round_of [of 0] round_of [of 1] round_of [of 2] round_of [of 3] rfc_funs shifts_small
  by (auto intro!: md5_round_rfc simp del: upt_rec_numeral)

lemma MD5Transform_rfc: "MD5Transform st X = rfc_block X st"
proof -
  have "[0..<64] = [0..<16] @ [16..<32] @ [32..<48] @ [48..<64]" by code_simp
  then have "fold (rfc_step X) [0..<64] st = (md5_round F4 X md5_steps4 \<circ> md5_round F3 X md5_steps3
      \<circ> md5_round F2 X md5_steps2 \<circ> md5_round F1 X md5_steps1) st" (is "_ = ?last")
    by (simp only: fold_append comp_def md5_rounds)
  then show ?thesis
    unfolding MD5Transform_def rfc_block_def by (cases st; cases ?last) (simp only: prod.case)
qed

lemma compress_rfc: "compress st m = rfc_blocks m st"
proof (induction m st rule: rfc_blocks.induct)
  case (1 m st)
  then show ?case
    by (simp add: compress.simps [of st m] rfc_blocks.simps [of m st] MD5Transform_rfc)
qed

lemma padding_rfc: "(56 + 64 - (n + 1) mod 64) mod 64 = (119 - n mod 64) mod 64" for n :: nat
proof -
  have "n mod 64 < 64" by simp
  then show ?thesis by (cases "n mod 64 = 63") (auto simp: mod_Suc)
qed

lemma md5_whole_rfc: "md5_whole m = rfc_md5 m"
  unfolding md5_whole_def rfc_md5_def md5_pad_def Let_def md5_init_def compress_rfc padding_rfc ..

end
