(* ===== verification/Aes_Cipher.thy ===== *)
theory Aes_Cipher
  imports Aes_Tables
begin

text \<open>
  The block cipher of \<open>server/common/libtools/AesCore.cpp\<close>: the two key schedules for 128, 192
  and 256 bits and the encryption and decryption of a block with the loop that the source
  compiles (\<open>FULL_UNROLL\<close> is undefined there). Decrypting an encrypted block gives it back for
  every key, whatever the two \<open>AES_KEY\<close> structures held before.
\<close>

unbundle bit_operations_syntax

section \<open>Words and bytes\<close>

definition GETU32 :: "u8 list \<Rightarrow> nat \<Rightarrow> u32" where
  "GETU32 pt k =
     push_bit 24 (ucast (pt ! k)) XOR push_bit 16 (ucast (pt ! (k + 1)))
       XOR push_bit 8 (ucast (pt ! (k + 2))) XOR ucast (pt ! (k + 3))"

definition PUTU32 :: "u32 \<Rightarrow> u8 list" where
  "PUTU32 st = [ucast (drop_bit 24 st), ucast (drop_bit 16 st), ucast (drop_bit 8 st), ucast st]"

text \<open>The index of a table: \<open>w >> 24\<close>, \<open>(w >> 16) & 0xff\<close>, \<open>(w >> 8) & 0xff\<close> and \<open>w & 0xff\<close>.\<close>

definition ix3 :: "u32 \<Rightarrow> nat" where "ix3 w = unat (drop_bit 24 w)"
definition ix2 :: "u32 \<Rightarrow> nat" where "ix2 w = unat (drop_bit 16 w AND 0xff)"
definition ix1 :: "u32 \<Rightarrow> nat" where "ix1 w = unat (drop_bit 8 w AND 0xff)"
definition ix0 :: "u32 \<Rightarrow> nat" where "ix0 w = unat (w AND 0xff)"

section \<open>The key schedules\<close>

record aes_key =
  rd_key :: "u32 list"
  aes_rounds :: nat

text \<open>The words that start a group of the schedule: the last word rotated and substituted.\<close>

definition rot_sub :: "u32 \<Rightarrow> u32" where
  "rot_sub temp =
     (Te2 ! ix2 temp AND 0xff000000) XOR (Te3 ! ix1 temp AND 0x00ff0000)
       XOR (Te0 ! ix0 temp AND 0x0000ff00) XOR (Te1 ! ix3 temp AND 0x000000ff)"

definition word_sub :: "u32 \<Rightarrow> u32" where
  "word_sub temp =
     (Te2 ! ix3 temp AND 0xff000000) XOR (Te3 ! ix2 temp AND 0x00ff0000)
       XOR (Te0 ! ix1 temp AND 0x0000ff00) XOR (Te1 ! ix0 temp AND 0x000000ff)"

text \<open>\<open>rk[a] = rk[b] ^ rk[c]\<close>.\<close>

definition xor_to :: "nat \<Rightarrow> nat \<Rightarrow> nat \<Rightarrow> u32 list \<Rightarrow> u32 list" where
  "xor_to a b c rk = rk[a := rk ! b XOR rk ! c]"

text \<open>One turn of the loop for each key size; \<open>k\<close> is where \<open>rk\<close> points in turn \<open>i\<close>.\<close>

definition expand128 :: "nat \<Rightarrow> u32 list \<Rightarrow> u32 list" where
  "expand128 i rk =
     (let k = 4 * i;
          rk = rk[k + 4 := rk ! k XOR rot_sub (rk ! (k + 3)) XOR rcon ! i]
      in xor_to (k + 7) (k + 3) (k + 6) (xor_to (k + 6) (k + 2) (k + 5) (xor_to (k + 5) (k + 1) (k + 4) rk)))"

definition expand192 :: "nat \<Rightarrow> u32 list \<Rightarrow> u32 list" where
  "expand192 i rk =
     (let k = 6 * i;
          rk = rk[k + 6 := rk ! k XOR rot_sub (rk ! (k + 5)) XOR rcon ! i];
          rk = xor_to (k + 9) (k + 3) (k + 8) (xor_to (k + 8) (k + 2) (k + 7) (xor_to (k + 7) (k + 1) (k + 6) rk))
      in if i + 1 = 8 then rk
         else xor_to (k + 11) (k + 5) (k + 10) (xor_to (k + 10) (k + 4) (k + 9) rk))"

definition expand256 :: "nat \<Rightarrow> u32 list \<Rightarrow> u32 list" where
  "expand256 i rk =
     (let k = 8 * i;
          rk = rk[k + 8 := rk ! k XOR rot_sub (rk ! (k + 7)) XOR rcon ! i];
          rk = xor_to (k + 11) (k + 3) (k + 10) (xor_to (k + 10) (k + 2) (k + 9) (xor_to (k + 9) (k + 1) (k + 8) rk))
      in if i + 1 = 7 then rk
         else let rk = rk[k + 12 := rk ! (k + 4) XOR word_sub (rk ! (k + 11))]
              in xor_to (k + 15) (k + 7) (k + 14) (xor_to (k + 14) (k + 6) (k + 13) (xor_to (k + 13) (k + 5) (k + 12) rk)))"

definition load_key :: "u8 list \<Rightarrow> nat \<Rightarrow> u32 list \<Rightarrow> u32 list" where
  "load_key userKey n rk = fold (\<lambda>j rk. rk[j := GETU32 userKey (4 * j)]) [0..<n] rk"

definition key_words :: "u8 list \<Rightarrow> int \<Rightarrow> u32 list \<Rightarrow> u32 list" where
  "key_words userKey bits rk =
     (if bits = 128 then fold expand128 [0..<10] (load_key userKey 4 rk)
      else if bits = 192 then fold expand192 [0..<8] (load_key userKey 6 rk)
      else fold expand256 [0..<7] (load_key userKey 8 rk))"

text \<open>The status and the structure; a null pointer is \<open>None\<close>.\<close>

definition AES_set_encrypt_key :: "u8 list option \<Rightarrow> int \<Rightarrow> aes_key option \<Rightarrow> int \<times> aes_key option" where
  "AES_set_encrypt_key userKey bits key =
     (case (userKey, key) of
        (Some u, Some k) \<Rightarrow>
          if bits \<noteq> 128 \<and> bits \<noteq> 192 \<and> bits \<noteq> 256 then (-2, key)
          else (0, Some (k\<lparr>aes_rounds := if bits = 128 then 10 else if bits = 192 then 12 else 14,
                           rd_key := key_words u bits (rd_key k)\<rparr>))
      | _ \<Rightarrow> (-1, key))"

definition swap4 :: "nat \<Rightarrow> nat \<Rightarrow> u32 list \<Rightarrow> u32 list" where
  "swap4 i j rk = fold (\<lambda>q rk. rk[i + q := rk ! (j + q), j + q := rk ! (i + q)]) [0..<4] rk"

function reverse_keys :: "nat \<Rightarrow> nat \<Rightarrow> u32 list \<Rightarrow> u32 list" where
  "reverse_keys i j rk = (if i < j then reverse_keys (i + 4) (j - 4) (swap4 i j rk) else rk)"
  by pat_completeness auto
termination
  by (relation "measure (\<lambda>(i, j, rk). j - i)") auto

declare reverse_keys.simps [simp del]

definition inv_mix_word :: "u32 \<Rightarrow> u32" where
  "inv_mix_word w =
     Td0 ! unat (Te1 ! ix3 w AND 0xff) XOR Td1 ! unat (Te1 ! ix2 w AND 0xff)
       XOR Td2 ! unat (Te1 ! ix1 w AND 0xff) XOR Td3 ! unat (Te1 ! ix0 w AND 0xff)"

definition inv_mix_round :: "nat \<Rightarrow> u32 list \<Rightarrow> u32 list" where
  "inv_mix_round i rk = fold (\<lambda>q rk. rk[4 * i + q := inv_mix_word (rk ! (4 * i + q))]) [0..<4] rk"

definition AES_set_decrypt_key :: "u8 list option \<Rightarrow> int \<Rightarrow> aes_key option \<Rightarrow> int \<times> aes_key option" where
  "AES_set_decrypt_key userKey bits key =
     (case AES_set_encrypt_key userKey bits key of
        (status, key) \<Rightarrow>
          if status < 0 then (status, key)
          else (0, map_option (\<lambda>k. k\<lparr>rd_key := fold inv_mix_round [1..<aes_rounds k]
                                         (reverse_keys 0 (4 * aes_rounds k) (rd_key k))\<rparr>) key))"

section \<open>A block\<close>

type_synonym aes_state = "u32 \<times> u32 \<times> u32 \<times> u32"

definition load_state :: "u8 list \<Rightarrow> u32 list \<Rightarrow> aes_state" where
  "load_state inp rk =
     (GETU32 inp 0 XOR rk ! 0, GETU32 inp 4 XOR rk ! 1, GETU32 inp 8 XOR rk ! 2, GETU32 inp 12 XOR rk ! 3)"

definition store_state :: "aes_state \<Rightarrow> u8 list" where
  "store_state s = (case s of (s0, s1, s2, s3) \<Rightarrow> PUTU32 s0 @ PUTU32 s1 @ PUTU32 s2 @ PUTU32 s3)"

definition enc_round :: "u32 list \<Rightarrow> nat \<Rightarrow> aes_state \<Rightarrow> aes_state" where
  "enc_round rk k s = (case s of (s0, s1, s2, s3) \<Rightarrow>
     (Te0 ! ix3 s0 XOR Te1 ! ix2 s1 XOR Te2 ! ix1 s2 XOR Te3 ! ix0 s3 XOR rk ! k,
      Te0 ! ix3 s1 XOR Te1 ! ix2 s2 XOR Te2 ! ix1 s3 XOR Te3 ! ix0 s0 XOR rk ! (k + 1),
      Te0 ! ix3 s2 XOR Te1 ! ix2 s3 XOR Te2 ! ix1 s0 XOR Te3 ! ix0 s1 XOR rk ! (k + 2),
      Te0 ! ix3 s3 XOR Te1 ! ix2 s0 XOR Te2 ! ix1 s1 XOR Te3 ! ix0 s2 XOR rk ! (k + 3)))"

definition enc_last :: "u32 list \<Rightarrow> nat \<Rightarrow> aes_state \<Rightarrow> aes_state" where
  "enc_last rk k t = (case t of (t0, t1, t2, t3) \<Rightarrow>
     ((Te2 ! ix3 t0 AND 0xff000000) XOR (Te3 ! ix2 t1 AND 0x00ff0000) XOR (Te0 ! ix1 t2 AND 0x0000ff00)
        XOR (Te1 ! ix0 t3 AND 0x000000ff) XOR rk ! k,
      (Te2 ! ix3 t1 AND 0xff000000) XOR (Te3 ! ix2 t2 AND 0x00ff0000) XOR (Te0 ! ix1 t3 AND 0x0000ff00)
        XOR (Te1 ! ix0 t0 AND 0x000000ff) XOR rk ! (k + 1),
      (Te2 ! ix3 t2 AND 0xff000000) XOR (Te3 ! ix2 t3 AND 0x00ff0000) XOR (Te0 ! ix1 t0 AND 0x0000ff00)
        XOR (Te1 ! ix0 t1 AND 0x000000ff) XOR rk ! (k + 2),
      (Te2 ! ix3 t3 AND 0xff000000) XOR (Te3 ! ix2 t0 AND 0x00ff0000) XOR (Te0 ! ix1 t1 AND 0x0000ff00)
        XOR (Te1 ! ix0 t2 AND 0x000000ff) XOR rk ! (k + 3)))"

definition dec_round :: "u32 list \<Rightarrow> nat \<Rightarrow> aes_state \<Rightarrow> aes_state" where
  "dec_round rk k s = (case s of (s0, s1, s2, s3) \<Rightarrow>
     (Td0 ! ix3 s0 XOR Td1 ! ix2 s3 XOR Td2 ! ix1 s2 XOR Td3 ! ix0 s1 XOR rk ! k,
      Td0 ! ix3 s1 XOR Td1 ! ix2 s0 XOR Td2 ! ix1 s3 XOR Td3 ! ix0 s2 XOR rk ! (k + 1),
      Td0 ! ix3 s2 XOR Td1 ! ix2 s1 XOR Td2 ! ix1 s0 XOR Td3 ! ix0 s3 XOR rk ! (k + 2),
      Td0 ! ix3 s3 XOR Td1 ! ix2 s2 XOR Td2 ! ix1 s1 XOR Td3 ! ix0 s0 XOR rk ! (k + 3)))"

definition dec_last :: "u32 list \<Rightarrow> nat \<Rightarrow> aes_state \<Rightarrow> aes_state" where
  "dec_last rk k t = (case t of (t0, t1, t2, t3) \<Rightarrow>
     (push_bit 24 (ucast (Td4 ! ix3 t0)) XOR push_bit 16 (ucast (Td4 ! ix2 t3))
        XOR push_bit 8 (ucast (Td4 ! ix1 t2)) XOR ucast (Td4 ! ix0 t1) XOR rk ! k,
      push_bit 24 (ucast (Td4 ! ix3 t1)) XOR push_bit 16 (ucast (Td4 ! ix2 t0))
        XOR push_bit 8 (ucast (Td4 ! ix1 t3)) XOR ucast (Td4 ! ix0 t2) XOR rk ! (k + 1),
      push_bit 24 (ucast (Td4 ! ix3 t2)) XOR push_bit 16 (ucast (Td4 ! ix2 t1))
        XOR push_bit 8 (ucast (Td4 ! ix1 t0)) XOR ucast (Td4 ! ix0 t3) XOR rk ! (k + 2),
      push_bit 24 (ucast (Td4 ! ix3 t3)) XOR push_bit 16 (ucast (Td4 ! ix2 t2))
        XOR push_bit 8 (ucast (Td4 ! ix1 t1)) XOR ucast (Td4 ! ix0 t0) XOR rk ! (k + 3)))"

text \<open>
  The loop \<open>for (;;)\<close> that both directions share: two rounds a turn, left in the middle when the
  counter \<open>r\<close> reaches zero. With \<open>r\<close> zero at the start the source runs past the key: \<open>None\<close>.
\<close>

fun round_loop ::
  "(u32 list \<Rightarrow> nat \<Rightarrow> aes_state \<Rightarrow> aes_state) \<Rightarrow> u32 list \<Rightarrow> nat \<Rightarrow> nat \<Rightarrow> aes_state \<Rightarrow> (nat \<times> aes_state) option" where
  "round_loop f rk 0 k s = None"
| "round_loop f rk (Suc r) k s =
     (let t = f rk (k + 4) s; k = k + 8 in
      if r = 0 then Some (k, t) else round_loop f rk r k (f rk k t))"

definition AES_encrypt :: "u8 list \<Rightarrow> aes_key \<Rightarrow> u8 list option" where
  "AES_encrypt inp key =
     (case round_loop enc_round (rd_key key) (aes_rounds key div 2) 0 (load_state inp (rd_key key)) of
        None \<Rightarrow> None
      | Some (k, t) \<Rightarrow> Some (store_state (enc_last (rd_key key) k t)))"

definition AES_decrypt :: "u8 list \<Rightarrow> aes_key \<Rightarrow> u8 list option" where
  "AES_decrypt inp key =
     (case round_loop dec_round (rd_key key) (aes_rounds key div 2) 0 (load_state inp (rd_key key)) of
        None \<Rightarrow> None
      | Some (k, t) \<Rightarrow> Some (store_state (dec_last (rd_key key) k t)))"

section \<open>What the rounds compute\<close>

lemma take_bit_8_and: "w AND 0xff = take_bit 8 w" for w :: u32
  by (simp add: take_bit_eq_mask mask_numeral)

lemma unat_ucast_byte: "unat (ucast w :: u8) = unat (take_bit 8 w)" for w :: u32
  by (simp add: unsigned_ucast_eq unsigned_take_bit_eq)

lemma ix_bytes:
  "ix3 w = unat (byte_of 3 w)" "ix2 w = unat (byte_of 2 w)"
  "ix1 w = unat (byte_of (Suc 0) w)" "ix0 w = unat (byte_of 0 w)"
proof -
  have "take_bit 8 (drop_bit 24 w) = drop_bit 24 w" by (rule word_eqI_all) (simp add: all_bits)
  then show "ix3 w = unat (byte_of 3 w)" by (simp add: ix3_def byte_of_def unat_ucast_byte)
qed (simp_all add: ix2_def ix1_def ix0_def byte_of_def unat_ucast_byte take_bit_8_and)

definition sub_shift :: "aes_state \<Rightarrow> aes_state" where
  "sub_shift s = (case s of (s0, s1, s2, s3) \<Rightarrow>
     let col = (\<lambda>a b c d. column (sbox (byte_of 3 a)) (sbox (byte_of 2 b)) (sbox (byte_of (Suc 0) c)) (sbox (byte_of 0 d)))
     in (col s0 s1 s2 s3, col s1 s2 s3 s0, col s2 s3 s0 s1, col s3 s0 s1 s2))"

definition inv_sub_shift :: "aes_state \<Rightarrow> aes_state" where
  "inv_sub_shift s = (case s of (s0, s1, s2, s3) \<Rightarrow>
     let col = (\<lambda>a b c d. column (inv_sbox (byte_of 3 a)) (inv_sbox (byte_of 2 b)) (inv_sbox (byte_of (Suc 0) c)) (inv_sbox (byte_of 0 d)))
     in (col s0 s3 s2 s1, col s1 s0 s3 s2, col s2 s1 s0 s3, col s3 s2 s1 s0))"

definition map4 :: "(u32 \<Rightarrow> u32) \<Rightarrow> aes_state \<Rightarrow> aes_state" where
  "map4 f s = (case s of (s0, s1, s2, s3) \<Rightarrow> (f s0, f s1, f s2, f s3))"

definition xor4 :: "aes_state \<Rightarrow> aes_state \<Rightarrow> aes_state" where
  "xor4 s k = (case (s, k) of ((s0, s1, s2, s3), (k0, k1, k2, k3)) \<Rightarrow> (s0 XOR k0, s1 XOR k1, s2 XOR k2, s3 XOR k3))"

definition group4 :: "u32 list \<Rightarrow> nat \<Rightarrow> aes_state" where
  "group4 rk k = (rk ! k, rk ! (k + 1), rk ! (k + 2), rk ! (k + 3))"

definition mix :: "u32 \<Rightarrow> u32" where
  "mix w = mix_column (byte_of 3 w) (byte_of 2 w) (byte_of (Suc 0) w) (byte_of 0 w)"

lemmas with_key =
  Te_mix [THEN arg_cong [where f = "\<lambda>w. w XOR key" for key], unfolded xor.assoc]
  Td_mix [THEN arg_cong [where f = "\<lambda>w. w XOR key" for key], unfolded xor.assoc]
  Te_masks [THEN arg_cong [where f = "\<lambda>w. w XOR key" for key], unfolded xor.assoc]

lemmas state_defs = map4_def xor4_def sub_shift_def inv_sub_shift_def group4_def

lemma enc_round_mix: "enc_round rk k s = xor4 (map4 mix (sub_shift s)) (group4 rk k)"
  by (cases s) (simp add: enc_round_def ix_bytes with_key mix_def state_defs)

lemma enc_last_sub: "enc_last rk k s = xor4 (sub_shift s) (group4 rk k)"
  by (cases s) (simp only: enc_last_def ix_bytes with_key state_defs prod.case Let_def)

lemma dec_round_mix: "dec_round rk k s = xor4 (map4 inv_mix (inv_sub_shift s)) (group4 rk k)"
  by (cases s) (simp add: dec_round_def ix_bytes with_key state_defs)

lemma dec_last_sub: "dec_last rk k s = xor4 (inv_sub_shift s) (group4 rk k)"
  by (cases s) (simp add: dec_last_def ix_bytes state_defs column_def inv_sbox_def xor.assoc)

lemma inv_sub_shift_sub_shift [simp]: "inv_sub_shift (sub_shift s) = s"
  by (cases s) (simp add: state_defs column_bytes)

lemma xor4_twice [simp]: "xor4 (xor4 s k) k = s"
  by (cases s; cases k) (simp add: xor4_def xor.assoc)

lemma inv_mix_mixed: "map4 inv_mix (map4 mix s) = s"
  by (cases s) (simp add: map4_def mix_def inv_mix_mix column_bytes)

lemma inv_mix_xor4: "map4 inv_mix (xor4 s k) = xor4 (map4 inv_mix s) (map4 inv_mix k)"
  by (cases s; cases k) (simp add: map4_def xor4_def inv_mix_xor)

text \<open>One round undone, with the key words of the decryption schedule.\<close>

lemma dec_enc_round:
  "group4 dk j = map4 inv_mix (group4 ek k) \<Longrightarrow> dec_round dk j (sub_shift (enc_round ek k s)) = sub_shift s"
  by (simp add: dec_round_mix enc_round_mix inv_mix_xor4 inv_mix_mixed)

lemma GETU32_column: "GETU32 pt k = column (pt ! k) (pt ! (k + 1)) (pt ! (k + 2)) (pt ! (k + 3))"
  by (simp add: GETU32_def column_def)

lemma PUTU32_column [simp]: "PUTU32 (column a b c d) = [a, b, c, d]"
  using byte_of_column [of a b c d] by (simp add: PUTU32_def byte_of_def)

lemma PUTU32_bytes: "PUTU32 w = [byte_of 3 w, byte_of 2 w, byte_of (Suc 0) w, byte_of 0 w]"
  by (simp add: PUTU32_def byte_of_def)

lemma load_store: "load_state (store_state s) rk = xor4 s (group4 rk 0)"
  by (cases s, simp add: load_state_def store_state_def GETU32_column PUTU32_bytes column_bytes
      xor4_def group4_def, simp add: numeral_2_eq_2)

lemma store_load:
  assumes "length inp = 16"
  shows "store_state (xor4 (load_state inp rk) (group4 rk 0)) = inp"
proof -
  have "store_state (xor4 (load_state inp rk) (group4 rk 0)) = map (\<lambda>k. inp ! k) [0..<16]"
    by (simp add: load_state_def store_state_def GETU32_column xor4_def group4_def xor.assoc upt_rec numeral_eq_Suc)
  also have "\<dots> = inp" using assms by (metis map_nth)
  finally show ?thesis .
qed

section \<open>The loop\<close>

primrec iter_rounds ::
  "(u32 list \<Rightarrow> nat \<Rightarrow> aes_state \<Rightarrow> aes_state) \<Rightarrow> u32 list \<Rightarrow> nat \<Rightarrow> aes_state \<Rightarrow> aes_state" where
  "iter_rounds f rk 0 s = s"
| "iter_rounds f rk (Suc n) s = f rk (4 * Suc n) (iter_rounds f rk n s)"

lemma round_loop_iter:
  "round_loop f rk (Suc r) (4 * n) (iter_rounds f rk n s)
     = Some (4 * n + 8 * Suc r, iter_rounds f rk (n + 2 * r + 1) s)"
proof (induction r arbitrary: n)
  case 0
  then show ?case by (simp add: algebra_simps)
next
  case (Suc r)
  have "f rk (4 * n + 8) (f rk (4 * n + 4) (iter_rounds f rk n s)) = iter_rounds f rk (n + 2) s"
    by (simp add: algebra_simps)
  then have "round_loop f rk (Suc (Suc r)) (4 * n) (iter_rounds f rk n s)
      = round_loop f rk (Suc r) (4 * (n + 2)) (iter_rounds f rk (n + 2) s)"
    by (subst round_loop.simps) (simp add: Let_def algebra_simps)
  then show ?case unfolding Suc by (simp add: algebra_simps)
qed

definition inverse_keys :: "nat \<Rightarrow> u32 list \<Rightarrow> u32 list \<Rightarrow> bool" where
  "inverse_keys R ek dk \<longleftrightarrow>
     group4 dk 0 = group4 ek (4 * R) \<and> group4 dk (4 * R) = group4 ek 0 \<and>
     (\<forall>n. 0 < n \<and> n < R \<longrightarrow> group4 dk (4 * n) = map4 inv_mix (group4 ek (4 * (R - n))))"

lemma dec_iter:
  assumes "inverse_keys R ek dk" "n < R"
  shows "iter_rounds dec_round dk n (sub_shift (iter_rounds enc_round ek (R - 1) s))
    = sub_shift (iter_rounds enc_round ek (R - 1 - n) s)"
  using assms(2)
proof (induction n)
  case (Suc n)
  then have "R - 1 - n = Suc (R - 1 - Suc n)" by simp
  moreover have "group4 dk (4 * Suc n) = map4 inv_mix (group4 ek (4 * (R - Suc n)))"
    using assms(1) Suc.prems unfolding inverse_keys_def by blast
  moreover have "R - Suc n = Suc (R - 1 - Suc n)" using Suc.prems by simp
  ultimately show ?case using Suc dec_enc_round by simp
qed simp

lemma AES_decrypt_encrypt:
  assumes keys: "inverse_keys (2 * Suc r) (rd_key ek) (rd_key dk)"
    and "aes_rounds ek = 2 * Suc r" "aes_rounds dk = 2 * Suc r" "length inp = 16"
  shows "\<exists>c. AES_encrypt inp ek = Some c \<and> length c = 16 \<and> AES_decrypt c dk = Some inp"
proof -
  let ?R = "2 * Suc r" and ?E = "rd_key ek" and ?D = "rd_key dk"
  let ?s = "load_state inp ?E"
  let ?t = "iter_rounds enc_round ?E (?R - 1) ?s"
  let ?c = "store_state (enc_last ?E (4 * ?R) ?t)"
  have "round_loop enc_round ?E (Suc r) 0 ?s = Some (4 * ?R, ?t)"
    using round_loop_iter [of enc_round ?E r 0 ?s] by simp
  then have enc: "AES_encrypt inp ek = Some ?c" using assms(2) by (simp add: AES_encrypt_def)
  have last: "load_state ?c ?D = sub_shift ?t"
    using keys by (simp add: load_store enc_last_sub inverse_keys_def)
  have "round_loop dec_round ?D (Suc r) 0 (sub_shift ?t) = Some (4 * ?R, sub_shift ?s)"
    using round_loop_iter [of dec_round ?D r 0 "sub_shift ?t"] dec_iter [OF keys, of "?R - 1" ?s] by simp
  then have "AES_decrypt ?c dk = Some (store_state (dec_last ?D (4 * ?R) (sub_shift ?s)))"
    using assms(3) last by (simp add: AES_decrypt_def)
  also have "dec_last ?D (4 * ?R) (sub_shift ?s) = xor4 ?s (group4 ?E 0)"
    using keys unfolding dec_last_sub inverse_keys_def by simp
  finally have "AES_decrypt ?c dk = Some inp" using store_load [OF assms(4)] by simp
  moreover have "length ?c = 16" by (simp add: store_state_def PUTU32_def split: prod.split)
  ultimately show ?thesis using enc by blast
qed

section \<open>The schedule does not depend on what the structure held\<close>

definition agree :: "nat \<Rightarrow> u32 list \<Rightarrow> u32 list \<Rightarrow> bool" where
  "agree k a b \<longleftrightarrow> length a = 60 \<and> length b = 60 \<and> take k a = take k b"

lemma agree_nth: "agree k a b \<Longrightarrow> j < k \<Longrightarrow> a ! j = b ! j"
  unfolding agree_def by (metis nth_take)

lemma agree_set: "agree k a b \<Longrightarrow> n = Suc k \<Longrightarrow> k < 60 \<Longrightarrow> v = w \<Longrightarrow> agree n (a[k := v]) (b[k := w])"
  by (simp add: agree_def take_Suc_conv_app_nth)

lemma agree_xor_to:
  assumes "agree k a b" "n = Suc k" "k < 60" "i < k" "j < k"
  shows "agree n (xor_to k i j a) (xor_to k i j b)"
  unfolding xor_to_def using assms agree_nth [OF assms(1)] by (intro agree_set) simp_all

lemma agree_words:
  "agree k a b \<Longrightarrow> i < k \<Longrightarrow> j < k \<Longrightarrow> a ! i XOR f (a ! j) = b ! i XOR f (b ! j)"
  by (metis agree_nth)

lemma load_key_agree:
  assumes "length a = 60" "length b = 60" "n \<le> 60"
  shows "agree n (load_key u n a) (load_key u n b)"
  using assms(3)
proof (induction n)
  case 0
  then show ?case using assms by (simp add: agree_def load_key_def)
next
  case (Suc n)
  then show ?case using agree_set [of n] by (simp add: load_key_def)
qed

lemma expand128_agree:
  assumes "agree (4 * i + 4) a b" "i < 10"
  shows "agree (4 * Suc i + 4) (expand128 i a) (expand128 i b)"
  unfolding expand128_def Let_def using assms
  by (intro agree_xor_to agree_set agree_words [OF assms(1), where f = "\<lambda>w. rot_sub w XOR rcon ! i"]) simp_all

lemma expand192_agree:
  assumes "agree (6 * i + 6) a b" "i < 8"
  shows "agree (if i = 7 then 52 else 6 * Suc i + 6) (expand192 i a) (expand192 i b)"
proof -
  let ?v = "\<lambda>rk. rk ! (6 * i) XOR rot_sub (rk ! (6 * i + 5)) XOR rcon ! i"
  let ?r = "\<lambda>rk. xor_to (6 * i + 9) (6 * i + 3) (6 * i + 8) (xor_to (6 * i + 8) (6 * i + 2) (6 * i + 7)
    (xor_to (6 * i + 7) (6 * i + 1) (6 * i + 6) (rk[6 * i + 6 := ?v rk])))"
  have "agree (6 * i + 10) (?r a) (?r b)"
    using assms by (intro agree_xor_to agree_set agree_words [OF assms(1), where f = "\<lambda>w. rot_sub w XOR rcon ! i"]) simp_all
  moreover have "agree (6 * Suc i + 6) (xor_to (6 * i + 11) (6 * i + 5) (6 * i + 10) (xor_to (6 * i + 10) (6 * i + 4) (6 * i + 9) x))
      (xor_to (6 * i + 11) (6 * i + 5) (6 * i + 10) (xor_to (6 * i + 10) (6 * i + 4) (6 * i + 9) y))"
    if "agree (6 * i + 10) x y" "i \<noteq> 7" for x y
    using that assms(2) by (intro agree_xor_to) simp_all
  ultimately show ?thesis by (auto simp: expand192_def Let_def)
qed

lemma expand256_agree:
  assumes "agree (8 * i + 8) a b" "i < 7"
  shows "agree (if i = 6 then 60 else 8 * Suc i + 8) (expand256 i a) (expand256 i b)"
proof -
  let ?v = "\<lambda>rk. rk ! (8 * i) XOR rot_sub (rk ! (8 * i + 7)) XOR rcon ! i"
  let ?r = "\<lambda>rk. xor_to (8 * i + 11) (8 * i + 3) (8 * i + 10) (xor_to (8 * i + 10) (8 * i + 2) (8 * i + 9)
    (xor_to (8 * i + 9) (8 * i + 1) (8 * i + 8) (rk[8 * i + 8 := ?v rk])))"
  let ?w = "\<lambda>rk. rk[8 * i + 12 := rk ! (8 * i + 4) XOR word_sub (rk ! (8 * i + 11))]"
  let ?e = "\<lambda>rk. xor_to (8 * i + 15) (8 * i + 7) (8 * i + 14) (xor_to (8 * i + 14) (8 * i + 6) (8 * i + 13)
    (xor_to (8 * i + 13) (8 * i + 5) (8 * i + 12) (?w rk)))"
  have "agree (8 * i + 12) (?r a) (?r b)"
    using assms by (intro agree_xor_to agree_set agree_words [OF assms(1), where f = "\<lambda>w. rot_sub w XOR rcon ! i"]) simp_all
  moreover have "agree (8 * Suc i + 8) (?e x) (?e y)" if "agree (8 * i + 12) x y" "i \<noteq> 6" for x y
    using that assms(2) by (intro agree_xor_to agree_set agree_words [OF that(1)]) simp_all
  ultimately show ?thesis by (auto simp: expand256_def Let_def)
qed

text \<open>A schedule built turn by turn agrees after the last turn.\<close>

lemma fold_agree:
  assumes "\<And>i a b. i < n \<Longrightarrow> agree (pos i) a b \<Longrightarrow> agree (pos (Suc i)) (f i a) (f i b)" "agree (pos 0) a b"
  shows "agree (pos n) (fold f [0..<n] a) (fold f [0..<n] b)"
  using assms(1)
proof (induction n)
  case (Suc n)
  then show ?case by simp
qed (use assms(2) in simp)

lemma key_words_agree:
  assumes "length a = 60" "length b = 60" "bits \<in> {128, 192, 256}"
  shows "agree (if bits = 128 then 44 else if bits = 192 then 52 else 60) (key_words u bits a) (key_words u bits b)"
proof -
  note load = load_key_agree [OF assms(1,2)]
  have "agree 44 (fold expand128 [0..<10] (load_key u 4 a)) (fold expand128 [0..<10] (load_key u 4 b))"
    using fold_agree [of 10 "\<lambda>i. 4 * i + 4" expand128] expand128_agree load [of 4 u] by simp
  moreover have "agree 52 (fold expand192 [0..<8] (load_key u 6 a)) (fold expand192 [0..<8] (load_key u 6 b))"
    using fold_agree [of 8 "\<lambda>i. if i = 8 then 52 else 6 * i + 6" expand192] expand192_agree load [of 6 u] by simp
  moreover have "agree 60 (fold expand256 [0..<7] (load_key u 8 a)) (fold expand256 [0..<7] (load_key u 8 b))"
    using fold_agree [of 7 "\<lambda>i. if i = 7 then 60 else 8 * i + 8" expand256] expand256_agree load [of 8 u] by simp
  ultimately show ?thesis using assms(3) by (auto simp: key_words_def)
qed

section \<open>The decryption schedule\<close>

lemma index4: "q < 4 \<Longrightarrow> q' < 4 \<Longrightarrow> 4 * a + q = 4 * p + q' \<longleftrightarrow> a = p \<and> q = q'" for a p q q' :: nat
  by presburger

lemma length_swap4 [simp]: "length (swap4 i j rk) = length rk"
  by (simp add: swap4_def upt_rec)

lemma swap4_nth:
  assumes "a \<noteq> c" "4 * a + 3 < length rk" "4 * c + 3 < length rk" "q < 4"
  shows "swap4 (4 * a) (4 * c) rk ! (4 * p + q)
    = rk ! (4 * (if p = a then c else if p = c then a else p) + q)"
proof -
  let ?f = "\<lambda>q rk. rk[4 * a + q := rk ! (4 * c + q), 4 * c + q := rk ! (4 * a + q)]"
  have "length (fold ?f [0..<n] rk) = length rk \<and>
      (\<forall>p q. q < 4 \<longrightarrow> fold ?f [0..<n] rk ! (4 * p + q)
        = rk ! (4 * (if q < n then if p = a then c else if p = c then a else p else p) + q))"
    if "n \<le> 4" for n
    using that
  proof (induction n)
    case (Suc n)
    let ?r = "fold ?f [0..<n] rk"
    from Suc have IH: "length ?r = length rk"
      "\<And>p q. q < 4 \<Longrightarrow> ?r ! (4 * p + q) = rk ! (4 * (if q < n then if p = a then c else if p = c then a else p else p) + q)"
      by simp_all
    show ?case
    proof (intro conjI allI impI)
      fix p q :: nat assume "q < 4"
      then show "fold ?f [0..<Suc n] rk ! (4 * p + q)
          = rk ! (4 * (if q < Suc n then if p = a then c else if p = c then a else p else p) + q)"
        using assms Suc.prems IH by (auto simp: nth_list_update index4)
    qed (use IH in simp)
  qed simp
  from this [of 4] show ?thesis using assms(4) by (simp add: swap4_def)
qed

lemma reverse_keys_nth:
  assumes "4 * c + 3 < length rk" "q < 4"
  shows "reverse_keys (4 * a) (4 * c) rk ! (4 * p + q)
    = rk ! (4 * (if a \<le> p \<and> p \<le> c then a + c - p else p) + q)"
  using assms(1)
proof (induction "c - a" arbitrary: a c rk p rule: less_induct)
  case less
  show ?case
  proof (cases "a < c")
    case True
    then have "reverse_keys (4 * a) (4 * c) rk = reverse_keys (4 * (a + 1)) (4 * (c - 1)) (swap4 (4 * a) (4 * c) rk)"
      by (subst reverse_keys.simps) (simp add: algebra_simps diff_mult_distrib2)
    moreover have "reverse_keys (4 * (a + 1)) (4 * (c - 1)) (swap4 (4 * a) (4 * c) rk) ! (4 * p + q)
        = swap4 (4 * a) (4 * c) rk ! (4 * (if a + 1 \<le> p \<and> p \<le> c - 1 then a + 1 + (c - 1) - p else p) + q)"
      using less True by (intro less(1)) auto
    ultimately show ?thesis using True less(2) assms(2) by (auto simp: swap4_nth)
  next
    case False
    then have "a \<le> p \<and> p \<le> c \<Longrightarrow> a + c - p = p" by linarith
    then show ?thesis using False by (subst reverse_keys.simps) auto
  qed
qed

lemma length_reverse_keys [simp]: "length (reverse_keys i j rk) = length rk"
  by (induction i j rk rule: reverse_keys.induct) (simp add: reverse_keys.simps)

lemma inv_mix_word: "inv_mix_word w = inv_mix w"
proof -
  have low: "unat (Te1 ! unat x AND 0xff) = unat (sbox x)" for x
  proof -
    have "unat (column 0 0 0 (sbox x)) = unat (sbox x)"
      using take_bit_nat_eq_self [of "unat (sbox x)" 32] unat_u8 [of "sbox x"]
      by (simp add: column_def unsigned_ucast_eq del: unat_u8)
    then show ?thesis unfolding Te_entry column_masks .
  qed
  show ?thesis by (simp add: inv_mix_word_def ix_bytes low Td_mix column_bytes)
qed

lemma inv_mix_round_nth:
  assumes "4 * i + 3 < length rk" "q < 4"
  shows "inv_mix_round i rk ! (4 * p + q) = (if p = i then inv_mix (rk ! (4 * p + q)) else rk ! (4 * p + q))"
proof -
  let ?f = "\<lambda>q rk. rk[4 * i + q := inv_mix_word (rk ! (4 * i + q))]"
  have "length (fold ?f [0..<n] rk) = length rk \<and>
      (\<forall>p q. q < 4 \<longrightarrow> fold ?f [0..<n] rk ! (4 * p + q)
        = (if q < n \<and> p = i then inv_mix (rk ! (4 * p + q)) else rk ! (4 * p + q)))"
    if "n \<le> 4" for n
    using that assms(1) by (induction n) (auto simp: nth_list_update index4 inv_mix_word)
  from this [of 4] show ?thesis using assms(2) by (simp add: inv_mix_round_def)
qed

lemma length_inv_mix_round [simp]: "length (inv_mix_round i rk) = length rk"
  by (simp add: inv_mix_round_def upt_rec)

lemma inv_mix_rounds_nth:
  assumes "4 * R + 3 < length rk" "q < 4" "n \<le> R"
  shows "length (fold inv_mix_round [1..<n] rk) = length rk \<and> fold inv_mix_round [1..<n] rk ! (4 * p + q)
    = (if 0 < p \<and> p < n then inv_mix (rk ! (4 * p + q)) else rk ! (4 * p + q))"
  using assms(3)
proof (induction n)
  case (Suc n)
  show ?case
  proof (cases n)
    case (Suc m)
    then have "[1..<Suc n] = [1..<n] @ [n]" by simp
    moreover have "4 * n + 3 < length (fold inv_mix_round [1..<n] rk)"
      using Suc.IH Suc.prems assms(1) by simp
    ultimately show ?thesis using Suc Suc.IH Suc.prems by (auto simp: inv_mix_round_nth assms(2))
  qed auto
qed simp

lemma decrypt_schedule:
  assumes "agree (4 * R + 4) e w" "4 * R + 3 < 60" "0 < R"
  shows "inverse_keys R e (fold inv_mix_round [1..<R] (reverse_keys 0 (4 * R) w))"
proof -
  let ?d = "fold inv_mix_round [1..<R] (reverse_keys 0 (4 * R) w)"
  have len: "length w = 60" using assms(1) by (simp add: agree_def)
  have d: "?d ! (4 * n + q) = (if 0 < n \<and> n < R then inv_mix (e ! (4 * (R - n) + q)) else e ! (4 * (R - n) + q))"
    if "n \<le> R" "q < 4" for n q
  proof -
    have "?d ! (4 * n + q) = (if 0 < n \<and> n < R then inv_mix (w ! (4 * (R - n) + q)) else w ! (4 * (R - n) + q))"
      using inv_mix_rounds_nth [of R "reverse_keys 0 (4 * R) w" q R n] reverse_keys_nth [of R w q 0 n] that assms(2) len
      by auto
    moreover have "w ! (4 * (R - n) + q) = e ! (4 * (R - n) + q)"
      using agree_nth [OF assms(1), of "4 * (R - n) + q"] that by simp
    ultimately show ?thesis by (simp only:)
  qed
  have g: "group4 ?d (4 * n)
      = (if 0 < n \<and> n < R then map4 inv_mix (group4 e (4 * (R - n))) else group4 e (4 * (R - n)))" if "n \<le> R" for n
    using d [OF that, of 0] d [OF that, of 1] d [OF that, of 2] d [OF that, of 3]
    by (simp add: group4_def map4_def)
  show ?thesis using g [of 0] g [of R] g assms(3) by (simp add: inverse_keys_def)
qed

text \<open>
  The keys of both directions from the same user key, each in a structure of its own: every
  block that was encrypted with the one decrypts with the other.
\<close>

lemma aes_keys:
  assumes "bits \<in> {128, 192, 256}" "length (rd_key k) = 60" "length (rd_key k') = 60"
  obtains ek dk where
    "AES_set_encrypt_key (Some u) bits (Some k) = (0, Some ek)"
    "AES_set_decrypt_key (Some u) bits (Some k') = (0, Some dk)"
    "\<And>inp. length inp = 16 \<Longrightarrow> \<exists>c. AES_encrypt inp ek = Some c \<and> length c = 16 \<and> AES_decrypt c dk = Some inp"
proof -
  define R :: nat where "R = (if bits = 128 then 10 else if bits = 192 then 12 else 14)"
  let ?e = "key_words u bits (rd_key k)" and ?w = "key_words u bits (rd_key k')"
  let ?d = "fold inv_mix_round [1..<R] (reverse_keys 0 (4 * R) ?w)"
  let ?ek = "k\<lparr>aes_rounds := R, rd_key := ?e\<rparr>" and ?dk = "k'\<lparr>aes_rounds := R, rd_key := ?d\<rparr>"
  have enc: "AES_set_encrypt_key (Some u) bits (Some x) = (0, Some (x\<lparr>aes_rounds := R, rd_key := key_words u bits (rd_key x)\<rparr>))" for x
    using assms(1) by (auto simp: AES_set_encrypt_key_def R_def)
  then have dec: "AES_set_decrypt_key (Some u) bits (Some k') = (0, Some ?dk)"
    by (simp add: AES_set_decrypt_key_def)
  have "4 * R + 4 = (if bits = 128 then 44 else if bits = 192 then 52 else 60)" by (simp add: R_def)
  then have "agree (4 * R + 4) ?e ?w" using key_words_agree [OF assms(2,3,1)] by simp
  then have keys: "inverse_keys R ?e ?d" by (rule decrypt_schedule) (simp_all add: R_def)
  have "R = 2 * Suc (if bits = 128 then 4 else if bits = 192 then 5 else 6)" by (simp add: R_def)
  then obtain r where r: "R = 2 * Suc r" by blast
  have "\<exists>c. AES_encrypt inp ?ek = Some c \<and> length c = 16 \<and> AES_decrypt c ?dk = Some inp" if "length inp = 16" for inp
    using AES_decrypt_encrypt [of r ?ek ?dk inp] keys that r by simp
  then show ?thesis using that [of ?ek ?dk] enc [of k] dec by blast
qed

lemma aes_key_errors:
  "bits \<notin> {128, 192, 256} \<Longrightarrow> AES_set_encrypt_key (Some u) bits (Some k) = (-2, Some k)"
  "bits \<notin> {128, 192, 256} \<Longrightarrow> AES_set_decrypt_key (Some u) bits (Some k) = (-2, Some k)"
  "AES_set_decrypt_key None bits key = (-1, key)" "AES_set_decrypt_key uk bits None = (-1, None)"
  by (auto simp: AES_set_decrypt_key_def AES_set_encrypt_key_def split: option.splits)

end
