(* ===== verification/Aes_Token.thy ===== *)
theory Aes_Token
  imports Md5_Digest Aes_Cipher
begin

text \<open>
  The encrypted texts of \<open>server/common/libtools/AesBt.cpp\<close>, which the servers use for the user
  token: the key is cut from the MD5 of a seed, the text is encrypted block by block with its
  last block filled up with zeros, and the result travels as Base64. The functions that work on
  structures on the stack take what these held before (\<open>mem\<close> for an \<open>AES_KEY\<close>, \<open>garbage\<close> for an
  \<open>MD5_CTX\<close>). A text without a zero byte comes back; the output of the decryption is read as a C
  string, so that a byte of it which nothing wrote makes the result undefined (\<open>None\<close>).
\<close>

section \<open>Keys and blocks\<close>

definition get_key_of :: "md5_ctx \<Rightarrow> u8 list \<Rightarrow> u8 list" where
  "get_key_of garbage seed = take 16 (MD5_32 garbage seed)"

definition get_key :: "md5_ctx \<Rightarrow> u8 list" where
  "get_key garbage = take 16 (MD5_32 garbage (chars ''safsdfsdfkjl-s-123lkfls''))"

primrec ecb_blocks :: "(u8 list \<Rightarrow> u8 list option) \<Rightarrow> nat \<Rightarrow> u8 list \<Rightarrow> u8 list option" where
  "ecb_blocks f 0 inp = Some []"
| "ecb_blocks f (Suc n) inp = do {
     b \<leftarrow> f (take 16 inp);
     bs \<leftarrow> ecb_blocks f n (drop 16 inp);
     Some (b @ bs)
   }"

text \<open>The bytes written to \<open>out\<close>.\<close>

definition AES_ecb128_encrypt :: "aes_key \<Rightarrow> u8 list \<Rightarrow> u8 list \<Rightarrow> u8 list option" where
  "AES_ecb128_encrypt mem key inp = do {
     aes_key \<leftarrow> snd (AES_set_encrypt_key (Some key) 128 (Some mem));
     let n = length inp div 16;
     let left = length inp mod 16;
     bs \<leftarrow> ecb_blocks (\<lambda>b. AES_encrypt b aes_key) n inp;
     if left \<noteq> 0 then do {
       b \<leftarrow> AES_encrypt (drop (16 * n) inp @ replicate (16 - left) 0) aes_key;
       Some (bs @ b)
     } else Some bs
   }"

definition AES_ecb128_decrypt :: "aes_key \<Rightarrow> u8 list \<Rightarrow> u8 list \<Rightarrow> u8 list option" where
  "AES_ecb128_decrypt mem key inp = do {
     aes_key \<leftarrow> snd (AES_set_decrypt_key (Some key) 128 (Some mem));
     ecb_blocks (\<lambda>b. AES_decrypt b aes_key) (length inp div 16) inp
   }"

section \<open>Texts\<close>

definition encrypt_text :: "aes_key \<Rightarrow> u8 list \<Rightarrow> u8 list \<Rightarrow> u8 list option" where
  "encrypt_text mem key inp = do {
     buffer \<leftarrow> AES_ecb128_encrypt mem key inp;
     Base64Encode buffer
   }"

text \<open>A buffer read as a C string.\<close>

fun c_string :: "u8 option list \<Rightarrow> u8 list option" where
  "c_string (Some c # cs) = (if c = 0 then Some [] else map_option ((#) c) (c_string cs))"
| "c_string _ = None"

text \<open>
  The decoded bytes that the decryption reads must have been written; it leaves the bytes of an
  incomplete last block of its output as they were.
\<close>

definition decrypt_text :: "aes_key \<Rightarrow> u8 list \<Rightarrow> u8 list \<Rightarrow> u8 list option" where
  "decrypt_text mem key inp = do {
     (bin_in, len) \<leftarrow> Base64Decode (takeWhile (\<lambda>c. c \<noteq> 0) inp) 0;
     bs \<leftarrow> those (take (len div 16 * 16) bin_in);
     bin_out \<leftarrow> AES_ecb128_decrypt mem key bs;
     c_string (map Some bin_out @ replicate (len mod 16) None @ [Some 0])
   }"

definition AES_ecb128_encrypt_seed :: "aes_key \<Rightarrow> md5_ctx \<Rightarrow> u8 list \<Rightarrow> u8 list \<Rightarrow> u8 list option" where
  "AES_ecb128_encrypt_seed mem garbage inp key_seed = encrypt_text mem (get_key_of garbage key_seed) inp"

definition AES_ecb128_decrypt_seed :: "aes_key \<Rightarrow> md5_ctx \<Rightarrow> u8 list \<Rightarrow> u8 list \<Rightarrow> u8 list option" where
  "AES_ecb128_decrypt_seed mem garbage inp key_seed = decrypt_text mem (get_key_of garbage key_seed) inp"

definition AES_ecb128_encrypt_token :: "aes_key \<Rightarrow> md5_ctx \<Rightarrow> u8 list \<Rightarrow> u8 list option" where
  "AES_ecb128_encrypt_token mem garbage inp = encrypt_text mem (get_key garbage) inp"

definition AES_ecb128_decrypt_token :: "aes_key \<Rightarrow> md5_ctx \<Rightarrow> u8 list \<Rightarrow> u8 list option" where
  "AES_ecb128_decrypt_token mem garbage inp = decrypt_text mem (get_key garbage) inp"

text \<open>
  The last overload decodes into a null pointer: it is defined only for a text too short for a
  unit and a length that holds no block, and then it does nothing.
\<close>

definition AES_ecb128_decrypt_out :: "u8 list \<Rightarrow> nat \<Rightarrow> nat option" where
  "AES_ecb128_decrypt_out inp out_len = (if length inp < 4 \<and> out_len < 16 then Some out_len else None)"

section \<open>Blocks there and back\<close>

definition zero_filled :: "u8 list \<Rightarrow> u8 list" where
  "zero_filled inp = inp @ replicate ((16 - length inp mod 16) mod 16) 0"

lemma ecb_blocks_inverse:
  assumes "\<And>b. length b = 16 \<Longrightarrow> \<exists>c. f b = Some c \<and> length c = 16 \<and> g c = Some b"
    and "length inp = 16 * n"
  shows "\<exists>bs. ecb_blocks f n inp = Some bs \<and> length bs = 16 * n \<and> ecb_blocks g n bs = Some inp"
  using assms(2)
proof (induction n arbitrary: inp)
  case (Suc n)
  then obtain c where c: "f (take 16 inp) = Some c" "length c = 16" "g c = Some (take 16 inp)"
    using assms(1) [of "take 16 inp"] by auto
  moreover obtain bs where "ecb_blocks f n (drop 16 inp) = Some bs" "length bs = 16 * n"
    "ecb_blocks g n bs = Some (drop 16 inp)"
    using Suc.IH [of "drop 16 inp"] Suc.prems by auto
  ultimately show ?case by auto
qed simp

lemma ecb_blocks_append:
  assumes "length a = 16 * n"
  shows "ecb_blocks f (n + m) (a @ b) = do {
    x \<leftarrow> ecb_blocks f n a; y \<leftarrow> ecb_blocks f m b; Some (x @ y) }"
  using assms
proof (induction n arbitrary: a)
  case 0
  then show ?case by (cases "ecb_blocks f m b") simp_all
next
  case (Suc n)
  then show ?case by (cases "f (take 16 a)"; cases "ecb_blocks f n (drop 16 a)"; cases "ecb_blocks f m b") simp_all
qed

lemma ecb_block: "length b = 16 \<Longrightarrow> ecb_blocks f 1 b = f b"
  by (cases "f b") simp_all

lemma length_zero_filled: "length (zero_filled inp) mod 16 = 0"
proof -
  let ?n = "length inp"
  have "?n = 16 * (?n div 16) + ?n mod 16" "?n mod 16 < 16" by simp_all
  moreover have "n + (16 - r) = 16 * (q + 1)" if "n = 16 * q + r" "r < 16" for n q r :: nat
    using that by simp
  ultimately have "?n + (16 - ?n mod 16) = 16 * (?n div 16 + 1)" by blast
  then have "(?n + (16 - ?n mod 16)) mod 16 = 0" by (metis mod_mult_self1_is_0)
  then show ?thesis by (simp add: zero_filled_def mod_add_right_eq)
qed

text \<open>The last block is filled up: the encryption works on whole blocks of the filled text.\<close>

lemma encrypt_filled:
  "AES_set_encrypt_key (Some key) 128 (Some mem) = (0, Some ek) \<Longrightarrow>
   AES_ecb128_encrypt mem key inp = ecb_blocks (\<lambda>b. AES_encrypt b ek) (length (zero_filled inp) div 16) (zero_filled inp)"
proof -
  assume ek: "AES_set_encrypt_key (Some key) 128 (Some mem) = (0, Some ek)"
  let ?n = "length inp div 16" and ?l = "length inp mod 16" and ?f = "\<lambda>b. AES_encrypt b ek"
  show ?thesis
  proof (cases "?l = 0")
    case True
    then show ?thesis by (simp add: AES_ecb128_encrypt_def ek zero_filled_def Let_def)
  next
    case False
    let ?a = "take (16 * ?n) inp" and ?b = "drop (16 * ?n) inp @ replicate (16 - ?l) 0"
    have a: "length ?a = 16 * ?n" and b: "length ?b = 16" by (simp_all add: minus_mult_div_eq_mod)
    have filled: "zero_filled inp = ?a @ ?b" using False by (simp add: zero_filled_def flip: append_assoc)
    then have blocks: "length (zero_filled inp) div 16 = ?n + 1" using a b by simp
    have "ecb_blocks ?f (length (zero_filled inp) div 16) (zero_filled inp)
        = do { x \<leftarrow> ecb_blocks ?f ?n ?a; y \<leftarrow> ecb_blocks ?f 1 ?b; Some (x @ y) }"
      unfolding blocks unfolding filled by (rule ecb_blocks_append [OF a])
    moreover have "ecb_blocks ?f ?n inp = ecb_blocks ?f ?n ?a"
      using ecb_blocks_append [OF a, of ?f 0 "drop (16 * ?n) inp"] by (simp add: Option.bind_runit)
    ultimately show ?thesis using False by (simp add: AES_ecb128_encrypt_def ek Let_def ecb_block [OF b] del: One_nat_def)
  qed
qed

lemma encrypt_decrypt_blocks:
  assumes "length (rd_key mem) = 60" "length (rd_key mem') = 60"
  shows "\<exists>bs. AES_ecb128_encrypt mem key inp = Some bs \<and> length bs = length (zero_filled inp)
    \<and> AES_ecb128_decrypt mem' key bs = Some (zero_filled inp)"
proof -
  obtain ek dk where ek: "AES_set_encrypt_key (Some key) 128 (Some mem) = (0, Some ek)"
    and dk: "AES_set_decrypt_key (Some key) 128 (Some mem') = (0, Some dk)"
    and block: "\<And>b. length b = 16 \<Longrightarrow> \<exists>c. AES_encrypt b ek = Some c \<and> length c = 16 \<and> AES_decrypt c dk = Some b"
    using aes_keys [of 128 mem mem' key, OF _ assms] by blast
  let ?n = "length (zero_filled inp) div 16"
  have len: "length (zero_filled inp) = 16 * ?n"
    using length_zero_filled [of inp] by (simp add: mod_0_imp_dvd)
  from ecb_blocks_inverse [OF block len] obtain bs where
    "ecb_blocks (\<lambda>b. AES_encrypt b ek) ?n (zero_filled inp) = Some bs" "length bs = 16 * ?n"
    "ecb_blocks (\<lambda>c. AES_decrypt c dk) ?n bs = Some (zero_filled inp)"
    by blast
  with len show ?thesis by (simp add: encrypt_filled [OF ek] AES_ecb128_decrypt_def dk)
qed

section \<open>Texts there and back\<close>

lemma c_string_zeros: "0 \<notin> set inp \<Longrightarrow> c_string (map Some (inp @ replicate k 0) @ [Some 0]) = Some inp"
  by (induction inp) (cases k; auto)+

lemma digit_not_zero: "unat w < 64 \<Longrightarrow> digit w \<noteq> 0"
proof -
  assume w: "unat w < 64"
  have "0 \<notin> set BASE64_TAB" by (simp add: BASE64_TAB_def chars_def)
  moreover have "digit w \<in> set BASE64_TAB" using w by (simp add: digit_def BASE64_TAB_bytes)
  ultimately show ?thesis by metis
qed

lemma Base64Encode_no_zero: "Base64Encode bs = Some t \<Longrightarrow> 0 \<notin> set t"
proof (induction bs arbitrary: t rule: Base64Encode.induct)
  case (1 p q r src)
  then obtain t' where t': "Base64Encode src = Some t'" "t = Unit_Code p q r @ t'"
    by (auto split: option.splits)
  with 1 have "0 \<notin> set t'" by blast
  with t' show ?case by (simp add: Unit_Code_digits digit_not_zero six_bits)
qed (auto simp: Unit_Code_digits digit_not_zero six_bits simp del: Fill_Code.simps)

lemma decrypt_encrypt_text:
  assumes "length (rd_key mem) = 60" "length (rd_key mem') = 60" "0 \<notin> set inp"
  shows "\<exists>t. encrypt_text mem key inp = Some t \<and> decrypt_text mem' key t = Some inp"
proof -
  obtain bs where bs: "AES_ecb128_encrypt mem key inp = Some bs" "length bs = length (zero_filled inp)"
    "AES_ecb128_decrypt mem' key bs = Some (zero_filled inp)"
    using encrypt_decrypt_blocks [OF assms(1,2)] by blast
  obtain t dest where t: "Base64Encode bs = Some t" "Base64Decode t 0 = Some (dest, length bs)"
    "take (length bs) dest = map Some bs"
    using Base64Decode_Encode [of bs 0] by blast
  have clean: "takeWhile (\<lambda>c. c \<noteq> 0) t = t" using Base64Encode_no_zero [OF t(1)] by (auto intro: takeWhile_eq_all_conv [THEN iffD2])
  have "length bs mod 16 = 0" unfolding bs(2) by (rule length_zero_filled)
  moreover from this have "length bs div 16 * 16 = length bs" by (simp add: mod_0_imp_dvd)
  ultimately have "decrypt_text mem' key t = c_string (map Some (zero_filled inp) @ [Some 0])"
    using t bs(3) by (simp add: decrypt_text_def clean)
  also have "\<dots> = Some inp" unfolding zero_filled_def by (rule c_string_zeros [OF assms(3)])
  finally show ?thesis using bs(1) t(1) by (simp add: encrypt_text_def)
qed

text \<open>The key depends on the seed only.\<close>

lemma get_key_of_seed:
  "length (ctx_in garbage) = 64 \<Longrightarrow> length seed < 2 ^ 32 \<Longrightarrow>
     get_key_of garbage seed = take 16 (bin2hex (md5_whole seed))"
  by (simp add: get_key_of_def MD5_32_def MD5_16_whole)

lemma token_seed:
  assumes "length (rd_key mem) = 60" "length (rd_key mem') = 60"
    and "length (ctx_in garbage) = 64" "length (ctx_in garbage') = 64"
    and "length seed < 2 ^ 32" "0 \<notin> set inp"
  shows "\<exists>t. AES_ecb128_encrypt_seed mem garbage inp seed = Some t
    \<and> AES_ecb128_decrypt_seed mem' garbage' t seed = Some inp"
  using decrypt_encrypt_text [OF assms(1,2,6)] assms(3-5)
  by (simp add: AES_ecb128_encrypt_seed_def AES_ecb128_decrypt_seed_def get_key_of_seed)

lemma token_default:
  assumes "length (rd_key mem) = 60" "length (rd_key mem') = 60"
    and "length (ctx_in garbage) = 64" "length (ctx_in garbage') = 64" "0 \<notin> set inp"
  shows "\<exists>t. AES_ecb128_encrypt_token mem garbage inp = Some t
    \<and> AES_ecb128_decrypt_token mem' garbage' t = Some inp"
proof -
  have "get_key g = get_key_of g (chars ''safsdfsdfkjl-s-123lkfls'')" for g
    by (simp add: get_key_def get_key_of_def)
  moreover have "length (chars ''safsdfsdfkjl-s-123lkfls'') < 2 ^ 32" by (simp add: chars_def)
  ultimately show ?thesis
    using token_seed [OF assms(1-4) _ assms(5)]
    by (simp add: AES_ecb128_encrypt_seed_def AES_ecb128_decrypt_seed_def
        AES_ecb128_encrypt_token_def AES_ecb128_decrypt_token_def)
qed

text \<open>A zero byte cuts the text.\<close>

lemma c_string_cut: "0 \<notin> set a \<Longrightarrow> c_string (map Some (a @ 0 # b) @ r) = Some a"
  by (induction a) auto

end
