(* ===== verification/Lobby_Services.thy ===== *)
theory Lobby_Services
  imports Stars_Prelude "HOL-Library.Signed_Division"
begin

text \<open>
  Services of the lobby and login servers: hashes of Redis (\<open>server/common/libresource/Redis.cpp\<close>), the routes
  of the lobby (\<open>LobbyModule.cpp\<close>) and the loops of a pool (\<open>IoLoopPool.cpp\<close>). The client of Redis is outside: what it is asked to do is a list of commands, and a
  reply is a value of the type \<open>redis_reply\<close>. \<open>None\<close> is an exception, an assertion or a division by zero.
\<close>

section \<open>Json values and replies\<close>

datatype json =
    Jnull | Jdiscarded | Jboolean bool | Jstring string | Jinteger int | Junsigned nat | Jobject "(string \<times> json) list" | Jarray "json list"

fun is_valid :: "json \<Rightarrow> bool" where
  "is_valid Jnull = False"
| "is_valid Jdiscarded = False"
| "is_valid _ = True"

fun is_object :: "json \<Rightarrow> bool" where
  "is_object (Jobject _) = True"
| "is_object _ = False"

text \<open>The constant \<open>operator[]\<close>, and the other one on an object that is built.\<close>

fun json_at :: "string \<Rightarrow> json \<Rightarrow> json option" where
  "json_at k (Jobject kvs) = map_of kvs k"
| "json_at k _ = None"

fun json_set :: "string \<Rightarrow> json \<Rightarrow> json \<Rightarrow> json option" where
  "json_set k v Jnull = Some (Jobject [(k, v)])"
| "json_set k v (Jobject kvs) = Some (Jobject ((k, v) # filter (\<lambda>(k', _). k' \<noteq> k) kvs))"
| "json_set k v _ = None"

datatype redis_reply = Rnull | Rerror | Rstring string | Rinteger int | Rarray "redis_reply list"

datatype redis_command = Hset string string string | Expire string nat

text \<open>Decimal numbers: \<open>std::to_string\<close> and \<open>std::atoll\<close> of a text that begins with a digit, a sign or neither.\<close>

fun digits :: "nat \<Rightarrow> string" where
  "digits n = (if n < 10 then [char_of (48 + n)] else digits (n div 10) @ [char_of (48 + n mod 10)])"

declare digits.simps [simp del]

definition int_to_string :: "int \<Rightarrow> string" where
  "int_to_string n = (if n < 0 then CHR ''-'' # digits (nat (- n)) else digits (nat n))"

definition dec_digit :: "char \<Rightarrow> bool" where
  "dec_digit c \<longleftrightarrow> 48 \<le> (of_char c :: nat) \<and> (of_char c :: nat) \<le> 57"

definition digits_value :: "string \<Rightarrow> nat" where
  "digits_value s = foldl (\<lambda>v c. 10 * v + (of_char c - 48)) 0 (takeWhile dec_digit s)"

definition atoll :: "string \<Rightarrow> int" where
  "atoll s =
     (case s of
        [] \<Rightarrow> 0
      | c # cs \<Rightarrow> if c = CHR ''-'' then - int (digits_value cs) else if c = CHR ''+'' then int (digits_value cs) else int (digits_value s))"

section \<open>Redis\<close>

fun hset_value :: "json \<Rightarrow> string option" where
  "hset_value (Jstring s) = Some s"
| "hset_value (Jinteger n) = Some (int_to_string n)"
| "hset_value (Junsigned n) = Some (int_to_string (int n))"
| "hset_value _ = None"

definition json_to_hash :: "(string \<times> json) list \<Rightarrow> string \<Rightarrow> nat \<Rightarrow> redis_command list" where
  "json_to_hash jv key expire_sec =
     List.map_filter (\<lambda>(k, v). map_option (Hset key k) (hset_value v)) jv @ (if expire_sec \<noteq> 0 then [Expire key expire_sec] else [])"

text \<open>
  \<open>pair_array_to_json\<close>: the value that is stored is the name of the field (\<open>ar[i]\<close>, not \<open>ar[i + 1]\<close>).
\<close>

fun pairs_to_json :: "json \<Rightarrow> redis_reply list \<Rightarrow> json \<Rightarrow> json option" where
  "pairs_to_json temp (Rstring k # Rstring v # ar) out =
     (case json_at k temp of
        None \<Rightarrow> None
      | Some (Jstring _) \<Rightarrow> Option.bind (json_set k (Jstring k) out) (pairs_to_json temp ar)
      | Some (Jinteger _) \<Rightarrow> Option.bind (json_set k (Jinteger (atoll k)) out) (pairs_to_json temp ar)
      | Some (Junsigned _) \<Rightarrow> Option.bind (json_set k (Junsigned (nat (atoll k mod 2 ^ 64))) out) (pairs_to_json temp ar)
      | Some _ \<Rightarrow> pairs_to_json temp ar out)"
| "pairs_to_json temp [Rstring _] out = None"
| "pairs_to_json temp (_ # _ # ar) out = pairs_to_json temp ar out"
| "pairs_to_json temp _ out = Some out"

definition pair_array_to_json :: "redis_reply \<Rightarrow> json \<Rightarrow> json option" where
  "pair_array_to_json r temp =
     (if is_valid temp \<or> \<not> is_object temp then Some Jnull
      else case r of Rarray ar \<Rightarrow> pairs_to_json temp ar Jnull | _ \<Rightarrow> None)"

fun pair_array :: "redis_reply list \<Rightarrow> (string \<Rightarrow> string option) \<Rightarrow> (string \<Rightarrow> string option) option" where
  "pair_array (Rstring k # Rstring v # ar) m = pair_array ar (m(k \<mapsto> v))"
| "pair_array [Rstring _] m = None"
| "pair_array (_ # _ # ar) m = pair_array ar m"
| "pair_array _ m = Some m"

definition get_pair_array :: "redis_reply \<Rightarrow> (string \<Rightarrow> string option) option" where
  "get_pair_array r = (case r of Rarray ar \<Rightarrow> pair_array ar Map.empty | _ \<Rightarrow> None)"

definition pair_string :: "string \<Rightarrow> (string \<Rightarrow> string option) \<Rightarrow> string" where
  "pair_string k m = (case m k of None \<Rightarrow> '''' | Some s \<Rightarrow> s)"

text \<open>The hash that the commands for a key leave, and the reply to \<open>HGETALL\<close> for a hash.\<close>

fun hash_of :: "string \<Rightarrow> redis_command list \<Rightarrow> (string \<times> string) list" where
  "hash_of key [] = []"
| "hash_of key (Hset k f v # cs) = (if k = key then (f, v) # hash_of key cs else hash_of key cs)"
| "hash_of key (Expire _ _ # cs) = hash_of key cs"

definition hgetall :: "(string \<times> string) list \<Rightarrow> redis_reply" where
  "hgetall kvs = Rarray (concat (map (\<lambda>(k, v). [Rstring k, Rstring v]) kvs))"

lemma pair_array_pairs:
  "pair_array (concat (map (\<lambda>(k, v). [Rstring k, Rstring v]) kvs)) m = Some (m ++ map_of (rev kvs))"
  by (induction kvs arbitrary: m) auto

lemma hash_of_json:
  "hash_of key (json_to_hash jv key n) = List.map_filter (\<lambda>(k, v). map_option (Pair k) (hset_value v)) jv"
proof -
  have "hash_of key (List.map_filter (\<lambda>(k, v). map_option (Hset key k) (hset_value v)) jv @ cs) =
      List.map_filter (\<lambda>(k, v). map_option (Pair k) (hset_value v)) jv @ hash_of key cs" for cs
    by (induction jv) (auto simp: List.map_filter_simps split: option.splits)
  then show ?thesis
    by (simp add: json_to_hash_def)
qed

text \<open>What \<open>json_to_hash\<close> stores, \<open>get_pair_array\<close> reads back: the text of every string and number.\<close>

lemma map_of_rev_filter:
  "distinct (map fst jv) \<Longrightarrow>
    map_of (rev (List.map_filter (\<lambda>(k, v). map_option (Pair k) (f v)) jv)) k = Option.bind (map_of jv k) f"
proof (induction jv)
  case (Cons kv jv)
  obtain k' v where kv: "kv = (k', v)" by (cases kv)
  have "map_of jv k = None" if "k = k'"
    using Cons.prems that kv by (simp add: map_of_eq_None_iff)
  then show ?case
    using Cons kv by (cases "k = k'") (simp_all add: List.map_filter_simps map_add_def split: option.splits)
qed (simp add: List.map_filter_simps)

theorem hash_round_trip:
  assumes "distinct (map fst jv)"
  shows "get_pair_array (hgetall (hash_of key (json_to_hash jv key n))) = Some (\<lambda>k. Option.bind (map_of jv k) hset_value)"
  using pair_array_pairs [of _ Map.empty] map_of_rev_filter [OF assms, of hset_value]
  by (simp add: get_pair_array_def hgetall_def hash_of_json fun_eq_iff)

text \<open>The guard of \<open>pair_array_to_json\<close> lets nothing pass: an object is valid.\<close>

lemma pair_array_to_json_null: "pair_array_to_json r temp = Some Jnull"
  by (cases temp) (simp_all add: pair_array_to_json_def)

section \<open>The routes of the lobby\<close>

text \<open>\<open>MsgRout\<close>: a range of commands and how the exchange and the route are found.\<close>

datatype route_fun = NormalRout string string | HashRout int string string | RoomRout int int string string | No_route

record msg_rout =
  m_cmd_begin :: int
  m_cmd_end :: int
  m_route_fun :: route_fun

definition MsgRout :: "int \<Rightarrow> int \<Rightarrow> string \<Rightarrow> string \<Rightarrow> int \<Rightarrow> (int \<times> int \<times> int) \<Rightarrow> msg_rout" where
  "MsgRout cmd_begin cmd_end exch route route_type = (\<lambda>(total_count, room_begin, count_per_svr).
     \<lparr>m_cmd_begin = cmd_begin, m_cmd_end = cmd_end,
      m_route_fun = (if route_type = 0 then NormalRout exch route
        else if route_type = 1 then HashRout total_count exch route
        else if route_type = 2 then RoomRout room_begin count_per_svr exch route
        else No_route)\<rparr>)"

definition is_cmd_match :: "int \<Rightarrow> msg_rout \<Rightarrow> bool" where
  "is_cmd_match cmd r \<longleftrightarrow> m_cmd_begin r \<le> cmd \<and> cmd < m_cmd_end r"

text \<open>The call of an empty \<open>std::function\<close> throws, and so does a division by zero trap.\<close>

fun get_ex_route :: "int \<Rightarrow> route_fun \<Rightarrow> (string \<times> string) option" where
  "get_ex_route user_id (NormalRout exch route) = Some (exch, route)"
| "get_ex_route user_id (HashRout total_count exch route) =
     (if total_count = 0 then None else Some (exch, route @ ''-'' @ int_to_string (user_id smod total_count)))"
| "get_ex_route user_id (RoomRout room_begin count_per_svr exch route) =
     (if count_per_svr = 0 then None else Some (exch, route @ ''-'' @ int_to_string (1000 sdiv count_per_svr)))"
| "get_ex_route user_id No_route = None"

datatype lobby_call = Send_mq int string string | Failed_parameter | Failed_system

text \<open>\<open>str_exch\<close> is assigned the exchange and then the route; \<open>str_route\<close> stays empty.\<close>

definition dispatch_app_msg :: "msg_rout list \<Rightarrow> bool \<Rightarrow> int \<Rightarrow> int \<Rightarrow> lobby_call list option" where
  "dispatch_app_msg routes mq_sends user_id cmd =
     (case List.find (is_cmd_match cmd) routes of
        None \<Rightarrow> Some [Failed_parameter]
      | Some r \<Rightarrow>
          map_option (\<lambda>(exch, route). let str_exch = route; str_route = ''''
              in Send_mq cmd str_exch str_route # (if mq_sends then [] else [Failed_system]))
            (get_ex_route user_id (m_route_fun r)))"

text \<open>A message is sent once, by the first route that has its command; without one it is refused.\<close>

lemma dispatch_refuses: "(\<forall>r \<in> set routes. \<not> is_cmd_match cmd r) \<Longrightarrow> dispatch_app_msg routes ok u cmd = Some [Failed_parameter]"
  using find_None_iff [of "is_cmd_match cmd" routes] by (simp add: dispatch_app_msg_def)

lemma hash_route_bound:
  assumes "0 \<le> u" "0 < k"
  shows "\<exists>n \<in> {0..<k}. get_ex_route u (HashRout k exch route) = Some (exch, route @ ''-'' @ int_to_string n)"
proof (rule bexI)
  have "u smod k = u mod k"
    using assms by (cases "u = 0") (simp_all add: signed_modulo_int_def)
  then show "get_ex_route u (HashRout k exch route) = Some (exch, route @ ''-'' @ int_to_string (u mod k))"
    using assms by simp
qed (use assms in simp)

text \<open>The exchange of a message that is sent is the key of its route, and its key is empty.\<close>

lemma dispatch_route_empty:
  assumes "dispatch_app_msg routes ok u cmd = Some calls" "Send_mq c exch route \<in> set calls"
  shows "route = ''''"
  using assms by (auto simp: dispatch_app_msg_def Let_def split: option.splits if_splits)

section \<open>The loops of a pool\<close>

text \<open>\<open>get_next_loop\<close> of a pool of \<open>n\<close> loops: the loop that is handed out and the next index.\<close>

definition get_next_loop :: "nat \<Rightarrow> nat \<Rightarrow> nat \<times> nat" where
  "get_next_loop n i = (i, if i + 1 = n then 0 else i + 1)"

fun loops_given :: "nat \<Rightarrow> nat \<Rightarrow> nat \<Rightarrow> nat list" where
  "loops_given n i 0 = []"
| "loops_given n i (Suc k) = (case get_next_loop n i of (x, j) \<Rightarrow> x # loops_given n j k)"

definition get_loop_with_hash :: "nat \<Rightarrow> nat \<Rightarrow> nat" where
  "get_loop_with_hash n hash_id = hash_id mod n"

text \<open>The loops are handed out in turn: the \<open>j\<close>-th is the one after the first, modulo the size of the pool.\<close>

lemma loops_given_turn: "i < n \<Longrightarrow> j < k \<Longrightarrow> loops_given n i k ! j = (i + j) mod n"
proof (induction k arbitrary: i j)
  case (Suc k)
  show ?case
  proof (cases j)
    case 0
    then show ?thesis using Suc.prems by (simp add: get_next_loop_def)
  next
    case (Suc j')
    then show ?thesis
      using Suc.IH [of "if i + 1 = n then 0 else i + 1" j'] Suc.prems mod_add_self1 [of n j']
      by (auto simp: get_next_loop_def simp del: mod_add_self1)
  qed
qed simp

end
