(* ===== verification/Spec2Isabelle.thy ===== *)
theory Spec2Isabelle
  imports Area_Manager Game_Scores Tcp_Sample Session_Requests Tcp_Client Mq_Client Player_Manager Md5_Rfc Aes_Token Lobby_Services
begin

text \<open>
  Verification of a rummy service (\<open>src/server\<close>): the game server (\<open>server/gamesvr\<close> and its copy
  directory \<open>gamesvr - copy\<close>, in Chinese in the repository) with the rules of the game, its rooms and
  its players, and the libraries the servers share (\<open>common/libserver\<close>, \<open>libmessage\<close>, \<open>libtools\<close>,
  \<open>libresource\<close>): sessions, requests, clients, message frames, encodings and ciphers. The theorems are
  for all requests of users, orders of events, timeouts, values of \<open>rand()\<close> and answers of other services.

  \<^bold>\<open>The program.\<close> A process of the game server keeps rooms (\<open>GG_GameArea_Manager\<close>). A room
  (\<open>GG_GameArea\<close>) has the users in it, each a \<open>GG_Player\<close>, and one desk (\<open>GameDesk\<close>) with five seats
  (\<open>GameSeat\<close>). Users send requests to the room: enter, leave, take a seat, dig a card, discard, drop,
  declare. The desk plays a game in rounds, and a timer ends a round in which nobody acts. The desk deals
  from a \<open>CardDealer\<close> and asks the \<open>Combination\<close> engine, one object for all rooms, whether groups of cards are
  valid, how to split the hand of a player who does not declare, and which card a robot discards.
  Chips are kept by a money service. Users reach a server through a \<open>TcpSession\<close>: it reads and writes
  frames of a length, a header and a message, queues what is to be sent, and gives what was read to a
  dealer; requests to other servers wait for their answers in \<open>AsyncRequest\<close> and \<open>SynRequest\<close>. Servers are
  connected by a \<open>Client\<close> or by the message broker (\<open>MqClient\<close>, \<open>MqSession\<close>). A user logs in with an encrypted
  token, and \<open>PlayerManager\<close> remembers which session is whose.

  \<^bold>\<open>The theories.\<close>
  \<^item> \<open>Stars_Prelude\<close>: loops that may fault or return early, facts on lists, words and multisets.
  \<^item> \<open>Poker_Cards\<close>, \<open>Card_Dealer\<close> (\<open>CardDealer.h/.cpp\<close>): cards, groups, their encodings and order; the
    double deck, its shuffle and the dealing.
  \<^item> \<open>Card_Rules\<close>, \<open>Card_Choices\<close>, \<open>Card_Search\<close>, \<open>Card_Declare\<close> (\<open>Combination.h/.cpp\<close>): the rules for
    straights, sets and declarations; the enumeration of selections; the search for groups; the
    splits of a hand, the default declaration and the discard of a robot.
  \<^item> \<open>Game_State\<close>: the records of a room, its desk, seats and players, and the environment.
  \<^item> \<open>Game_Player\<close> (\<open>GG_Player.cpp\<close>), \<open>Game_Seat\<close> (\<open>GameSeat.cpp\<close>), \<open>Game_Desk\<close> (\<open>GameDesk.cpp\<close>),
    \<open>Game_Area\<close> (\<open>GG_GameArea.cpp\<close>): one definition per function, in the order of the code; \<open>handle\<close>
    takes an event (a request, the expiry of the timer, the online check) and \<open>reachable\<close> says which
    rooms there can be. The locale \<open>room_invariant\<close> is the rule for invariants of a room.
  \<^item> \<open>Game_Views\<close>: the locales for parts of the state that operations leave alone.
  \<^item> \<open>Game_Cards\<close>: no card is lost or doubled. \<open>Game_Links\<close>: seats and players point at each other.
  \<^item> \<open>Game_Rounds\<close>, \<open>Game_Timer\<close>: the abstract machine of the rounds, that the room implements it, that
    the timer runs and two players are in the game. \<open>Game_Play\<close>: what turns do and who sees a card.
    \<open>Game_Chips\<close>, \<open>Game_Scores\<close>: the chips of a game and the scores.
  \<^item> \<open>Game_Sample\<close>: a room with two users and rooms in the middle of a game, for the examples.
  \<^item> \<open>Area_Manager\<close> (\<open>GG_GameArea_Manager.cpp\<close>): the rooms of a server; each of them is \<open>reachable\<close>.
  \<^item> \<open>Player_Manager\<close> (\<open>PlayerManager.cpp\<close>, \<open>Player.cpp\<close>, \<open>GameRoom.cpp\<close>, \<open>RoomManager.cpp\<close> of \<open>gamesvr\<close>): logins,
    sessions and players, with the players in a store that two tables point into.
  \<^item> \<open>Byte_Codecs\<close> (\<open>BigEndLittleEnd.cpp\<close>, \<open>Base64.cpp\<close>, \<open>BaseTool.cpp\<close>): byte orders, two Base64 codecs, each
    an instance of the locale \<open>byte_codec\<close>, and the shifted text; \<open>Md5_Digest\<close> (\<open>MD5.cpp\<close>): MD5, fed
    in pieces; \<open>Md5_Rfc\<close>: RFC 1321 without the code, and that the code computes it; \<open>Aes_Tables\<close>, \<open>Aes_Cipher\<close>, \<open>Aes_Token\<close> (\<open>AesCore.cpp\<close>, \<open>AesBt.cpp\<close>): AES with the tables of the code,
    that decryption inverts encryption, and the tokens.
  \<^item> \<open>Tcp_Messages\<close> (\<open>libmessage\<close>, \<open>TaskManager.inl\<close>): headers, prototypes, the queue, the frame buffer and the
    dispatch. \<open>Tcp_Session\<close> (\<open>TcpSession.cpp\<close>, \<open>Session.inl\<close>): the reader and the writer of a session.
    \<open>Tcp_Stream\<close>: that what one end sends the other gets. \<open>Tcp_Sample\<close>: sessions for the examples.
  \<^item> \<open>Session_Requests\<close> (\<open>AsyncRequest.inl\<close>, \<open>Synrequest.inl\<close>, \<open>ServerSessionManager.cpp\<close>): requests that wait, and
    the table of sessions. \<open>Tcp_Client\<close> (\<open>Client.cpp\<close>), \<open>Mq_Client\<close> (\<open>MqClient.cpp\<close>, \<open>MqSession.cpp\<close>): clients as state
    machines over the handlers of the loop, with the invariants that keep them going.
  \<^item> \<open>Lobby_Services\<close> (\<open>Redis.cpp\<close>, \<open>LobbyModule.cpp\<close>, \<open>IoLoopPool.cpp\<close>): hashes of Redis, the routes of the
    lobby, the loops of a pool.
  This theory has the properties: of the room first, then of the server's rooms, sessions and clients,
  players, tokens and digests, and of the card engine.

  \<^bold>\<open>Correspondence.\<close> An object is a record with the fields of the class under their names. A pointer
  to a player is his user id, to a seat its number; the null pointer is \<open>None\<close>. A method gets the room
  and returns it updated. A failed \<open>assert\<close>, a null pointer that is followed and an access outside an
  array are the value \<open>None\<close> of an operation; results \<open>-1\<close> and error codes are values. Cards have the
  8-bit fields of the code, status words, lengths and the values of headers and ciphers have their widths; chips and times
  are \<open>int\<close>, for 64-bit signed values whose overflow the code does not handle. Messages to players, answers and messages
  to other servers are lists to which an operation appends. The clock, \<open>rand()\<close>, the file of
  prepared cards, the answers of the money service and the player objects of the manager are fields of \<open>game_env\<close>, a
  parameter of every handler; the theorems hold for all values of it, except that a new player object
  has its user's id and no seat (\<open>makes_fresh\<close>, the constructor of \<open>GG_Player\<close>) and, for the discard of a
  robot, that \<open>std::sort\<close> sorts. The protobuf library is the record \<open>protobuf\<close>; that a
  message which was written is read back is the hypothesis \<open>reads_back\<close>. The order of bytes of the two hosts is an argument. What
  boost.asio, the AMQP library and the kernel do (a read or a connect completes, a timer expires, in whatever
  order) are the rules of inductive relations. The desk's file names the room and the players \<open>GameRoom\<close> and
  \<open>Player\<close>; the directory has these operations complete in \<open>GG_GameArea\<close> and \<open>GG_Player\<close>, and they are modelled
  from there. The call \<open>async_wait(std::bind)\<close> that starts the timer of a room is not complete in the source; the
  model takes \<open>on_wait_round_timeout\<close> for its handler.

  \<^bold>\<open>Loops.\<close> Loops over lists are structural. The loops over the seats have the number of seats as
  fuel, and C14 and C15 show that it is enough. The loop of the shuffle has a termination proof. The
  search of all splits of a hand is nested loops over lists and total; C31 shows that it does not
  fault. The handlers of a loop are run one at a time by relations without a bound.

  \<^bold>\<open>Not modelled.\<close> The log record of a game, the game id, and notifications of other servers without
  chips in them; the entry for remote calls of a room, whose table of calls has no entry; the queue that resends messages to a
  client, whose members \<open>GG_Player.h\<close> does not declare. The data bases of the login server and its module, the player table of the lobby (a variant of the game
  server's that does not compile), the robot server, the accept loop, processes, threads, logging and configuration: they are
  calls of libraries and services with little state of their own.
\<close>

section \<open>The rounds of a game\<close>

text \<open>
  C1: The rounds of a room refine the abstract machine \<open>round_step\<close>: whatever request comes,
  timer expires or online check is made, the status shown to the players stays or takes one step
  of the machine (wait, deal, turns with dig and post, shuffle, declaration, distribution).
\<close>

theorem rounds_refine_machine:
  assumes "reachable g" "handle env ev g = Some g'"
  shows "round_step\<^sup>=\<^sup>= (get_game_status_for_app g) (get_game_status_for_app g')"
  using assms by (rule handle_round_step)

theorem rounds_refine_machine_witness:
  "\<exists>g g'. reachable g \<and> handle sample_env Timeout g = Some g' \<and> get_game_status_for_app g = APP_UNREADY \<and>
     get_game_status_for_app g' = APP_WAIT_PLAYING \<and> round_step\<^sup>=\<^sup>= (get_game_status_for_app g) (get_game_status_for_app g')"
proof -
  obtain g g' where g: "reachable g" "handle sample_env Timeout g = Some g'" "get_game_status_for_app g = APP_UNREADY"
    "get_game_status_for_app g' = APP_WAIT_PLAYING" using sample_waiting by metis
  with rounds_refine_machine [OF g(1,2)] show ?thesis by blast
qed

text \<open>
  C2: No room gets stuck: with two players at the desk the timer of the room runs, in every round
  and after every sequence of events, so that the next round comes without a request.
\<close>

theorem timer_always_runs:
  assumes "reachable g" "1 < get_seated_count g"
  shows "m_wait_round_timer g \<noteq> None"
  using assms by (rule timer_runs)

theorem timer_always_runs_witness:
  "\<exists>g. reachable g \<and> 1 < get_seated_count g \<and> m_wait_round_timer g \<noteq> None"
proof -
  obtain g where g: "reachable g" "get_seated_count g = 2" using sample_waiting by metis
  with timer_always_runs [OF g(1)] show ?thesis by auto
qed

text \<open>
  C3: While a game runs, from the deal to its end, two players at least are in it.
\<close>

theorem game_has_two_players:
  assumes "reachable g" "running (get_game_status_for_app g)"
  shows "2 \<le> get_ingame_count g"
  using assms by (rule two_in_game)

theorem game_has_two_players_witness:
  "\<exists>g. reachable g \<and> running (get_game_status_for_app g) \<and> 2 \<le> get_ingame_count g"
proof -
  obtain g where g: "reachable g" "game_probe g = (APP_DEALER_CARD, 2, 2, 10, False)" using sample_game by metis
  then have "running (get_game_status_for_app g)" by (simp add: game_probe_def)
  with game_has_two_players [OF g(1)] g(1) show ?thesis by blast
qed

section \<open>The cards of a game\<close>

text \<open>
  C4: No card is ever on the desk twice too often: the bottom, the pool, the card of the wild
  point and all hands together are cards of the double deck, each at most as often as the deck
  has it, and the dealer's deck stays complete, after every sequence of events.
\<close>

theorem cards_of_one_deck:
  assumes "reachable g"
  shows "desk_cards g \<subseteq># mset double_deck \<and> mset (dl_cards (m_pCardDealer g)) = mset double_deck"
  using cards_inv.always [OF assms] by (simp add: cards_ok_def dealer_full_def dealer_ok_def)

theorem cards_of_one_deck_witness:
  "\<exists>g. reachable g \<and> get_game_status_for_app g = APP_ACTIVE2 \<and> desk_cards g \<subseteq># mset double_deck \<and>
     mset (dl_cards (m_pCardDealer g)) = mset double_deck"
proof -
  obtain g where g: "reachable g" "game_probe g = (APP_ACTIVE2, 2, 2, 10, True)" using sample_game by metis
  with cards_of_one_deck [OF g(1)] show ?thesis by (auto simp: game_probe_def)
qed



text \<open>
  C6: Digging from the bottom, by the player whose turn it is, before the discard, with cards at the bottom and in the pool
  (the code asserts both): the request succeeds and the room it leaves is named field by field. The first card of the bottom goes
  to the hand, which is sorted, and is kept as the dug card; the seat's score becomes that of a drop in the middle; the pool's card is no
  longer the first; the room waits for the discard with the timer of a player who is hosted or not; the answer is
  a success; each receiver gets one message, which shows the card to the player only. No other field of the room changes: chips, pool, joker,
  active seat, other seats and players are as before.
\<close>

theorem dig_from_bottom:
  assumes "players g u = Some p" "m_pGameSeat p = Some i" "i < length (m_seats g)" "is_active_player p g" "is_wait_active1 g"
    and "m_bottom_cards g = c # rest" "m_pokercard_pool g \<noteq> []"
  shows "player_dig_card env u DIG_BOTTOM g = Some (g\<lparr>m_bottom_cards := rest, m_is_first_pool_card := False,
    m_seats := (m_seats g)[i := (m_seats g ! i)\<lparr>seat_score := 40, m_dig_card := c,
      m_handcards_total := sort (m_handcards_total (m_seats g ! i) @ [c])\<rparr>],
    m_game_status := (GAME_WAIT_MASK OR GAME_ACTIVE2) OR (m_game_status g AND NOT GAME_ROUND_MASK),
    m_wait_begin := now env,
    m_wait_round_timer := Some (if is_player_trusteed_on p then 1000 else m_time_active2 (m_game_wait_interval (m_area_info g)) + 1500),
    replies := replies g @ [GG_ERROR_SUCCESS],
    sent := sent g @ map (\<lambda>r. (r, PlayerDigCard u (if r \<noteq> u then \<lparr>mc_point = 0, mc_color = 0\<rparr> else to_msg_card c) DIG_BOTTOM)) (receivers g)\<rparr>)"
  using assms by (rule dig_bottom_result)

theorem dig_from_bottom_witness:
  "\<exists>g'. player_dig_card sample_env 1 DIG_BOTTOM (desk_room GAME_ACTIVE1 [low_hand, low_hand] [PokerCard 4 3, PokerCard 4 4]) = Some g' \<and>
     m_bottom_cards g' = [PokerCard 4 4] \<and> m_wait_round_timer g' \<noteq> None \<and>
     m_chips_pool g' = m_chips_pool (desk_room GAME_ACTIVE1 [low_hand, low_hand] [PokerCard 4 3, PokerCard 4 4])"
proof -
  let ?g = "desk_room GAME_ACTIVE1 [low_hand, low_hand] [PokerCard 4 3, PokerCard 4 4]"
  have g: "players ?g 1 = Some (desk_player 0)" by (simp add: desk_room_def Let_def)
  have p: "m_pGameSeat (desk_player 0) = Some 0" by (simp add: desk_player_def)
  have q: "0 < length (m_seats ?g)" "is_active_player (desk_player 0) ?g" "is_wait_active1 ?g" "m_pokercard_pool ?g \<noteq> []" by code_simp+
  have b: "m_bottom_cards ?g = PokerCard 4 3 # [PokerCard 4 4]" by (simp add: desk_room_def Let_def)
  show ?thesis
    unfolding dig_from_bottom [OF g p q(1-3) b q(4), of sample_env] by simp
qed

text \<open>
  C7: Discarding a card of the hand, when neither the bottom must be shuffled nor the game has
  taken too long: the request succeeds, the card goes from the hand to the top of the pool, and
  the turn passes to the next seat round the desk whose player is in the game.
\<close>

theorem discard_passes_turn:
  assumes "reachable g" "players g u = Some p" "is_active_player p g" "is_wait_active2 g" "m_pGameSeat p = Some i"
    and "parse_msg_card mc \<in> set (m_handcards_total (m_seats g ! i))" "length (m_bottom_cards g) \<noteq> 1"
    and "now env \<le> m_time_game_begin g + m_draw_sec g"
  shows "\<exists>g' j. player_post_card env u mc n g = Some g' \<and> next_from (\<lambda>j. is_in_game (m_seats g ! j)) 5 i j \<and>
    m_active_seatnum g' = int j \<and> m_pokercard_pool g' = m_pokercard_pool g @ [parse_msg_card mc] \<and>
    m_seats g' = (m_seats g)[i := (m_seats g ! i)\<lparr>m_handcards_total := remove1 (parse_msg_card mc) (m_handcards_total (m_seats g ! i))\<rparr>]"
  using assms by (rule post_card_result)

theorem discard_passes_turn_witness:
  "\<exists>g g' j. reachable g \<and> player_post_card sample_env 1 (to_msg_card (PokerCard 1 2)) 0 g = Some g' \<and>
     next_from (\<lambda>j. is_in_game (m_seats g ! j)) 5 0 j \<and> m_active_seatnum g' = int j \<and>
     m_pokercard_pool g' = m_pokercard_pool g @ [PokerCard 1 2]"
proof -
  obtain g where g: "reachable g" "game_probe g = (APP_ACTIVE2, 2, 2, 10, True)" using sample_game by metis
  then have "get_game_status_for_app g = APP_ACTIVE2" "can_play 1 0 g" by (simp_all add: game_probe_def)
  moreover from this obtain r where "live r g" using live_inv.always [OF g(1)] by (auto simp: room_ok_def)
  ultimately have "is_wait_active2 g" using live_app_status in_round_queries(3) [OF live_in_round] by metis
  moreover from \<open>can_play 1 0 g\<close> obtain p where "players g 1 = Some p" "m_pGameSeat p = Some 0" "is_active_player p g"
    "length (m_bottom_cards g) \<noteq> 1" "PokerCard 1 2 \<in> set (m_handcards_total (m_seats g ! 0))" "m_time_game_begin g + m_draw_sec g = 2200"
    by (auto simp: can_play_def split: option.splits)
  moreover have "now sample_env \<le> 2200" by (simp add: sample_env_def)
  ultimately show ?thesis
    using discard_passes_turn [of g 1 p 0 "to_msg_card (PokerCard 1 2)" sample_env 0] g(1) by auto
qed

text \<open>
  C8: The shuffle of the pool, when one card is left at the bottom: all cards of the pool but the
  last two go, in some order, under the bottom; the last two stay, and no card is lost.
\<close>

theorem shuffle_returns_pool:
  assumes "2 \<le> length (m_pokercard_pool g)"
  shows "\<exists>g' moved. step_shuffle_card env g = Some g' \<and> m_bottom_cards g' = m_bottom_cards g @ moved \<and>
    mset moved = mset (take (length (m_pokercard_pool g) - 2) (m_pokercard_pool g)) \<and>
    m_pokercard_pool g' = drop (length (m_pokercard_pool g) - 2) (m_pokercard_pool g) \<and> m_seats g' = m_seats g"
  using assms by (rule shuffle_result)

theorem shuffle_returns_pool_witness:
  "\<exists>g'. step_shuffle_card sample_env (last_card_room\<lparr>m_pokercard_pool := [PokerCard 3 9, PokerCard 4 8, PokerCard 4 7]\<rparr>) = Some g' \<and>
     m_pokercard_pool g' = [PokerCard 4 8, PokerCard 4 7]"
proof -
  let ?g = "last_card_room\<lparr>m_pokercard_pool := [PokerCard 3 9, PokerCard 4 8, PokerCard 4 7]\<rparr>"
  have "2 \<le> length (m_pokercard_pool ?g)" by simp
  from shuffle_returns_pool [OF this, of sample_env] show ?thesis by auto
qed

text \<open>
  C9: A dug card is shown only to the player who dug it: of the messages a dig request sends, all
  that go to others carry the blank card.
\<close>

theorem dug_card_hidden:
  assumes "player_dig_card env u t g = Some g'"
  shows "\<exists>new. sent g' = sent g @ new \<and>
    (\<forall>(r, m) \<in> set new. \<exists>c. m = PlayerDigCard u c t \<and> (r \<noteq> u \<longrightarrow> c = \<lparr>mc_point = 0, mc_color = 0\<rparr>))"
  using dig_messages [OF assms] by (elim exE disjE) (auto intro: exI [of _ "[]"])

theorem dug_card_hidden_witness:
  "\<exists>g'. player_dig_card sample_env 1 DIG_BOTTOM (desk_room GAME_ACTIVE1 [low_hand, low_hand] [PokerCard 4 3]) = Some g' \<and>
    (\<exists>new. sent g' = sent (desk_room GAME_ACTIVE1 [low_hand, low_hand] [PokerCard 4 3]) @ new \<and>
      (\<forall>(r, m) \<in> set new. \<exists>c. m = PlayerDigCard 1 c DIG_BOTTOM \<and> (r \<noteq> 1 \<longrightarrow> c = \<lparr>mc_point = 0, mc_color = 0\<rparr>)))"
proof -
  let ?g = "desk_room GAME_ACTIVE1 [low_hand, low_hand] [PokerCard 4 3]"
  have "player_dig_card sample_env 1 DIG_BOTTOM ?g \<noteq> None" by code_simp
  then obtain g' where g': "player_dig_card sample_env 1 DIG_BOTTOM ?g = Some g'" by blast
  with dug_card_hidden [OF g'] show ?thesis by blast
qed

text \<open>
  C10: Dealing shows every player his own hand only: each receiver gets one message, and the
  cards in it are those of his own seat.
\<close>

theorem deal_shows_own_hand:
  assumes "broadcast_deal_cards g = Some g'"
  shows "\<exists>new. sent g' = sent g @ new \<and> map fst new = receivers g \<and>
    (\<forall>(u, m) \<in> set new. \<exists>d k order n first joker. m = DealCards d k order (CopyCardToMsg (hand_of u g) []) n first joker)"
proof -
  obtain orders where len: "length orders = length (receivers g)" and sent: "sent g' = sent g @ map (\<lambda>(u, order).
    (u, DealCards (m_dealer_index g) 13 order (CopyCardToMsg (hand_of u g) []) (length (m_bottom_cards g))
      (to_msg_card (hd (m_pokercard_pool g))) (to_msg_card (m_joker_card g)))) (zip (receivers g) orders)"
    (is "_ = _ @ ?new") using deal_messages [OF assms] by blast
  have "map fst ?new = receivers g" using len by (simp add: comp_def case_prod_beta)
  moreover have "\<forall>(u, m) \<in> set ?new. \<exists>d k order n first joker. m = DealCards d k order (CopyCardToMsg (hand_of u g) []) n first joker"
    by auto
  ultimately show ?thesis using sent by blast
qed

theorem deal_shows_own_hand_witness:
  "\<exists>g' new. broadcast_deal_cards (desk_room GAME_DEALER_CARD [low_hand, low_hand] [PokerCard 4 3]) = Some g' \<and>
    sent g' = sent (desk_room GAME_DEALER_CARD [low_hand, low_hand] [PokerCard 4 3]) @ new \<and> map fst new = [1, 2]"
proof -
  let ?g = "desk_room GAME_DEALER_CARD [low_hand, low_hand] [PokerCard 4 3]"
  have "broadcast_deal_cards ?g \<noteq> None" "receivers ?g = [1, 2]" by code_simp+
  then obtain g' where g': "broadcast_deal_cards ?g = Some g'" by blast
  from deal_shows_own_hand [OF g'] obtain new where "sent g' = sent ?g @ new" "map fst new = receivers ?g" by blast
  with g' \<open>receivers ?g = [1, 2]\<close> show ?thesis by (intro exI conjI) simp_all
qed

section \<open>Requests out of turn\<close>

text \<open>
  C11: A request out of turn is answered with an error and changes nothing else: to dig when it is
  not the player's turn to dig, to discard or to declare when it is not his turn to discard, and to
  drop while no game runs, while cards are dealt or during the declarations.
\<close>

theorem out_of_turn_refused:
  assumes "players g u = Some p" "m_pGameSeat p = Some i"
  shows "(\<not> is_active_player p g \<or> \<not> is_wait_active1 g \<longrightarrow> player_dig_card env u t g = Some (reply GG_ERROR_INVALID_STATUS g)) \<and>
    (\<not> is_active_player p g \<or> \<not> is_wait_active2 g \<longrightarrow>
      (\<exists>m. player_post_card env u c n g = Some (send_to u m (reply GG_ERROR_INVALID_STATUS g))) \<and>
      player_declare env u c gs g = Some (reply GG_ERROR_PARAMETER_INVALID g)) \<and>
    (is_game_over g \<or> is_declareing g \<or> is_dealer_card g \<longrightarrow> player_drop env u g = Some (reply GG_ERROR_INVALID_STATUS g))"
  using out_of_turn [OF assms] by blast

theorem out_of_turn_refused_witness:
  "player_dig_card sample_env 2 0 last_card_room = Some (reply GG_ERROR_INVALID_STATUS last_card_room) \<and>
   player_declare sample_env 2 \<lparr>mc_point = 2, mc_color = 1\<rparr> [] last_card_room = Some (reply GG_ERROR_PARAMETER_INVALID last_card_room)"
proof -
  have p: "players last_card_room 2 = Some (desk_player 1)" "m_pGameSeat (desk_player 1) = Some 1"
    by (simp_all add: last_card_room_def desk_room_def Let_def desk_player_def)
  have "\<not> is_active_player (desk_player 1) last_card_room" by code_simp
  with out_of_turn_refused [OF p] show ?thesis by blast
qed

text \<open>
  C12: What a declaration must be to end the game: it is accepted only when the declared card is in
  the hand, the groups and the declared card together are exactly the hand, and the groups satisfy
  the rule of \<open>is_groups_declare\<close>.
\<close>

theorem declaration_checked:
  assumes "check_declare i dc gs g = Some (g', True)" "i < length (m_seats g)"
  shows "parse_msg_card dc \<in> set (m_handcards_total (m_seats g ! i)) \<and>
    mset (concat (map m_cards (ParseMsgGroup [] gs))) + {#parse_msg_card dc#} = mset (m_handcards_total (m_seats g ! i)) \<and>
    is_groups_declare (ParseMsgGroup [] gs) (joker_point g)"
  using assms by (rule declared_cards)

theorem declaration_checked_witness:
  "is_groups_declare [CardGroup 1 [PokerCard 1 2, PokerCard 1 3, PokerCard 1 4], CardGroup 1 [PokerCard 3 10, PokerCard 3 11, PokerCard 3 12]] 6"
proof -
  let ?gs = "[CardGroup 1 [PokerCard 1 2, PokerCard 1 3, PokerCard 1 4], CardGroup 1 [PokerCard 3 10, PokerCard 3 11, PokerCard 3 12]]"
  let ?hand = "[PokerCard 1 2, PokerCard 1 3, PokerCard 1 4, PokerCard 3 10, PokerCard 3 11, PokerCard 3 12, PokerCard 4 8]"
  let ?g = "desk_room GAME_ACTIVE2 [?hand, low_hand] [PokerCard 4 3]"
  have ok: "map_option snd (check_declare 0 \<lparr>mc_point = 8, mc_color = 4\<rparr> (copy_group_to_msg ?gs []) ?g) = Some True"
    "joker_point ?g = 6" "0 < length (m_seats ?g)" "ParseMsgGroup [] (copy_group_to_msg ?gs []) = ?gs" by code_simp+
  then obtain g' where "check_declare 0 \<lparr>mc_point = 8, mc_color = 4\<rparr> (copy_group_to_msg ?gs []) ?g = Some (g', True)" by auto
  from declaration_checked [OF this ok(3)] show ?thesis unfolding ok(2,4) by blast
qed

section \<open>Seats and players\<close>

text \<open>
  C13: Seats and players point at each other: a seat is taken exactly when it has a player, the
  player's seat is that one, and a player with a seat is the one the seat has; the players of the
  room are the keys of the ordered map. This holds after every sequence of events, when new player
  objects have their user's id and no seat.
\<close>

theorem seats_and_players_linked:
  assumes "reachable g"
  shows "length (m_seats g) = 5 \<and>
    (\<forall>i < 5. is_seated (m_seats g ! i) \<longleftrightarrow> m_player (m_seats g ! i) \<noteq> None) \<and>
    (\<forall>i < 5. \<forall>u. m_player (m_seats g ! i) = Some u \<longleftrightarrow> (\<exists>p. players g u = Some p \<and> m_pGameSeat p = Some i)) \<and>
    sorted_wrt (<) (m_all_player g) \<and> set (m_all_player g) = dom (players g)"
proof -
  have ok: "seat_links g" "roster_ok g" using links_inv.always [OF assms] by (simp_all add: links_ok_def)
  note l = seat_linksD [OF ok(1)]
  show ?thesis using l(1,2,3,5) ok(2) unfolding roster_ok_def by blast
qed

theorem seats_and_players_linked_witness:
  "\<exists>g. reachable g \<and> get_seated_count g = 2 \<and> length (m_seats g) = 5 \<and> set (m_all_player g) = dom (players g)"
proof -
  obtain g where g: "reachable g" "get_seated_count g = 2" using sample_waiting by metis
  with seats_and_players_linked [OF g(1)] show ?thesis by blast
qed

text \<open>
  C14: The search for the next player ends: from any seat \<open>next_ingame_seat_number\<close> and
  \<open>next_seated_number\<close> return the first seat after it, round the desk, whose player is in the game
  (is seated), or the seat itself when there is no other.
\<close>

theorem next_seat_is_found:
  assumes "i < length (m_seats g)"
  shows "(\<exists>j. next_ingame_seat_number i g = Some j \<and> next_from (\<lambda>j. is_in_game (m_seats g ! j)) (length (m_seats g)) i j) \<and>
    (\<exists>j. next_seated_number i g = Some j \<and> next_from (\<lambda>j. is_seated (m_seats g ! j)) (length (m_seats g)) i j)"
  unfolding next_ingame_seat_number_def next_seated_number_def using next_seat_found [OF assms] by blast

theorem next_seat_is_found_witness:
  "\<exists>j. next_ingame_seat_number 2 last_card_room = Some j \<and> next_from (\<lambda>j. is_in_game (m_seats last_card_room ! j)) (length (m_seats last_card_room)) 2 j"
proof -
  have "2 < length (m_seats last_card_room)" by code_simp
  from next_seat_is_found [OF this] show ?thesis by blast
qed

text \<open>
  C15: The order of dealing is all seats taken, once each, round the desk from the dealer.
\<close>

theorem deal_order_round_desk:
  assumes "seat_index (m_dealer_index g) g = Some d"
  shows "get_player_deal_order g =
    Some (filter (\<lambda>j. is_seated (m_seats g ! j)) (map (\<lambda>k. (d + k) mod length (m_seats g)) [0..<length (m_seats g)]))"
  using assms by (rule deal_order_found)

theorem deal_order_round_desk_witness:
  "get_player_deal_order (last_card_room\<lparr>m_dealer_index := 1\<rparr>) = Some [1, 2, 0]"
proof -
  let ?g = "last_card_room\<lparr>m_dealer_index := 1\<rparr>"
  have "seat_index (m_dealer_index ?g) ?g = Some 1" by code_simp
  from deal_order_round_desk [OF this] show ?thesis
    by (simp add: last_card_room_def desk_room_def Let_def desk_seat_def is_seated_def has_def GameSeat_def upt_rec nth_append)
qed

section \<open>Chips\<close>

text \<open>
  C16: While a game runs no chips appear or vanish: the pool and the accounts of the seats add up
  to the same amount before and after every event, whatever the money service takes from a loser.
\<close>

theorem chips_of_running_game:
  assumes "reachable g" "handle env ev g = Some g'" "running (get_game_status_for_app g)" "running (get_game_status_for_app g')"
    and "0 \<le> m_small_blind (m_area_info g)"
  shows "m_chips_pool g' + accounts g' = m_chips_pool g + accounts g"
proof -
  have "\<forall>s \<in> set (m_seats g). 0 \<le> seat_score s"
    using scores_inv.always [OF assms(1)] by (simp add: scores_ok_def score_ok_def)
  from handle_purse [OF assms this] show ?thesis by (simp add: purse_def)
qed

theorem chips_of_running_game_witness:
  "\<exists>g g'. reachable g \<and> handle sample_env Timeout g = Some g' \<and> running (get_game_status_for_app g) \<and>
     m_chips_pool g' + accounts g' = m_chips_pool g + accounts g"
proof -
  obtain g g' where g: "reachable g" "handle sample_env Timeout g = Some g'" "game_probe g = (APP_DEALER_CARD, 2, 2, 10, False)"
    "game_probe g' = (APP_ACTIVE1, 2, 2, 10, True)"
    using sample_game by metis
  then have "running (get_game_status_for_app g)" "running (get_game_status_for_app g')" "0 \<le> m_small_blind (m_area_info g)"
    by (simp_all add: game_probe_def)
  with chips_of_running_game [OF g(1,2)] g(1,2) show ?thesis by blast
qed



text \<open>
  C18: The score of a seat, what its player pays in small blinds when he loses, is between 0 and 80
  after every sequence of events.
\<close>

theorem scores_bounded:
  assumes "reachable g" "i < length (m_seats g)"
  shows "0 \<le> seat_score (m_seats g ! i) \<and> seat_score (m_seats g ! i) \<le> 80"
  using scores_inv.always [OF assms(1)] nth_mem [OF assms(2)] by (auto simp: scores_ok_def score_ok_def)

theorem scores_bounded_witness:
  "\<exists>g. reachable g \<and> get_game_status_for_app g = APP_ACTIVE2 \<and> 0 \<le> seat_score (m_seats g ! 0) \<and> seat_score (m_seats g ! 0) \<le> 80"
proof -
  obtain g where g: "reachable g" "game_probe g = (APP_ACTIVE2, 2, 2, 10, True)" using sample_game by metis
  then have "get_game_status_for_app g = APP_ACTIVE2" "0 < length (m_seats g)"
    by (auto simp: game_probe_def can_play_def split: option.splits)
  with scores_bounded [OF g(1)] g(1) show ?thesis by blast
qed

section \<open>The rooms of a server\<close>

text \<open>
  C19: The rooms of a server, which share one \<open>Combination\<close> object, behave as rooms that are alone: after
  every sequence of requests, timeouts, online checks and closed rooms their ids differ and
  each room is one that \<open>reachable\<close> allows, so that the properties above hold for it; and a request changes no other
  room than its own, but for the room that a user leaves who enters another one.
\<close>

theorem server_rooms_reachable:
  assumes "server_runs m"
  shows "distinct (map fst (m_game_area m)) \<and> (\<forall>(i, g) \<in> set (m_game_area m). reachable g) \<and>
    (\<forall>env in_room i r m' j. dispatch_area_msg env in_room i r m = Some m' \<and> j \<noteq> parse_rid_uid_from_msg r i \<and>
      (\<forall>u name session. r = ApplyEnterRoom u name session \<longrightarrow> in_room u \<noteq> Some j) \<longrightarrow>
      map_of (m_game_area m') j = map_of (m_game_area m) j)"
proof (intro conjI allI impI)
  show "distinct (map fst (m_game_area m))" "\<forall>(i, g) \<in> set (m_game_area m). reachable g"
    using server_runs_areas [OF assms] by (simp_all add: areas_ok_def)
qed (elim conjE, rule dispatch_area_msg_other, assumption+, simp)

theorem server_rooms_reachable_witness:
  "\<exists>m g. server_runs sample_server \<and> map fst (m_game_area sample_server) = [1, 2] \<and> server_runs m \<and>
    map_of (m_game_area m) 1 = Some g \<and> m_all_player g = [1] \<and> map_of (m_game_area m) 2 = Some sample_open \<and> reachable g"
proof -
  have s: "map fst (m_game_area sample_server) = [1, 2]" "map_of (m_game_area sample_server) 2 = Some sample_open"
    by (simp_all add: sample_server_def send_flush_room_alive_def)
  obtain m g where m: "dispatch_area_msg sample_env (\<lambda>_. None) 1 (ApplyEnterRoom 1 ''a'' 1) sample_server = Some m"
    and g: "map_of (m_game_area m) 1 = Some g" "m_all_player g = [1]"
    using sample_server_enter by blast
  have "server_runs m" by (rule server_runs.request [OF sample_server_runs sample_env_fresh m])
  moreover have "map_of (m_game_area m) 2 = Some sample_open"
    using server_rooms_reachable [OF sample_server_runs, THEN conjunct2, THEN conjunct2, rule_format,
      of sample_env "\<lambda>_. None" 1 "ApplyEnterRoom 1 ''a'' 1" m 2] m s(2) by (simp add: parse_rid_uid_from_msg_def)
  moreover have "reachable g"
    using server_rooms_reachable [OF \<open>server_runs m\<close>] map_of_SomeD [OF g(1)] by blast
  ultimately show ?thesis
    using sample_server_runs s(1) g by - (rule exI [of _ m], rule exI [of _ g], intro conjI, assumption+)
qed

section \<open>Defects of the desk\<close>

text \<open>
  A drop after digging does not shuffle the pool. With one card left at the bottom the next
  player takes it, discards, and the dig of the player after him fails an assertion.
\<close>

lemma drop_leads_to_empty_bottom:
  "\<exists>g. run sample_env [Request (ApplyDrop 1), Request (ApplyDigCard 2 DIG_BOTTOM), Request (ApplyPostCard 2 \<lparr>mc_point = 2, mc_color = 1\<rparr> 0)]
      last_card_room = Some g \<and> get_game_status_for_app g = APP_ACTIVE1 \<and> m_bottom_cards g = [] \<and>
    handle sample_env (Request (ApplyDigCard 3 DIG_BOTTOM)) g = None"
proof -
  have "map_option (\<lambda>g. (get_game_status_for_app g, m_bottom_cards g, handle sample_env (Request (ApplyDigCard 3 DIG_BOTTOM)) g = None))
    (run sample_env [Request (ApplyDrop 1), Request (ApplyDigCard 2 DIG_BOTTOM), Request (ApplyPostCard 2 \<lparr>mc_point = 2, mc_color = 1\<rparr> 0)]
      last_card_room) = Some (APP_ACTIVE1, [], True)"
    by code_simp
  then show ?thesis by auto
qed

text \<open>
  The player who has declared can send the declaration of a loser himself: in a game of two he
  is charged, the game is over and the other player, who has not declared, pays nothing.
\<close>

lemma winner_declares_as_loser:
  "\<exists>g. handle sample_env (Request (ApplyLoseDeclare 1 low_groups)) declared_room = Some g \<and>
     get_game_status_for_app g = APP_DISTRIBUTE \<and> set (lost_accounts g) = {(2, 0)}"
proof -
  have "map_option (\<lambda>g. (get_game_status_for_app g, lost_accounts g)) (handle sample_env (Request (ApplyLoseDeclare 1 low_groups)) declared_room) =
    Some (APP_DISTRIBUTE, [(2, 0), (2, 0)])"
    by code_simp
  then show ?thesis by auto
qed

section \<open>Sessions\<close>

text \<open>
  C20: Messages that the receiver can take arrive: let a session be given messages in any order with its reads,
  the completions and failures of its writes and its checks, and let the bytes it wrote reach a
  session that waits for a frame, cut into pieces in any way. Suppose that the frame of each message has at most the 131072 bytes that
  \<open>decode_header\<close> accepts (\<open>fits\<close>), and that protobuf reads back what it wrote, with a prototype that the receiver has registered for
  the command (\<open>reads_back\<close>). Then that session deals exactly the
  first messages, in their order, each as it was sent with its header completed; while the sender
  is open these are all whose write has begun, one more than have been written.
\<close>

theorem tcp_stream_delivered:
  assumes "start t (TcpSession t) = Some s0" "sends env s0 ms d s"
    and "\<forall>m \<in> set ms. fits env m \<and> reads_back env' m" and "env_pb env' = env_pb env"
    and "awaits_frame r" and "concat cs = concat (wires s)"
  shows "\<exists>k r'. k \<le> length ms \<and> (sock_open s \<longrightarrow> k = min (Suc d) (length ms))
    \<and> feed_chunks env' tm r [] cs = Some (r', []) \<and> awaits_frame r'
    \<and> out r' = out r @ map (Deal \<circ> delivered env) (take k ms)"
  using assms by (rule stream_delivered)

theorem tcp_stream_delivered_witness:
  "\<exists>s0 s r'. sends (sample_tcp_env False) s0 sent_heartbeats 1 s
     \<and> feed_chunks (sample_tcp_env True) 0 s0 [] (map (\<lambda>b. [b]) (concat (wires s))) = Some (r', [])
     \<and> out r' = out s0 @ map (Deal \<circ> delivered (sample_tcp_env False)) sent_heartbeats"
proof -
  obtain s0 s where s: "start 0 (TcpSession 0) = Some s0" "sends (sample_tcp_env False) s0 sent_heartbeats 1 s" "sock_open s"
    by (rule sample_sends)
  have "sock_open (TcpSession 0 :: u8 list tcp_session)" by (simp add: TcpSession_def)
  from start_idle [OF this, of 0] have "awaits_frame s0" using s(1) by auto
  then obtain k r' where r': "k \<le> length sent_heartbeats" "sock_open s \<longrightarrow> k = min (Suc 1) (length sent_heartbeats)"
    "feed_chunks (sample_tcp_env True) 0 s0 [] (map (\<lambda>b. [b]) (concat (wires s))) = Some (r', [])"
    "out r' = out s0 @ map (Deal \<circ> delivered (sample_tcp_env False)) (take k sent_heartbeats)"
    using tcp_stream_delivered [OF s(1,2), of "sample_tcp_env True" s0 "map (\<lambda>b. [b]) (concat (wires s))" 0]
      sample_frames by (auto simp: sample_tcp_env_def)
  moreover have "take k sent_heartbeats = sent_heartbeats" using r'(2) s(3) by (simp add: sent_heartbeats_def)
  ultimately show ?thesis using s(2) by auto
qed



text \<open>
  C22: The length of a header that a client may send: a session that waits for a frame and gets
  the four bytes of the length is in the defined part of the program exactly when the first of
  them, the high byte, is below 128. A length that is too large is refused, a negative one is
  taken for the size of the next read, which runs over the buffer.
\<close>

theorem tcp_header_length_bound:
  assumes "awaits_frame s"
  shows "read_step env tm s (x0 # x1 # x2 # x3 # rest) = None \<longleftrightarrow> 128 \<le> x0"
  using assms by (rule header_length_checked)

theorem tcp_header_length_bound_witness:
  "\<exists>s. awaits_frame s \<and> read_step (sample_tcp_env False) 0 s [255, 255, 255, 255] = None
     \<and> read_step (sample_tcp_env False) 0 s [127, 255, 255, 255] \<noteq> None"
proof -
  have "sock_open (TcpSession 0)" by (simp add: TcpSession_def)
  then obtain s :: "u8 list tcp_session" where s: "awaits_frame s" using start_idle by blast
  have "128 \<le> (255 :: u8)" "\<not> 128 \<le> (127 :: u8)" by simp_all
  with tcp_header_length_bound [OF s, of "sample_tcp_env False" 0 _ 255 255 255 "[]"] s show ?thesis by blast
qed

text \<open>
  C23: Every asynchronous request that is taken gets its callback: whatever requests, responses and timeouts come
  in whatever order, the assertion of the timeout handler holds; as soon as nothing waits under a sequence number, each callback
  was posted for it at least as often as requests with that number and callback were taken; when all timers have run out and the handlers
  have run, this is so for all numbers and none waits. A request under a number that waits is not taken: it is ignored and
  gets no callback.
\<close>

theorem requests_get_answers:
  assumes "requests qs r"
  shows "(\<exists>r'. run_timer_handler r = Some r') \<and>
    (\<forall>q f. m_items r q = None \<longrightarrow> count_list qs (q, f) \<le> callbacks q f r) \<and>
    (timers_running r = {} \<longrightarrow>
      (\<exists>r'. run_handlers (length (expired r)) r = Some r' \<and> m_items r' = (\<lambda>_. None) \<and>
        (\<forall>q f. count_list qs (q, f) \<le> callbacks q f r'))) \<and>
    (\<forall>req f. m_items r (h_sequenceid req) \<noteq> None \<longrightarrow> send_request req f r = r)"
  using handler_runs [OF assms] request_answered [OF assms] all_answered [OF assms] by (auto simp: send_request_def)

theorem requests_get_answers_witness:
  "\<exists>(r :: bool async_request) r'. requests [(0, True), (7, False)] r \<and> run_handlers 2 r = Some r' \<and> m_items r' = (\<lambda>_. None) \<and>
     1 \<le> callbacks 0 True r' \<and> 1 \<le> callbacks 7 False r'"
proof -
  let ?r0 = "send_request empty_header True AsyncRequest"
  let ?r1 = "send_request (empty_header\<lparr>h_sequenceid := 7\<rparr>) False ?r0"
  let ?r = "on_response_come (empty_header\<lparr>h_sequenceid := 7\<rparr>) (timer_expires 0 ?r1)"
  have "requests ([] @ [(h_sequenceid empty_header, True)] @ [(h_sequenceid (empty_header\<lparr>h_sequenceid := 7\<rparr>), False)]) ?r"
    unfolding append_assoc [symmetric] by (intro requests.intros) (simp_all add: send_request_def AsyncRequest_def empty_header_def)
  then have r: "requests [(0, True), (7, False)] ?r" by (simp add: empty_header_def)
  have t: "timers_running ?r = {}" "length (expired ?r) = 2"
    by (simp_all add: on_response_come_def cancel_timer_def timer_expires_def send_request_def AsyncRequest_def
        empty_header_def Let_def insert_Diff_if)
  obtain r' where r': "run_handlers 2 ?r = Some r'" "m_items r' = (\<lambda>_. None)"
    "\<forall>q f. count_list [(0, True), (7, False)] (q, f) \<le> callbacks q f r'"
    using requests_get_answers [OF r] t by metis
  have "1 \<le> callbacks 0 True r'" "1 \<le> callbacks 7 False r'"
    using r'(3) [rule_format, of 0 True] r'(3) [rule_format, of 7 False] by simp_all
  with r r'(1,2) show ?thesis by blast
qed

text \<open>
  C24: A client of a server does not get stuck before a request to connect was run late (the reconnect timer had run out and its
  handler waited behind the request): in every such run, whatever requests to connect to a readable address and to close, ends of
  connects, ends of sessions and timeouts come, the next handler of its loop runs and follows no null
  pointer; the client never connects while it has a session; and while it is to be connected it has a session, a
  connect whose end is to come, or a reconnect timer that is to run out. After a late request this is lost: there is a run with one
  in which a handler follows the null socket.
\<close>

theorem client_goes_on:
  assumes "client_runs False c"
  shows "(\<exists>c'. run_next c = Some c') \<and> \<not> (m_is_connecting c \<and> m_is_connected c) \<and>
    (m_auto_reconnect c \<longrightarrow> m_session_ref c \<noteq> None \<or>
      m_socket c = Some (True, True) \<or> (\<exists>err. Connet_complete err \<in> set (ready c)) \<or>
      Reconnect_timer \<in> timers_waiting c \<or> Timer Reconnect_timer False \<in> set (ready c)) \<and>
    (\<exists>c :: nat client. client_runs True c \<and> run_next c = None)"
proof -
  have ok: "client_ok c" using client_runs_ok [OF assms] by simp
  then have "\<not> (m_is_connecting c \<and> m_is_connected c)" by (auto simp: client_ok_def socket_ok_def)
  with client_runs_next [OF assms] client_ok_goes_on [OF ok] late_connect_fails show ?thesis by blast
qed

theorem client_goes_on_witness:
  "\<exists>c c' :: nat client. client_runs False c \<and> m_auto_reconnect c \<and> m_socket c = Some (True, True) \<and> run_next c = Some c'"
proof -
  let ?c0 = "post (Do_connect (Some 5)) (Client :: nat client)"
  obtain c :: "nat client" where c: "run_next ?c0 = Some c" "m_auto_reconnect c" "m_socket c = Some (True, True)"
    by (simp add: run_next_def Client_def client_defs)
  have "\<not> late_connect ?c0" by (simp add: late_connect_def post_def Client_def)
  with client_runs.run [OF client_runs.connect [OF client_runs.start] c(1)] have r: "client_runs False c" by simp
  show ?thesis using client_goes_on [OF r] r c by blast
qed



section \<open>The players of the server\<close>

text \<open>
  C26: The tables of the player manager and of the rooms stay well formed, whatever logins, ends of
  sessions, kicks, heartbeats, entries and departures come: the end of a session and the
  departure from a room pass all assertions, a user is online with at most one session and is in
  at most one room.
\<close>

theorem manager_tables:
  assumes "managed rooms m"
  shows "(\<forall>s. \<exists>m'. on_session_close s m = Some m') \<and>
    (\<forall>i r uid p. rooms i = Some r \<and> gr_players r uid = Some p \<longrightarrow> (\<exists>r' m'. room_destroy_player p (r, m) = Some (r', m'))) \<and>
    (\<forall>s s' p p'. m_online_user m s = Some p \<and> m_online_user m s' = Some p' \<and>
      gp_user_id (gplayers m ! p) = gp_user_id (gplayers m ! p') \<longrightarrow> s = s') \<and>
    (\<forall>i j r r' uid. rooms i = Some r \<and> rooms j = Some r' \<and> gr_players r uid \<noteq> None \<and> gr_players r' uid \<noteq> None \<longrightarrow> i = j)"
proof (intro conjI allI impI; (elim conjE)?)
  show "i = j" if "rooms i = Some r" "rooms j = Some r'" "gr_players r uid \<noteq> None" "gr_players r' uid \<noteq> None" for i j r r' uid
    using managed_facts(4) [OF assms that(1,2)] that(3,4) by blast
qed (rule managed_facts [OF assms]; assumption)+

theorem manager_tables_witness:
  "\<exists>rooms m m'. managed rooms m \<and> is_player_online 1 m \<and> on_session_close (Some (5 :: nat)) m = Some m'"
proof -
  let ?m = "snd (player_token_login 0 (token_of 1) (5 :: nat) PlayerManager)"
  have m: "managed (open_rooms (\<lambda>_. None)) ?m" by (rule managed.login [OF managed.start])
  moreover have "is_player_online 1 ?m"
    by (simp add: player_token_login_def token_of_def check_user_token_def add_user_session_def enrol_def
        PlayerManager_def pm_send_def new_player_def is_player_online_def recv_session_def Let_def)
  ultimately show ?thesis using manager_tables [OF m] by blast
qed

text \<open>
  C27: A login takes the user over: with a token that passes the checks it succeeds, the new session
  is the one of the user and leads to his player object, the session he had before is shut down,
  and its end, when it comes later, changes nothing.
\<close>

theorem login_replaces_session:
  assumes "managed rooms m" "check_user_token t" "tok_user_id t = Some uid"
    and "player_token_login tm t s m = (ok, m')"
  shows "ok \<and> check_player_session uid (Some s) m'
      \<and> (\<exists>p. m_online_user m' (Some s) = Some p \<and> gp_user_id (gplayers m' ! p) = uid)
      \<and> (\<forall>s0. recv_session uid m = Some s0 \<and> s0 \<noteq> s \<longrightarrow>
           last (pm_out m') = Shutdown (Some s0) \<and> on_session_close (Some s0) m' = Some m')"
  using login_takes_over [OF assms] by blast

theorem login_replaces_session_witness:
  "\<exists>m m'. recv_session 1 m = Some (5 :: nat) \<and> player_token_login 0 (token_of 1) 6 m = (True, m') \<and>
     check_player_session 1 (Some 6) m' \<and> on_session_close (Some 5) m' = Some m'"
proof -
  let ?m = "snd (player_token_login 0 (token_of 1) (5 :: nat) PlayerManager)"
  have m: "managed (open_rooms (\<lambda>_. None)) ?m" by (rule managed.login [OF managed.start])
  have t: "check_user_token (token_of 1)" "tok_user_id (token_of 1) = Some 1" by (simp_all add: token_of_def check_user_token_def)
  have s0: "recv_session 1 ?m = Some 5"
    by (simp add: player_token_login_def token_of_def check_user_token_def add_user_session_def enrol_def
        PlayerManager_def pm_send_def new_player_def recv_session_def Let_def)
  obtain ok m' where m': "player_token_login 0 (token_of 1) 6 ?m = (ok, m')" by fastforce
  from login_replaces_session [OF m t m'] s0 m' show ?thesis by (intro exI [of _ ?m] exI [of _ m']) auto
qed

section \<open>Tokens\<close>

text \<open>
  C28: A token comes back: a text without a zero byte that is encrypted, with the fixed key or the
  key of a seed, and travels as Base64 is decrypted to the same text, whatever the structures of
  both functions held on the stack before.
\<close>

theorem token_round_trip:
  assumes "length (rd_key mem) = 60" "length (rd_key mem') = 60"
    and "length (ctx_in garbage) = 64" "length (ctx_in garbage') = 64" "length seed < 2 ^ 32" "0 \<notin> set inp"
  shows "(\<exists>t. AES_ecb128_encrypt_token mem garbage inp = Some t \<and> AES_ecb128_decrypt_token mem' garbage' t = Some inp)
    \<and> (\<exists>t. AES_ecb128_encrypt_seed mem garbage inp seed = Some t \<and> AES_ecb128_decrypt_seed mem' garbage' t seed = Some inp)"
  using token_default [OF assms(1-4,6)] token_seed [OF assms] by blast

theorem token_round_trip_witness:
  "let mem = \<lparr>rd_key = replicate 60 0, aes_rounds = 0\<rparr>;
       garbage = \<lparr>ctx_buf = (1, 2, 3, 4), ctx_bits0 = 5, ctx_bits1 = 6, ctx_in = replicate 64 7\<rparr>
   in \<exists>t. AES_ecb128_encrypt_seed mem garbage (chars ''user 42'') (chars ''key'') = Some t
        \<and> AES_ecb128_decrypt_seed mem garbage t (chars ''key'') = Some (chars ''user 42'')"
proof -
  let ?mem = "\<lparr>rd_key = replicate 60 0, aes_rounds = 0\<rparr>"
  let ?garbage = "\<lparr>ctx_buf = (1, 2, 3, 4), ctx_bits0 = 5, ctx_bits1 = 6, ctx_in = replicate 64 7\<rparr>"
  have "length (chars ''key'') < 2 ^ 32" "0 \<notin> set (chars ''user 42'')" by (simp_all add: chars_def)
  then show ?thesis
    using token_round_trip [of ?mem ?mem ?garbage ?garbage "chars ''key''" "chars ''user 42''"] by (simp add: Let_def)
qed

text \<open>
  C29: Decryption inverts encryption, for keys of 128, 192 and 256 bits: both key schedules succeed,
  whatever their structures held before, and every encrypted block decrypts to itself.
\<close>

theorem aes_round_trip:
  assumes "n \<in> {128, 192, 256}" "length (rd_key k) = 60" "length (rd_key k') = 60"
  shows "\<exists>ek dk. AES_set_encrypt_key (Some u) n (Some k) = (0, Some ek) \<and>
    AES_set_decrypt_key (Some u) n (Some k') = (0, Some dk) \<and>
    (\<forall>inp. length inp = 16 \<longrightarrow> (\<exists>c. AES_encrypt inp ek = Some c \<and> length c = 16 \<and> AES_decrypt c dk = Some inp))"
  using aes_keys [OF assms, of u] by metis

theorem aes_round_trip_witness:
  "let k = \<lparr>rd_key = replicate 60 0, aes_rounds = 0\<rparr> in
   \<exists>ek dk. AES_set_encrypt_key (Some (replicate 32 1)) 256 (Some k) = (0, Some ek) \<and>
     AES_set_decrypt_key (Some (replicate 32 1)) 256 (Some k) = (0, Some dk) \<and>
     (\<exists>c. AES_encrypt (replicate 16 2) ek = Some c \<and> AES_decrypt c dk = Some (replicate 16 2))"
proof -
  let ?k = "\<lparr>rd_key = replicate 60 0, aes_rounds = 0\<rparr>"
  obtain ek dk where k: "AES_set_encrypt_key (Some (replicate 32 1)) 256 (Some ?k) = (0, Some ek)"
    "AES_set_decrypt_key (Some (replicate 32 1)) 256 (Some ?k) = (0, Some dk)"
    and b: "\<forall>inp. length inp = 16 \<longrightarrow> (\<exists>c. AES_encrypt inp ek = Some c \<and> length c = 16 \<and> AES_decrypt c dk = Some inp)"
    using aes_round_trip [of 256 ?k ?k "replicate 32 1"] by auto
  from b [rule_format, of "replicate 16 2"] k show ?thesis unfolding Let_def by auto
qed

text \<open>
  C30: The digest is MD5 as RFC 1321 defines it: however the bytes are cut into pieces (of less than \<open>2^32\<close> bytes each, the range of the length
  argument), the context gives the digest that the RFC's own functions, word order, shifts and sine constants give for
  the whole message with its padding and bit count, the carry between the two words of the count included.
\<close>

theorem md5_pieces_whole:
  assumes "length (ctx_in garbage) = 64" "\<forall>b \<in> set pieces. length b < 2 ^ 32"
  shows "fst (MD5Final (fold (\<lambda>b ctx. MD5Update ctx b) pieces (MD5Init garbage))) = rfc_md5 (concat pieces)"
  using MD5_pieces [OF assms] by (simp only: md5_whole_rfc)

theorem md5_pieces_whole_witness:
  "let garbage = \<lparr>ctx_buf = (1, 2, 3, 4), ctx_bits0 = 5, ctx_bits1 = 6, ctx_in = replicate 64 7\<rparr>
   in fst (MD5Final (MD5Update (MD5Update (MD5Init garbage) (replicate 60 1)) (replicate 70 2)))
        = rfc_md5 (replicate 60 1 @ replicate 70 2)"
proof -
  let ?garbage = "\<lparr>ctx_buf = (1, 2, 3, 4), ctx_bits0 = 5, ctx_bits1 = 6, ctx_in = replicate 64 7\<rparr>"
  show ?thesis using md5_pieces_whole [of ?garbage "[replicate 60 1, replicate 70 2]"] by (simp add: Let_def)
qed

section \<open>Sample hands\<close>

definition sample_hand :: "poker_card list" where
  "sample_hand = [PokerCard 1 2, PokerCard 1 3, PokerCard 1 4, PokerCard 2 5, PokerCard 2 6, PokerCard 2 7,
     PokerCard 3 9, PokerCard 4 9, PokerCard 1 9, PokerCard 0 15, PokerCard 4 13, PokerCard 3 12, PokerCard 2 2,
     PokerCard 1 14]"

definition fresh_combination :: combination where
  "fresh_combination = \<lparr>cb_joker_cards = [], cb_joker_combines = [], cb_joker_point = 0\<rparr>"

lemma sample_hand_facts:
  "playable sample_hand" "sample_hand \<noteq> []" "length sample_hand = 14"
  "\<not> one_colour (naturals 11 sample_hand)"
  by code_simp+

section \<open>Splitting a hand into groups\<close>

text \<open>
  C31: For a hand of at most 14 cards of the double deck, \<open>search_all_group\<close> never hits one of its
  assertions, and each combination it reports splits the hand: its groups together are exactly
  the cards of the hand, its score is the score of the cards left over, the groups before the
  left-over group are straights and sets of the hand, the first of them is a pure straight, the
  second a straight, and the two ``life'' flags say whether those two exist.
\<close>

theorem search_all_group_splits:
  assumes "playable hand" "hand \<noteq> []"
  shows "\<exists>cb' combs. search_all_group cb hand stop [] = Some (cb', combs) \<and>
    (\<forall>info \<in> set combs. info_ok (cb_joker_point cb) hand info \<and>
       mset (concat (map m_cards (m_card_group info))) = mset hand)"
  using search_all_group_ok [OF assms, of cb "cb_joker_point cb" stop] info_ok_partition by blast

theorem search_all_group_splits_witness:
  "\<exists>cb' combs. search_all_group fresh_combination sample_hand 1 [] = Some (cb', combs) \<and>
    (\<forall>info \<in> set combs. info_ok (cb_joker_point fresh_combination) sample_hand info \<and>
       mset (concat (map m_cards (m_card_group info))) = mset sample_hand)"
  by (rule search_all_group_splits) (rule sample_hand_facts)+

text \<open>
  C32: The declaration \<open>default_declare\<close> makes for a player: on a hand of the double deck with
  natural cards of two colours it never faults, the groups declared are exactly the cards of the
  hand, and the score is the least score of all combinations the search reports.
\<close>

theorem default_declare_least:
  assumes "playable hand" "\<not> one_colour (naturals jp hand)"
  shows "\<exists>cb' combs score groups.
    search_all_group (cb\<lparr>cb_joker_point := jp\<rparr>) hand 0 [] = Some (cb', combs) \<and>
    default_declare cb hand jp = Some (cb', score, groups) \<and>
    mset (concat (map m_cards groups)) = mset hand \<and>
    (\<exists>info \<in> set combs. score = m_score info \<and> groups = m_card_group info) \<and> (\<forall>info \<in> set combs. score \<le> m_score info)"
proof -
  have ne: "hand \<noteq> []" using assms(2) by (auto simp: one_colour_def)
  from search_all_group_ok [OF assms(1) ne, of "cb\<lparr>cb_joker_point := jp\<rparr>" jp 0]
  obtain cb' combs where s: "search_all_group (cb\<lparr>cb_joker_point := jp\<rparr>) hand 0 [] = Some (cb', combs)"
    and ok: "\<forall>info \<in> set combs. info_ok jp hand info" and "combs = [] \<longleftrightarrow> only_whole_hand (cb\<lparr>cb_joker_point := jp\<rparr>) hand"
    by auto
  then have "combs \<noteq> []"
    using two_colours_not_whole [OF assms(1), of "cb\<lparr>cb_joker_point := jp\<rparr>"] assms(2) by simp
  from default_declare_ok [OF assms(1) ne s this] show ?thesis
    using s ok info_ok_partition by blast
qed

theorem default_declare_least_witness:
  "\<exists>cb' combs score groups.
    search_all_group (fresh_combination\<lparr>cb_joker_point := 11\<rparr>) sample_hand 0 [] = Some (cb', combs) \<and>
    default_declare fresh_combination sample_hand 11 = Some (cb', score, groups) \<and>
    mset (concat (map m_cards groups)) = mset sample_hand \<and>
    (\<exists>info \<in> set combs. score = m_score info \<and> groups = m_card_group info) \<and> (\<forall>info \<in> set combs. score \<le> m_score info)"
  by (rule default_declare_least) (rule sample_hand_facts)+

text \<open>
  \<open>default_declare\<close> fails its assertion exactly when the search finds pure straights and each
  of them is the whole hand (then no combination is reported).
\<close>

lemma default_declare_assert:
  assumes "playable hand" "hand \<noteq> []"
  shows "default_declare cb hand jp = None \<longleftrightarrow> only_whole_hand (cb\<lparr>cb_joker_point := jp\<rparr>) hand"
  by (rule default_declare_fault) (rule assms)+

text \<open>
  C33: The discard \<open>post_best_card\<close> chooses for 14 cards, whatever permutation \<open>std::sort\<close> makes of
  equally ranked combinations. It fails its assertion exactly when the search finds pure straights and each of them is the whole
  hand, which needs natural cards of one colour. Otherwise it returns a card of the hand; it works on a combination no other
  combination beats in \<open>sort_combine_func\<close>; with cards left over it discards one of those, the score
  is what the others are worth, and no equally ranked combination would leave less.
\<close>

theorem post_best_card_best:
  assumes "playable hand" "length hand = 14" and "std_sort_spec sort_combine_func std_sort"
  shows "\<exists>cb' combs. search_all_group (cb\<lparr>cb_joker_point := jp\<rparr>) hand 1 [] = Some (cb', combs) \<and>
    (if only_whole_hand (cb\<lparr>cb_joker_point := jp\<rparr>) hand then one_colour (naturals jp hand) \<and> post_best_card std_sort cb hand jp c = None
     else \<exists>info c' score. post_best_card std_sort cb hand jp c = Some (cb', c', score) \<and> c' \<in> set hand \<and>
       best_discard jp combs info c' score)"
proof -
  have ne: "hand \<noteq> []" using assms(2) by auto
  from search_all_group_ok [OF assms(1) ne, of "cb\<lparr>cb_joker_point := jp\<rparr>" jp 1]
  obtain cb' combs where s: "search_all_group (cb\<lparr>cb_joker_point := jp\<rparr>) hand 1 [] = Some (cb', combs)"
    and e: "combs = [] \<longleftrightarrow> only_whole_hand (cb\<lparr>cb_joker_point := jp\<rparr>) hand"
    by auto
  have "post_best_card std_sort cb hand jp c = None" if "combs = []" using s that by (simp add: post_best_card_def)
  moreover have "only_whole_hand (cb\<lparr>cb_joker_point := jp\<rparr>) hand \<Longrightarrow> one_colour (naturals jp hand)"
    using two_colours_not_whole [OF assms(1), of "cb\<lparr>cb_joker_point := jp\<rparr>"] by auto
  ultimately show ?thesis
    using post_best_card_ok [OF assms(1,2) s _ assms(3)] s e by (intro exI [of _ cb'] exI [of _ combs]) auto
qed

theorem post_best_card_best_witness:
  "\<exists>cb' combs info c' score.
    search_all_group (fresh_combination\<lparr>cb_joker_point := 11\<rparr>) sample_hand 1 [] = Some (cb', combs) \<and>
    post_best_card stable_sort_combs fresh_combination sample_hand 11 no_card = Some (cb', c', score) \<and>
    c' \<in> set sample_hand \<and> best_discard 11 combs info c' score"
proof -
  have "\<not> only_whole_hand (fresh_combination\<lparr>cb_joker_point := 11\<rparr>) sample_hand"
    using two_colours_not_whole [OF sample_hand_facts(1), of "fresh_combination\<lparr>cb_joker_point := 11\<rparr>"] sample_hand_facts(4) by simp
  with post_best_card_best [OF sample_hand_facts(1,3) comb_sort.std_sort_spec_axioms, where cb = fresh_combination and jp = 11 and c = no_card]
  show ?thesis by (simp only: if_False) blast
qed

section \<open>The rules for groups\<close>

text \<open>
  C34: Soundness of the search for groups: on a hand of the double deck, with the object's jokers
  set to those of the hand, both searches end without a fault and only append groups; every
  straight appended is taken from the hand, has three or more cards and passes
  \<open>is_cards_straight\<close>; every set appended is taken from the hand and its natural cards are two or
  more different cards of one point.
\<close>

theorem searches_sound:
  assumes "playable hand" "jokers_of cb hand"
  shows "(\<exists>strs. search_straight_flush cb hand gs = Some (gs @ strs) \<and>
      (\<forall>g \<in> set strs. m_type g = GROUP_STAIGHT \<and> mset (m_cards g) \<subseteq># mset hand \<and> 3 \<le> length (m_cards g) \<and>
         is_cards_straight (sort (m_cards g)) (cb_joker_point cb))) \<and>
    (\<exists>sets. search_three_of_kind cb hand gs = Some (gs @ sets) \<and> (\<forall>g \<in> set sets. kind_in (cb_joker_point cb) hand g))"
  using search_straight_flush_grows [OF assms refl, of gs] search_three_of_kind_grows [OF assms refl, of gs]
  unfolding grows_def straight_in_def group_in_def by blast

theorem searches_sound_witness:
  "\<exists>strs. search_straight_flush (fresh_combination\<lparr>cb_joker_cards := [PokerCard 0 15], cb_joker_combines := [[PokerCard 0 15]]\<rparr>)
        sample_hand [] = Some ([] @ strs) \<and>
      (\<forall>g \<in> set strs. m_type g = GROUP_STAIGHT \<and> mset (m_cards g) \<subseteq># mset sample_hand \<and> 3 \<le> length (m_cards g) \<and>
         is_cards_straight (sort (m_cards g)) 0)"
proof -
  let ?cb = "fresh_combination\<lparr>cb_joker_cards := [PokerCard 0 15], cb_joker_combines := [[PokerCard 0 15]]\<rparr>"
  have "jokers_of ?cb sample_hand" by code_simp
  from searches_sound [OF sample_hand_facts(1) this, of "[]"] show ?thesis
    by (simp add: fresh_combination_def)
qed

text \<open>
  C35: The rule \<open>is_cards_straight\<close> decides on the sorted cards: three or more cards whose natural
  cards are different cards of one colour that fit in a window of as many points as there are
  cards, with the ace counted high or low.
\<close>

theorem is_cards_straight_meaning:
  assumes "\<forall>c \<in> set cards. is_valid_card c"
  shows "is_cards_straight (sort cards) jp \<longleftrightarrow>
     3 \<le> length cards \<and> same_suit_distinct (naturals jp cards)
     \<and> (in_window high_point (length cards) (naturals jp cards)
        \<or> in_window low_point (length cards) (naturals jp cards))"
  by (rule is_cards_straight_rule) (rule assms)

theorem is_cards_straight_meaning_witness:
  "same_suit_distinct (naturals 9 [PokerCard 2 14, PokerCard 2 3, PokerCard 0 16])
     \<and> (in_window high_point 3 (naturals 9 [PokerCard 2 14, PokerCard 2 3, PokerCard 0 16])
        \<or> in_window low_point 3 (naturals 9 [PokerCard 2 14, PokerCard 2 3, PokerCard 0 16]))"
proof -
  let ?cards = "[PokerCard 2 14, PokerCard 2 3, PokerCard 0 16]"
  have valid: "\<forall>c \<in> set ?cards. is_valid_card c" and yes: "is_cards_straight (sort ?cards) 9" by code_simp+
  have "length ?cards = 3" by simp
  with is_cards_straight_meaning [OF valid, of 9] yes show ?thesis by metis
qed

text \<open>
  C36: What \<open>is_cards_pure_straight\<close> accepts, exactly: three or more cards that are a run of one
  colour, or cards that begin with a run from the two and an ace of the colour that is not next
  in the run. In the second case the cards after the ace are not looked at.
\<close>

theorem is_cards_pure_straight_meaning:
  "is_cards_pure_straight cards \<longleftrightarrow>
     3 \<le> length cards \<and> (is_run cards \<or> (\<exists>pre a rest. cards = pre @ a # rest \<and> ace_low_run pre a))"
  by (rule is_cards_pure_straight_iff)

text \<open>
  So a joker can be part of an accepted ``pure'' straight: 2, ace and joker.
\<close>

lemma pure_straight_with_joker:
  "is_cards_pure_straight [PokerCard 1 2, PokerCard 1 14, PokerCard 0 15] \<and> is_joker 9 (PokerCard 0 15)"
  by code_simp

text \<open>
  C37: The rule \<open>is_cards_three_of_kind\<close> decides on the sorted cards when none of them has the wild
  point: three or four cards with at least two natural ones, all of these different and of one point.
\<close>

theorem is_cards_three_of_kind_meaning:
  assumes "\<forall>c \<in> set cards. uint (m_point c) \<noteq> jp"
  shows "is_cards_three_of_kind (sort cards) jp \<longleftrightarrow>
     3 \<le> length cards \<and> length cards \<le> 4 \<and> 2 \<le> length (naturals jp cards)
     \<and> one_point (naturals jp cards) \<and> distinct (naturals jp cards)"
  by (rule is_cards_three_of_kind_rule) (rule assms)

theorem is_cards_three_of_kind_meaning_witness:
  "one_point (naturals 7 [PokerCard 1 5, PokerCard 0 15, PokerCard 2 5])
     \<and> distinct (naturals 7 [PokerCard 1 5, PokerCard 0 15, PokerCard 2 5])"
proof -
  let ?cards = "[PokerCard 1 5, PokerCard 0 15, PokerCard 2 5]"
  have no: "\<forall>c \<in> set ?cards. uint (m_point c) \<noteq> 7" and yes: "is_cards_three_of_kind (sort ?cards) 7" by code_simp+
  from is_cards_three_of_kind_meaning [OF no] yes show ?thesis by metis
qed

text \<open>
  With a card of the wild point between them, two natural cards of different points are
  accepted as a set: 5, 7 and 9 with wild point 7.
\<close>

lemma three_of_kind_mixed_points:
  "is_cards_three_of_kind (sort [PokerCard 1 5, PokerCard 2 7, PokerCard 3 9]) 7"
  by code_simp

text \<open>
  C38: \<open>is_groups_declare\<close> accepts a declaration exactly when every group is a straight or a set
  that its own rule accepts (or of an unknown type), at least two groups are straights and at
  least one of them is pure.
\<close>

theorem is_groups_declare_meaning:
  "is_groups_declare gs jp \<longleftrightarrow>
     (\<forall>g \<in> set gs. group_accepted jp g) \<and> 1 \<le> length (pure_straights gs) \<and> 2 \<le> length (straights gs)"
  by (rule is_groups_declare_iff)

theorem is_groups_declare_meaning_witness:
  "is_groups_declare [CardGroup 1 [PokerCard 1 2, PokerCard 1 3, PokerCard 1 4], CardGroup 1 [PokerCard 2 5, PokerCard 2 6, PokerCard 0 15]] 9"
  by (subst is_groups_declare_meaning) code_simp

text \<open>
  C39: When \<open>check_lose_declare\<close> accepts, every declared straight is a straight, sets count only
  next to a pure and a second straight, and the score is that of the cards declared invalid.
\<close>

theorem check_lose_declare_score:
  assumes "check_lose_declare gs jp = (True, score)"
  shows "(\<forall>g \<in> set (straights gs). is_cards_straight (sort (m_cards g)) jp) \<and>
    (\<forall>g \<in> set gs. lose_group_accepted jp (int (length (pure_straights gs))) (int (length (straights gs))) g) \<and>
    score = caculate_card_score (invalid_cards gs) jp"
  using assms lose_score_loop_ok [of jp "int (length (pure_straights gs))" "int (length (straights gs))" gs 0]
    lose_score_loop_score [of gs jp "int (length (pure_straights gs))" "int (length (straights gs))" 0]
  by (auto simp: check_lose_declare_def lose_count_loop_eq split: if_splits)

theorem check_lose_declare_score_witness:
  "lose_group_accepted 9 0 0 (CardGroup 0 [PokerCard 1 2, PokerCard 2 13]) \<and>
   caculate_card_score (invalid_cards [CardGroup 0 [PokerCard 1 2, PokerCard 2 13]]) 9 = 12"
proof -
  have "check_lose_declare [CardGroup 0 [PokerCard 1 2, PokerCard 2 13]] 9 = (True, 12)" by code_simp
  from check_lose_declare_score [OF this] show ?thesis by (simp add: straights_def pure_straights_def)
qed

section \<open>Selections and the deck\<close>

text \<open>
  \<open>caculate_all_choices\<close> enumerates the selections of \<open>n\<close> of the given elements: exactly the
  sub-sequences of length \<open>n\<close>, each position selection once.
\<close>

lemma all_choices_enumerated:
  "set (caculate_all_choices arr n []) = {ys. subseq ys arr \<and> length ys = n} \<and>
   length (caculate_all_choices arr n []) = length arr choose n"
  by (simp add: set_caculate_all_choices length_caculate_all_choices)

text \<open>
  C40: The dealer starts with the double deck of 108 cards: each of the 54 cards (four colours of the points 2 to ace, and two jokers without
  colour) twice and no other card. Dealing \<open>cnt\<close> cards, at most 108 as the code asserts, never faults, whatever \<open>rand()\<close> returns: \<open>cnt\<close> cards
  are handed out behind those there, none more often than the deck has it, and the deck stays complete. With more than 108 the assertion
  fails.
\<close>

theorem dealing_from_the_deck:
  "\<exists>d. init_cards rs = Some d \<and> card {c. deck_card c} = 54 \<and>
    (\<forall>c. count (mset (dl_all_card d)) c = (if deck_card c then 2 else 0)) \<and> mset (dl_cards d) = mset (dl_all_card d) \<and>
    (if cnt \<le> 108
     then \<exists>d' drawn. deal_card rs' d lst cnt = Some (d', lst @ drawn) \<and> length drawn = cnt \<and>
       mset drawn \<subseteq># mset (dl_all_card d) \<and> dl_all_card d' = dl_all_card d \<and> mset (dl_cards d') = mset (dl_all_card d)
     else deal_card rs' d lst cnt = None)"
proof -
  obtain d where d: "init_cards rs = Some d" "dealer_ok d" "dl_all_card d = double_deck" using init_cards_ok by blast
  have "\<exists>d' drawn. deal_card rs' d lst cnt = Some (d', lst @ drawn) \<and> length drawn = cnt \<and>
      mset drawn \<subseteq># mset (dl_all_card d) \<and> dl_all_card d' = dl_all_card d \<and> mset (dl_cards d') = mset (dl_all_card d)" if "cnt \<le> 108"
    using rand_deal_card_ok [OF d(2), of cnt rs' lst] that unfolding deal_card_def dealer_ok_def CARD_COUNT_def by metis
  moreover have "deal_card rs' d lst cnt = None" if "\<not> cnt \<le> 108"
    using that by (simp add: deal_card_def rand_deal_card_def CARD_COUNT_def)
  ultimately show ?thesis
    using d card_deck_cards count_double_deck unfolding dealer_ok_def by (intro exI [of _ d]) simp
qed

text \<open>
  Round trips of the card encodings: protocol message, 16-bit database value, text, and the
  list of card groups of a declaration.
\<close>

lemma card_round_trips:
  "parse_msg_card (to_msg_card c) = c \<and> parse_db_card (to_db_card c) = c \<and> parse_string (to_string c) d = c \<and>
   ParseMsgGroup [] (copy_group_to_msg gs []) = gs"
  by (simp add: parse_to_db_card parse_to_string ParseMsgGroup_copy)

end
